(* ===== verification/Prelude.thy ===== *)
theory Prelude
  imports Main "HOL-Library.Multiset" "HOL-Library.Word"
begin

text \<open>
  Shared vocabulary of the development: the exceptions the modelled Python code raises, results
  that are either an exception or a value, the integer helpers of
  \<^verbatim>\<open>src/vllm/vllm/utils/math_utils.py\<close>, and the generic facts about lists, options and counting
  that the component theories use.  The collections \<open>res_simps\<close> and \<open>arith_simps\<close> name the rewrite
  rules that the component proofs pass to the simplifier.
\<close>

named_theorems res_simps \<open>rewrite rules for results and exceptions\<close>
named_theorems arith_simps \<open>rewrite rules for the integer helpers\<close>

section \<open>Exceptions and results\<close>

text \<open>
  Two values are not Python exceptions: \<open>Diverges\<close> is the outcome of a loop that would not end, and
  \<open>Unmodelled\<close> that of a step which takes a count, kept as a natural number here, below zero.
\<close>

datatype py_exc =
    ValueError
  | RuntimeError
  | AssertionError
  | IndexError
  | KeyError
  | ZeroDivisionError
  | NotImplementedError
  | TypeError
  | AttributeError
  | StopIteration
  | OverflowError
  | Diverges
  | Unmodelled
  | VLLMValidationError string "string list"

type_synonym 'a res = "py_exc + 'a"

definition rbind :: "'a res \<Rightarrow> ('a \<Rightarrow> 'b res) \<Rightarrow> 'b res" where
  "rbind r f = (case r of Inl e \<Rightarrow> Inl e | Inr x \<Rightarrow> f x)"

definition py_assert :: "bool \<Rightarrow> 'a res \<Rightarrow> 'a res" where
  "py_assert b r = (if b then r else Inl AssertionError)"

lemma rbind_simps [simp, res_simps]:
  "rbind (Inl e) f = Inl e"
  "rbind (Inr x) f = f x"
  by (simp_all add: rbind_def)

lemma rbind_eq_Inr [res_simps]:
  "rbind r f = Inr y \<longleftrightarrow> (\<exists>x. r = Inr x \<and> f x = Inr y)"
  by (cases r) simp_all

lemma rbind_InrE:
  assumes "rbind r f = Inr y"
  obtains x where "r = Inr x" "f x = Inr y"
  using assms by (auto simp: rbind_eq_Inr)

lemma rbind_eq_Inl [res_simps]:
  "rbind r f = Inl e \<longleftrightarrow> r = Inl e \<or> (\<exists>x. r = Inr x \<and> f x = Inl e)"
  by (cases r) simp_all

lemma py_assert_simps [simp, res_simps]:
  "py_assert True r = r"
  "py_assert False r = Inl AssertionError"
  by (simp_all add: py_assert_def)

lemma py_assert_eq_Inr [res_simps]:
  "py_assert b r = Inr x \<longleftrightarrow> b \<and> r = Inr x"
  by (simp add: py_assert_def)

lemma py_assert_eq_Inl [res_simps]:
  "py_assert b r = Inl e \<longleftrightarrow> (\<not> b \<and> e = AssertionError) \<or> (b \<and> r = Inl e)"
  by (auto simp: py_assert_def)

text \<open>A call that returns.\<close>

definition returns :: "'a res \<Rightarrow> bool" where
  "returns r \<longleftrightarrow> (case r of Inl _ \<Rightarrow> False | Inr _ \<Rightarrow> True)"

lemma returns_simps [simp, res_simps]:
  "returns (Inr x)"
  "\<not> returns (Inl e)"
  by (simp_all add: returns_def)

lemma returnsE: "returns r \<Longrightarrow> (\<And>x. r = Inr x \<Longrightarrow> P) \<Longrightarrow> P"
  by (cases r) simp_all

lemma returns_rbind: "returns (rbind r f) \<longleftrightarrow> (\<exists>x. r = Inr x \<and> returns (f x))"
  by (cases r) simp_all

text \<open>\<^verbatim>\<open>xs[i]\<close> for an index that is not negative.\<close>

definition list_get :: "'a list \<Rightarrow> nat \<Rightarrow> 'a res" where
  "list_get xs i = (if i < length xs then Inr (xs ! i) else Inl IndexError)"

text \<open>The position a subscript \<^verbatim>\<open>xs[i]\<close> denotes in a list of \<open>n\<close> elements: negative ones count from the end.\<close>

definition py_index :: "nat \<Rightarrow> int \<Rightarrow> nat res" where
  "py_index n i =
     (let j = (if i < 0 then i + int n else i)
      in if 0 \<le> j \<and> j < int n then Inr (nat j) else Inl IndexError)"

text \<open>A list comprehension whose element expression may raise.\<close>

fun rmapM :: "('a \<Rightarrow> 'b res) \<Rightarrow> 'a list \<Rightarrow> 'b list res" where
  "rmapM f [] = Inr []"
| "rmapM f (x # xs) = rbind (f x) (\<lambda>y. rbind (rmapM f xs) (\<lambda>ys. Inr (y # ys)))"

lemma rmapM_Inr: "(\<And>x. x \<in> set xs \<Longrightarrow> f x = Inr (g x)) \<Longrightarrow> rmapM f xs = Inr (map g xs)"
  by (induction xs) simp_all

lemma rmapM_returns: "(\<And>x. x \<in> set xs \<Longrightarrow> returns (f x)) \<Longrightarrow> returns (rmapM f xs)"
proof (induction xs)
  case (Cons a xs)
  then have "returns (f a)" "returns (rmapM f xs)" by simp_all
  then show ?case by (cases "f a"; cases "rmapM f xs") simp_all
qed simp

lemma rmapM_eq_Inr_nth:
  "rmapM f xs = Inr ys \<Longrightarrow> i < length xs \<Longrightarrow> f (xs ! i) = Inr (ys ! i)"
  by (induction xs arbitrary: ys i) (auto simp: res_simps nth_Cons split: nat.splits)

lemma rmapM_eq_Inr_length: "rmapM f xs = Inr ys \<Longrightarrow> length ys = length xs"
  by (induction xs arbitrary: ys) (auto simp: res_simps)

section \<open>Decimal numerals\<close>

text \<open>What \<^verbatim>\<open>str\<close> prints for an integer, and the value of a string of ASCII digits.\<close>

definition digit_char :: "nat \<Rightarrow> char" where
  "digit_char d = char_of (48 + d)"

definition is_digit :: "char \<Rightarrow> bool" where
  "is_digit c \<longleftrightarrow> 48 \<le> (of_char c :: nat) \<and> (of_char c :: nat) \<le> 57"

fun nat_str :: "nat \<Rightarrow> string" where
  "nat_str n = (if n < 10 then [digit_char n] else nat_str (n div 10) @ [digit_char (n mod 10)])"

definition int_str :: "int \<Rightarrow> string" where
  "int_str i = (if i < 0 then CHR ''-'' # nat_str (nat (- i)) else nat_str (nat i))"

definition digits_val :: "string \<Rightarrow> nat" where
  "digits_val ds = foldl (\<lambda>a c. 10 * a + (of_char c - 48)) 0 ds"

declare nat_str.simps [simp del]

lemma of_char_digit_char [simp]: "d < 10 \<Longrightarrow> (of_char (digit_char d) :: nat) = 48 + d"
  by (simp add: digit_char_def)

lemma is_digit_digit_char [simp]: "d < 10 \<Longrightarrow> is_digit (digit_char d)"
  by (simp add: is_digit_def)

lemma nat_str_digits: "list_all is_digit (nat_str n)"
  by (induction n rule: nat_str.induct) (subst nat_str.simps, simp)

lemma nat_str_nonempty [simp]: "nat_str n \<noteq> []"
  by (subst nat_str.simps) simp

lemma digits_val_snoc: "digits_val (ds @ [c]) = 10 * digits_val ds + (of_char c - 48)"
  by (simp add: digits_val_def)

lemma digits_val_nat_str [simp]: "digits_val (nat_str n) = n"
proof (induction n rule: nat_str.induct)
  case (1 n)
  show ?case
  proof (cases "n < 10")
    case True
    then have "digits_val (nat_str n) = digits_val [digit_char n]" by (subst nat_str.simps) simp
    then show ?thesis using True by (simp add: digits_val_def)
  next
    case False
    then have "digits_val (nat_str n) = 10 * digits_val (nat_str (n div 10)) + n mod 10"
      by (subst nat_str.simps) (simp add: digits_val_snoc)
    then show ?thesis using 1[OF False] by simp
  qed
qed

section \<open>Byte strings\<close>

type_synonym byte = "8 word"
type_synonym bytes = "byte list"

section \<open>Integer helpers\<close>

text \<open>Ceiling division, written as the source writes it: \<open>-(a // -b)\<close>.\<close>

definition cdiv :: "nat \<Rightarrow> nat \<Rightarrow> nat" where
  "cdiv a b = nat (- (int a div (- int b)))"

lemma cdiv_alt [arith_simps]: "0 < b \<Longrightarrow> cdiv a b = (a + b - 1) div b"
proof -
  assume b: "0 < b"
  define k r where "k = a div b" and "r = a mod b"
  have a: "a = k * b + r" and r: "r < b"
    using b by (simp_all add: k_def r_def)
  have "int a div int b = int k" and "int a mod int b = int r"
    by (simp_all add: k_def r_def zdiv_int zmod_int)
  then have "- (int a div (- int b)) = int k + (if r = 0 then 0 else 1)"
    using b unfolding div_minus_right by (simp add: zdiv_zminus1_eq_if)
  moreover have "(a + b - 1) div b = k + (if r = 0 then 0 else 1)"
  proof (cases "r = 0")
    case True
    then have "a + b - 1 = (b - 1) + k * b" using a b by simp
    moreover have "((b - 1) + k * b) div b = k"
      using b by (subst div_mult_self1) simp_all
    ultimately show ?thesis using True by simp
  next
    case False
    then have "a + b - 1 = (r - 1) + (k + 1) * b" using a b by simp
    moreover have "((r - 1) + (k + 1) * b) div b = k + 1"
      using b r by (subst div_mult_self1) simp_all
    ultimately show ?thesis using False by simp
  qed
  ultimately show ?thesis by (simp add: cdiv_def split: if_splits)
qed

text \<open>A division whose divisor may be zero.\<close>

definition rcdiv :: "nat \<Rightarrow> nat \<Rightarrow> nat res" where
  "rcdiv a b = (if b = 0 then Inl ZeroDivisionError else Inr (cdiv a b))"

definition rdiv :: "nat \<Rightarrow> nat \<Rightarrow> nat res" where
  "rdiv a b = (if b = 0 then Inl ZeroDivisionError else Inr (a div b))"

definition round_up :: "nat \<Rightarrow> nat \<Rightarrow> nat" where
  "round_up x y = ((x + y - 1) div y) * y"

lemma cdiv_0 [simp]: "cdiv 0 b = 0"
  by (simp add: cdiv_def)

lemma cdiv_le_iff: "0 < b \<Longrightarrow> cdiv a b \<le> k \<longleftrightarrow> a \<le> k * b"
proof -
  assume b: "0 < b"
  have "(a + b - 1) div b \<le> k \<longleftrightarrow> a + b - 1 < (k + 1) * b"
    using b by (simp add: div_less_iff_less_mult flip: less_Suc_eq_le)
  also have "\<dots> \<longleftrightarrow> a \<le> k * b" using b by auto
  finally show ?thesis using b by (simp add: cdiv_alt)
qed

lemma le_cdiv_mult: "0 < b \<Longrightarrow> a \<le> cdiv a b * b"
  using cdiv_le_iff[of b a "cdiv a b"] by simp

lemma cdiv_mono: "0 < b \<Longrightarrow> a \<le> a' \<Longrightarrow> cdiv a b \<le> cdiv a' b"
  by (simp add: cdiv_alt div_le_mono)

lemma cdiv_mult [simp]: "0 < b \<Longrightarrow> cdiv (k * b) b = k"
proof (rule antisym)
  assume b: "0 < b"
  then show "cdiv (k * b) b \<le> k" by (simp add: cdiv_le_iff)
  show "k \<le> cdiv (k * b) b" using le_cdiv_mult[OF b, of "k * b"] b by simp
qed

lemma div_le_cdiv: "0 < b \<Longrightarrow> a div b \<le> cdiv a b"
  by (simp add: cdiv_alt div_le_mono)

section \<open>Dictionaries in insertion order\<close>

text \<open>
  A Python dictionary whose order or emptiness the code looks at is an association list with distinct
  keys; \<open>map_of\<close> is its lookup.
\<close>

definition dict_set :: "'k \<Rightarrow> 'v \<Rightarrow> ('k \<times> 'v) list \<Rightarrow> ('k \<times> 'v) list" where
  "dict_set k v d =
     (if k \<in> fst ` set d then map (\<lambda>(k', v'). if k' = k then (k, v) else (k', v')) d else d @ [(k, v)])"

definition dict_del :: "'k \<Rightarrow> ('k \<times> 'v) list \<Rightarrow> ('k \<times> 'v) list" where
  "dict_del k d = filter (\<lambda>(k', _). k' \<noteq> k) d"

lemma map_of_dict_set [simp]: "map_of (dict_set k v d) = (map_of d)(k \<mapsto> v)"
proof (cases "k \<in> fst ` set d")
  case True
  have "map_of (map (\<lambda>(k', v'). if k' = k then (k, v) else (k', v')) d) x =
      (if x = k \<and> k \<in> fst ` set d then Some v else map_of d x)" for x
  proof (induction d)
    case (Cons e d)
    then show ?case by (cases e, cases "x = k") simp_all
  qed simp
  then show ?thesis using True by (auto simp: dict_set_def)
next
  case False
  then have "map_of d k = None" by (simp add: map_of_eq_None_iff)
  then show ?thesis using False by (auto simp: dict_set_def map_add_def split: option.splits)
qed

lemma map_of_dict_del [simp]: "map_of (dict_del k d) = (map_of d)(k := None)"
proof
  show "map_of (dict_del k d) x = ((map_of d)(k := None)) x" for x
    by (induction d) (auto simp: dict_del_def)
qed

lemma keys_dict_set: "map fst (dict_set k v d) = (if k \<in> set (map fst d) then map fst d else map fst d @ [k])"
  by (auto simp: dict_set_def)

lemma distinct_dict_set: "distinct (map fst d) \<Longrightarrow> distinct (map fst (dict_set k v d))"
  unfolding keys_dict_set by simp

lemma distinct_dict_del: "distinct (map fst d) \<Longrightarrow> distinct (map fst (dict_del k d))"
  by (induction d) (auto simp: dict_del_def)

section \<open>Lists\<close>

lemma in_set_tlD: "x \<in> set (tl xs) \<Longrightarrow> x \<in> set xs"
  by (cases xs) auto

lemma snoc_cases: "\<exists>ys y. x # xs = ys @ [y]"
  by (rule exI[of _ "butlast (x # xs)"], rule exI[of _ "last (x # xs)"]) simp

lemma count_list_distinct: "distinct xs \<Longrightarrow> count_list xs x = (if x \<in> set xs then 1 else 0)"
  by (induction xs) auto

end
