(* ===== verification/Free_Block_Queue.thy ===== *)
theory Free_Block_Queue
  imports Prelude
begin

text \<open>
  \<^verbatim>\<open>KVCacheBlock\<close> and \<^verbatim>\<open>FreeKVCacheBlockQueue\<close> of
  \<^verbatim>\<open>src/vllm/vllm/v1/core/kv_cache_utils.py\<close>.  The block objects live in a store from references to
  records; the free list is the doubly linked list the source threads through
  \<^verbatim>\<open>prev_free_block\<close> and \<^verbatim>\<open>next_free_block\<close>, with the two fake blocks as its ends.
  The second half relates that pointer structure to the plain list of the free blocks
  (\<open>queue_rep\<close>) and states the queue's contract as the locale \<open>free_block_queue\<close>.
\<close>

section \<open>Blocks and the block store\<close>

text \<open>A reference to a block object: the fake head, the fake tail, or the block with an id.\<close>

datatype bref = Head | Tail | Blk nat

record kv_cache_block =
  block_id :: int
  ref_cnt :: int
  block_hash :: "bytes option"
  prev_free_block :: "bref option"
  next_free_block :: "bref option"
  is_null :: bool

type_synonym block_store = "bref \<Rightarrow> kv_cache_block"

text \<open>\<^verbatim>\<open>KVCacheBlock(block_id)\<close> with the defaults of the dataclass.\<close>

definition new_kv_cache_block :: "int \<Rightarrow> kv_cache_block" where
  "new_kv_cache_block i =
     \<lparr>block_id = i, ref_cnt = 0, block_hash = None, prev_free_block = None,
      next_free_block = None, is_null = False\<rparr>"

text \<open>The setter of \<^verbatim>\<open>block_hash\<close> refuses to overwrite a hash; \<^verbatim>\<open>reset_hash\<close> clears it.\<close>

definition set_block_hash :: "bref \<Rightarrow> bytes \<Rightarrow> block_store \<Rightarrow> block_store res" where
  "set_block_hash b k h =
     py_assert (block_hash (h b) = None) (Inr (h(b := (h b)\<lparr>block_hash := Some k\<rparr>)))"

definition reset_hash :: "bref \<Rightarrow> block_store \<Rightarrow> block_store" where
  "reset_hash b h = h(b := (h b)\<lparr>block_hash := None\<rparr>)"

definition set_prev :: "bref \<Rightarrow> bref option \<Rightarrow> block_store \<Rightarrow> block_store" where
  "set_prev b p h = h(b := (h b)\<lparr>prev_free_block := p\<rparr>)"

definition set_next :: "bref \<Rightarrow> bref option \<Rightarrow> block_store \<Rightarrow> block_store" where
  "set_next b n h = h(b := (h b)\<lparr>next_free_block := n\<rparr>)"

definition unlink :: "bref \<Rightarrow> block_store \<Rightarrow> block_store" where
  "unlink b h = set_next b None (set_prev b None h)"

section \<open>The free block queue\<close>

record free_queue =
  heap :: block_store
  num_free_blocks :: int

text \<open>
  \<^verbatim>\<open>FreeKVCacheBlockQueue.__init__\<close> on the blocks \<open>0 \<dots> n - 1\<close>: the loop over the consecutive
  blocks, then the fake ends.
\<close>

definition link_step :: "nat \<Rightarrow> nat \<Rightarrow> block_store \<Rightarrow> block_store" where
  "link_step n i h =
     (let h1 = (if i > 0 then set_prev (Blk i) (Some (Blk (i - 1))) h else h)
      in if Suc i < n then set_next (Blk i) (Some (Blk (Suc i))) h1 else h1)"

definition init_free_queue :: "nat \<Rightarrow> block_store \<Rightarrow> block_store \<times> int" where
  "init_free_queue n h =
     (let h1 = fold (link_step n) [0..<n] h;
          h2 = h1(Head := new_kv_cache_block (-1), Tail := new_kv_cache_block (-1))
      in (if n > 0
          then set_next (Blk (n - 1)) (Some Tail)
                 (set_prev Tail (Some (Blk (n - 1)))
                   (set_prev (Blk 0) (Some Head)
                     (set_next Head (Some (Blk 0)) h2)))
          else set_prev Tail (Some Head) (set_next Head (Some Tail) h2), int n))"

definition popleft ::
  "'a free_queue_scheme \<Rightarrow> (bref \<times> 'a free_queue_scheme) res" where
  "popleft q =
     (case next_free_block (heap q Head) of
        None \<Rightarrow> py_assert (num_free_blocks q = 0) (Inl ValueError)
      | Some first \<Rightarrow>
          if first = Tail then py_assert (num_free_blocks q = 0) (Inl ValueError)
          else (case next_free_block (heap q first) of
                  None \<Rightarrow> Inl RuntimeError
                | Some nx \<Rightarrow>
                    Inr (first,
                      q\<lparr>heap := unlink first
                            (set_prev nx (Some Head) (set_next Head (Some nx) (heap q))),
                        num_free_blocks := num_free_blocks q - 1\<rparr>)))"

fun popleft_loop ::
  "nat \<Rightarrow> bref option \<Rightarrow> block_store \<Rightarrow> (bref list \<times> bref option \<times> block_store) res" where
  "popleft_loop 0 cur0 h = Inr ([], cur0, h)"
| "popleft_loop (Suc n) cur0 h =
     (case cur0 of
        None \<Rightarrow> Inl AssertionError
      | Some c \<Rightarrow>
          rbind (popleft_loop n (next_free_block (h c)) (unlink c h))
            (\<lambda>(bs, cur, h'). Inr (c # bs, cur, h')))"

definition popleft_n ::
  "int \<Rightarrow> 'a free_queue_scheme \<Rightarrow> (bref list \<times> 'a free_queue_scheme) res" where
  "popleft_n n q =
     (if n = 0 then Inr ([], q)
      else py_assert (num_free_blocks q \<ge> n)
        (rbind (popleft_loop (nat n) (next_free_block (heap q Head)) (heap q))
          (\<lambda>(bs, cur, h).
             Inr (bs, q\<lparr>heap := (case cur of
                               None \<Rightarrow> h
                             | Some c \<Rightarrow> set_prev c (Some Head) (set_next Head (Some c) h)),
                        num_free_blocks := num_free_blocks q - n\<rparr>))))"

definition remove_block :: "bref \<Rightarrow> 'a free_queue_scheme \<Rightarrow> 'a free_queue_scheme res" where
  "remove_block b q =
     (case (prev_free_block (heap q b), next_free_block (heap q b)) of
        (Some p, Some n) \<Rightarrow>
          Inr (q\<lparr>heap := unlink b (set_prev n (Some p) (set_next p (Some n) (heap q))),
                 num_free_blocks := num_free_blocks q - 1\<rparr>)
      | _ \<Rightarrow> Inl RuntimeError)"

definition append_block :: "bref \<Rightarrow> 'a free_queue_scheme \<Rightarrow> 'a free_queue_scheme res" where
  "append_block b q =
     (case prev_free_block (heap q Tail) of
        None \<Rightarrow> Inl RuntimeError
      | Some lst \<Rightarrow>
          Inr (q\<lparr>heap := set_prev Tail (Some b) (set_next b (Some Tail)
                          (set_prev b (Some lst) (set_next lst (Some b) (heap q)))),
                 num_free_blocks := num_free_blocks q + 1\<rparr>))"

text \<open>The loop shared by \<^verbatim>\<open>prepend_n\<close> and \<^verbatim>\<open>append_n\<close>: chain the blocks behind \<open>p\<close>.\<close>

fun chain :: "bref \<Rightarrow> bref list \<Rightarrow> block_store \<Rightarrow> bref \<times> block_store" where
  "chain p [] h = (p, h)"
| "chain p (b # bs) h = chain b bs (set_next p (Some b) (set_prev b (Some p) h))"

definition prepend_n :: "bref list \<Rightarrow> 'a free_queue_scheme \<Rightarrow> 'a free_queue_scheme res" where
  "prepend_n bs q =
     (if bs = [] then Inr q
      else (case next_free_block (heap q Head) of
              None \<Rightarrow> Inl AssertionError
            | Some first \<Rightarrow>
                (let (p, h) = chain Head bs (heap q)
                 in Inr (q\<lparr>heap := set_prev first (Some p) (set_next p (Some first) h),
                           num_free_blocks := num_free_blocks q + int (length bs)\<rparr>))))"

definition append_n :: "bref list \<Rightarrow> 'a free_queue_scheme \<Rightarrow> 'a free_queue_scheme res" where
  "append_n bs q =
     (if bs = [] then Inr q
      else (case prev_free_block (heap q Tail) of
              None \<Rightarrow> Inl AssertionError
            | Some lst \<Rightarrow>
                (let (p, h) = chain lst bs (heap q)
                 in Inr (q\<lparr>heap := set_prev Tail (Some p) (set_next p (Some Tail) h),
                           num_free_blocks := num_free_blocks q + int (length bs)\<rparr>))))"

text \<open>
  \<^verbatim>\<open>get_all_free_blocks\<close> walks until a block has no successor.  On a damaged list the walk need
  not end, so the loop is a partial function: \<open>None\<close> is "does not return".
\<close>

partial_function (option) free_blocks_from ::
  "block_store \<Rightarrow> bref \<Rightarrow> bref list \<Rightarrow> bref list option" where
  "free_blocks_from h c acc =
     (case next_free_block (h c) of
        None \<Rightarrow> Some (rev acc)
      | Some n \<Rightarrow> free_blocks_from h n (c # acc))"

definition get_all_free_blocks :: "'a free_queue_scheme \<Rightarrow> bref list option res" where
  "get_all_free_blocks q =
     (case next_free_block (heap q Head) of
        None \<Rightarrow> Inl RuntimeError
      | Some c \<Rightarrow> Inr (free_blocks_from (heap q) c []))"

section \<open>Pointer structure and free list\<close>

named_theorems store_simps \<open>reading a store after a pointer update\<close>

lemma set_prev_apply [store_simps]:
  "set_prev b p h c = (if c = b then (h b)\<lparr>prev_free_block := p\<rparr> else h c)"
  by (simp add: set_prev_def)

lemma set_next_apply [store_simps]:
  "set_next b p h c = (if c = b then (h b)\<lparr>next_free_block := p\<rparr> else h c)"
  by (simp add: set_next_def)

lemma unlink_apply [store_simps]:
  "unlink b h c =
     (if c = b then (h b)\<lparr>prev_free_block := None, next_free_block := None\<rparr> else h c)"
  by (simp add: unlink_def store_simps)

text \<open>\<open>links h L\<close>: consecutive members of \<open>L\<close> point at each other.\<close>

fun links :: "block_store \<Rightarrow> bref list \<Rightarrow> bool" where
  "links h (a # b # L) \<longleftrightarrow>
     next_free_block (h a) = Some b \<and> prev_free_block (h b) = Some a \<and> links h (b # L)"
| "links h _ \<longleftrightarrow> True"

lemma links_append:
  "links h (xs @ a # ys) \<longleftrightarrow> links h (xs @ [a]) \<and> links h (a # ys)"
  by (induction h xs rule: links.induct) (auto simp: neq_Nil_conv)

lemma links_suffix: "links h (us @ L) \<Longrightarrow> links h L"
proof (induction us)
  case (Cons u us)
  then show ?case by (cases "us @ L") auto
qed simp

lemma links_split:
  "links h (xs @ a # b # ys) \<longleftrightarrow>
     links h (xs @ [a]) \<and> next_free_block (h a) = Some b \<and> prev_free_block (h b) = Some a \<and>
     links h (b # ys)"
  using links_append[of h xs a "b # ys"] by simp

lemma links_cong:
  assumes "\<And>r. r \<in> set (butlast L) \<Longrightarrow> next_free_block (h' r) = next_free_block (h r)"
    and "\<And>r. r \<in> set (tl L) \<Longrightarrow> prev_free_block (h' r) = prev_free_block (h r)"
  shows "links h' L = links h L"
  using assms
proof (induction h L rule: links.induct)
  case (1 h a b L)
  have "links h' (b # L) = links h (b # L)"
  proof (rule 1(1))
    fix r assume "r \<in> set (butlast (b # L))"
    then show "next_free_block (h' r) = next_free_block (h r)"
      using "1.prems"(1) by simp
  next
    fix r assume "r \<in> set (tl (b # L))"
    then show "prev_free_block (h' r) = prev_free_block (h r)"
      using "1.prems"(2) by simp
  qed
  then show ?case
    using "1.prems"(1)[of a] "1.prems"(2)[of b] by simp
qed simp_all

lemma links_set_next: "a \<notin> set (butlast L) \<Longrightarrow> links (set_next a v h) L = links h L"
  by (rule links_cong) (auto simp: store_simps)

lemma links_set_prev: "a \<notin> set (tl L) \<Longrightarrow> links (set_prev a v h) L = links h L"
  by (rule links_cong) (auto simp: store_simps)

lemma links_unlink: "a \<notin> set L \<Longrightarrow> links (unlink a h) L = links h L"
  by (rule links_cong) (auto simp: store_simps dest: in_set_butlastD in_set_tlD)

text \<open>
  \<open>queue_rep q xs\<close>: the pointers of \<open>q\<close> describe the free list \<open>xs\<close>, the counter agrees with
  it, and no block outside the list carries a pointer.
\<close>

definition queue_rep :: "'a free_queue_scheme \<Rightarrow> bref list \<Rightarrow> bool" where
  "queue_rep q xs \<longleftrightarrow>
     links (heap q) (Head # xs @ [Tail]) \<and> distinct (Head # xs @ [Tail]) \<and>
     num_free_blocks q = int (length xs) \<and>
     prev_free_block (heap q Head) = None \<and> next_free_block (heap q Tail) = None \<and>
     (\<forall>r. r \<notin> set (Head # xs @ [Tail]) \<longrightarrow>
        prev_free_block (heap q r) = None \<and> next_free_block (heap q r) = None)"

text \<open>What the queue operations leave alone: everything but the links and the counter.\<close>

definition payload :: "kv_cache_block \<Rightarrow> kv_cache_block" where
  "payload b = b\<lparr>prev_free_block := None, next_free_block := None\<rparr>"

definition same_blocks :: "'a free_queue_scheme \<Rightarrow> 'a free_queue_scheme \<Rightarrow> bool" where
  "same_blocks q q' \<longleftrightarrow>
     (\<forall>r. payload (heap q' r) = payload (heap q r)) \<and> free_queue.more q' = free_queue.more q"

lemma payload_updates [simp]:
  "payload (b\<lparr>prev_free_block := p\<rparr>) = payload b"
  "payload (b\<lparr>next_free_block := p\<rparr>) = payload b"
  by (simp_all add: payload_def)

lemma payload_set [simp]:
  "payload (set_prev b p h r) = payload (h r)"
  "payload (set_next b p h r) = payload (h r)"
  "payload (unlink b h r) = payload (h r)"
  by (simp_all add: store_simps)

lemma same_blocks_refl [simp]: "same_blocks q q"
  by (simp add: same_blocks_def)

lemma same_blocks_trans: "same_blocks q q' \<Longrightarrow> same_blocks q' q'' \<Longrightarrow> same_blocks q q''"
  by (simp add: same_blocks_def)

lemma payload_fields:
  "payload b = payload c \<longleftrightarrow>
     block_id b = block_id c \<and> ref_cnt b = ref_cnt c \<and> block_hash b = block_hash c \<and>
     is_null b = is_null c"
  by (cases b, cases c) (auto simp: payload_def)

section \<open>The operations on the free list\<close>

lemma links_splice_out:
  assumes "links h (ps @ p # x # n # ns)" and "distinct (ps @ p # x # n # ns)"
  shows "links (unlink x (set_prev n (Some p) (set_next p (Some n) h))) (ps @ p # n # ns)"
proof -
  let ?h = "unlink x (set_prev n (Some p) (set_next p (Some n) h))"
  have old: "links h (ps @ [p])" "links h (n # ns)"
    using assms(1) by (cases ns; simp add: links_split)+
  have "links ?h (ps @ [p]) = links h (ps @ [p])" "links ?h (n # ns) = links h (n # ns)"
    by (rule links_cong; use assms(2) in \<open>auto simp: store_simps dest: in_set_tlD in_set_butlastD split: if_splits\<close>)+
  moreover have "next_free_block (?h p) = Some n" "prev_free_block (?h n) = Some p"
    using assms(2) by (auto simp: store_simps)
  ultimately show ?thesis
    using old by (simp add: links_split)
qed

lemma remove_block_rep:
  assumes "queue_rep q (ys @ x # zs)"
  shows "\<exists>q'. remove_block x q = Inr q' \<and> queue_rep q' (ys @ zs) \<and> same_blocks q q'"
proof -
  obtain ps p where p: "Head # ys = ps @ [p]" using snoc_cases[of Head ys] by blast
  obtain n ns where n: "zs @ [Tail] = n # ns" by (cases zs) auto
  have "Head # (ys @ x # zs) @ [Tail] = (Head # ys) @ x # (zs @ [Tail])"
    and "Head # (ys @ zs) @ [Tail] = (Head # ys) @ (zs @ [Tail])" by simp_all
  then have L: "Head # (ys @ x # zs) @ [Tail] = ps @ p # x # n # ns"
    and L': "Head # (ys @ zs) @ [Tail] = ps @ p # n # ns"
    unfolding p n by simp_all
  have rep: "links (heap q) (ps @ p # x # n # ns)" "distinct (ps @ p # x # n # ns)"
    using assms unfolding queue_rep_def L by simp_all
  let ?h = "unlink x (set_prev n (Some p) (set_next p (Some n) (heap q)))"
  let ?q = "q\<lparr>heap := ?h, num_free_blocks := num_free_blocks q - 1\<rparr>"
  have "prev_free_block (heap q x) = Some p" "next_free_block (heap q x) = Some n"
    using rep(1) by (simp_all add: links_split)
  then have "remove_block x q = Inr ?q"
    by (simp add: remove_block_def)
  moreover have "same_blocks q ?q"
    by (simp add: same_blocks_def)
  moreover have "queue_rep ?q (ys @ zs)"
  proof -
    have "links ?h (ps @ p # n # ns)"
      using rep by (rule links_splice_out)
    moreover have "Head \<in> set (ps @ [p])" "Tail \<in> set (n # ns)"
      by (simp_all flip: p n)
    then have ne: "Head \<noteq> n" "Tail \<noteq> p" "x \<noteq> Head" "x \<noteq> Tail"
      using rep(2) by auto
    moreover have "prev_free_block (?h r) = None \<and> next_free_block (?h r) = None"
      if "r \<notin> set (ps @ p # n # ns)" for r
    proof (cases "r = x")
      case False
      then have "?h r = heap q r" "r \<notin> set (ps @ p # x # n # ns)"
        using that by (auto simp: store_simps)
      then show ?thesis
        using assms unfolding queue_rep_def L by simp
    qed (simp add: store_simps)
    ultimately show ?thesis
      using assms rep(2) ne unfolding queue_rep_def L L' by (simp add: store_simps)
  qed
  ultimately show ?thesis by blast
qed

lemma queue_rep_ends:
  assumes "queue_rep q xs"
  shows "next_free_block (heap q Head) = Some (hd (xs @ [Tail]))"
    and "prev_free_block (heap q Tail) = Some (last (Head # xs))"
proof -
  show "next_free_block (heap q Head) = Some (hd (xs @ [Tail]))"
    using assms by (cases xs) (auto simp: queue_rep_def)
  obtain ps p where p: "Head # xs = ps @ [p]" using snoc_cases[of Head xs] by blast
  have "links (heap q) ((Head # xs) @ [Tail])"
    using assms by (simp add: queue_rep_def)
  then have "links (heap q) (ps @ p # Tail # [])"
    unfolding p by simp
  then have "prev_free_block (heap q Tail) = Some p"
    unfolding links_split by blast
  then show "prev_free_block (heap q Tail) = Some (last (Head # xs))"
    unfolding p by simp
qed

lemma popleft_rep:
  assumes "queue_rep q (x # xs)"
  shows "\<exists>q'. popleft q = Inr (x, q') \<and> queue_rep q' xs \<and> same_blocks q q'"
proof -
  from assms have "remove_block x q = rbind (popleft q) (\<lambda>(b, q'). py_assert (b = x) (Inr q'))"
    "\<exists>q'. popleft q = Inr (x, q')"
    by (cases xs; simp add: queue_rep_def popleft_def remove_block_def)+
  then show ?thesis
    using remove_block_rep[of q "[]" x xs] assms by auto
qed

lemma popleft_empty: "queue_rep q [] \<Longrightarrow> popleft q = Inl ValueError"
  by (simp add: queue_rep_def popleft_def)

lemma remove_block_absent:
  assumes "queue_rep q xs" and "b \<notin> set xs"
  shows "remove_block b q = Inl RuntimeError"
proof (cases "b = Head \<or> b = Tail")
  case True
  then show ?thesis using assms by (auto simp: queue_rep_def remove_block_def split: option.splits)
next
  case False
  then have "prev_free_block (heap q b) = None"
    using assms by (auto simp: queue_rep_def)
  then show ?thesis by (simp add: remove_block_def)
qed

lemma chain_spec:
  assumes "distinct (p # bs)" and "chain p bs h = (p', h')"
  shows "p' = last (p # bs)" and "links h' (p # bs)"
    and "r \<notin> set (p # bs) \<Longrightarrow> h' r = h r"
    and "prev_free_block (h' p) = prev_free_block (h p)"
    and "payload (h' c) = payload (h c)"
proof -
  have "p' = last (p # bs) \<and> links h' (p # bs) \<and> (\<forall>r. r \<notin> set (p # bs) \<longrightarrow> h' r = h r) \<and>
      prev_free_block (h' p) = prev_free_block (h p) \<and> (\<forall>c. payload (h' c) = payload (h c)) \<and>
      (bs \<noteq> [] \<longrightarrow> next_free_block (h' p) = Some (hd bs))"
    using assms
  proof (induction bs arbitrary: p h)
    case (Cons b bs)
    let ?h = "set_next p (Some b) (set_prev b (Some p) h)"
    have "chain b bs ?h = (p', h')" "distinct (b # bs)"
      using Cons.prems by auto
    note IH = Cons.IH[OF this(2,1)]
    have "h' p = ?h p" using IH Cons.prems(1) by auto
    then show ?case using IH Cons.prems(1) by (auto simp: store_simps)
  qed auto
  then show "p' = last (p # bs)" "links h' (p # bs)" "r \<notin> set (p # bs) \<Longrightarrow> h' r = h r"
    "prev_free_block (h' p) = prev_free_block (h p)" "payload (h' c) = payload (h c)"
    by auto
qed

lemma links_splice_in:
  assumes "links h (ps @ p # n # ns)" and "distinct (ps @ p # bs @ n # ns)"
    and "chain p bs h = (p', h')"
  shows "links (set_prev n (Some p') (set_next p' (Some n) h')) (ps @ p # bs @ n # ns)"
    (is "links ?h _")
proof -
  have dist: "distinct (p # bs)" using assms(2) by simp
  note ch = chain_spec[OF dist assms(3)]
  obtain cs c where cs: "p # bs = cs @ [c]" using snoc_cases[of p bs] by blast
  have c: "p' = c" using ch(1) cs by simp
  have dist': "distinct (ps @ (cs @ [c]) @ n # ns)" using assms(2) by (simp flip: cs)
  have p: "p \<in> set (cs @ [c])" by (simp flip: cs)
  have old: "links h (ps @ [p])" "links h (n # ns)"
    using assms(1) by (simp_all add: links_split)
  have out: "h' r = h r" if "r \<in> set ps \<union> set (n # ns)" for r
    using that assms(2) by (intro ch(3)) auto
  have "links ?h (ps @ [p]) = links h (ps @ [p])"
  proof (rule links_cong)
    fix r assume "r \<in> set (butlast (ps @ [p]))"
    then have "r \<in> set ps" by simp
    then show "next_free_block (?h r) = next_free_block (h r)"
      using dist' out[of r] by (auto simp: store_simps c)
  next
    fix r assume "r \<in> set (tl (ps @ [p]))"
    then have "r \<in> set ps \<or> r = p" by (auto dest: in_set_tlD)
    moreover have "r \<noteq> n" using calculation assms(2) by auto
    ultimately show "prev_free_block (?h r) = prev_free_block (h r)"
      using out[of r] ch(4) by (auto simp: store_simps)
  qed
  moreover have "links ?h (cs @ [c]) = links h' (cs @ [c])"
    by (rule links_cong; use dist' in \<open>auto simp: store_simps c dest: in_set_tlD\<close>)
  moreover have "links ?h (n # ns) = links h (n # ns)"
  proof (rule links_cong)
    fix r assume "r \<in> set (butlast (n # ns))"
    then have r: "r \<in> set (n # ns)" by (rule in_set_butlastD)
    then have "r \<noteq> c" using dist' by auto
    then show "next_free_block (?h r) = next_free_block (h r)"
      using out[of r] r by (auto simp: store_simps c)
  next
    fix r assume r: "r \<in> set (tl (n # ns))"
    then have "r \<noteq> c" "r \<noteq> n" using dist' by auto
    then show "prev_free_block (?h r) = prev_free_block (h r)"
      using out[of r] r by (auto simp: store_simps c)
  qed
  moreover have "next_free_block (?h c) = Some n" "prev_free_block (?h n) = Some c"
    using dist' by (auto simp: store_simps c)
  moreover have "links h' (cs @ [c])" using ch(2) cs by simp
  moreover have "links ?h ((ps @ cs) @ [c])" if "links ?h (ps @ [p])" "links ?h (cs @ [c])"
  proof -
    have "links ?h (ps @ p # bs)"
      using that cs by (subst links_append) simp
    then show ?thesis using cs by simp
  qed
  ultimately have "links ?h ((ps @ cs) @ c # n # ns)"
    unfolding links_split using old by simp
  moreover have "ps @ p # bs @ n # ns = (ps @ cs) @ c # n # ns"
  proof -
    have "ps @ p # bs @ n # ns = ps @ (p # bs) @ n # ns" by simp
    then show ?thesis unfolding cs by simp
  qed
  ultimately show ?thesis by (simp only:)
qed

text \<open>Both bulk insertions are one insertion of a chain between two neighbours.\<close>

lemma splice_in_rep:
  assumes rep: "queue_rep q (xs @ ys)" and new: "distinct bs" "set bs \<inter> set (xs @ ys) = {}"
    "Head \<notin> set bs" "Tail \<notin> set bs"
    and p: "p = last (Head # xs)" and n: "n = hd (ys @ [Tail])"
    and ch: "chain p bs (heap q) = (p', h')"
  shows "queue_rep (q\<lparr>heap := set_prev n (Some p') (set_next p' (Some n) h'),
      num_free_blocks := num_free_blocks q + int (length bs)\<rparr>) (xs @ bs @ ys)"
    and "same_blocks q (q\<lparr>heap := set_prev n (Some p') (set_next p' (Some n) h'),
      num_free_blocks := num_free_blocks q + int (length bs)\<rparr>)"
proof -
  obtain ps p0 where "Head # xs = ps @ [p0]" using snoc_cases[of Head xs] by blast
  with p have ps: "Head # xs = ps @ [p]" by simp
  obtain n0 ns where "ys @ [Tail] = n0 # ns" by (cases ys) auto
  with n have ns: "ys @ [Tail] = n # ns" by simp
  have "Head # (xs @ ys) @ [Tail] = (Head # xs) @ (ys @ [Tail])"
    and "Head # (xs @ bs @ ys) @ [Tail] = (Head # xs) @ bs @ (ys @ [Tail])" by simp_all
  then have L: "Head # (xs @ ys) @ [Tail] = ps @ p # n # ns"
    and L': "Head # (xs @ bs @ ys) @ [Tail] = ps @ p # bs @ n # ns"
    unfolding ps ns by simp_all
  let ?h = "set_prev n (Some p') (set_next p' (Some n) h')"
  have old: "links (heap q) (ps @ p # n # ns)" "distinct (ps @ p # n # ns)"
    using rep unfolding queue_rep_def L by simp_all
  have ends: "Head \<in> set (ps @ [p])" "Tail \<in> set (n # ns)"
    by (simp_all flip: ps ns)
  have bs: "set bs \<inter> set (ps @ p # n # ns) = {}"
    using new unfolding L[symmetric] by auto
  have dist: "distinct (ps @ p # bs @ n # ns)"
    using old(2) new(1) bs by auto
  then have db: "distinct (p # bs)" by simp
  note cs = chain_spec[OF db ch]
  have p': "p' = p \<or> p' \<in> set bs" using cs(1) by auto
  show "same_blocks q (q\<lparr>heap := ?h, num_free_blocks := num_free_blocks q + int (length bs)\<rparr>)"
    by (simp add: same_blocks_def cs(5))
  have "links ?h (ps @ p # bs @ n # ns)"
    using old(1) dist ch by (rule links_splice_in)
  moreover have "prev_free_block (?h r) = None \<and> next_free_block (?h r) = None"
    if r: "r \<notin> set (ps @ p # bs @ n # ns)" for r
  proof -
    have "?h r = heap q r" using r p' cs(3)[of r] by (auto simp: store_simps)
    then show ?thesis using rep r unfolding queue_rep_def L by simp
  qed
  moreover have "prev_free_block (?h Head) = None"
  proof (cases "Head = p")
    case True
    then show ?thesis using cs(4) rep dist p' by (auto simp: store_simps queue_rep_def)
  next
    case False
    then have "Head \<notin> set (p # bs)" "Head \<noteq> n" using new dist ends by auto
    then show ?thesis using cs(3)[of Head] rep p' by (auto simp: store_simps queue_rep_def)
  qed
  moreover have "next_free_block (?h Tail) = None"
  proof -
    have "Tail \<notin> set (p # bs)" using new dist ends by auto
    then show ?thesis using cs(3)[of Tail] rep p' by (auto simp: store_simps queue_rep_def)
  qed
  ultimately show "queue_rep (q\<lparr>heap := ?h,
      num_free_blocks := num_free_blocks q + int (length bs)\<rparr>) (xs @ bs @ ys)"
    using rep dist unfolding queue_rep_def L L' by simp
qed

lemma prepend_n_rep:
  assumes "queue_rep q xs" and "distinct bs" and "set bs \<inter> set xs = {}"
    and "Head \<notin> set bs" "Tail \<notin> set bs"
  shows "\<exists>q'. prepend_n bs q = Inr q' \<and> queue_rep q' (bs @ xs) \<and> same_blocks q q'"
proof (cases "bs = []")
  case False
  obtain p' h' where ch: "chain Head bs (heap q) = (p', h')" by fastforce
  show ?thesis
    using splice_in_rep[of q "[]" xs bs Head "hd (xs @ [Tail])" p' h'] assms False ch
      queue_rep_ends(1)[OF assms(1)]
    by (simp add: prepend_n_def)
qed (use assms(1) in \<open>simp add: prepend_n_def\<close>)

lemma append_n_rep:
  assumes "queue_rep q xs" and "distinct bs" and "set bs \<inter> set xs = {}"
    and "Head \<notin> set bs" "Tail \<notin> set bs"
  shows "\<exists>q'. append_n bs q = Inr q' \<and> queue_rep q' (xs @ bs) \<and> same_blocks q q'"
proof (cases "bs = []")
  case False
  obtain p' h' where ch: "chain (last (Head # xs)) bs (heap q) = (p', h')" by fastforce
  show ?thesis
    using splice_in_rep[of q xs "[]" bs "last (Head # xs)" Tail p' h'] assms False ch
      queue_rep_ends(2)[OF assms(1)]
    by (simp add: append_n_def)
qed (use assms(1) in \<open>simp add: append_n_def\<close>)

lemma append_block_eq_append_n:
  assumes "prev_free_block (heap q Tail) = Some l" and "l \<noteq> b"
  shows "append_block b q = append_n [b] q"
  using assms by (simp add: append_block_def append_n_def set_prev_def set_next_def fun_upd_twist)

lemma append_block_rep:
  assumes "queue_rep q xs" and "b \<notin> set xs" and "b \<noteq> Head" "b \<noteq> Tail"
  shows "\<exists>q'. append_block b q = Inr q' \<and> queue_rep q' (xs @ [b]) \<and> same_blocks q q'"
proof -
  have "last (Head # xs) \<noteq> b" using assms(2,3) by auto
  then have "append_block b q = append_n [b] q"
    using queue_rep_ends(2)[OF assms(1)] by (rule append_block_eq_append_n[rotated])
  then show ?thesis using append_n_rep[OF assms(1), of "[b]"] assms(2-4) by auto
qed

text \<open>
  The bulk pop walks the list once.  Its loop invariant: the popped prefix is unlinked, the rest of
  the list is untouched, and the head still points at the first popped block.
\<close>

lemma popleft_loop_spec:
  assumes "links h (us @ L)" and "distinct (us @ L)" and "L \<noteq> []"
  shows "popleft_loop (length us) (Some (hd (us @ L))) h =
     Inr (us, Some (hd L), fold unlink us h)"
  using assms
proof (induction us arbitrary: h)
  case (Cons u us)
  have nx: "next_free_block (h u) = Some (hd (us @ L))"
    using Cons.prems(1,3) by (cases us; cases L) auto
  have "links (unlink u h) (us @ L)"
    using Cons.prems by (cases us; cases L) (auto simp: links_unlink)
  then show ?case
    using Cons.IH[of "unlink u h"] Cons.prems nx by simp
qed simp

lemma fold_unlink_apply [store_simps]:
  "fold unlink us h c =
     (if c \<in> set us then (h c)\<lparr>prev_free_block := None, next_free_block := None\<rparr> else h c)"
  by (induction us arbitrary: h) (auto simp: unlink_apply)

lemma popleft_n_rep:
  assumes "queue_rep q (us @ xs)"
  shows "\<exists>q'. popleft_n (int (length us)) q = Inr (us, q') \<and> queue_rep q' xs \<and> same_blocks q q'"
proof (cases "us = []")
  case False
  let ?h = "fold unlink us (heap q)"
  let ?n = "hd (xs @ [Tail])"
  let ?h' = "set_prev ?n (Some Head) (set_next Head (Some ?n) ?h)"
  let ?q = "q\<lparr>heap := ?h', num_free_blocks := num_free_blocks q - int (length us)\<rparr>"
  have L: "links (heap q) (us @ (xs @ [Tail]))" "distinct (us @ (xs @ [Tail]))"
    "Head \<notin> set (us @ xs @ [Tail])"
    using assms False by (cases us; simp add: queue_rep_def)+
  have nx: "next_free_block (heap q Head) = Some (hd (us @ (xs @ [Tail])))"
    using queue_rep_ends(1)[OF assms] by simp
  have pop: "popleft_n (int (length us)) q = Inr (us, ?q)"
    using popleft_loop_spec[OF L(1,2)] nx assms False by (simp add: popleft_n_def queue_rep_def)
  have same: "same_blocks q ?q"
    by (simp add: same_blocks_def payload_def store_simps)
  have "links (heap q) (xs @ [Tail])"
    using L(1) by (rule links_suffix)
  moreover have "links ?h' (xs @ [Tail]) = links (heap q) (xs @ [Tail])"
    by (rule links_cong; use L(2,3) in \<open>cases xs; auto simp: store_simps dest: in_set_butlastD\<close>)
  moreover have "next_free_block (?h' Head) = Some ?n" "prev_free_block (?h' ?n) = Some Head"
    using L(3) by (cases xs; auto simp: store_simps)+
  ultimately have "links ?h' (Head # xs @ [Tail])"
    by (cases xs) auto
  moreover have "prev_free_block (?h' r) = None \<and> next_free_block (?h' r) = None"
    if "r \<notin> set (Head # xs @ [Tail])" for r
    using that assms by (cases xs; auto simp: store_simps queue_rep_def)
  moreover have "prev_free_block (?h' Head) = None" "next_free_block (?h' Tail) = None"
    using assms L by (cases xs; auto simp: store_simps queue_rep_def)+
  ultimately have "queue_rep ?q xs"
    using assms by (auto simp: queue_rep_def)
  with pop same show ?thesis by blast
qed (use assms in \<open>simp add: popleft_n_def\<close>)

section \<open>Initialisation and traversal\<close>

lemma fold_link_step:
  "k \<le> n \<Longrightarrow> fold (link_step n) [0..<k] h r =
     (case r of
        Blk i \<Rightarrow>
          (if i < k
           then (h r)\<lparr>prev_free_block := (if i > 0 then Some (Blk (i - 1)) else prev_free_block (h r)),
                      next_free_block := (if Suc i < n then Some (Blk (Suc i))
                                          else next_free_block (h r))\<rparr>
           else h r)
      | _ \<Rightarrow> h r)"
proof (induction k)
  case 0
  then show ?case by (simp split: bref.splits)
next
  case (Suc k)
  let ?g = "fold (link_step n) [0..<k] h"
  have step: "fold (link_step n) [0..<Suc k] h = link_step n k ?g" by simp
  have IH: "?g r = (case r of Blk i \<Rightarrow> if i < k then (h r)\<lparr>prev_free_block := (if i > 0 then Some (Blk (i - 1)) else prev_free_block (h r)),
                      next_free_block := (if Suc i < n then Some (Blk (Suc i))
                                          else next_free_block (h r))\<rparr> else h r | _ \<Rightarrow> h r)"
    using Suc by simp
  show ?case
  proof (cases "r = Blk k")
    case True
    then show ?thesis using IH unfolding step by (simp add: link_step_def Let_def store_simps)
  next
    case False
    then have "link_step n k ?g r = ?g r" by (simp add: link_step_def Let_def store_simps)
    then show ?thesis using IH False unfolding step by (simp add: less_Suc_eq split: bref.splits)
  qed
qed

lemma links_nth:
  "links h L \<longleftrightarrow>
     (\<forall>i. Suc i < length L \<longrightarrow>
        next_free_block (h (L ! i)) = Some (L ! Suc i) \<and>
        prev_free_block (h (L ! Suc i)) = Some (L ! i))"
  by (induction h L rule: links.induct) (simp_all add: All_less_Suc2)

lemma init_free_queue_rep:
  assumes fresh: "\<And>i. prev_free_block (h (Blk i)) = None \<and> next_free_block (h (Blk i)) = None"
    and "heap q = fst (init_free_queue n h)" and "num_free_blocks q = snd (init_free_queue n h)"
  shows "queue_rep q (map Blk [0..<n])"
proof -
  let ?h = "fst (init_free_queue n h)"
  let ?L = "Head # map Blk [0..<n] @ [Tail]"
  define g where "g = fold (link_step n) [0..<n] h"
  have g: "prev_free_block (g (Blk i)) = (if 0 < i \<and> i < n then Some (Blk (i - 1)) else None)"
    "next_free_block (g (Blk i)) = (if Suc i < n then Some (Blk (Suc i)) else None)" for i
    using fresh by (simp_all add: g_def fold_link_step)
  have init: "?h =
      (let h2 = g(Head := new_kv_cache_block (-1), Tail := new_kv_cache_block (-1))
       in if n > 0
          then set_next (Blk (n - 1)) (Some Tail)
                 (set_prev Tail (Some (Blk (n - 1)))
                   (set_prev (Blk 0) (Some Head)
                     (set_next Head (Some (Blk 0)) h2)))
          else set_prev Tail (Some Head) (set_next Head (Some Tail) h2))"
    by (simp add: init_free_queue_def g_def Let_def)
  have Blk: "prev_free_block (?h (Blk i)) =
        (if i = 0 \<and> n > 0 then Some Head else if i < n then Some (Blk (i - 1)) else None)"
    "next_free_block (?h (Blk i)) =
        (if Suc i < n then Some (Blk (Suc i)) else if Suc i = n then Some Tail else None)" for i
    unfolding init Let_def by (auto simp: store_simps g)
  have ends: "next_free_block (?h Head) = Some (if n > 0 then Blk 0 else Tail)"
    "prev_free_block (?h Head) = None" "next_free_block (?h Tail) = None"
    "prev_free_block (?h Tail) = Some (if n > 0 then Blk (n - 1) else Head)"
    unfolding init by (simp_all add: Let_def store_simps new_kv_cache_block_def)
  have "links ?h ?L"
    unfolding links_nth
  proof (intro allI impI)
    fix i assume "Suc i < length ?L"
    then have i: "i \<le> n" by simp
    then have "?L ! i = (if i = 0 then Head else Blk (i - 1))"
      by (auto simp: nth_Cons' nth_append)
    moreover have "?L ! Suc i = (if i < n then Blk i else Tail)"
      using i by (simp add: nth_append)
    ultimately show "next_free_block (?h (?L ! i)) = Some (?L ! Suc i) \<and>
        prev_free_block (?h (?L ! Suc i)) = Some (?L ! i)"
      using i ends by (cases "i = 0"; cases "i < n") (simp_all add: Blk)
  qed
  moreover have "prev_free_block (?h r) = None \<and> next_free_block (?h r) = None"
    if "r \<notin> set ?L" for r
    using that by (cases r) (auto simp: Blk)
  moreover have "distinct ?L" "snd (init_free_queue n h) = int n"
    by (auto simp: distinct_map inj_on_def init_free_queue_def Let_def)
  ultimately show ?thesis
    unfolding queue_rep_def assms(2,3) using ends by simp
qed

lemma free_blocks_from_links:
  assumes "links h (xs @ [e])" and "next_free_block (h e) = None" and "xs @ [e] = c # L"
  shows "free_blocks_from h c acc = Some (rev acc @ xs)"
  using assms
proof (induction xs arbitrary: c L acc)
  case Nil
  then show ?case by (subst free_blocks_from.simps) simp
next
  case (Cons x xs)
  obtain d M where d: "xs @ [e] = d # M" by (cases xs) auto
  have "next_free_block (h c) = Some d" "links h (xs @ [e])"
    using Cons.prems d by (auto simp del: append_Cons simp add: append_Cons)
  then show ?case
    using Cons.IH[of d M "c # acc"] Cons.prems d by (subst free_blocks_from.simps) simp
qed

lemma get_all_free_blocks_rep:
  assumes "queue_rep q xs"
  shows "get_all_free_blocks q = Inr (Some xs)"
proof -
  obtain c L where c: "xs @ [Tail] = c # L" by (cases xs) auto
  have "links (heap q) (xs @ [Tail])" "next_free_block (heap q Tail) = None"
    using assms links_suffix[of "heap q" "[Head]" "xs @ [Tail]"] by (simp_all add: queue_rep_def)
  from free_blocks_from_links[OF this c, of "[]"] have "free_blocks_from (heap q) c [] = Some xs"
    by simp
  then show ?thesis
    unfolding get_all_free_blocks_def queue_rep_ends(1)[OF assms] c by simp
qed

section \<open>The queue's contract\<close>

text \<open>
  What the block pool relies on: a queue represents a list of distinct valid references, the bulk
  operations act on that list, removal works for members and is refused for anything else, and
  nothing but the queue changes (\<open>same\<close>).
\<close>

locale free_block_queue =
  fixes rep :: "'q \<Rightarrow> 'b list \<Rightarrow> bool"
    and same :: "'q \<Rightarrow> 'q \<Rightarrow> bool"
    and valid :: "'b \<Rightarrow> bool"
    and size_of :: "'q \<Rightarrow> int"
    and pop_n :: "int \<Rightarrow> 'q \<Rightarrow> ('b list \<times> 'q) res"
    and rem :: "'b \<Rightarrow> 'q \<Rightarrow> 'q res"
    and app_n :: "'b list \<Rightarrow> 'q \<Rightarrow> 'q res"
    and pre_n :: "'b list \<Rightarrow> 'q \<Rightarrow> 'q res"
  assumes law_distinct: "rep q xs \<Longrightarrow> distinct xs"
    and law_valid: "rep q xs \<Longrightarrow> x \<in> set xs \<Longrightarrow> valid x"
    and law_size: "rep q xs \<Longrightarrow> size_of q = int (length xs)"
    and law_refl: "same q q"
    and law_trans: "same q q' \<Longrightarrow> same q' q'' \<Longrightarrow> same q q''"
    and law_pop: "rep q (us @ xs) \<Longrightarrow>
        \<exists>q'. pop_n (int (length us)) q = Inr (us, q') \<and> rep q' xs \<and> same q q'"
    and law_rem: "rep q (ys @ x # zs) \<Longrightarrow> \<exists>q'. rem x q = Inr q' \<and> rep q' (ys @ zs) \<and> same q q'"
    and law_rem_absent: "rep q xs \<Longrightarrow> x \<notin> set xs \<Longrightarrow> rem x q = Inl RuntimeError"
    and law_app: "rep q xs \<Longrightarrow> distinct bs \<Longrightarrow> set bs \<inter> set xs = {} \<Longrightarrow> (\<And>b. b \<in> set bs \<Longrightarrow> valid b) \<Longrightarrow>
        \<exists>q'. app_n bs q = Inr q' \<and> rep q' (xs @ bs) \<and> same q q'"
    and law_pre: "rep q xs \<Longrightarrow> distinct bs \<Longrightarrow> set bs \<inter> set xs = {} \<Longrightarrow> (\<And>b. b \<in> set bs \<Longrightarrow> valid b) \<Longrightarrow>
        \<exists>q'. pre_n bs q = Inr q' \<and> rep q' (bs @ xs) \<and> same q q'"
begin

lemma pop_take:
  assumes "rep q xs" and "n \<le> length xs"
  shows "\<exists>q'. pop_n (int n) q = Inr (take n xs, q') \<and> rep q' (drop n xs) \<and> same q q'"
proof -
  have "rep q (take n xs @ drop n xs)" using assms(1) by simp
  from law_pop[OF this] show ?thesis using assms(2) by simp
qed

lemma rem_member:
  assumes "rep q xs" and "x \<in> set xs"
  shows "\<exists>q'. rem x q = Inr q' \<and> rep q' (filter (\<lambda>y. y \<noteq> x) xs) \<and> same q q'"
proof -
  obtain ys zs where xs: "xs = ys @ x # zs" using assms(2) by (meson split_list)
  have "distinct xs" using assms(1) by (rule law_distinct)
  then have "filter (\<lambda>y. y \<noteq> x) ys = ys" "filter (\<lambda>y. y \<noteq> x) zs = zs"
    unfolding xs by (auto simp: filter_id_conv)
  then have "filter (\<lambda>y. y \<noteq> x) xs = ys @ zs"
    by (simp add: xs)
  then show ?thesis using law_rem[of q ys x zs] assms(1) xs by simp
qed

text \<open>Blocks put at the front come back first, in order, and leave the old queue content behind.\<close>

lemma pre_pop:
  assumes "rep q xs" and "distinct bs" and "set bs \<inter> set xs = {}" and "\<And>b. b \<in> set bs \<Longrightarrow> valid b"
  shows "\<exists>q1 q2. pre_n bs q = Inr q1 \<and> pop_n (int (length bs)) q1 = Inr (bs, q2) \<and> rep q2 xs \<and> same q q2"
proof -
  obtain q1 where q1: "pre_n bs q = Inr q1" "rep q1 (bs @ xs)" "same q q1"
    using law_pre[OF assms] by blast
  then show ?thesis using law_pop[OF q1(2)] law_trans[OF q1(3)] by blast
qed

text \<open>Blocks put at the back come out after everything that was queued before them.\<close>

lemma app_pop:
  assumes "rep q xs" and "distinct bs" and "set bs \<inter> set xs = {}" and "\<And>b. b \<in> set bs \<Longrightarrow> valid b"
  shows "\<exists>q1 q2. app_n bs q = Inr q1 \<and> pop_n (int (length xs)) q1 = Inr (xs, q2) \<and> rep q2 bs \<and> same q q2"
proof -
  obtain q1 where q1: "app_n bs q = Inr q1" "rep q1 (xs @ bs)" "same q q1"
    using law_app[OF assms] by blast
  then show ?thesis using law_pop[OF q1(2)] law_trans[OF q1(3)] by blast
qed

end

text \<open>A reference to a real block, not to one of the two fake ends.\<close>

definition real_block :: "bref \<Rightarrow> bool" where
  "real_block b \<longleftrightarrow> b \<noteq> Head \<and> b \<noteq> Tail"

interpretation fq: free_block_queue queue_rep same_blocks real_block num_free_blocks
  popleft_n remove_block append_n prepend_n
proof unfold_locales
  fix q :: "'a free_queue_scheme" and xs bs x
  show "queue_rep q xs \<Longrightarrow> distinct xs" by (simp add: queue_rep_def)
  show "queue_rep q xs \<Longrightarrow> x \<in> set xs \<Longrightarrow> real_block x" by (auto simp: queue_rep_def real_block_def)
  show "queue_rep q xs \<Longrightarrow> num_free_blocks q = int (length xs)" by (simp add: queue_rep_def)
  show "queue_rep q xs \<Longrightarrow> x \<notin> set xs \<Longrightarrow> remove_block x q = Inl RuntimeError"
    by (rule remove_block_absent)
  show "queue_rep q xs \<Longrightarrow> distinct bs \<Longrightarrow> set bs \<inter> set xs = {} \<Longrightarrow>
      (\<And>b. b \<in> set bs \<Longrightarrow> real_block b) \<Longrightarrow>
      \<exists>q'. append_n bs q = Inr q' \<and> queue_rep q' (xs @ bs) \<and> same_blocks q q'"
    by (rule append_n_rep) (auto simp: real_block_def)
  show "queue_rep q xs \<Longrightarrow> distinct bs \<Longrightarrow> set bs \<inter> set xs = {} \<Longrightarrow>
      (\<And>b. b \<in> set bs \<Longrightarrow> real_block b) \<Longrightarrow>
      \<exists>q'. prepend_n bs q = Inr q' \<and> queue_rep q' (bs @ xs) \<and> same_blocks q q'"
    by (rule prepend_n_rep) (auto simp: real_block_def)
qed (auto intro: popleft_n_rep remove_block_rep same_blocks_trans)

section \<open>Sequences of operations refine the list model\<close>

datatype queue_op =
    PopLeft
  | PopLeftN nat
  | Remove bref
  | Append bref
  | AppendN "bref list"
  | PrependN "bref list"

text \<open>The specification on a plain list; \<open>None\<close> where the caller breaks the queue's contract.\<close>

definition fresh_blocks :: "bref list \<Rightarrow> bref list \<Rightarrow> bool" where
  "fresh_blocks bs xs \<longleftrightarrow> distinct bs \<and> set bs \<inter> set xs = {} \<and> Head \<notin> set bs \<and> Tail \<notin> set bs"

fun spec_op :: "queue_op \<Rightarrow> bref list \<Rightarrow> (bref list \<times> bref list) option" where
  "spec_op PopLeft xs = (case xs of [] \<Rightarrow> None | y # ys \<Rightarrow> Some ([y], ys))"
| "spec_op (PopLeftN n) xs = (if n \<le> length xs then Some (take n xs, drop n xs) else None)"
| "spec_op (Remove b) xs = (if b \<in> set xs then Some ([], remove1 b xs) else None)"
| "spec_op (Append b) xs = (if fresh_blocks [b] xs then Some ([], xs @ [b]) else None)"
| "spec_op (AppendN bs) xs = (if fresh_blocks bs xs then Some ([], xs @ bs) else None)"
| "spec_op (PrependN bs) xs = (if fresh_blocks bs xs then Some ([], bs @ xs) else None)"

fun impl_op ::
  "queue_op \<Rightarrow> 'a free_queue_scheme \<Rightarrow> (bref list \<times> 'a free_queue_scheme) res" where
  "impl_op PopLeft q = rbind (popleft q) (\<lambda>(b, q'). Inr ([b], q'))"
| "impl_op (PopLeftN n) q = popleft_n (int n) q"
| "impl_op (Remove b) q = rbind (remove_block b q) (\<lambda>q'. Inr ([], q'))"
| "impl_op (Append b) q = rbind (append_block b q) (\<lambda>q'. Inr ([], q'))"
| "impl_op (AppendN bs) q = rbind (append_n bs q) (\<lambda>q'. Inr ([], q'))"
| "impl_op (PrependN bs) q = rbind (prepend_n bs q) (\<lambda>q'. Inr ([], q'))"

fun spec_run :: "queue_op list \<Rightarrow> bref list \<Rightarrow> (bref list list \<times> bref list) option" where
  "spec_run [] xs = Some ([], xs)"
| "spec_run (p # ps) xs =
     (case spec_op p xs of
        None \<Rightarrow> None
      | Some (out, ys) \<Rightarrow> map_option (\<lambda>(outs, zs). (out # outs, zs)) (spec_run ps ys))"

fun impl_run ::
  "queue_op list \<Rightarrow> 'a free_queue_scheme \<Rightarrow> (bref list list \<times> 'a free_queue_scheme) res" where
  "impl_run [] q = Inr ([], q)"
| "impl_run (p # ps) q =
     rbind (impl_op p q) (\<lambda>(out, q1). rbind (impl_run ps q1) (\<lambda>(outs, q2). Inr (out # outs, q2)))"

lemma remove1_rep:
  assumes "queue_rep q xs" and "b \<in> set xs"
  shows "\<exists>q'. remove_block b q = Inr q' \<and> queue_rep q' (remove1 b xs) \<and> same_blocks q q'"
  using fq.rem_member[OF assms] fq.law_distinct[OF assms(1)] by (simp add: distinct_remove1_removeAll removeAll_filter_not_eq neq_commute)

lemma impl_op_refines:
  assumes "queue_rep q xs" and "spec_op p xs = Some (out, ys)"
  shows "\<exists>q'. impl_op p q = Inr (out, q') \<and> queue_rep q' ys \<and> same_blocks q q'"
  using assms(2)
proof (cases p)
  case PopLeft
  then show ?thesis using assms popleft_rep[of q] by (cases xs) force+
next
  case (PopLeftN n)
  then show ?thesis using assms fq.pop_take[OF assms(1), of n] by (auto split: if_splits)
next
  case (Remove b)
  then show ?thesis using assms remove1_rep[OF assms(1), of b] by (force split: if_splits)
next
  case (Append b)
  then show ?thesis
    using assms append_block_rep[OF assms(1), of b] by (force simp: fresh_blocks_def split: if_splits)
next
  case (AppendN bs)
  then show ?thesis
    using assms append_n_rep[OF assms(1), of bs] by (force simp: fresh_blocks_def split: if_splits)
next
  case (PrependN bs)
  then show ?thesis
    using assms prepend_n_rep[OF assms(1), of bs] by (force simp: fresh_blocks_def split: if_splits)
qed

lemma impl_run_refines:
  assumes "queue_rep q xs" and "spec_run ps xs = Some (outs, ys)"
  shows "\<exists>q'. impl_run ps q = Inr (outs, q') \<and> queue_rep q' ys \<and> same_blocks q q'"
  using assms
proof (induction ps arbitrary: q xs outs)
  case (Cons p ps)
  obtain out xs1 outs1 where s: "spec_op p xs = Some (out, xs1)" "spec_run ps xs1 = Some (outs1, ys)"
    "outs = out # outs1"
    using Cons.prems(2) by (auto split: option.splits)
  obtain q1 where q1: "impl_op p q = Inr (out, q1)" "queue_rep q1 xs1" "same_blocks q q1"
    using impl_op_refines[OF Cons.prems(1) s(1)] by blast
  obtain q2 where "impl_run ps q1 = Inr (outs1, q2)" "queue_rep q2 ys" "same_blocks q1 q2"
    using Cons.IH[OF q1(2) s(2)] by blast
  then show ?case using q1 s(3) by (auto intro: same_blocks_trans)
qed simp

text \<open>The queue the constructor builds over \<open>n\<close> fresh blocks.\<close>

definition fresh_store :: block_store where
  "fresh_store r = (case r of Blk i \<Rightarrow> new_kv_cache_block (int i) | _ \<Rightarrow> new_kv_cache_block (-1))"

definition new_free_queue :: "nat \<Rightarrow> free_queue" where
  "new_free_queue n =
     \<lparr>heap = fst (init_free_queue n fresh_store), num_free_blocks = snd (init_free_queue n fresh_store)\<rparr>"

lemma new_free_queue_rep: "queue_rep (new_free_queue n) (map Blk [0..<n])"
  by (rule init_free_queue_rep[where h = fresh_store])
    (simp_all add: fresh_store_def new_kv_cache_block_def new_free_queue_def)

text \<open>
  C1.  The pointer-level queue refines a plain list.  Start the queue over \<open>n\<close> fresh blocks and run
  any sequence of \<^verbatim>\<open>popleft\<close>, \<^verbatim>\<open>popleft_n\<close>, \<^verbatim>\<open>remove\<close>, \<^verbatim>\<open>append\<close>, \<^verbatim>\<open>append_n\<close> and
  \<^verbatim>\<open>prepend_n\<close> that the list model allows: no operation raises, every operation returns the
  blocks the list model returns, the counter is the length of the final list, and
  \<^verbatim>\<open>get_all_free_blocks\<close> terminates with exactly that list.
\<close>

theorem free_queue_refines_list:
  assumes "spec_run ops (map Blk [0..<n]) = Some (outs, ys)"
  shows "\<exists>q. impl_run ops (new_free_queue n) = Inr (outs, q) \<and>
           num_free_blocks q = int (length ys) \<and> get_all_free_blocks q = Inr (Some ys)"
  using impl_run_refines[OF new_free_queue_rep assms] get_all_free_blocks_rep fq.law_size by blast

theorem free_queue_refines_list_witness:
  "\<exists>q. impl_run [PopLeftN 2, Remove (Blk 3), AppendN [Blk 1, Blk 0], PrependN [Blk 3], PopLeft]
          (new_free_queue 4) =
        Inr ([[Blk 0, Blk 1], [], [], [], [Blk 3]], q) \<and>
      num_free_blocks q = 3 \<and> get_all_free_blocks q = Inr (Some [Blk 2, Blk 1, Blk 0])"
  using free_queue_refines_list[of
      "[PopLeftN 2, Remove (Blk 3), AppendN [Blk 1, Blk 0], PrependN [Blk 3], PopLeft]" 4
      "[[Blk 0, Blk 1], [], [], [], [Blk 3]]" "[Blk 2, Blk 1, Blk 0]"]
  by (simp add: fresh_blocks_def numeral_eq_Suc)

end
