(* ===== verification/Py_Float.thy ===== *)
theory Py_Float
  imports Prelude Complex_Main
begin

text \<open>
  Python floats as the modelled code uses them: the exact real number, the two infinities and
  \<^verbatim>\<open>nan\<close>.  Arithmetic on finite values is exact, so rounding, overflow and underflow of IEEE
  doubles are not part of the model; the special values, the comparisons with \<^verbatim>\<open>nan\<close> and the
  exceptions of division and of \<^verbatim>\<open>math.fsum\<close> are.  \<open>float_simps\<close> collects the rules that evaluate
  an operation on finite arguments.
\<close>

named_theorems float_simps \<open>operations on finite floats\<close>

datatype pyfloat = Fin real | PosInf | NegInf | NaN

fun is_finite :: "pyfloat \<Rightarrow> bool" where
  "is_finite (Fin _) = True"
| "is_finite _ = False"

fun real_of_float :: "pyfloat \<Rightarrow> real" where
  "real_of_float (Fin x) = x"
| "real_of_float _ = 0"

fun fneg :: "pyfloat \<Rightarrow> pyfloat" where
  "fneg (Fin x) = Fin (- x)"
| "fneg PosInf = NegInf"
| "fneg NegInf = PosInf"
| "fneg NaN = NaN"

fun fadd :: "pyfloat \<Rightarrow> pyfloat \<Rightarrow> pyfloat" where
  "fadd (Fin x) (Fin y) = Fin (x + y)"
| "fadd NaN _ = NaN"
| "fadd _ NaN = NaN"
| "fadd PosInf NegInf = NaN"
| "fadd NegInf PosInf = NaN"
| "fadd PosInf _ = PosInf"
| "fadd _ PosInf = PosInf"
| "fadd NegInf _ = NegInf"
| "fadd _ NegInf = NegInf"

definition fsub :: "pyfloat \<Rightarrow> pyfloat \<Rightarrow> pyfloat" where
  "fsub a b = fadd a (fneg b)"

text \<open>An infinity times a finite number keeps or flips the sign; times zero it is \<^verbatim>\<open>nan\<close>.\<close>

definition inf_mul :: "bool \<Rightarrow> real \<Rightarrow> pyfloat" where
  "inf_mul pos x = (if x = 0 then NaN else if (x > 0) = pos then PosInf else NegInf)"

fun fmul :: "pyfloat \<Rightarrow> pyfloat \<Rightarrow> pyfloat" where
  "fmul (Fin x) (Fin y) = Fin (x * y)"
| "fmul NaN _ = NaN"
| "fmul _ NaN = NaN"
| "fmul PosInf (Fin x) = inf_mul True x"
| "fmul (Fin x) PosInf = inf_mul True x"
| "fmul NegInf (Fin x) = inf_mul False x"
| "fmul (Fin x) NegInf = inf_mul False x"
| "fmul PosInf PosInf = PosInf"
| "fmul NegInf NegInf = PosInf"
| "fmul _ _ = NegInf"

text \<open>\<^verbatim>\<open>a / b\<close> raises on a zero divisor; a finite number over an infinity is zero.\<close>

fun fdiv :: "pyfloat \<Rightarrow> pyfloat \<Rightarrow> pyfloat res" where
  "fdiv a (Fin y) =
     (if y = 0 then Inl ZeroDivisionError
      else case a of Fin x \<Rightarrow> Inr (Fin (x / y)) | _ \<Rightarrow> Inr (fmul a (Fin y)))"
| "fdiv a NaN = Inr NaN"
| "fdiv (Fin _) _ = Inr (Fin 0)"
| "fdiv _ _ = Inr NaN"

fun flt :: "pyfloat \<Rightarrow> pyfloat \<Rightarrow> bool" where
  "flt (Fin x) (Fin y) = (x < y)"
| "flt NaN _ = False"
| "flt _ NaN = False"
| "flt NegInf NegInf = False"
| "flt NegInf _ = True"
| "flt PosInf _ = False"
| "flt _ PosInf = True"
| "flt (Fin _) NegInf = False"

definition feq :: "pyfloat \<Rightarrow> pyfloat \<Rightarrow> bool" where
  "feq a b \<longleftrightarrow> a = b \<and> a \<noteq> NaN"

definition fle :: "pyfloat \<Rightarrow> pyfloat \<Rightarrow> bool" where
  "fle a b \<longleftrightarrow> flt a b \<or> feq a b"

definition float_of_int :: "int \<Rightarrow> pyfloat" where
  "float_of_int i = Fin (of_int i)"

text \<open>\<^verbatim>\<open>math.exp\<close> and \<^verbatim>\<open>math.fsum\<close>.\<close>

fun math_exp :: "pyfloat \<Rightarrow> pyfloat" where
  "math_exp (Fin x) = Fin (exp x)"
| "math_exp PosInf = PosInf"
| "math_exp NegInf = Fin 0"
| "math_exp NaN = NaN"

definition math_fsum :: "pyfloat list \<Rightarrow> pyfloat res" where
  "math_fsum xs =
     (if PosInf \<in> set xs \<and> NegInf \<in> set xs then Inl ValueError
      else Inr (foldr fadd xs (Fin 0)))"

section \<open>Finite values\<close>

lemma fsub_Fin [simp, float_simps]: "fsub (Fin x) (Fin y) = Fin (x - y)"
  by (simp add: fsub_def)

lemma feq_Fin [simp, float_simps]: "feq (Fin x) (Fin y) \<longleftrightarrow> x = y"
  by (simp add: feq_def)

lemma fle_Fin [simp, float_simps]: "fle (Fin x) (Fin y) \<longleftrightarrow> x \<le> y"
  by (auto simp: fle_def)

lemma foldr_fadd_Fin: "foldr fadd (map Fin xs) (Fin a) = Fin (sum_list xs + a)"
  by (induction xs) simp_all

lemma math_fsum_Fin [simp, float_simps]: "math_fsum (map Fin xs) = Inr (Fin (sum_list xs))"
  by (auto simp: math_fsum_def foldr_fadd_Fin)

lemma is_finite_iff: "is_finite x \<longleftrightarrow> (\<exists>r. x = Fin r)"
  by (cases x) simp_all

lemma all_finite_map: "list_all is_finite xs \<Longrightarrow> xs = map Fin (map real_of_float xs)"
  by (induction xs) (auto simp: is_finite_iff)

lemma foldr_fadd_NaN: "NaN \<in> set xs \<Longrightarrow> foldr fadd xs a = NaN"
proof (induction xs)
  case (Cons x xs)
  then show ?case by (cases x; cases "foldr fadd xs a") auto
qed simp

end
