(* ===== verification/Smc_Config.thy ===== *)
theory Smc_Config
  imports Py_Float
begin

text \<open>
  The request side of Power-SMC, from the first part of \<^verbatim>\<open>src/vllm/vllm/v1/power_smc.py\<close>: the
  configuration record read out of \<^verbatim>\<open>SamplingParams.extra_args\<close>, its validation, the engine-level
  feature check, and the naming of the child requests that carry the particles.  Values of type
  \<^verbatim>\<open>Any\<close> are \<open>py_val\<close>s with the conversions \<^verbatim>\<open>bool\<close>, \<^verbatim>\<open>int\<close> and \<^verbatim>\<open>float\<close> of Python; strings are 8-bit
  characters.
\<close>

section \<open>Dynamically typed values\<close>

datatype py_val =
    VNone
  | VBool bool
  | VInt int
  | VFloat pyfloat
  | VStr string
  | VList "py_val list"
  | VMap "(string \<times> py_val) list"

definition dict_get :: "(string \<times> py_val) list \<Rightarrow> string \<Rightarrow> py_val \<Rightarrow> py_val" where
  "dict_get d k dflt = (case map_of d k of None \<Rightarrow> dflt | Some v \<Rightarrow> v)"

fun py_bool :: "py_val \<Rightarrow> bool" where
  "py_bool VNone = False"
| "py_bool (VBool b) = b"
| "py_bool (VInt i) = (i \<noteq> 0)"
| "py_bool (VFloat f) = (\<not> feq f (Fin 0))"
| "py_bool (VStr s) = (s \<noteq> [])"
| "py_bool (VList xs) = (xs \<noteq> [])"
| "py_bool (VMap d) = (d \<noteq> [])"

definition is_space :: "char \<Rightarrow> bool" where
  "is_space c \<longleftrightarrow> (let n = (of_char c :: nat)
     in (9 \<le> n \<and> n \<le> 13) \<or> (28 \<le> n \<and> n \<le> 32) \<or> n = 133 \<or> n = 160)"

definition strip :: "string \<Rightarrow> string" where
  "strip s = rev (dropWhile is_space (rev (dropWhile is_space s)))"

definition lower :: "char \<Rightarrow> char" where
  "lower c = (let n = (of_char c :: nat) in if 65 \<le> n \<and> n \<le> 90 then char_of (n + 32) else c)"

text \<open>An underscore of a numeral stands between two digits; the flag says that the character
  before was a digit.\<close>

fun drop_underscores :: "bool \<Rightarrow> string \<Rightarrow> string option" where
  "drop_underscores p [] = Some []"
| "drop_underscores p (c # cs) =
     (if c = CHR ''_''
      then (if p \<and> cs \<noteq> [] \<and> is_digit (hd cs) then drop_underscores False cs else None)
      else map_option (Cons c) (drop_underscores (is_digit c) cs))"

fun split_sign :: "string \<Rightarrow> bool \<times> string" where
  "split_sign (c # cs) =
     (if c = CHR ''-'' then (True, cs) else if c = CHR ''+'' then (False, cs) else (False, c # cs))"
| "split_sign [] = (False, [])"

definition signed_digits :: "string \<Rightarrow> int option" where
  "signed_digits s =
     (let (neg, ds) = split_sign s
      in if ds \<noteq> [] \<and> list_all is_digit ds
         then Some (if neg then - int (digits_val ds) else int (digits_val ds)) else None)"

definition int_of_str :: "string \<Rightarrow> int res" where
  "int_of_str s =
     (case drop_underscores False (strip s) of
        None \<Rightarrow> Inl ValueError
      | Some t \<Rightarrow> (case signed_digits t of None \<Rightarrow> Inl ValueError | Some i \<Rightarrow> Inr i))"

definition decimal_of_str :: "string \<Rightarrow> real option" where
  "decimal_of_str s =
     (let ip = takeWhile is_digit s; r = dropWhile is_digit s;
          (fp, r2) = (case r of [] \<Rightarrow> ([], r)
                      | c # t \<Rightarrow> if c = CHR ''.'' then (takeWhile is_digit t, dropWhile is_digit t)
                                else ([], r));
          m = real (digits_val (ip @ fp))
      in if ip @ fp = [] then None
         else (case r2 of
                 [] \<Rightarrow> Some (m * 10 powi (- int (length fp)))
               | c # t \<Rightarrow> if lower c \<noteq> CHR ''e'' then None
                          else map_option (\<lambda>e. m * 10 powi (e - int (length fp))) (signed_digits t)))"

definition float_of_str :: "string \<Rightarrow> pyfloat res" where
  "float_of_str s =
     (case drop_underscores False (strip s) of
        None \<Rightarrow> Inl ValueError
      | Some t \<Rightarrow>
          (let (neg, u) = split_sign t; w = map lower u
           in if w = ''inf'' \<or> w = ''infinity'' then Inr (if neg then NegInf else PosInf)
              else if w = ''nan'' then Inr NaN
              else (case decimal_of_str u of
                      None \<Rightarrow> Inl ValueError
                    | Some x \<Rightarrow> Inr (Fin (if neg then - x else x)))))"

fun py_float :: "py_val \<Rightarrow> pyfloat res" where
  "py_float (VBool b) = Inr (Fin (if b then 1 else 0))"
| "py_float (VInt i) = Inr (float_of_int i)"
| "py_float (VFloat f) = Inr f"
| "py_float (VStr s) = float_of_str s"
| "py_float _ = Inl TypeError"

definition truncate :: "real \<Rightarrow> int" where
  "truncate x = (if x < 0 then \<lceil>x\<rceil> else \<lfloor>x\<rfloor>)"

fun py_int :: "py_val \<Rightarrow> int res" where
  "py_int (VBool b) = Inr (if b then 1 else 0)"
| "py_int (VInt i) = Inr i"
| "py_int (VFloat (Fin x)) = Inr (truncate x)"
| "py_int (VFloat NaN) = Inl ValueError"
| "py_int (VFloat _) = Inl OverflowError"
| "py_int (VStr s) = int_of_str s"
| "py_int _ = Inl TypeError"

section \<open>Configuration\<close>

text \<open>
  The fields of \<^verbatim>\<open>SamplingParams\<close> that the modelled code reads.  Structured-output parameters are
  represented by whether at least one constraint is set.
\<close>

datatype stop_value = StopToken int | StopString string

record repetition_detection_params =
  max_pattern_size :: int
  min_pattern_size :: int
  min_count :: int

record sampling_params =
  sp_n :: int
  presence_penalty :: pyfloat
  frequency_penalty :: pyfloat
  repetition_penalty :: pyfloat
  temperature :: pyfloat
  top_p :: pyfloat
  top_k :: int
  min_p :: pyfloat
  seed :: "int option"
  max_tokens :: "nat option"
  structured_outputs :: "bool option"
  logit_bias :: "(int \<times> pyfloat) list option"
  allowed_token_ids :: "int list option"
  extra_args :: "(string \<times> py_val) list option"
  bad_words :: "string list option"
  skip_reading_prefix_cache :: "bool option"
  min_tokens :: nat
  eos_token_id :: "int option"
  stop_token_ids :: "int list option"
  repetition_detection :: "repetition_detection_params option"

record power_smc_config =
  enabled :: bool
  alpha :: pyfloat
  particles_cfg :: int
  block_size_cfg :: int
  ess_threshold :: pyfloat
  alpha_ramp_tokens :: int
  proposal :: py_val
  return_diagnostics :: bool
  kv_cow :: bool
  kv_pool_diagnostics :: bool

definition default_config :: power_smc_config where
  "default_config =
     \<lparr>enabled = False, alpha = Fin 4, particles_cfg = 32, block_size_cfg = 64,
      ess_threshold = Fin (1 / 2), alpha_ramp_tokens = 400, proposal = VStr ''power_temperature'',
      return_diagnostics = False, kv_cow = True, kv_pool_diagnostics = False\<rparr>"

definition smc_param :: "string \<Rightarrow> string" where
  "smc_param f = ''extra_args.power_smc.'' @ f"

definition validate_self :: "power_smc_config \<Rightarrow> unit res" where
  "validate_self c =
     (if flt (alpha c) (Fin 1)
      then Inl (VLLMValidationError (smc_param ''alpha'') [''Power-SMC alpha must be >= 1.''])
      else if particles_cfg c < 1
      then Inl (VLLMValidationError (smc_param ''particles'')
                  [''Power-SMC particles must be >= 1.''])
      else if block_size_cfg c < 1
      then Inl (VLLMValidationError (smc_param ''block_size'')
                  [''Power-SMC block_size must be >= 1.''])
      else if \<not> (flt (Fin 0) (ess_threshold c) \<and> fle (ess_threshold c) (Fin 1))
      then Inl (VLLMValidationError (smc_param ''ess_threshold'')
                  [''Power-SMC ess_threshold must be in (0, 1].''])
      else if alpha_ramp_tokens c < 1
      then Inl (VLLMValidationError (smc_param ''alpha_ramp_tokens'')
                  [''Power-SMC alpha_ramp_tokens must be >= 1.''])
      else if proposal c \<noteq> VStr ''power_temperature''
      then Inl (VLLMValidationError (smc_param ''proposal'')
                  [''Power-SMC currently supports only proposal='power_temperature'.''])
      else Inr ())"

definition flag :: "bool \<Rightarrow> string \<Rightarrow> string list" where
  "flag b s = (if b then [s] else [])"

definition unsupported_sampling :: "sampling_params \<Rightarrow> string list" where
  "unsupported_sampling sp =
     flag (sp_n sp \<noteq> 1) ''n > 1'' @
     flag (\<not> feq (temperature sp) (Fin 1)) ''temperature != 1'' @
     flag (\<not> feq (top_p sp) (Fin 1)) ''top_p != 1'' @
     flag (top_k sp \<notin> {0, -1}) ''top_k enabled'' @
     flag (\<not> feq (min_p sp) (Fin 0)) ''min_p enabled'' @
     flag (\<not> feq (repetition_penalty sp) (Fin 1)) ''repetition_penalty'' @
     flag (\<not> feq (frequency_penalty sp) (Fin 0)) ''frequency_penalty'' @
     flag (\<not> feq (presence_penalty sp) (Fin 0)) ''presence_penalty'' @
     flag (structured_outputs sp \<noteq> None) ''structured_outputs'' @
     flag (allowed_token_ids sp \<noteq> None) ''allowed_token_ids'' @
     flag (bad_words sp \<noteq> None \<and> bad_words sp \<noteq> Some []) ''bad_words'' @
     flag (logit_bias sp \<noteq> None \<and> logit_bias sp \<noteq> Some []) ''logit_bias''"

definition validate_sampling_params :: "power_smc_config \<Rightarrow> sampling_params \<Rightarrow> unit res" where
  "validate_sampling_params c sp =
     rbind (validate_self c) (\<lambda>_.
       if unsupported_sampling sp \<noteq> []
       then Inl (VLLMValidationError ''extra_args.power_smc'' (unsupported_sampling sp))
       else Inr ())"

text \<open>Reading the configuration evaluates the constructor's arguments in the order written.\<close>

definition build_config :: "(string \<times> py_val) list \<Rightarrow> power_smc_config res" where
  "build_config raw =
     rbind (py_float (dict_get raw ''alpha'' (VFloat (Fin 4)))) (\<lambda>a.
     rbind (py_int (dict_get raw ''particles'' (VInt 32))) (\<lambda>n.
     rbind (py_int (dict_get raw ''block_size'' (VInt 64))) (\<lambda>b.
     rbind (py_float (dict_get raw ''ess_threshold'' (VFloat (Fin (1 / 2))))) (\<lambda>e.
     rbind (py_int (dict_get raw ''alpha_ramp_tokens'' (VInt 400))) (\<lambda>r.
     Inr \<lparr>enabled = True, alpha = a, particles_cfg = n, block_size_cfg = b, ess_threshold = e,
          alpha_ramp_tokens = r,
          proposal = dict_get raw ''proposal'' (VStr ''power_temperature''),
          return_diagnostics = py_bool (dict_get raw ''return_diagnostics'' (VBool False)),
          kv_cow = py_bool (dict_get raw ''kv_cow'' (VBool True)),
          kv_pool_diagnostics = py_bool (dict_get raw ''kv_pool_diagnostics'' (VBool False))\<rparr>)))))"

definition from_sampling_params :: "sampling_params option \<Rightarrow> power_smc_config option res" where
  "from_sampling_params spo =
     (case spo of
        None \<Rightarrow> Inr None
      | Some sp \<Rightarrow>
          (case extra_args sp of
             None \<Rightarrow> Inr None
           | Some ea \<Rightarrow>
               (case dict_get ea ''power_smc'' VNone of
                  VNone \<Rightarrow> Inr None
                | VMap raw \<Rightarrow>
                    if \<not> py_bool (dict_get raw ''enabled'' (VBool False)) then Inr None
                    else rbind (build_config raw) (\<lambda>c.
                         rbind (validate_sampling_params c sp) (\<lambda>_. Inr (Some c)))
                | _ \<Rightarrow> Inl (VLLMValidationError ''extra_args.power_smc''
                             [''extra_args['power_smc'] must be a mapping.'']))))"

definition config_dict :: "power_smc_config \<Rightarrow> (string \<times> py_val) list" where
  "config_dict c =
     [(''enabled'', VBool (enabled c)), (''alpha'', VFloat (alpha c)),
      (''particles'', VInt (particles_cfg c)), (''block_size'', VInt (block_size_cfg c)),
      (''ess_threshold'', VFloat (ess_threshold c)),
      (''alpha_ramp_tokens'', VInt (alpha_ramp_tokens c)), (''proposal'', proposal c),
      (''return_diagnostics'', VBool (return_diagnostics c)), (''kv_cow'', VBool (kv_cow c)),
      (''kv_pool_diagnostics'', VBool (kv_pool_diagnostics c))]"

text \<open>\<^verbatim>\<open>config.block_size % kv_block_size\<close> raises on a zero KV block size.\<close>

definition validate_power_smc_engine_features ::
  "power_smc_config option \<Rightarrow> bool \<Rightarrow> bool \<Rightarrow> bool \<Rightarrow> bool \<Rightarrow> int option \<Rightarrow> unit res" where
  "validate_power_smc_engine_features co stream_input has_lora is_encoder_decoder has_spec kvb =
     (case co of
        None \<Rightarrow> Inr ()
      | Some c \<Rightarrow>
          if kvb = Some 0 then Inl ZeroDivisionError
          else (let unsupported =
                  flag stream_input ''streaming input'' @ flag has_lora ''LoRA'' @
                  flag is_encoder_decoder ''encoder-decoder models'' @
                  flag has_spec ''speculative decoding'' @
                  (case kvb of
                     None \<Rightarrow> []
                   | Some k \<Rightarrow> flag (block_size_cfg c mod k \<noteq> 0)
                                (''block_size not divisible by kv_block_size='' @ int_str k))
                in if unsupported \<noteq> []
                   then Inl (VLLMValidationError ''extra_args.power_smc'' unsupported)
                   else Inr ()))"

section \<open>Child request ids\<close>

record power_smc_child_request_info =
  parent_id :: string
  particle_idx :: int

definition make_power_smc_child_request_id :: "string \<Rightarrow> int \<Rightarrow> string" where
  "make_power_smc_child_request_id parent idx = ''psmc'' @ int_str idx @ ''_'' @ parent"

text \<open>
  The pattern \<^verbatim>\<open>^psmc(\d+)_(.+)$\<close>: digits never contain an underscore, a dot does not match a line
  break, and the final dollar also matches just before a last line break.
\<close>

definition chomp :: "string \<Rightarrow> string" where
  "chomp s = (if s \<noteq> [] \<and> last s = CHR 0x0A then butlast s else s)"

definition parse_power_smc_child_request_id ::
  "string \<Rightarrow> power_smc_child_request_info option" where
  "parse_power_smc_child_request_id s =
     (let r = drop 4 s; ds = takeWhile is_digit r
      in if take 4 s \<noteq> ''psmc'' \<or> ds = [] then None
         else (case dropWhile is_digit r of
                 [] \<Rightarrow> None
               | c # t \<Rightarrow>
                   if c = CHR ''_'' \<and> chomp t \<noteq> [] \<and> CHR 0x0A \<notin> set (chomp t)
                   then Some \<lparr>parent_id = chomp t, particle_idx = int (digits_val ds)\<rparr>
                   else None))"

section \<open>What validation guarantees\<close>

definition valid_config :: "power_smc_config \<Rightarrow> bool" where
  "valid_config c \<longleftrightarrow>
     \<not> flt (alpha c) (Fin 1) \<and> particles_cfg c \<ge> 1 \<and> block_size_cfg c \<ge> 1 \<and>
     (\<exists>e. ess_threshold c = Fin e \<and> 0 < e \<and> e \<le> 1) \<and> alpha_ramp_tokens c \<ge> 1 \<and>
     proposal c = VStr ''power_temperature''"

lemma ess_threshold_ok_iff:
  "flt (Fin 0) e \<and> fle e (Fin 1) \<longleftrightarrow> (\<exists>x. e = Fin x \<and> 0 < x \<and> x \<le> 1)"
  by (cases e) (auto simp: fle_def feq_def)

lemma validate_self_iff: "validate_self c = Inr () \<longleftrightarrow> valid_config c"
  unfolding validate_self_def valid_config_def ess_threshold_ok_iff[symmetric]
  by (auto simp: not_less)

lemma flag_eq_Nil [simp]: "flag b s = [] \<longleftrightarrow> \<not> b"
  by (simp add: flag_def)

definition plain_sampling :: "sampling_params \<Rightarrow> bool" where
  "plain_sampling sp \<longleftrightarrow>
     sp_n sp = 1 \<and> temperature sp = Fin 1 \<and> top_p sp = Fin 1 \<and> (top_k sp = 0 \<or> top_k sp = -1) \<and>
     min_p sp = Fin 0 \<and> repetition_penalty sp = Fin 1 \<and> frequency_penalty sp = Fin 0 \<and>
     presence_penalty sp = Fin 0 \<and> structured_outputs sp = None \<and> allowed_token_ids sp = None \<and>
     (bad_words sp = None \<or> bad_words sp = Some []) \<and>
     (logit_bias sp = None \<or> logit_bias sp = Some [])"

lemma feq_Fin_right [simp]: "feq x (Fin r) \<longleftrightarrow> x = Fin r"
  by (auto simp: feq_def)

lemma unsupported_sampling_iff: "unsupported_sampling sp = [] \<longleftrightarrow> plain_sampling sp"
  unfolding unsupported_sampling_def plain_sampling_def by auto

lemma validate_sampling_params_iff:
  "validate_sampling_params c sp = Inr () \<longleftrightarrow> valid_config c \<and> plain_sampling sp"
  unfolding validate_sampling_params_def
  by (auto simp: res_simps validate_self_iff[symmetric] unsupported_sampling_iff)

lemma from_sampling_params_Some:
  assumes "from_sampling_params (Some sp) = Inr (Some c)"
  obtains ea raw where "extra_args sp = Some ea" "dict_get ea ''power_smc'' VNone = VMap raw"
    "py_bool (dict_get raw ''enabled'' (VBool False))"
    "build_config raw = Inr c" "valid_config c" "plain_sampling sp"
  using assms unfolding from_sampling_params_def
  by (auto simp: res_simps validate_sampling_params_iff
           split: option.splits py_val.splits if_splits)

lemma build_config_enabled: "build_config raw = Inr c \<Longrightarrow> enabled c"
  by (auto simp: build_config_def res_simps)

lemma build_config_config_dict:
  "enabled c \<Longrightarrow> build_config (config_dict c) = Inr c"
  by (simp add: build_config_def config_dict_def dict_get_def)

section \<open>What the child ids determine\<close>

lemma takeWhile_digits_sep:
  "list_all is_digit ds \<Longrightarrow> \<not> is_digit c \<Longrightarrow> takeWhile is_digit (ds @ c # t) = ds"
  by (induction ds) simp_all

lemma dropWhile_digits_sep:
  "list_all is_digit ds \<Longrightarrow> \<not> is_digit c \<Longrightarrow> dropWhile is_digit (ds @ c # t) = c # t"
  by (induction ds) simp_all

lemma not_digit_underscore [simp]: "\<not> is_digit (CHR ''_'')"
  by (simp add: is_digit_def)

lemma chomp_id: "CHR 0x0A \<notin> set s \<Longrightarrow> chomp s = s"
  unfolding chomp_def by (metis last_in_set)

lemma make_parse_child_id:
  assumes "0 \<le> i" "parent \<noteq> []" "CHR 0x0A \<notin> set parent"
  shows "parse_power_smc_child_request_id (make_power_smc_child_request_id parent i) =
         Some \<lparr>parent_id = parent, particle_idx = i\<rparr>"
proof -
  have id: "make_power_smc_child_request_id parent i =
            ''psmc'' @ nat_str (nat i) @ CHR ''_'' # parent"
    using assms(1) by (simp add: make_power_smc_child_request_id_def int_str_def)
  have tw: "takeWhile is_digit (nat_str (nat i) @ CHR ''_'' # parent) = nat_str (nat i)"
    and dw: "dropWhile is_digit (nat_str (nat i) @ CHR ''_'' # parent) = CHR ''_'' # parent"
    by (simp_all add: takeWhile_digits_sep dropWhile_digits_sep nat_str_digits)
  show ?thesis
    using assms unfolding parse_power_smc_child_request_id_def id
    by (simp add: Let_def tw dw chomp_id)
qed

text \<open>Only the ids that the constructor can have built are taken for child ids: the parsed parts
  print back to the id, up to leading zeros of the index and one trailing line break.\<close>

lemma parse_child_id_shape:
  assumes "parse_power_smc_child_request_id s = Some info"
  obtains ds t where "s = ''psmc'' @ ds @ CHR ''_'' # t" "ds \<noteq> []" "list_all is_digit ds"
    "t = parent_id info \<or> t = parent_id info @ [CHR 0x0A]"
    "particle_idx info = int (digits_val ds)" "parent_id info \<noteq> []"
proof -
  define r ds where "r = drop 4 s" and "ds = takeWhile is_digit r"
  from assms obtain t where t: "dropWhile is_digit r = CHR ''_'' # t" "take 4 s = ''psmc''"
      "ds \<noteq> []" "info = \<lparr>parent_id = chomp t, particle_idx = int (digits_val ds)\<rparr>" "chomp t \<noteq> []"
    unfolding parse_power_smc_child_request_id_def
    by (auto simp: Let_def r_def[symmetric] ds_def[symmetric] split: if_splits list.splits)
  have "s = take 4 s @ drop 4 s" by simp
  also have "drop 4 s = ds @ CHR ''_'' # t"
    using takeWhile_dropWhile_id[of is_digit r, symmetric] unfolding t(1) ds_def[symmetric]
    by (simp add: r_def)
  finally have "s = ''psmc'' @ ds @ CHR ''_'' # t" unfolding t(2) .
  moreover have "t = chomp t \<or> t = chomp t @ [CHR 0x0A]"
    unfolding chomp_def by (metis append_butlast_last_id)
  moreover have "list_all is_digit ds"
    unfolding ds_def list_all_iff by (blast dest: set_takeWhileD)
  ultimately show ?thesis using t that by simp
qed

section \<open>Properties\<close>


definition plain_params :: "(string \<times> py_val) list \<Rightarrow> sampling_params" where
  "plain_params raw =
     \<lparr>sp_n = 1, presence_penalty = Fin 0, frequency_penalty = Fin 0, repetition_penalty = Fin 1,
      temperature = Fin 1, top_p = Fin 1, top_k = 0, min_p = Fin 0, seed = None, max_tokens = None,
      structured_outputs = None, logit_bias = None, allowed_token_ids = None,
      extra_args = Some [(''power_smc'', VMap raw)], bad_words = None,
      skip_reading_prefix_cache = None, min_tokens = 0, eos_token_id = None, stop_token_ids = None,
      repetition_detection = None\<rparr>"


text \<open>
  C26. The configuration survives the trip through its dictionary form: a valid enabled configuration,
  written out by \<^verbatim>\<open>config_dict\<close> and read back from the extra arguments of a request with plain
  sampling, is the same configuration.
\<close>

theorem config_dict_roundtrip:
  assumes "enabled c" "valid_config c" "plain_sampling sp"
  shows "from_sampling_params
           (Some (sp\<lparr>extra_args := Some [(''power_smc'', VMap (config_dict c))]\<rparr>)) = Inr (Some c)"
proof -
  have "validate_sampling_params c (sp\<lparr>extra_args := Some [(''power_smc'', VMap (config_dict c))]\<rparr>) =
        Inr ()"
    unfolding validate_sampling_params_iff using assms by (simp add: plain_sampling_def)
  moreover have "py_bool (dict_get (config_dict c) ''enabled'' (VBool False))"
    using assms(1) by (simp add: config_dict_def dict_get_def)
  ultimately show ?thesis
    using build_config_config_dict[OF assms(1)]
    by (simp add: from_sampling_params_def dict_get_def)
qed

theorem config_dict_roundtrip_witness:
  "from_sampling_params (Some ((plain_params [])\<lparr>extra_args :=
     Some [(''power_smc'', VMap (config_dict (default_config\<lparr>enabled := True\<rparr>)))]\<rparr>)) =
   Inr (Some (default_config\<lparr>enabled := True\<rparr>))"
  by (rule config_dict_roundtrip)
     (auto simp: default_config_def valid_config_def plain_params_def plain_sampling_def
           intro!: exI[of _ "1 / 2"])

text \<open>
  C25. Child request ids determine their parent and particle: parsing the id made for a particle of a
  parent gives back both, for every parent id that is non-empty and has no line break.
\<close>

theorem child_id_roundtrip:
  assumes "0 \<le> i" "parent \<noteq> []" "CHR 0x0A \<notin> set parent"
  shows "parse_power_smc_child_request_id (make_power_smc_child_request_id parent i) =
         Some \<lparr>parent_id = parent, particle_idx = i\<rparr>"
  using assms by (rule make_parse_child_id)

theorem child_id_roundtrip_witness:
  "parse_power_smc_child_request_id (make_power_smc_child_request_id ''psmc3_req'' 12) =
   Some \<lparr>parent_id = ''psmc3_req'', particle_idx = 12\<rparr>"
  by (rule child_id_roundtrip) simp_all


end
