(* ===== verification/Request.thy ===== *)
theory Request
  imports Smc_Config "HOL-Library.List_Lexorder" "HOL-Library.Char_ord"
begin

text \<open>
  Requests as the scheduler holds them (\<^verbatim>\<open>src/vllm/vllm/v1/request.py\<close>): the status enumeration with
  its finish reasons and the fields that the modelled code reads or writes.  The hash function, the
  seed hash and the digests of prompt-embedding slices are values supplied from outside (\<^verbatim>\<open>hashlib\<close>,
  \<^verbatim>\<open>os.urandom\<close>, torch tensors) and so are fields here.  The methods that touch block hashes are in
  \<open>Block_Hash\<close>.
\<close>

section \<open>Status\<close>

datatype request_status =
    WAITING
  | WAITING_FOR_STRUCTURED_OUTPUT_GRAMMAR
  | WAITING_FOR_REMOTE_KVS
  | WAITING_FOR_STREAMING_REQ
  | RUNNING
  | PREEMPTED
  | FINISHED_STOPPED
  | FINISHED_LENGTH_CAPPED
  | FINISHED_ABORTED
  | FINISHED_IGNORED
  | FINISHED_ERROR
  | FINISHED_REPETITION

text \<open>The values that \<^verbatim>\<open>enum.auto()\<close> assigns, from 1 on.\<close>

fun status_value :: "request_status \<Rightarrow> nat" where
  "status_value WAITING = 1"
| "status_value WAITING_FOR_STRUCTURED_OUTPUT_GRAMMAR = 2"
| "status_value WAITING_FOR_REMOTE_KVS = 3"
| "status_value WAITING_FOR_STREAMING_REQ = 4"
| "status_value RUNNING = 5"
| "status_value PREEMPTED = 6"
| "status_value FINISHED_STOPPED = 7"
| "status_value FINISHED_LENGTH_CAPPED = 8"
| "status_value FINISHED_ABORTED = 9"
| "status_value FINISHED_IGNORED = 10"
| "status_value FINISHED_ERROR = 11"
| "status_value FINISHED_REPETITION = 12"

definition is_finished_status :: "request_status \<Rightarrow> bool" where
  "is_finished_status st \<longleftrightarrow> status_value st > status_value PREEMPTED"

datatype finish_reason_enum =
  FR_STOP | FR_LENGTH | FR_ABORT | FR_ERROR | FR_REPETITION

fun get_finished_reason :: "request_status \<Rightarrow> finish_reason_enum option" where
  "get_finished_reason FINISHED_STOPPED = Some FR_STOP"
| "get_finished_reason FINISHED_LENGTH_CAPPED = Some FR_LENGTH"
| "get_finished_reason FINISHED_ABORTED = Some FR_ABORT"
| "get_finished_reason FINISHED_IGNORED = Some FR_LENGTH"
| "get_finished_reason FINISHED_ERROR = Some FR_ERROR"
| "get_finished_reason WAITING_FOR_STREAMING_REQ = Some FR_STOP"
| "get_finished_reason FINISHED_REPETITION = Some FR_REPETITION"
| "get_finished_reason _ = None"

lemma finished_has_reason: "is_finished_status st \<Longrightarrow> get_finished_reason st \<noteq> None"
  by (cases st) (simp_all add: is_finished_status_def)

section \<open>Requests\<close>

record mm_feature =
  mm_identifier :: "string option"
  mm_offset :: nat
  mm_length :: nat
  mm_is_embed :: "bool list option"

record lora_request =
  lora_name :: string
  adapter_id :: int

text \<open>
  An extra key of a block hash.  A LoRA name and a cache salt are both Python strings in the hashed
  tuple, and so they are the same constructor.
\<close>

datatype extra_key = KStr string | KMm string int | KBytes bytes

datatype hash_input =
    HashSeed string
  | HashBlock bytes "int list" "extra_key list option"

record block_hasher =
  hasher_block_size :: nat
  hash_fn :: "hash_input \<Rightarrow> bytes"
  none_hash :: bytes

text \<open>\<^verbatim>\<open>StreamingUpdate\<close>: the next input of a streaming session.\<close>

record streaming_update =
  upd_mm_features :: "mm_feature list"
  upd_prompt_token_ids :: "int list option"
  upd_max_tokens :: nat
  upd_arrival_time :: real
  upd_sampling_params :: "sampling_params option"

record request =
  request_id :: string
  priority :: int
  req_sampling_params :: "sampling_params option"
  is_pooling :: bool
  req_power_smc_config :: "power_smc_config option"
  power_smc_child_info :: "power_smc_child_request_info option"
  req_lora :: "lora_request option"
  use_structured_output :: bool
  arrival_time :: real
  status :: request_status
  req_stop_reason :: "stop_value option"
  req_max_tokens :: nat
  prompt_token_ids :: "int list option"
  prompt_embeds :: "(nat \<times> (nat \<Rightarrow> nat \<Rightarrow> bytes)) option"
  num_prompt_tokens :: nat
  output_token_ids :: "int list"
  all_token_ids :: "int list"
  num_output_placeholders :: int
  async_tokens_to_discard :: int
  next_decode_eligible_step :: nat
  spec_token_ids :: "int list"
  num_computed_tokens :: nat
  cache_salt :: "string option"
  mm_features :: "mm_feature list"
  is_prefill_chunk :: bool
  num_nans_in_logits :: nat
  num_preemptions :: nat
  block_hashes :: "bytes list"
  req_block_hasher :: "block_hasher option"
  req_skip_reading_prefix_cache :: bool
  resumable :: bool
  abort_immediately :: bool
  streaming_queue :: "streaming_update option list option"

definition num_tokens :: "request \<Rightarrow> nat" where
  "num_tokens r = length (all_token_ids r)"

definition num_tokens_with_spec :: "request \<Rightarrow> nat" where
  "num_tokens_with_spec r = length (all_token_ids r) + length (spec_token_ids r)"

definition num_output_tokens :: "request \<Rightarrow> nat" where
  "num_output_tokens r = length (output_token_ids r)"

definition has_encoder_inputs :: "request \<Rightarrow> bool" where
  "has_encoder_inputs r \<longleftrightarrow> length (mm_features r) > 0"

text \<open>\<^verbatim>\<open>get_num_encoder_embeds\<close>: the positions of the placeholder that hold an embedding.\<close>

definition get_num_encoder_embeds :: "request \<Rightarrow> nat \<Rightarrow> nat res" where
  "get_num_encoder_embeds r i =
     py_assert (i < length (mm_features r))
       (Inr (let f = mm_features r ! i
             in case mm_is_embed f of None \<Rightarrow> mm_length f | Some m \<Rightarrow> length (filter id m)))"

definition is_finished :: "request \<Rightarrow> bool" where
  "is_finished r \<longleftrightarrow> is_finished_status (status r)"

definition has_output_token_ids :: "request \<Rightarrow> int list \<Rightarrow> bool" where
  "has_output_token_ids r toks \<longleftrightarrow> output_token_ids r = toks"

definition streaming_update_from_request :: "request \<Rightarrow> streaming_update option" where
  "streaming_update_from_request r =
     (if \<not> resumable r then None
      else Some \<lparr>upd_mm_features = mm_features r, upd_prompt_token_ids = prompt_token_ids r,
                 upd_max_tokens = req_max_tokens r, upd_arrival_time = arrival_time r,
                 upd_sampling_params = req_sampling_params r\<rparr>)"

text \<open>The prompt part of the token list: the prompt tokens, or zeros for a prompt of embeddings.\<close>

definition prompt_tokens :: "int list option \<Rightarrow> nat \<Rightarrow> int list" where
  "prompt_tokens toks n = (case toks of Some ts \<Rightarrow> ts | None \<Rightarrow> replicate n 0)"

definition length_from_prompt_token_ids_or_embeds ::
  "int list option \<Rightarrow> (nat \<times> (nat \<Rightarrow> nat \<Rightarrow> bytes)) option \<Rightarrow> nat res" where
  "length_from_prompt_token_ids_or_embeds toks embeds =
     (case toks of
        None \<Rightarrow> (case embeds of None \<Rightarrow> Inl ValueError | Some (n, _) \<Rightarrow> Inr n)
      | Some ts \<Rightarrow>
          (case embeds of
             Some (n, _) \<Rightarrow> if n \<noteq> length ts then Inl ValueError else Inr (length ts)
           | None \<Rightarrow> Inr (length ts)))"

definition get_skip_reading_prefix_cache ::
  "sampling_params option \<Rightarrow> bool option option \<Rightarrow> bool" where
  "get_skip_reading_prefix_cache sp pp =
     (case sp of
        Some s \<Rightarrow> (case skip_reading_prefix_cache s of
                    Some b \<Rightarrow> b
                  | None \<Rightarrow> (case pp of Some (Some b) \<Rightarrow> b | _ \<Rightarrow> False))
      | None \<Rightarrow> (case pp of Some (Some b) \<Rightarrow> b | _ \<Rightarrow> False))"

text \<open>
  Queue order of two requests for priority scheduling.  The last resort is the identity of the
  objects, which is a parameter.
\<close>

definition request_lt :: "bool \<Rightarrow> request \<Rightarrow> request \<Rightarrow> bool" where
  "request_lt id_lt a b =
     (if priority a \<noteq> priority b then priority a < priority b
      else if arrival_time a \<noteq> arrival_time b then arrival_time a < arrival_time b
      else if request_id a \<noteq> request_id b then request_id a < request_id b
      else id_lt)"

end
