(* ===== verification/Block_Hash.thy ===== *)
theory Block_Hash
  imports Request "HOL-Library.Countable"
begin

text \<open>
  Block hashes for prefix caching, from \<^verbatim>\<open>src/vllm/vllm/v1/core/kv_cache_utils.py\<close>: the packing of a
  hash with its KV-cache group id, the extra keys of a block, the chain of block hashes of a request
  and its coarser view, and the methods of \<^verbatim>\<open>src/vllm/vllm/v1/request.py\<close> that maintain the chain.
  The memo table for prompt-embedding digests is not modelled, since it only caches a function of the
  block range.  The lemmas show that packing is a round trip, that under a collision-free hash
  function equal hashes mean equal token prefixes and equal extra keys, and that replacing the output
  of a text request leaves the same hashes as generating that output.
\<close>

section \<open>Packing a hash with a group id\<close>

definition to_bytes4 :: "nat \<Rightarrow> bytes" where
  "to_bytes4 g = map (\<lambda>k. word_of_nat (g div 256 ^ k)) [3, 2, 1, 0]"

definition int_from_bytes :: "bytes \<Rightarrow> nat" where
  "int_from_bytes bs = foldl (\<lambda>a b. 256 * a + unat b) 0 bs"

text \<open>\<^verbatim>\<open>int.to_bytes\<close> raises when the number does not fit.\<close>

definition make_block_hash_with_group_id :: "bytes \<Rightarrow> nat \<Rightarrow> bytes res" where
  "make_block_hash_with_group_id h g =
     (if g < 2 ^ 32 then Inr (h @ to_bytes4 g) else Inl OverflowError)"

definition get_block_hash :: "bytes \<Rightarrow> bytes" where
  "get_block_hash key = take (length key - 4) key"

definition get_group_id :: "bytes \<Rightarrow> nat" where
  "get_group_id key = int_from_bytes (drop (length key - 4) key)"

datatype external_block_hash = ExtBytes bytes | ExtInt nat

definition maybe_convert_block_hash :: "bool \<Rightarrow> bytes \<Rightarrow> external_block_hash" where
  "maybe_convert_block_hash use_int h =
     (if \<not> use_int then ExtBytes h else ExtInt (int_from_bytes h mod 2 ^ 64))"

definition init_none_hash :: "(hash_input \<Rightarrow> bytes) \<Rightarrow> string option \<Rightarrow> bytes \<Rightarrow> bytes" where
  "init_none_hash f hash_seed urandom32 =
     (case hash_seed of None \<Rightarrow> urandom32 | Some s \<Rightarrow> f (HashSeed s))"

section \<open>Extra keys\<close>

definition need_extra_keys :: "request \<Rightarrow> bool" where
  "need_extra_keys r \<longleftrightarrow> mm_features r \<noteq> [] \<or> req_lora r \<noteq> None \<or> cache_salt r \<noteq> None"

function mm_keys_loop ::
  "mm_feature list \<Rightarrow> nat \<Rightarrow> nat \<Rightarrow> nat \<Rightarrow> (extra_key list \<times> nat) res" where
  "mm_keys_loop fs start_tok end_tok idx =
     (if length fs \<le> idx then Inr ([], idx)
      else (let f = fs ! idx; off = mm_offset f; len = mm_length f
            in case mm_identifier f of
                 None \<Rightarrow> Inl AssertionError
               | Some ident \<Rightarrow>
                   if end_tok > off
                   then if start_tok \<ge> off + len then mm_keys_loop fs start_tok end_tok (idx + 1)
                        else (let key = KMm ident (int off - int start_tok)
                              in if end_tok \<ge> off + len
                                 then rbind (mm_keys_loop fs start_tok end_tok (idx + 1))
                                        (\<lambda>(ks, j). Inr (key # ks, j))
                                 else Inr ([key], idx))
                   else Inr ([], idx)))"
  by pat_completeness auto
termination by (relation "measure (\<lambda>(fs, _, _, idx). length fs - idx)") auto

declare mm_keys_loop.simps [simp del]

definition gen_mm_extra_hash_keys ::
  "request \<Rightarrow> nat \<Rightarrow> nat \<Rightarrow> int \<Rightarrow> (extra_key list \<times> int) res" where
  "gen_mm_extra_hash_keys r start_tok end_tok start_mm_idx =
     (let fs = mm_features r
      in if fs = [] then Inr ([], start_mm_idx)
         else if mm_offset (last fs) + mm_length (last fs) \<le> start_tok then Inr ([], start_mm_idx)
         else py_assert (start_mm_idx \<ge> 0 \<or> - start_mm_idx \<le> int (length fs))
           (let idx = (if start_mm_idx < 0 then int (length fs) + start_mm_idx else start_mm_idx)
            in rbind (mm_keys_loop fs start_tok end_tok (nat idx)) (\<lambda>(ks, j). Inr (ks, int j))))"

definition gen_lora_extra_hash_keys :: "request \<Rightarrow> extra_key list" where
  "gen_lora_extra_hash_keys r = (case req_lora r of None \<Rightarrow> [] | Some l \<Rightarrow> [KStr (lora_name l)])"

definition gen_prompt_embeds_extra_hash_keys :: "request \<Rightarrow> nat \<Rightarrow> nat \<Rightarrow> extra_key list" where
  "gen_prompt_embeds_extra_hash_keys r start_tok end_tok =
     (case prompt_embeds r of None \<Rightarrow> [] | Some (_, digest) \<Rightarrow> [KBytes (digest start_tok end_tok)])"

definition cache_salt_keys :: "request \<Rightarrow> nat \<Rightarrow> extra_key list" where
  "cache_salt_keys r start_tok =
     (case cache_salt r of
        None \<Rightarrow> []
      | Some salt \<Rightarrow> if start_tok = 0 \<and> salt \<noteq> [] then [KStr salt] else [])"

definition generate_block_hash_extra_keys ::
  "request \<Rightarrow> nat \<Rightarrow> nat \<Rightarrow> int \<Rightarrow> (extra_key list option \<times> int) res" where
  "generate_block_hash_extra_keys r start_tok end_tok start_mm_idx =
     rbind (gen_mm_extra_hash_keys r start_tok end_tok start_mm_idx) (\<lambda>(mm_keys, new_idx).
       let keys = gen_lora_extra_hash_keys r @ mm_keys @ cache_salt_keys r start_tok
                  @ gen_prompt_embeds_extra_hash_keys r start_tok end_tok
       in Inr (if keys = [] then None else Some keys, new_idx))"

section \<open>The chain of hashes\<close>

text \<open>\<^verbatim>\<open>if not parent_block_hash\<close> replaces both \<^verbatim>\<open>None\<close> and the empty byte string.\<close>

definition hash_block_tokens ::
  "block_hasher \<Rightarrow> bytes option \<Rightarrow> int list \<Rightarrow> extra_key list option \<Rightarrow> bytes" where
  "hash_block_tokens hs parent toks keys =
     hash_fn hs (HashBlock (case parent of
                              None \<Rightarrow> none_hash hs
                            | Some p \<Rightarrow> if p = [] then none_hash hs else p) toks keys)"

text \<open>The \<^verbatim>\<open>while True\<close> loop; with a block size of zero it would never advance.\<close>

function hasher_loop ::
  "block_hasher \<Rightarrow> request \<Rightarrow> nat \<Rightarrow> int \<Rightarrow> bytes option \<Rightarrow> bytes list res" where
  "hasher_loop hs r start_tok mm_idx prev =
     (let end_tok = start_tok + hasher_block_size hs
      in if end_tok > num_tokens r then Inr []
         else rbind (generate_block_hash_extra_keys r start_tok end_tok mm_idx) (\<lambda>(keys, mm_idx').
           let toks = drop start_tok (take end_tok (all_token_ids r));
               h = hash_block_tokens hs prev toks keys
           in if hasher_block_size hs = 0 then Inl Diverges
              else rbind (hasher_loop hs r end_tok mm_idx' (Some h)) (\<lambda>hs'. Inr (h # hs'))))"
  by pat_completeness auto
termination
  by (relation "measure (\<lambda>(hs, r, start_tok, _). Suc (num_tokens r) - start_tok)") auto

declare hasher_loop.simps [simp del]

definition request_block_hasher :: "block_hasher \<Rightarrow> request \<Rightarrow> bytes list res" where
  "request_block_hasher hs r =
     (let start_tok = length (block_hashes r) * hasher_block_size hs
      in if start_tok + hasher_block_size hs > num_tokens r then Inr []
         else hasher_loop hs r start_tok (if start_tok > 0 then -1 else 0)
                (if block_hashes r = [] then None else Some (last (block_hashes r))))"

definition update_block_hashes :: "request \<Rightarrow> request res" where
  "update_block_hashes r =
     (case req_block_hasher r of
        None \<Rightarrow> Inr r
      | Some hs \<Rightarrow> rbind (request_block_hasher hs r) (\<lambda>new.
          Inr (r\<lparr>block_hashes := block_hashes r @ new\<rparr>)))"

definition append_output_token_ids :: "request \<Rightarrow> int list \<Rightarrow> request res" where
  "append_output_token_ids r toks =
     update_block_hashes (r\<lparr>output_token_ids := output_token_ids r @ toks,
                            all_token_ids := all_token_ids r @ toks\<rparr>)"

definition reset_output_token_ids :: "request \<Rightarrow> int list \<Rightarrow> request res" where
  "reset_output_token_ids r toks =
     update_block_hashes
       (r\<lparr>output_token_ids := toks,
          all_token_ids := prompt_tokens (prompt_token_ids r) (num_prompt_tokens r) @ toks,
          block_hashes := []\<rparr>)"

text \<open>
  \<^verbatim>\<open>Request.__init__\<close>.  The pooling parameters are their \<^verbatim>\<open>skip_reading_prefix_cache\<close> entry.
\<close>

definition new_request ::
  "string \<Rightarrow> int list option \<Rightarrow> sampling_params option \<Rightarrow> bool option option \<Rightarrow> real \<Rightarrow>
   (nat \<times> (nat \<Rightarrow> nat \<Rightarrow> bytes)) option \<Rightarrow> mm_feature list \<Rightarrow> lora_request option \<Rightarrow> string option \<Rightarrow>
   int \<Rightarrow> block_hasher option \<Rightarrow> bool \<Rightarrow> bool \<Rightarrow> request res" where
  "new_request rid toks sp pp arrival embeds mm lora salt prio hasher resum abort =
     rbind (from_sampling_params sp) (\<lambda>smc.
     let structured = (case sp of Some s \<Rightarrow> structured_outputs s = Some True | None \<Rightarrow> False)
     in rbind (if pp \<noteq> None then Inr (1, WAITING)
               else (case sp of
                       None \<Rightarrow> Inl ValueError
                     | Some s \<Rightarrow> (case max_tokens s of
                          None \<Rightarrow> Inl AssertionError
                        | Some k \<Rightarrow> Inr (k, if structured then WAITING_FOR_STRUCTURED_OUTPUT_GRAMMAR
                                            else WAITING)))) (\<lambda>(maxt, st).
     rbind (length_from_prompt_token_ids_or_embeds toks embeds) (\<lambda>n.
     update_block_hashes
       \<lparr>request_id = rid, priority = prio, req_sampling_params = sp, is_pooling = (pp \<noteq> None),
        req_power_smc_config = smc,
        power_smc_child_info =
          (case smc of None \<Rightarrow> None | Some _ \<Rightarrow> parse_power_smc_child_request_id rid),
        req_lora = lora, use_structured_output = structured, arrival_time = arrival, status = st,
        req_stop_reason = None, req_max_tokens = maxt, prompt_token_ids = toks,
        prompt_embeds = embeds, num_prompt_tokens = n, output_token_ids = [],
        all_token_ids = prompt_tokens toks n, num_output_placeholders = 0,
        async_tokens_to_discard = 0, next_decode_eligible_step = 0, spec_token_ids = [],
        num_computed_tokens = 0, cache_salt = salt, mm_features = mm, is_prefill_chunk = False,
        num_nans_in_logits = 0, num_preemptions = 0, block_hashes = [], req_block_hasher = hasher,
        req_skip_reading_prefix_cache = get_skip_reading_prefix_cache sp pp, resumable = resum,
        abort_immediately = abort, streaming_queue = None\<rparr>)))"

text \<open>
  \<^verbatim>\<open>BlockHashListWithBlockSize\<close>, the coarser view of a hash list in which consecutive hashes are
  concatenated, beside the plain list.  A view with scale factor zero raises at its first use, which
  follows its construction at once.
\<close>

datatype block_hash_view = PlainHashes "bytes list" | ScaledHashes "bytes list" nat

definition block_hash_list_with_block_size :: "bytes list \<Rightarrow> nat \<Rightarrow> nat \<Rightarrow> block_hash_view res" where
  "block_hash_list_with_block_size hs hash_size target =
     (if hash_size = 0 then Inl ZeroDivisionError
      else py_assert (target mod hash_size = 0)
        (if target div hash_size = 0 then Inl ZeroDivisionError
         else Inr (ScaledHashes hs (target div hash_size))))"

fun view_len :: "block_hash_view \<Rightarrow> nat" where
  "view_len (PlainHashes hs) = length hs"
| "view_len (ScaledHashes hs scale) = length hs div scale"

fun view_get :: "block_hash_view \<Rightarrow> nat \<Rightarrow> bytes res" where
  "view_get (PlainHashes hs) i = list_get hs i"
| "view_get (ScaledHashes hs scale) i = Inr (concat (take scale (drop (i * scale) hs)))"

fun view_item :: "block_hash_view \<Rightarrow> nat \<Rightarrow> bytes" where
  "view_item (PlainHashes hs) i = hs ! i"
| "view_item (ScaledHashes hs scale) i = concat (take scale (drop (i * scale) hs))"

text \<open>The slice from an index on, and iteration.\<close>

definition view_from :: "block_hash_view \<Rightarrow> nat \<Rightarrow> bytes list" where
  "view_from v start = map (view_item v) [start..<view_len v]"

lemma view_from_plain: "view_from (PlainHashes hs) start = drop start hs"
  by (rule nth_equalityI) (simp_all add: view_from_def)

lemma length_view_from [simp]: "length (view_from v start) = view_len v - start"
  by (simp add: view_from_def)

lemma view_get_in_range: "i < view_len v \<Longrightarrow> view_get v i = Inr (view_item v i)"
  by (cases v) (simp_all add: list_get_def)

section \<open>Packing is a round trip\<close>

lemma length_to_bytes4 [simp]: "length (to_bytes4 g) = 4"
  by (simp add: to_bytes4_def)

lemma unat_byte: "unat (word_of_nat n :: byte) = n mod 256"
  by (simp add: unat_of_nat)

lemma int_from_bytes_to_bytes4:
  assumes "g < 2 ^ 32"
  shows "int_from_bytes (to_bytes4 g) = g"
proof -
  have split: "256 * (n div 256) + n mod 256 = n" for n :: nat by simp
  have top: "g div 16777216 mod 256 = g div 16777216" using assms by simp
  have "g div 16777216 = g div 65536 div 256" "g div 65536 = g div 256 div 256"
    by (simp_all add: div_mult2_eq[symmetric])
  then show ?thesis
    using split[of "g div 65536"] split[of "g div 256"] split[of g] top
    by (simp add: int_from_bytes_def to_bytes4_def unat_byte)
qed

lemma pack_unpack:
  assumes "make_block_hash_with_group_id h g = Inr key"
  shows "get_block_hash key = h" "get_group_id key = g"
  using assms int_from_bytes_to_bytes4[of g]
  by (auto simp: make_block_hash_with_group_id_def get_block_hash_def get_group_id_def split: if_splits)

lemma pack_inj:
  "make_block_hash_with_group_id h g = Inr key \<Longrightarrow> make_block_hash_with_group_id h' g' = Inr key \<Longrightarrow>
   h = h' \<and> g = g'"
  using pack_unpack by metis

section \<open>What is hashed\<close>

text \<open>The tokens and extra keys of the blocks, and the chain over them.\<close>

type_synonym block_content = "int list \<times> extra_key list option"

function hasher_contents :: "nat \<Rightarrow> request \<Rightarrow> nat \<Rightarrow> int \<Rightarrow> block_content list res" where
  "hasher_contents bs r start_tok mm_idx =
     (if start_tok + bs > num_tokens r then Inr []
      else rbind (generate_block_hash_extra_keys r start_tok (start_tok + bs) mm_idx) (\<lambda>(keys, mm_idx').
        if bs = 0 then Inl Diverges
        else rbind (hasher_contents bs r (start_tok + bs) mm_idx') (\<lambda>cs.
          Inr ((drop start_tok (take (start_tok + bs) (all_token_ids r)), keys) # cs))))"
  by pat_completeness auto
termination by (relation "measure (\<lambda>(bs, r, start_tok, _). Suc (num_tokens r) - start_tok)") auto

declare hasher_contents.simps [simp del]

fun chain_hashes :: "block_hasher \<Rightarrow> bytes option \<Rightarrow> block_content list \<Rightarrow> bytes list" where
  "chain_hashes hs prev [] = []"
| "chain_hashes hs prev ((toks, keys) # cs) =
     (let h = hash_block_tokens hs prev toks keys in h # chain_hashes hs (Some h) cs)"

lemma hasher_loop_contents:
  "hasher_loop hs r start_tok mm_idx prev =
   rbind (hasher_contents (hasher_block_size hs) r start_tok mm_idx) (\<lambda>cs. Inr (chain_hashes hs prev cs))"
proof (induction hs r start_tok mm_idx prev rule: hasher_loop.induct)
  case (1 hs r start_tok mm_idx prev)
  show ?case
  proof (cases "start_tok + hasher_block_size hs > num_tokens r \<or> hasher_block_size hs = 0")
    case True
    then show ?thesis
      by (subst hasher_loop.simps, subst hasher_contents.simps)
         (cases "generate_block_hash_extra_keys r start_tok (start_tok + hasher_block_size hs) mm_idx",
          auto simp: Let_def)
  next
    case False
    show ?thesis
    proof (cases "generate_block_hash_extra_keys r start_tok (start_tok + hasher_block_size hs) mm_idx")
      case (Inl e)
      then show ?thesis using False
        by (subst hasher_loop.simps, subst hasher_contents.simps) (simp add: Let_def)
    next
      case (Inr kx)
      obtain keys mm' where kx: "kx = (keys, mm')" by (cases kx)
      define toks h where "toks = drop start_tok (take (start_tok + hasher_block_size hs) (all_token_ids r))"
        and "h = hash_block_tokens hs prev toks keys"
      have IH: "hasher_loop hs r (start_tok + hasher_block_size hs) mm' (Some h) =
        rbind (hasher_contents (hasher_block_size hs) r (start_tok + hasher_block_size hs) mm')
          (\<lambda>cs. Inr (chain_hashes hs (Some h) cs))"
        using 1[OF refl] False kx unfolding toks_def h_def by simp
      have "hasher_loop hs r start_tok mm_idx prev =
            rbind (hasher_loop hs r (start_tok + hasher_block_size hs) mm' (Some h)) (\<lambda>l. Inr (h # l))"
        using False Inr kx by (subst hasher_loop.simps) (simp add: Let_def toks_def h_def)
      moreover have "hasher_contents (hasher_block_size hs) r start_tok mm_idx =
            rbind (hasher_contents (hasher_block_size hs) r (start_tok + hasher_block_size hs) mm')
              (\<lambda>cs. Inr ((toks, keys) # cs))"
        using False Inr kx by (subst hasher_contents.simps) (simp add: toks_def)
      ultimately show ?thesis unfolding IH
        by (cases "hasher_contents (hasher_block_size hs) r (start_tok + hasher_block_size hs) mm'")
           (simp_all add: h_def Let_def)
    qed
  qed
qed

lemma chain_hashes_append:
  "chain_hashes hs prev (xs @ ys) =
   chain_hashes hs prev xs @
   chain_hashes hs (if xs = [] then prev else Some (last (chain_hashes hs prev xs))) ys"
proof (induction xs arbitrary: prev)
  case (Cons x xs)
  obtain t k where x: "x = (t, k)" by (cases x)
  show ?case using Cons[of "Some (hash_block_tokens hs prev t k)"]
    by (cases xs) (auto simp: x Let_def)
qed simp

lemma length_chain_hashes [simp]: "length (chain_hashes hs prev cs) = length cs"
  by (induction cs arbitrary: prev) (auto simp: Let_def)

lemma chain_hashes_eq_Nil [simp]: "chain_hashes hs prev cs = [] \<longleftrightarrow> cs = []"
  by (cases cs) (auto simp: Let_def)

section \<open>Equal hashes mean equal prefixes\<close>

definition collision_free :: "block_hasher \<Rightarrow> bool" where
  "collision_free hs \<longleftrightarrow> inj (hash_fn hs) \<and> (\<forall>x. hash_fn hs x \<noteq> []) \<and> none_hash hs \<notin> range (hash_fn hs)"

lemma chain_hashes_nth_Suc:
  "i < length cs \<Longrightarrow> chain_hashes hs prev cs ! i =
   hash_block_tokens hs (if i = 0 then prev else Some (chain_hashes hs prev cs ! (i - 1)))
     (fst (cs ! i)) (snd (cs ! i))"
proof (induction cs arbitrary: prev i)
  case (Cons c cs)
  obtain t k where c: "c = (t, k)" by (cases c)
  show ?case
  proof (cases i)
    case 0
    then show ?thesis by (simp add: c Let_def)
  next
    case (Suc j)
    then show ?thesis using Cons.IH[of j "Some (hash_block_tokens hs prev t k)"] Cons.prems
      by (cases j) (simp_all add: c Let_def)
  qed
qed simp

lemma hash_block_tokens_inj:
  assumes "collision_free hs" "hash_block_tokens hs p t k = hash_block_tokens hs p' t' k'"
    "\<forall>x. p = Some x \<longrightarrow> x \<in> range (hash_fn hs)" "\<forall>x. p' = Some x \<longrightarrow> x \<in> range (hash_fn hs)"
  shows "p = p' \<and> t = t' \<and> k = k'"
proof -
  have range: "x \<noteq> [] \<and> x \<noteq> none_hash hs" if "x \<in> range (hash_fn hs)" for x
    using assms(1) that unfolding collision_free_def by (metis rangeE)
  have inj: "inj (hash_fn hs)" using assms(1) by (simp add: collision_free_def)
  have eff: "(case q of None \<Rightarrow> none_hash hs | Some x \<Rightarrow> if x = [] then none_hash hs else x) =
      (case q of None \<Rightarrow> none_hash hs | Some x \<Rightarrow> x)"
    if "\<forall>x. q = Some x \<longrightarrow> x \<in> range (hash_fn hs)" for q
    using range that by (cases q) auto
  have "HashBlock (case p of None \<Rightarrow> none_hash hs | Some x \<Rightarrow> x) t k =
        HashBlock (case p' of None \<Rightarrow> none_hash hs | Some x \<Rightarrow> x) t' k'"
    using assms(2) unfolding hash_block_tokens_def eff[OF assms(3)] eff[OF assms(4)] by (rule injD[OF inj])
  then show ?thesis using range assms(3,4) by (cases p; cases p') force+
qed

lemma chain_hashes_range:
  "i < length cs \<Longrightarrow> chain_hashes hs prev cs ! i \<in> range (hash_fn hs)"
  by (subst chain_hashes_nth_Suc) (simp_all add: hash_block_tokens_def)

lemma chain_hashes_inj:
  assumes cf: "collision_free hs"
  shows "i < length cs \<Longrightarrow> j < length cs' \<Longrightarrow>
    chain_hashes hs None cs ! i = chain_hashes hs None cs' ! j \<Longrightarrow>
    i = j \<and> take (Suc i) cs = take (Suc j) cs'"
proof (induction i arbitrary: j)
  case 0
  have e: "hash_block_tokens hs None (fst (cs ! 0)) (snd (cs ! 0)) =
        hash_block_tokens hs (if j = 0 then None else Some (chain_hashes hs None cs' ! (j - 1)))
          (fst (cs' ! j)) (snd (cs' ! j))"
    using 0 chain_hashes_nth_Suc[of 0 cs hs None] chain_hashes_nth_Suc[of j cs' hs None] by simp
  have "chain_hashes hs None cs' ! (j - 1) \<in> range (hash_fn hs)"
    using 0 by (intro chain_hashes_range) simp
  then have "None = (if j = 0 then None else Some (chain_hashes hs None cs' ! (j - 1))) \<and>
      fst (cs ! 0) = fst (cs' ! j) \<and> snd (cs ! 0) = snd (cs' ! j)"
    by (intro hash_block_tokens_inj[OF cf e]) simp_all
  then have "j = 0 \<and> cs ! 0 = cs' ! 0" by (auto split: if_splits intro: prod_eqI)
  then show ?case using 0 by (cases cs; cases cs') auto
next
  case (Suc i)
  have e: "hash_block_tokens hs (Some (chain_hashes hs None cs ! i)) (fst (cs ! Suc i)) (snd (cs ! Suc i)) =
        hash_block_tokens hs (if j = 0 then None else Some (chain_hashes hs None cs' ! (j - 1)))
          (fst (cs' ! j)) (snd (cs' ! j))"
    using Suc.prems chain_hashes_nth_Suc[of "Suc i" cs hs None] chain_hashes_nth_Suc[of j cs' hs None]
    by simp
  have "chain_hashes hs None cs' ! (j - 1) \<in> range (hash_fn hs)"
    "chain_hashes hs None cs ! i \<in> range (hash_fn hs)"
    using Suc.prems by (auto intro!: chain_hashes_range)
  then have "Some (chain_hashes hs None cs ! i) =
      (if j = 0 then None else Some (chain_hashes hs None cs' ! (j - 1))) \<and>
      fst (cs ! Suc i) = fst (cs' ! j) \<and> snd (cs ! Suc i) = snd (cs' ! j)"
    by (intro hash_block_tokens_inj[OF cf e]) simp_all
  then have j: "j \<noteq> 0" "chain_hashes hs None cs ! i = chain_hashes hs None cs' ! (j - 1)"
    and c: "cs ! Suc i = cs' ! j" by (auto split: if_splits intro: prod_eqI)
  obtain j0 where j0: "j = Suc j0" using j(1) by (cases j) auto
  have "i = j0 \<and> take (Suc i) cs = take (Suc j0) cs'"
    using Suc.prems j(2) by (intro Suc.IH) (simp_all add: j0)
  then show ?case using c Suc.prems by (auto simp: j0 take_Suc_conv_app_nth)
qed

lemma hasher_contents_step:
  assumes "hasher_contents bs r s mm = Inr cs" "\<not> s + bs > num_tokens r"
  obtains keys mm' cs' where "0 < bs"
    "generate_block_hash_extra_keys r s (s + bs) mm = Inr (keys, mm')"
    "hasher_contents bs r (s + bs) mm' = Inr cs'"
    "cs = (drop s (take (s + bs) (all_token_ids r)), keys) # cs'"
  using assms by (subst (asm) hasher_contents.simps) (auto simp: res_simps split: if_splits)

lemma hasher_contents_tokens:
  "hasher_contents bs r s mm = Inr cs \<Longrightarrow> k \<le> length cs \<Longrightarrow>
   concat (map fst (take k cs)) = take (k * bs) (drop s (all_token_ids r))"
proof (induction bs r s mm arbitrary: cs k rule: hasher_contents.induct)
  case (1 bs r s mm)
  show ?case
  proof (cases "s + bs > num_tokens r")
    case True
    then have "cs = []" using 1(2) by (subst (asm) hasher_contents.simps) simp
    then show ?thesis using 1(3) by simp
  next
    case False
    obtain keys mm' cs' where st: "0 < bs"
      "generate_block_hash_extra_keys r s (s + bs) mm = Inr (keys, mm')"
      "hasher_contents bs r (s + bs) mm' = Inr cs'"
      "cs = (drop s (take (s + bs) (all_token_ids r)), keys) # cs'"
      using hasher_contents_step[OF 1(2) False] .
    show ?thesis
    proof (cases k)
      case (Suc k')
      have "concat (map fst (take k' cs')) = take (k' * bs) (drop (s + bs) (all_token_ids r))"
        using 1(1)[OF False _ st(3)] st 1(3) Suc by simp
      moreover have "drop s (take (s + bs) (all_token_ids r)) = take bs (drop s (all_token_ids r))"
        unfolding take_drop by (simp add: add.commute)
      moreover have "drop (s + bs) (all_token_ids r) = drop bs (drop s (all_token_ids r))"
        by (simp add: add.commute)
      ultimately show ?thesis
        using take_add[of bs "k' * bs" "drop s (all_token_ids r)"] by (simp add: st(4) Suc del: drop_drop)
    qed simp
  qed
qed

lemma request_block_hasher_fresh:
  assumes "block_hashes r = []" "request_block_hasher hs r = Inr out"
  obtains cs where "hasher_contents (hasher_block_size hs) r 0 0 = Inr cs"
    "out = chain_hashes hs None cs"
proof (cases "hasher_block_size hs > num_tokens r")
  case True
  then show ?thesis
    using assms that[of "[]"] by (auto simp: request_block_hasher_def hasher_contents.simps[of _ _ 0])
next
  case False
  then show ?thesis
    using assms that by (auto simp: request_block_hasher_def hasher_loop_contents res_simps)
qed

section \<open>Text requests\<close>

text \<open>Without multi-modal inputs the keys of a block depend on its position only.\<close>

definition text_content :: "nat \<Rightarrow> request \<Rightarrow> nat \<Rightarrow> block_content" where
  "text_content bs r j =
     (drop (j * bs) (take (j * bs + bs) (all_token_ids r)),
      (let keys = gen_lora_extra_hash_keys r @ cache_salt_keys r (j * bs)
                  @ gen_prompt_embeds_extra_hash_keys r (j * bs) (j * bs + bs)
       in if keys = [] then None else Some keys))"

lemma text_extra_keys:
  "mm_features r = [] \<Longrightarrow>
   generate_block_hash_extra_keys r (j * bs) (j * bs + bs) mm = Inr (snd (text_content bs r j), mm)"
  by (simp add: generate_block_hash_extra_keys_def gen_mm_extra_hash_keys_def text_content_def Let_def)

lemma block_fits_iff: "0 < bs \<Longrightarrow> k * bs + bs \<le> n \<longleftrightarrow> k < n div bs" for bs :: nat
  by (simp add: less_eq_div_iff_mult_less_eq Suc_le_eq[symmetric] add.commute)

lemma text_contents:
  assumes mm: "mm_features r = []" and bs: "0 < bs"
  shows "hasher_contents bs r (k * bs) mmi = Inr (map (text_content bs r) [k..<num_tokens r div bs])"
proof (induction "num_tokens r div bs - k" arbitrary: k)
  case 0
  then have "num_tokens r < k * bs + bs" using block_fits_iff[OF bs, of k "num_tokens r"] by simp
  then show ?case using 0 by (subst hasher_contents.simps) simp
next
  case (Suc d)
  then have lt: "k < num_tokens r div bs" by simp
  then have fits: "\<not> num_tokens r < k * bs + bs" using block_fits_iff[OF bs, of k "num_tokens r"] by simp
  have "hasher_contents bs r (k * bs + bs) mmi = Inr (map (text_content bs r) [Suc k..<num_tokens r div bs])"
    using Suc(1)[of "Suc k"] Suc(2) by (simp add: add.commute)
  then show ?case
    using fits bs lt text_extra_keys[OF mm, of k bs mmi]
    by (subst hasher_contents.simps) (simp add: upt_rec[of k] text_content_def)
qed

definition full_hashes :: "block_hasher \<Rightarrow> request \<Rightarrow> bytes list" where
  "full_hashes hs r = chain_hashes hs None
     (map (text_content (hasher_block_size hs) r) [0..<num_tokens r div hasher_block_size hs])"

text \<open>A request whose stored hashes are those of its first blocks gets exactly the missing ones.\<close>

lemma update_block_hashes_text:
  assumes mm: "mm_features r = []" and hs: "req_block_hasher r = Some hs"
    and bs: "0 < hasher_block_size hs"
    and old: "block_hashes r = take k (full_hashes hs r)" "k \<le> num_tokens r div hasher_block_size hs"
  shows "update_block_hashes r = Inr (r\<lparr>block_hashes := full_hashes hs r\<rparr>)"
proof -
  let ?bs = "hasher_block_size hs" and ?n = "num_tokens r div hasher_block_size hs"
  let ?c = "\<lambda>a b. map (text_content ?bs r) [a..<b]"
  have split: "full_hashes hs r = chain_hashes hs None (?c 0 k) @
      chain_hashes hs (if k = 0 then None else Some (last (chain_hashes hs None (?c 0 k)))) (?c k ?n)"
  proof -
    have "[0..<?n] = [0..<k] @ [k..<?n]"
      using upt_add_eq_append[of 0 k "?n - k"] old(2) by simp
    then show ?thesis
      using chain_hashes_append[of hs None "?c 0 k" "?c k ?n"] unfolding full_hashes_def by simp
  qed
  have bh: "block_hashes r = chain_hashes hs None (?c 0 k)"
    unfolding old(1) split by simp
  have len: "length (block_hashes r) = k" unfolding bh by simp
  have "request_block_hasher hs r =
      Inr (chain_hashes hs (if k = 0 then None else Some (last (chain_hashes hs None (?c 0 k)))) (?c k ?n))"
  proof (cases "num_tokens r < k * ?bs + ?bs")
    case True
    then have e: "?c k ?n = []" using block_fits_iff[OF bs, of k "num_tokens r"] by simp
    show ?thesis unfolding e using True by (simp add: request_block_hasher_def len)
  next
    case False
    then show ?thesis
      using text_contents[OF mm bs, of k]
      by (auto simp: request_block_hasher_def len hasher_loop_contents bh)
  qed
  then show ?thesis using hs split by (simp add: update_block_hashes_def bh)
qed

lemma text_content_append:
  assumes "all_token_ids r' = all_token_ids r @ toks" "j < num_tokens r div bs" "0 < bs"
    "req_lora r' = req_lora r" "cache_salt r' = cache_salt r" "prompt_embeds r' = prompt_embeds r"
  shows "text_content bs r' j = text_content bs r j"
proof -
  have "j * bs + bs \<le> length (all_token_ids r)"
    using assms(2,3) block_fits_iff[of bs j "num_tokens r"] by (simp add: num_tokens_def)
  then show ?thesis
    using assms by (simp add: text_content_def gen_lora_extra_hash_keys_def cache_salt_keys_def
        gen_prompt_embeds_extra_hash_keys_def)
qed

lemma full_hashes_cong:
  assumes "all_token_ids r' = all_token_ids r" "req_lora r' = req_lora r"
    "cache_salt r' = cache_salt r" "prompt_embeds r' = prompt_embeds r"
  shows "full_hashes hs r' = full_hashes hs r"
proof -
  have "text_content bs r' = text_content bs r" for bs
    using assms by (intro ext) (simp add: text_content_def gen_lora_extra_hash_keys_def
        cache_salt_keys_def gen_prompt_embeds_extra_hash_keys_def)
  then show ?thesis using assms(1) by (simp add: full_hashes_def num_tokens_def)
qed

lemma full_hashes_append:
  assumes "all_token_ids r' = all_token_ids r @ toks" "0 < hasher_block_size hs"
    "req_lora r' = req_lora r" "cache_salt r' = cache_salt r" "prompt_embeds r' = prompt_embeds r"
  shows "full_hashes hs r = take (num_tokens r div hasher_block_size hs) (full_hashes hs r')"
proof -
  let ?bs = "hasher_block_size hs"
  let ?k = "num_tokens r div ?bs" and ?n = "num_tokens r' div ?bs"
  have le: "?k \<le> ?n" using assms(1) by (simp add: num_tokens_def div_le_mono)
  have "[0..<?n] = [0..<?k] @ [?k..<?n]" using upt_add_eq_append[of 0 ?k "?n - ?k"] le by simp
  moreover have "map (text_content ?bs r') [0..<?k] = map (text_content ?bs r) [0..<?k]"
    using text_content_append[OF assms(1) _ assms(2-5)] by simp
  ultimately have "full_hashes hs r' = chain_hashes hs None (map (text_content ?bs r) [0..<?k] @
      map (text_content ?bs r') [?k..<?n])"
    unfolding full_hashes_def by (simp only: map_append)
  then show ?thesis unfolding chain_hashes_append by (simp add: full_hashes_def)
qed

section \<open>A concrete collision-free hasher\<close>

text \<open>
  An injective hash function built from an enumeration of the inputs, and a request that is otherwise
  empty.  They show that the hypotheses of the properties can hold.
\<close>

instance extra_key :: countable
  by countable_datatype

instance hash_input :: countable
  by countable_datatype

definition unary_hasher :: "nat \<Rightarrow> block_hasher" where
  "unary_hasher bs = \<lparr>hasher_block_size = bs, hash_fn = (\<lambda>x. replicate (Suc (to_nat x)) 0),
     none_hash = [1]\<rparr>"

lemma unary_hasher_collision_free: "collision_free (unary_hasher bs)"
proof -
  have "inj (\<lambda>x :: hash_input. replicate (Suc (to_nat x)) (0 :: byte))"
    by (auto intro!: injI dest!: arg_cong[of _ _ length])
  then show ?thesis by (auto simp: collision_free_def unary_hasher_def)
qed

definition plain_request :: "int list \<Rightarrow> mm_feature list \<Rightarrow> block_hasher \<Rightarrow> request" where
  "plain_request toks mm hs =
     \<lparr>request_id = ''r'', priority = 0, req_sampling_params = None, is_pooling = False,
      req_power_smc_config = None, power_smc_child_info = None, req_lora = None,
      use_structured_output = False, arrival_time = 0, status = WAITING, req_stop_reason = None,
      req_max_tokens = 16, prompt_token_ids = Some toks, prompt_embeds = None,
      num_prompt_tokens = length toks, output_token_ids = [], all_token_ids = toks,
      num_output_placeholders = 0, async_tokens_to_discard = 0, next_decode_eligible_step = 0,
      spec_token_ids = [], num_computed_tokens = 0, cache_salt = None, mm_features = mm,
      is_prefill_chunk = False, num_nans_in_logits = 0, num_preemptions = 0, block_hashes = [],
      req_block_hasher = Some hs, req_skip_reading_prefix_cache = False, resumable = False,
      abort_immediately = False,
      streaming_queue = None\<rparr>"

lemmas hashing_defs = request_block_hasher_def hasher_loop.simps generate_block_hash_extra_keys_def
  gen_mm_extra_hash_keys_def gen_lora_extra_hash_keys_def cache_salt_keys_def
  gen_prompt_embeds_extra_hash_keys_def num_tokens_def

lemma plain_request_one_block:
  "request_block_hasher (unary_hasher 2) (plain_request [a, b] [] (unary_hasher 2)) =
   Inr [hash_block_tokens (unary_hasher 2) None [a, b] None]"
  by (simp add: hashing_defs plain_request_def unary_hasher_def)

section \<open>Properties\<close>

text \<open>
  C24. Packing a block hash with a group id is a round trip: whenever the packing returns a key, both
  the hash and the group id are read back from it, so keys of different hashes or groups differ; and
  it returns for every group id below \<^verbatim>\<open>2 ** 32\<close>.
\<close>

theorem group_id_roundtrip:
  assumes "g < 2 ^ 32"
  shows "\<exists>key. make_block_hash_with_group_id h g = Inr key \<and> get_block_hash key = h \<and> get_group_id key = g"
  using assms pack_unpack[of h g] by (auto simp: make_block_hash_with_group_id_def)

theorem group_id_roundtrip_witness:
  "\<exists>key. make_block_hash_with_group_id [1, 2, 3] 70000 = Inr key \<and> get_block_hash key = [1, 2, 3] \<and>
         get_group_id key = 70000"
  by (rule group_id_roundtrip) simp

text \<open>
  C9. Equal hashes mean equal prefixes.  With a collision-free hash function (injective, never empty,
  never the seed hash), if two freshly hashed requests have the same block hash at positions \<open>i\<close> and
  \<open>j\<close>, then the positions are the same, the tokens of the first \<open>i + 1\<close> blocks are the same, and so
  are the extra keys that were hashed with each of these blocks.
\<close>

theorem equal_hash_equal_prefix:
  assumes "collision_free hs" "block_hashes r = []" "block_hashes r' = []"
    "request_block_hasher hs r = Inr out" "request_block_hasher hs r' = Inr out'"
    "i < length out" "j < length out'" "out ! i = out' ! j"
  shows "i = j \<and>
    take (Suc i * hasher_block_size hs) (all_token_ids r) =
      take (Suc i * hasher_block_size hs) (all_token_ids r') \<and>
    (\<exists>cs cs'. hasher_contents (hasher_block_size hs) r 0 0 = Inr cs \<and>
              hasher_contents (hasher_block_size hs) r' 0 0 = Inr cs' \<and>
              map snd (take (Suc i) cs) = map snd (take (Suc i) cs'))"
proof -
  let ?bs = "hasher_block_size hs"
  obtain cs where cs: "hasher_contents ?bs r 0 0 = Inr cs" "out = chain_hashes hs None cs"
    using request_block_hasher_fresh[OF assms(2,4)] .
  obtain cs' where cs': "hasher_contents ?bs r' 0 0 = Inr cs'" "out' = chain_hashes hs None cs'"
    using request_block_hasher_fresh[OF assms(3,5)] .
  have eq: "i = j" "take (Suc i) cs = take (Suc i) cs'"
    using chain_hashes_inj[OF assms(1), of i cs j cs'] assms(6-8) cs(2) cs'(2) by auto
  have "take (Suc i * ?bs) (all_token_ids r) = take (Suc i * ?bs) (all_token_ids r')"
    using hasher_contents_tokens[OF cs(1), of "Suc i"] hasher_contents_tokens[OF cs'(1), of "Suc i"]
      assms(6,7) cs(2) cs'(2) eq by (metis Suc_leI drop_0 length_chain_hashes)
  then show ?thesis using eq cs(1) cs'(1) by auto
qed

theorem equal_hash_equal_prefix_witness:
  "(0 :: nat) = 0 \<and>
    take (Suc 0 * hasher_block_size (unary_hasher 2))
      (all_token_ids (plain_request [5, 6] [] (unary_hasher 2))) =
    take (Suc 0 * hasher_block_size (unary_hasher 2))
      (all_token_ids (plain_request [5, 6] [] (unary_hasher 2))) \<and>
    (\<exists>cs cs'. hasher_contents (hasher_block_size (unary_hasher 2))
                (plain_request [5, 6] [] (unary_hasher 2)) 0 0 = Inr cs \<and>
              hasher_contents (hasher_block_size (unary_hasher 2))
                (plain_request [5, 6] [] (unary_hasher 2)) 0 0 = Inr cs' \<and>
              map snd (take (Suc 0) cs) = map snd (take (Suc 0) cs'))"
  by (rule equal_hash_equal_prefix[OF unary_hasher_collision_free _ _ plain_request_one_block
        plain_request_one_block]) (simp_all add: plain_request_def)

text \<open>
  C22. Replacing the output of a text request is hashing-neutral: for a request without multi-modal
  inputs whose hashes are up to date, resetting the output to an extension of it gives exactly the
  request that generating the extension gives, and its hashes are again those of all its full blocks.
\<close>

theorem reset_equals_generate:
  assumes "mm_features r = []" "req_block_hasher r = Some hs" "0 < hasher_block_size hs"
    "block_hashes r = full_hashes hs r"
    "all_token_ids r = prompt_tokens (prompt_token_ids r) (num_prompt_tokens r) @ output_token_ids r"
  shows "\<exists>r'. append_output_token_ids r toks = Inr r' \<and>
              reset_output_token_ids r (output_token_ids r @ toks) = Inr r' \<and>
              block_hashes r' = full_hashes hs r' \<and> output_token_ids r' = output_token_ids r @ toks"
proof -
  define a where "a = r\<lparr>output_token_ids := output_token_ids r @ toks, all_token_ids := all_token_ids r @ toks\<rparr>"
  define b where "b = r\<lparr>output_token_ids := output_token_ids r @ toks,
     all_token_ids := prompt_tokens (prompt_token_ids r) (num_prompt_tokens r) @ output_token_ids r @ toks,
     block_hashes := []\<rparr>"
  have same: "full_hashes hs b = full_hashes hs a"
    by (rule full_hashes_cong) (use assms(5) in \<open>simp_all add: a_def b_def\<close>)
  have le: "num_tokens r div hasher_block_size hs \<le> num_tokens a div hasher_block_size hs"
    by (simp add: a_def num_tokens_def div_le_mono)
  have "update_block_hashes a = Inr (a\<lparr>block_hashes := full_hashes hs a\<rparr>)"
    by (rule update_block_hashes_text[OF _ _ assms(3) _ le])
       (use assms full_hashes_append[of a r toks hs] in \<open>simp_all add: a_def\<close>)
  moreover have "update_block_hashes b = Inr (b\<lparr>block_hashes := full_hashes hs b\<rparr>)"
    by (rule update_block_hashes_text[of _ _ 0]) (use assms in \<open>simp_all add: b_def\<close>)
  moreover have "b\<lparr>block_hashes := full_hashes hs a\<rparr> = a\<lparr>block_hashes := full_hashes hs a\<rparr>"
    using assms(5) by (simp add: a_def b_def)
  moreover have "full_hashes hs (a\<lparr>block_hashes := x\<rparr>) = full_hashes hs a" for x
    by (rule full_hashes_cong) simp_all
  ultimately show ?thesis
    using same by (simp add: append_output_token_ids_def reset_output_token_ids_def a_def[symmetric]
        b_def[symmetric]) (simp add: a_def)
qed

theorem reset_equals_generate_witness:
  "\<exists>r'. append_output_token_ids (plain_request [5] [] (unary_hasher 2)) [6, 7] = Inr r' \<and>
        reset_output_token_ids (plain_request [5] [] (unary_hasher 2))
          (output_token_ids (plain_request [5] [] (unary_hasher 2)) @ [6, 7]) = Inr r' \<and>
        block_hashes r' = full_hashes (unary_hasher 2) r' \<and>
        output_token_ids r' = output_token_ids (plain_request [5] [] (unary_hasher 2)) @ [6, 7]"
  by (rule reset_equals_generate)
     (simp_all add: plain_request_def full_hashes_def num_tokens_def prompt_tokens_def unary_hasher_def)

text \<open>
  C34. A LoRA name and a cache salt are hashed alike.  For every hash function, the first block of a
  request served with a LoRA adapter has the same hash as the first block of a request for the base
  model that has the same tokens and a cache salt equal to the name of the adapter.
\<close>

theorem lora_salt_collision:
  fixes hs :: block_hasher and l :: lora_request
  assumes "0 < hasher_block_size hs" "length toks = hasher_block_size hs" "lora_name l \<noteq> []"
  shows "\<exists>h. request_block_hasher hs ((plain_request toks [] hs)\<lparr>req_lora := Some l\<rparr>) = Inr [h] \<and>
             request_block_hasher hs ((plain_request toks [] hs)\<lparr>cache_salt := Some (lora_name l)\<rparr>) = Inr [h]"
  using assms by (simp add: hashing_defs plain_request_def)

theorem lora_salt_collision_witness:
  "\<exists>h. request_block_hasher (unary_hasher 2)
         ((plain_request [5, 6] [] (unary_hasher 2))\<lparr>req_lora := Some \<lparr>lora_name = ''tenant'', adapter_id = 1\<rparr>\<rparr>) =
       Inr [h] \<and>
       request_block_hasher (unary_hasher 2)
         ((plain_request [5, 6] [] (unary_hasher 2))
            \<lparr>cache_salt := Some (lora_name \<lparr>lora_name = ''tenant'', adapter_id = 1\<rparr>)\<rparr>) = Inr [h]"
  by (rule lora_salt_collision) (simp_all add: unary_hasher_def)

definition two_images :: "string \<Rightarrow> mm_feature list" where
  "two_images first =
     [\<lparr>mm_identifier = Some first, mm_offset = 4, mm_length = 1, mm_is_embed = None\<rparr>,
      \<lparr>mm_identifier = Some ''second'', mm_offset = 5, mm_length = 1, mm_is_embed = None\<rparr>]"

definition hashed_prompt :: "block_hasher \<Rightarrow> string \<Rightarrow> request" where
  "hashed_prompt hs first =
     (plain_request [1, 2, 3, 4, 9, 9] (two_images first) hs)
       \<lparr>block_hashes := [hash_block_tokens hs None [1, 2, 3, 4] None]\<rparr>"



end
