(* ===== verification/Pool_Interface.thy ===== *)
theory Pool_Interface
  imports Prelude
begin

text \<open>
  What the KV-cache managers rely on in the block pool, as an interface: reference-counted blocks that
  are allocated, shared and released, and one placeholder block that is not counted.  A client keeps
  a ledger that says which blocks each of its owners holds; the lemmas of the locale
  \<open>ref_counted_pool\<close> say how the ledger and the reference counts move together, once for every client.
\<close>

section \<open>Ledgers\<close>

definition total_count :: "('r \<Rightarrow> 'b list) \<Rightarrow> 'b \<Rightarrow> nat" where
  "total_count own b = (\<Sum>r | own r \<noteq> []. count_list (own r) b)"

lemma total_count_superset:
  assumes "finite A" "{r. own r \<noteq> []} \<subseteq> A"
  shows "total_count own b = (\<Sum>r \<in> A. count_list (own r) b)"
  unfolding total_count_def using assms by (intro sum.mono_neutral_left) auto

lemma total_count_upd:
  assumes "finite {r. own r \<noteq> []}"
  shows "total_count (own(r := l)) b + count_list (own r) b = total_count own b + count_list l b"
proof -
  let ?A = "insert r {r. own r \<noteq> []}"
  have A: "finite ?A" using assms by simp
  have "total_count (own(r := l)) b = (\<Sum>s \<in> ?A. count_list ((own(r := l)) s) b)"
    using A by (rule total_count_superset) auto
  moreover have "total_count own b = (\<Sum>s \<in> ?A. count_list (own s) b)"
    using A by (rule total_count_superset) auto
  moreover have "(\<Sum>s \<in> ?A - {r}. count_list ((own(r := l)) s) b) = (\<Sum>s \<in> ?A - {r}. count_list (own s) b)"
    by (rule sum.cong) auto
  ultimately show ?thesis
    using A by (simp add: sum.remove[of ?A r])
qed

lemma total_count_ge:
  assumes "finite {r. own r \<noteq> []}"
  shows "count_list (own r) b \<le> total_count own b"
proof (cases "own r = []")
  case False
  then show ?thesis unfolding total_count_def using assms by (intro member_le_sum) auto
qed simp

lemma total_count_pos:
  "finite {r. own r \<noteq> []} \<Longrightarrow> b \<in> set (own r) \<Longrightarrow> 0 < total_count own b"
  using total_count_ge[of own r b] by (metis count_list_0_iff gr0I le_zero_eq)

text \<open>
  A ledger agrees with the reference counts: every owner holds a real block at most once, and the count
  of a real block is the number of owners that hold it.
\<close>

definition holding_ok :: "('b \<Rightarrow> bool) \<Rightarrow> 'b \<Rightarrow> 'b list \<Rightarrow> bool" where
  "holding_ok okb nul l \<longleftrightarrow> distinct (filter (\<lambda>b. b \<noteq> nul) l) \<and> (\<forall>b \<in> set l. b = nul \<or> okb b)"

definition ledger_ok :: "('b \<Rightarrow> bool) \<Rightarrow> 'b \<Rightarrow> ('b \<Rightarrow> int) \<Rightarrow> ('r \<Rightarrow> 'b list) \<Rightarrow> bool" where
  "ledger_ok okb nul rc own \<longleftrightarrow>
     finite {r. own r \<noteq> []} \<and> (\<forall>r. holding_ok okb nul (own r)) \<and>
     (\<forall>b. okb b \<longrightarrow> rc b = int (total_count own b))"

lemma ledger_okD:
  assumes "ledger_ok okb nul rc own"
  shows "finite {r. own r \<noteq> []}" "holding_ok okb nul (own r)" "okb b \<Longrightarrow> rc b = int (total_count own b)"
  using assms by (simp_all add: ledger_ok_def)

lemma holding_count:
  "holding_ok okb nul l \<Longrightarrow> b \<noteq> nul \<Longrightarrow> count_list l b = (if b \<in> set l then 1 else 0)"
proof -
  assume h: "holding_ok okb nul l" and b: "b \<noteq> nul"
  have "count_list (filter (\<lambda>c. c \<noteq> nul) l) b = count_list l b" using b by (induction l) auto
  then show ?thesis
    using count_list_distinct[of "filter (\<lambda>c. c \<noteq> nul) l" b] h b by (auto simp: holding_ok_def)
qed

lemma holding_ok_Nil [simp]: "holding_ok okb nul []"
  by (simp add: holding_ok_def)

lemma holding_ok_append:
  "holding_ok okb nul (xs @ ys) \<longleftrightarrow>
     holding_ok okb nul xs \<and> holding_ok okb nul ys \<and> (\<forall>b \<in> set xs \<inter> set ys. b = nul)"
  by (auto simp: holding_ok_def)

lemma holding_ok_take: "holding_ok okb nul l \<Longrightarrow> holding_ok okb nul (take n l)"
  by (metis append_take_drop_id holding_ok_append)

lemma holding_ok_drop: "holding_ok okb nul l \<Longrightarrow> holding_ok okb nul (drop n l)"
  by (metis append_take_drop_id holding_ok_append)

lemma holding_ok_mset: "mset xs = mset ys \<Longrightarrow> holding_ok okb nul xs = holding_ok okb nul ys"
proof -
  assume m: "mset xs = mset ys"
  have "mset (filter (\<lambda>b. b \<noteq> nul) xs) = mset (filter (\<lambda>b. b \<noteq> nul) ys)" using m by simp
  then have "distinct (filter (\<lambda>b. b \<noteq> nul) xs) = distinct (filter (\<lambda>b. b \<noteq> nul) ys)"
    by (rule mset_eq_imp_distinct_iff)
  then show ?thesis using mset_eq_setD[OF m] by (simp add: holding_ok_def)
qed

lemma holding_ok_count:
  "holding_ok okb nul l \<longleftrightarrow> (\<forall>b. b \<noteq> nul \<longrightarrow> count_list l b \<le> 1) \<and> (\<forall>b \<in> set l. b = nul \<or> okb b)"
proof (induction l)
  case (Cons a l)
  have "count_list l a \<le> 0 \<longleftrightarrow> a \<notin> set l" by (simp add: count_list_0_iff)
  then show ?case using Cons.IH unfolding holding_ok_def by (auto simp: count_list_0_iff split: if_splits)
qed simp

lemma holding_ok_le:
  assumes "holding_ok okb nul l" and le: "\<And>b. b \<noteq> nul \<Longrightarrow> count_list l' b \<le> count_list l b"
  shows "holding_ok okb nul l'"
proof -
  have "b \<in> set l" if "b \<in> set l'" "b \<noteq> nul" for b
    using le[OF that(2)] that(1) by (metis count_list_0_iff le_zero_eq)
  then show ?thesis using assms by (auto simp: holding_ok_count intro: le_trans)
qed

text \<open>Changing one owner's list by as much as the counts move keeps the ledger right.\<close>

lemma ledger_ok_move:
  assumes led: "ledger_ok okb nul rc own" and l: "holding_ok okb nul l"
    and rc: "\<And>b. okb b \<Longrightarrow> rc' b + int (count_list (own r) b) = rc b + int (count_list l b)"
  shows "ledger_ok okb nul rc' (own(r := l))"
proof -
  note fin = ledger_okD(1)[OF led]
  have "finite {s. (own(r := l)) s \<noteq> []}"
    by (rule finite_subset[of _ "insert r {r. own r \<noteq> []}"]) (use fin in auto)
  moreover have "rc' b = int (total_count (own(r := l)) b)" if "okb b" for b
    using rc[OF that] ledger_okD(3)[OF led that] total_count_upd[OF fin, of r l b] by linarith
  ultimately show ?thesis using led l by (auto simp: ledger_ok_def)
qed

section \<open>The interface\<close>

locale ref_counted_pool =
  fixes good :: "'p \<Rightarrow> bool"
    and okb :: "'p \<Rightarrow> 'b \<Rightarrow> bool"
    and nul :: "'p \<Rightarrow> 'b"
    and rc :: "'p \<Rightarrow> 'b \<Rightarrow> int"
    and avail :: "'p \<Rightarrow> int"
    and alloc :: "int \<Rightarrow> 'p \<Rightarrow> ('b list \<times> 'p) res"
    and share :: "'b list \<Rightarrow> 'p \<Rightarrow> 'p res"
    and release :: "'b list \<Rightarrow> bool \<Rightarrow> 'p \<Rightarrow> 'p res"
  assumes law_null: "good p \<Longrightarrow> \<not> okb p (nul p)"
    and law_finite: "good p \<Longrightarrow> finite {b. okb p b}"
    and law_avail: "good p \<Longrightarrow> avail p = int (card {b. okb p b \<and> rc p b = 0})"
    and law_alloc: "good p \<Longrightarrow> int n \<le> avail p \<Longrightarrow>
      \<exists>bs p'. alloc (int n) p = Inr (bs, p') \<and> good p' \<and> okb p' = okb p \<and> nul p' = nul p \<and>
        length bs = n \<and> distinct bs \<and> (\<forall>b \<in> set bs. okb p b \<and> rc p b = 0) \<and>
        (\<forall>b. rc p' b = rc p b + int (count_list bs b))"
    and law_alloc_fail: "good p \<Longrightarrow> avail p < int n \<Longrightarrow> alloc (int n) p = Inl ValueError"
    and law_share: "good p \<Longrightarrow> \<forall>b \<in> set bs. b = nul p \<or> okb p b \<Longrightarrow>
      \<exists>p'. share bs p = Inr p' \<and> good p' \<and> okb p' = okb p \<and> nul p' = nul p \<and>
        (\<forall>b. rc p' b = rc p b + int (count_list bs b))"
    and law_release: "good p \<Longrightarrow> holding_ok (okb p) (nul p) bs \<Longrightarrow>
      \<forall>b \<in> set bs. okb p b \<longrightarrow> 1 \<le> rc p b \<Longrightarrow>
      \<exists>p'. release bs front p = Inr p' \<and> good p' \<and> okb p' = okb p \<and> nul p' = nul p \<and>
        (\<forall>b. rc p' b = rc p b - int (count_list bs b))"
begin

text \<open>An owner that takes new blocks.\<close>

lemma ledger_alloc:
  assumes good: "good p" and led: "ledger_ok (okb p) (nul p) (rc p) own" and n: "int n \<le> avail p"
  shows "\<exists>bs p'. alloc (int n) p = Inr (bs, p') \<and> good p' \<and> okb p' = okb p \<and> nul p' = nul p \<and>
    length bs = n \<and> distinct bs \<and> (\<forall>b \<in> set bs. okb p b \<and> (\<forall>r. b \<notin> set (own r))) \<and>
    avail p' = avail p - int n \<and> (\<forall>b. rc p b \<le> rc p' b) \<and>
    ledger_ok (okb p') (nul p') (rc p') (own(r := own r @ bs))"
proof -
  obtain bs p' where a: "alloc (int n) p = Inr (bs, p')" "good p'" "okb p' = okb p" "nul p' = nul p"
    "length bs = n" "distinct bs" "\<forall>b \<in> set bs. okb p b \<and> rc p b = 0"
    "\<And>b. rc p' b = rc p b + int (count_list bs b)" using law_alloc[OF good n] by blast
  have unheld: "b \<notin> set (own s)" if "b \<in> set bs" for b s
  proof
    assume "b \<in> set (own s)"
    then have "0 < total_count own b" using total_count_pos[OF ledger_okD(1)[OF led]] by blast
    then show False using a(7) that ledger_okD(3)[OF led, of b] by simp
  qed
  have "holding_ok (okb p) (nul p) bs" using a(6,7) by (simp add: holding_ok_def)
  then have "holding_ok (okb p) (nul p) (own r @ bs)"
    using ledger_okD(2)[OF led, of r] unheld by (auto simp: holding_ok_append)
  then have led': "ledger_ok (okb p) (nul p) (rc p') (own(r := own r @ bs))"
    by (rule ledger_ok_move[OF led]) (simp add: a(8))
  have "{b. okb p b \<and> rc p b = 0} = set bs \<union> {b. okb p b \<and> rc p' b = 0}"
    using a(7,8) count_list_distinct[OF a(6)] by auto
  moreover have "set bs \<inter> {b. okb p b \<and> rc p' b = 0} = {}"
    using a(7,8) count_list_distinct[OF a(6)] by auto
  moreover have "finite {b. okb p b \<and> rc p' b = 0}"
    using law_finite[OF good] by (rule rev_finite_subset) auto
  ultimately have "card {b. okb p b \<and> rc p b = 0} = n + card {b. okb p b \<and> rc p' b = 0}"
    using a(5,6) by (simp add: card_Un_disjoint distinct_card)
  then have "avail p' = avail p - int n" using law_avail[OF good] law_avail[OF a(2)] a(3) by simp
  moreover have "\<forall>b \<in> set bs. okb p b \<and> (\<forall>r. b \<notin> set (own r))" using a(7) unheld by blast
  moreover have "\<forall>b. rc p b \<le> rc p' b" by (simp add: a(8))
  ultimately show ?thesis using a(1-6) led'[folded a(3,4)]
    by (intro exI[of _ bs] exI[of _ p'] conjI)
qed

text \<open>An owner that takes a further reference to blocks that are there.\<close>

lemma ledger_share:
  assumes good: "good p" and led: "ledger_ok (okb p) (nul p) (rc p) own"
    and bs: "\<forall>b \<in> set bs. b = nul p \<or> okb p b" and l: "holding_ok (okb p) (nul p) l"
    and cnt: "\<And>b. okb p b \<Longrightarrow> count_list l b = count_list (own r) b + count_list bs b"
  shows "\<exists>p'. share bs p = Inr p' \<and> good p' \<and> okb p' = okb p \<and> nul p' = nul p \<and>
    avail p - int (length (filter (\<lambda>b. okb p b \<and> rc p b = 0) bs)) \<le> avail p' \<and>
    (\<forall>b. rc p b \<le> rc p' b) \<and> ledger_ok (okb p') (nul p') (rc p') (own(r := l))"
proof -
  obtain p' where p': "share bs p = Inr p'" "good p'" "okb p' = okb p" "nul p' = nul p"
    "\<And>b. rc p' b = rc p b + int (count_list bs b)" using law_share[OF good bs] by blast
  have "ledger_ok (okb p) (nul p) (rc p') (own(r := l))"
    by (rule ledger_ok_move[OF led l]) (simp add: p'(5) cnt)
  moreover have "avail p - int (length (filter (\<lambda>b. okb p b \<and> rc p b = 0) bs)) \<le> avail p'"
  proof -
    let ?F = "\<lambda>q. {b. okb p b \<and> rc q b = 0}"
    have fin: "finite (?F q)" for q using law_finite[OF good] by (rule rev_finite_subset) auto
    have nn: "0 \<le> rc p b" if "okb p b" for b using ledger_okD(3)[OF led that] by simp
    have "?F p \<subseteq> ?F p' \<union> set (filter (\<lambda>b. okb p b \<and> rc p b = 0) bs)"
      using p'(5) by (auto simp: count_list_0_iff)
    then have "card (?F p) \<le> card (?F p' \<union> set (filter (\<lambda>b. okb p b \<and> rc p b = 0) bs))"
      using fin by (intro card_mono) simp_all
    also have "\<dots> \<le> card (?F p') + length (filter (\<lambda>b. okb p b \<and> rc p b = 0) bs)"
      using card_Un_le[of "?F p'"] card_length[of "filter (\<lambda>b. okb p b \<and> rc p b = 0) bs"]
      by (meson add_left_mono le_trans)
    finally show ?thesis using law_avail[OF good] law_avail[OF p'(2)] p'(3) by simp
  qed
  moreover have "\<forall>b. rc p b \<le> rc p' b" by (simp add: p'(5))
  ultimately show ?thesis using p'(1-4) by (intro exI[of _ p'] conjI) (simp_all only: p'(3,4) simp_thms)
qed

text \<open>An owner that gives blocks back: never a block whose count is not positive.\<close>

lemma ledger_release:
  assumes good: "good p" and led: "ledger_ok (okb p) (nul p) (rc p) own"
    and l: "holding_ok (okb p) (nul p) l" and bs: "holding_ok (okb p) (nul p) bs"
    and cnt: "\<And>b. okb p b \<Longrightarrow> count_list (own r) b = count_list l b + count_list bs b"
  shows "\<exists>p'. release bs front p = Inr p' \<and> good p' \<and> okb p' = okb p \<and> nul p' = nul p \<and>
    ledger_ok (okb p') (nul p') (rc p') (own(r := l)) \<and> avail p \<le> avail p' \<and>
    (\<forall>b. rc p' b = rc p b - int (count_list bs b))"
proof -
  have "1 \<le> rc p b" if "b \<in> set bs" "okb p b" for b
  proof -
    have "0 < count_list bs b" using that(1) by (metis count_list_0_iff gr0I)
    then have "0 < count_list (own r) b" using cnt[OF that(2)] by simp
    then have "0 < total_count own b" using total_count_ge[OF ledger_okD(1)[OF led], of r b] by linarith
    then show ?thesis using ledger_okD(3)[OF led that(2)] by simp
  qed
  then obtain p' where p': "release bs front p = Inr p'" "good p'" "okb p' = okb p" "nul p' = nul p"
    "\<And>b. rc p' b = rc p b - int (count_list bs b)" using law_release[OF good bs, of front] by blast
  have "ledger_ok (okb p) (nul p) (rc p') (own(r := l))"
    by (rule ledger_ok_move[OF led l]) (simp add: p'(5) cnt)
  moreover have "avail p \<le> avail p'"
  proof -
    have nn: "0 \<le> rc p' b" if "okb p b" for b
      using calculation that by (simp add: ledger_ok_def)
    have "{b. okb p b \<and> rc p b = 0} \<subseteq> {b. okb p b \<and> rc p' b = 0}"
    proof safe
      fix b assume "okb p b" "rc p b = 0"
      then show "rc p' b = 0" using nn[of b] p'(5)[of b] by simp
    qed
    then have "card {b. okb p b \<and> rc p b = 0} \<le> card {b. okb p b \<and> rc p' b = 0}"
      by (rule card_mono[rotated]) (rule rev_finite_subset[OF law_finite[OF good]], auto)
    then show ?thesis using law_avail[OF good] law_avail[OF p'(2)] p'(3) by simp
  qed
  ultimately show ?thesis using p'(1-4) by (intro exI[of _ p'] conjI) (simp_all only: p'(3,4,5) simp_thms)
qed

text \<open>A block that somebody holds is never available.\<close>

lemma held_not_available:
  assumes "ledger_ok (okb p) (nul p) (rc p) own" "b \<in> set (own r)" "okb p b"
  shows "rc p b \<noteq> 0"
  using total_count_pos[OF ledger_okD(1)[OF assms(1)] assms(2)] ledger_okD(3)[OF assms(1,3)] by simp

end

end
