(* ===== verification/Block_Pool.thy ===== *)
theory Block_Pool
  imports Free_Block_Queue Block_Hash Pool_Interface
begin

text \<open>
  \<^verbatim>\<open>BlockHashToBlockMap\<close> and \<^verbatim>\<open>BlockPool\<close> of \<^verbatim>\<open>src/vllm/vllm/v1/core/block_pool.py\<close>.  The pool's
  record extends the free queue's, as the pool owns the blocks that the queue links.  A block's id is
  the number in its reference, so the inner dictionaries keyed by block id are ordered lists of
  references.  The metrics collector only observes and is not modelled; the environment variable
  that turns block hashes of events into integers is a field.  The lemmas establish the pool's
  invariant (the free list is exactly the unreferenced blocks; the hash map and the hashes stored in
  the blocks agree) for every operation, and the pool's contract as the locale \<open>ref_counted_pool\<close>.
\<close>

section \<open>Cached blocks by hash\<close>

datatype cached_entry = One bref | Many bref "bref list"

type_synonym block_hash_map = "bytes \<rightharpoonup> cached_entry"

fun entry_blocks :: "cached_entry \<Rightarrow> bref list" where
  "entry_blocks (One b) = [b]"
| "entry_blocks (Many b bs) = b # bs"

definition get_one_block :: "bytes \<Rightarrow> block_hash_map \<Rightarrow> bref option" where
  "get_one_block k m =
     (case m k of None \<Rightarrow> None | Some (One b) \<Rightarrow> Some b | Some (Many b _) \<Rightarrow> Some b)"

text \<open>Writing a key of a dictionary keeps the position of a key that is there.\<close>

definition dict_add :: "bref \<Rightarrow> bref \<times> bref list \<Rightarrow> bref \<times> bref list" where
  "dict_add b d = (case d of (c, cs) \<Rightarrow> if b = c \<or> b \<in> set cs then (c, cs) else (c, cs @ [b]))"

definition map_insert :: "bytes \<Rightarrow> bref \<Rightarrow> block_hash_map \<Rightarrow> block_hash_map" where
  "map_insert k b m =
     (case m k of
        None \<Rightarrow> m(k \<mapsto> One b)
      | Some (One c) \<Rightarrow> (case dict_add b (c, []) of (d, ds) \<Rightarrow> m(k \<mapsto> Many d ds))
      | Some (Many c cs) \<Rightarrow> (case dict_add b (c, cs) of (d, ds) \<Rightarrow> m(k \<mapsto> Many d ds)))"

definition map_pop :: "bytes \<Rightarrow> bref \<Rightarrow> block_hash_map \<Rightarrow> bref option \<times> block_hash_map" where
  "map_pop k b m =
     (case m k of
        None \<Rightarrow> (None, m)
      | Some (One c) \<Rightarrow> if c = b then (Some c, m(k := None)) else (None, m)
      | Some (Many c cs) \<Rightarrow>
          (case remove1 b (c # cs) of
             [] \<Rightarrow> (if b \<in> set (c # cs) then Some b else None, m(k := None))
           | d # ds \<Rightarrow> (if b \<in> set (c # cs) then Some b else None, m(k \<mapsto> Many d ds))))"

section \<open>The pool\<close>

datatype kv_cache_event =
    BlockStored (ev_hashes: "external_block_hash list") (ev_parent: "external_block_hash option")
      (ev_tokens: "int list") (ev_block_size: nat) (ev_lora: "(int \<times> string) option")
      (ev_extra_keys: "extra_key list option list option") (ev_group: nat)
  | BlockRemoved "external_block_hash list" nat
  | AllBlocksCleared

record block_pool = free_queue +
  num_gpu_blocks :: nat
  enable_caching :: bool
  hash_block_size :: nat
  cached_block_hash_to_block :: block_hash_map
  null_block :: bref
  enable_kv_cache_events :: bool
  kv_event_queue :: "kv_cache_event list"
  events_use_int_hashes :: bool

definition init_block_pool :: "nat \<Rightarrow> bool \<Rightarrow> nat \<Rightarrow> bool \<Rightarrow> bool \<Rightarrow> block_pool res" where
  "init_block_pool n caching hbs events use_int =
     py_assert (n > 0)
       (rbind (popleft \<lparr>heap = fst (init_free_queue n fresh_store),
                        num_free_blocks = snd (init_free_queue n fresh_store),
                        num_gpu_blocks = n, enable_caching = caching, hash_block_size = hbs,
                        cached_block_hash_to_block = Map.empty, null_block = Head,
                        enable_kv_cache_events = events, kv_event_queue = [],
                        events_use_int_hashes = use_int\<rparr>) (\<lambda>(b, p).
          Inr (p\<lparr>null_block := b, heap := (heap p)(b := (heap p b)\<lparr>is_null := True\<rparr>)\<rparr>)))"

fun get_cached_block :: "bytes \<Rightarrow> nat list \<Rightarrow> block_pool \<Rightarrow> bref list option res" where
  "get_cached_block h [] p = Inr (Some [])"
| "get_cached_block h (g # gs) p =
     rbind (make_block_hash_with_group_id h g) (\<lambda>k.
       case get_one_block k (cached_block_hash_to_block p) of
         None \<Rightarrow> Inr None
       | Some b \<Rightarrow> rbind (get_cached_block h gs p) (\<lambda>r. Inr (map_option (Cons b) r)))"

definition masked_out :: "bool list option \<Rightarrow> nat \<Rightarrow> bool" where
  "masked_out blk_mask i = (case blk_mask of None \<Rightarrow> False | Some m \<Rightarrow> \<not> m ! i)"

text \<open>The loop over the new full blocks; the result carries the external hashes of the stored ones.\<close>

fun cache_loop ::
  "nat \<Rightarrow> bool list option \<Rightarrow> bytes list \<Rightarrow> nat \<Rightarrow> bref list \<Rightarrow> block_pool \<Rightarrow>
   (external_block_hash list \<times> block_pool) res" where
  "cache_loop g blk_mask hashes i [] p = Inr ([], p)"
| "cache_loop g blk_mask hashes i (blk # blks) p =
     (if is_null (heap p blk) \<or> masked_out blk_mask i
      then cache_loop g blk_mask hashes (i + 1) blks p
      else py_assert (block_hash (heap p blk) = None)
        (rbind (list_get hashes i) (\<lambda>bh.
         rbind (make_block_hash_with_group_id bh g) (\<lambda>k.
         rbind (set_block_hash blk k (heap p)) (\<lambda>h'.
         rbind (cache_loop g blk_mask hashes (i + 1) blks
                  (p\<lparr>heap := h',
                     cached_block_hash_to_block := map_insert k blk (cached_block_hash_to_block p)\<rparr>))
           (\<lambda>(ext, p'). Inr (maybe_convert_block_hash (events_use_int_hashes p) bh # ext, p')))))))"

fun event_keys_loop ::
  "request \<Rightarrow> nat \<Rightarrow> bool list option \<Rightarrow> bref list \<Rightarrow> nat \<Rightarrow> nat list \<Rightarrow> int \<Rightarrow> block_pool \<Rightarrow>
   extra_key list option list res" where
  "event_keys_loop r bs blk_mask blocks num_cached [] mm_idx p = Inr []"
| "event_keys_loop r bs blk_mask blocks num_cached (i # is) mm_idx p =
     rbind (list_get blocks i) (\<lambda>b.
       if is_null (heap p b) \<or> masked_out blk_mask (i - num_cached)
       then event_keys_loop r bs blk_mask blocks num_cached is mm_idx p
       else rbind (generate_block_hash_extra_keys r (i * bs) (i * bs + bs) mm_idx) (\<lambda>(ks, mm_idx').
            rbind (event_keys_loop r bs blk_mask blocks num_cached is mm_idx' p) (\<lambda>rest.
            Inr (ks # rest))))"

definition cache_full_blocks ::
  "request \<Rightarrow> bref list \<Rightarrow> nat \<Rightarrow> nat \<Rightarrow> nat \<Rightarrow> nat \<Rightarrow> bool list option \<Rightarrow> block_pool \<Rightarrow>
   block_pool res" where
  "cache_full_blocks r blocks num_cached num_full bs g blk_mask p =
     (if num_cached \<ge> num_full then Inr p
      else (let new_full = drop num_cached (take num_full blocks)
            in py_assert (length (block_hashes r) \<ge> num_full)
              (py_assert (case blk_mask of None \<Rightarrow> True | Some m \<Rightarrow> length m = length new_full)
                (rbind (if bs = hash_block_size p then Inr (PlainHashes (block_hashes r))
                        else block_hash_list_with_block_size (block_hashes r) (hash_block_size p) bs)
                  (\<lambda>hashes.
                 rbind (cache_loop g blk_mask (view_from hashes num_cached) 0 new_full p) (\<lambda>(ext, p').
                   if \<not> enable_kv_cache_events p' then Inr p'
                   else rbind (if num_cached = 0 then Inr None
                               else rbind (view_get hashes (num_cached - 1)) (\<lambda>h.
                                    Inr (Some (maybe_convert_block_hash (events_use_int_hashes p') h))))
                     (\<lambda>parent.
                     rbind (event_keys_loop r bs blk_mask blocks num_cached [num_cached..<num_full] 0 p')
                       (\<lambda>keys.
                       Inr (p'\<lparr>kv_event_queue := kv_event_queue p' @
                         [BlockStored ext parent
                            (drop (num_cached * bs) (take (num_full * bs) (all_token_ids r))) bs
                            (map_option (\<lambda>l. (adapter_id l, lora_name l)) (req_lora r))
                            (if keys = [] then None else Some keys) g]\<rparr>)))))))))"

definition maybe_evict_cached_block :: "bref \<Rightarrow> block_pool \<Rightarrow> bool \<times> block_pool" where
  "maybe_evict_cached_block b p =
     (case block_hash (heap p b) of
        None \<Rightarrow> (False, p)
      | Some k \<Rightarrow>
          (case map_pop k b (cached_block_hash_to_block p) of
             (None, m) \<Rightarrow> (False, p\<lparr>cached_block_hash_to_block := m\<rparr>)
           | (Some _, m) \<Rightarrow>
               (let p' = p\<lparr>cached_block_hash_to_block := m, heap := reset_hash b (heap p)\<rparr>
                in (True, if enable_kv_cache_events p'
                          then p'\<lparr>kv_event_queue := kv_event_queue p' @
                                 [BlockRemoved [maybe_convert_block_hash (events_use_int_hashes p')
                                                  (get_block_hash k)] (get_group_id k)]\<rparr>
                          else p'))))"

definition incr_ref :: "bref \<Rightarrow> block_pool \<Rightarrow> block_pool" where
  "incr_ref b p = p\<lparr>heap := (heap p)(b := (heap p b)\<lparr>ref_cnt := ref_cnt (heap p b) + 1\<rparr>)\<rparr>"

definition decr_ref :: "bref \<Rightarrow> block_pool \<Rightarrow> block_pool" where
  "decr_ref b p = p\<lparr>heap := (heap p)(b := (heap p b)\<lparr>ref_cnt := ref_cnt (heap p b) - 1\<rparr>)\<rparr>"

fun alloc_loop :: "bref list \<Rightarrow> block_pool \<Rightarrow> block_pool res" where
  "alloc_loop [] p = Inr p"
| "alloc_loop (b # bs) p =
     (let p1 = (if enable_caching p then snd (maybe_evict_cached_block b p) else p)
      in py_assert (ref_cnt (heap p1 b) = 0) (alloc_loop bs (incr_ref b p1)))"

definition get_num_free_blocks :: "block_pool \<Rightarrow> int" where
  "get_num_free_blocks p = num_free_blocks p"

definition get_new_blocks :: "int \<Rightarrow> block_pool \<Rightarrow> (bref list \<times> block_pool) res" where
  "get_new_blocks n p =
     (if n > get_num_free_blocks p then Inl ValueError
      else rbind (popleft_n n p) (\<lambda>(ret, p').
           rbind (alloc_loop ret p') (\<lambda>p''. Inr (ret, p''))))"

fun touch :: "bref list \<Rightarrow> block_pool \<Rightarrow> block_pool res" where
  "touch [] p = Inr p"
| "touch (b # bs) p =
     rbind (if ref_cnt (heap p b) = 0 \<and> \<not> is_null (heap p b) then remove_block b p else Inr p)
       (\<lambda>p'. touch bs (incr_ref b p'))"

definition free_blocks :: "bref list \<Rightarrow> bool \<Rightarrow> block_pool \<Rightarrow> block_pool res" where
  "free_blocks blocks prepend p =
     (let p' = fold decr_ref blocks p;
          freed = filter (\<lambda>b. ref_cnt (heap p' b) = 0 \<and> \<not> is_null (heap p' b)) blocks
      in if prepend then prepend_n freed p' else append_n freed p')"

text \<open>\<^verbatim>\<open>evict_blocks\<close> takes a set of ids; the list is an enumeration of it.\<close>

fun evict_blocks :: "nat list \<Rightarrow> block_pool \<Rightarrow> block_pool res" where
  "evict_blocks [] p = Inr p"
| "evict_blocks (i # is) p =
     py_assert (i < num_gpu_blocks p)
       (evict_blocks is (snd (maybe_evict_cached_block (Blk i) p)))"

definition reset_prefix_cache :: "block_pool \<Rightarrow> bool \<times> block_pool" where
  "reset_prefix_cache p =
     (if int (num_gpu_blocks p) - get_num_free_blocks p \<noteq> 1 then (False, p)
      else (let p' = p\<lparr>cached_block_hash_to_block := Map.empty,
                       heap := fold (\<lambda>i. reset_hash (Blk i)) [0..<num_gpu_blocks p] (heap p)\<rparr>
            in (True, if enable_kv_cache_events p'
                      then p'\<lparr>kv_event_queue := kv_event_queue p' @ [AllBlocksCleared]\<rparr> else p')))"

definition get_usage :: "block_pool \<Rightarrow> pyfloat" where
  "get_usage p =
     (let total = int (num_gpu_blocks p) - 1
      in if total = 0 then Fin 0 else Fin (1 - of_int (get_num_free_blocks p) / of_int total))"

definition take_events :: "block_pool \<Rightarrow> kv_cache_event list \<times> block_pool" where
  "take_events p =
     (if \<not> enable_kv_cache_events p then ([], p) else (kv_event_queue p, p\<lparr>kv_event_queue := []\<rparr>))"

section \<open>The hash map refines lists of blocks by key\<close>

definition cached_at :: "block_hash_map \<Rightarrow> bytes \<Rightarrow> bref list" where
  "cached_at m k = (case m k of None \<Rightarrow> [] | Some e \<Rightarrow> entry_blocks e)"

lemma cached_at_empty [simp]: "cached_at Map.empty k = []"
  by (simp add: cached_at_def)

lemma get_one_block_cached_at:
  "get_one_block k m = (case cached_at m k of [] \<Rightarrow> None | b # _ \<Rightarrow> Some b)"
  by (auto simp: get_one_block_def cached_at_def split: option.splits cached_entry.splits)

lemma cached_at_insert:
  "cached_at (map_insert k b m) =
     (cached_at m)(k := if b \<in> set (cached_at m k) then cached_at m k else cached_at m k @ [b])"
  by (rule ext)
     (auto simp: map_insert_def cached_at_def dict_add_def split: option.splits cached_entry.splits)

lemma map_pop_cached_at:
  "fst (map_pop k b m) = (if b \<in> set (cached_at m k) then Some b else None)"
  "cached_at (snd (map_pop k b m)) = (cached_at m)(k := remove1 b (cached_at m k))"
proof -
  have r: "remove1 b (c # cs) = [] \<Longrightarrow> b = c \<and> cs = []" for b c and cs :: "bref list"
    by (auto split: if_splits)
  show "fst (map_pop k b m) = (if b \<in> set (cached_at m k) then Some b else None)"
    by (auto simp: map_pop_def cached_at_def split: option.splits cached_entry.splits list.splits)
  show "cached_at (snd (map_pop k b m)) = (cached_at m)(k := remove1 b (cached_at m k))"
    by (rule ext)
       (auto simp: map_pop_def cached_at_def split: option.splits cached_entry.splits list.splits)
qed

section \<open>The pool invariant\<close>

text \<open>The blocks that can be handed out: all but the null block.\<close>

definition usable :: "block_pool \<Rightarrow> bref \<Rightarrow> bool" where
  "usable p b \<longleftrightarrow> (\<exists>i. b = Blk i \<and> 0 < i \<and> i < num_gpu_blocks p)"

definition refs :: "block_pool \<Rightarrow> bref \<Rightarrow> int" where
  "refs p b = ref_cnt (heap p b)"

text \<open>
  \<open>pool_inv p xs U\<close>: the free list is \<open>xs\<close>; the unreferenced blocks are those in \<open>xs\<close> and those
  in \<open>U\<close>, which are on their way into or out of the queue; the hash map lists exactly the blocks
  that carry a hash.
\<close>

definition pool_inv :: "block_pool \<Rightarrow> bref list \<Rightarrow> bref set \<Rightarrow> bool" where
  "pool_inv p xs U \<longleftrightarrow>
     queue_rep p xs \<and> 0 < num_gpu_blocks p \<and> null_block p = Blk 0 \<and>
     (\<forall>b. is_null (heap p b) \<longleftrightarrow> b = Blk 0) \<and>
     set xs \<inter> U = {} \<and> set xs \<union> U = {b. usable p b \<and> refs p b = 0} \<and>
     (\<forall>b. usable p b \<longrightarrow> 0 \<le> refs p b) \<and>
     (\<forall>b k. b \<in> set (cached_at (cached_block_hash_to_block p) k) \<longleftrightarrow> block_hash (heap p b) = Some k) \<and>
     (\<forall>b. block_hash (heap p b) \<noteq> None \<longrightarrow> usable p b) \<and>
     (\<forall>k. distinct (cached_at (cached_block_hash_to_block p) k))"

definition pool_ok :: "block_pool \<Rightarrow> bref list \<Rightarrow> bool" where
  "pool_ok p xs \<longleftrightarrow> pool_inv p xs {}"

text \<open>What no operation changes.\<close>

definition same_config :: "block_pool \<Rightarrow> block_pool \<Rightarrow> bool" where
  "same_config p p' \<longleftrightarrow>
     num_gpu_blocks p' = num_gpu_blocks p \<and> enable_caching p' = enable_caching p \<and>
     hash_block_size p' = hash_block_size p \<and> null_block p' = null_block p \<and>
     enable_kv_cache_events p' = enable_kv_cache_events p"

lemma same_config_refl [simp]: "same_config p p"
  by (simp add: same_config_def)

lemma same_config_trans: "same_config p p' \<Longrightarrow> same_config p' p'' \<Longrightarrow> same_config p p''"
  by (simp add: same_config_def)

lemma same_config_usable: "same_config p p' \<Longrightarrow> usable p' = usable p"
  by (intro ext) (simp add: same_config_def usable_def)

lemma queue_rep_cong:
  assumes "\<And>b. next_free_block (heap q' b) = next_free_block (heap q b)"
    "\<And>b. prev_free_block (heap q' b) = prev_free_block (heap q b)"
    "num_free_blocks q' = num_free_blocks q"
  shows "queue_rep q' xs = queue_rep q xs"
  using assms links_cong[of "Head # xs @ [Tail]" "heap q'" "heap q"] by (simp add: queue_rep_def)

lemma same_blocks_pool:
  assumes "same_blocks p p'"
  shows "same_config p p'" "refs p' = refs p" "is_null (heap p' b) = is_null (heap p b)"
    "block_hash (heap p' b) = block_hash (heap p b)"
    "cached_block_hash_to_block p' = cached_block_hash_to_block p"
    "kv_event_queue p' = kv_event_queue p" "events_use_int_hashes p' = events_use_int_hashes p"
proof -
  have pl: "payload (heap p' r) = payload (heap p r)" for r using assms by (simp add: same_blocks_def)
  have more: "free_queue.more p' = free_queue.more p" using assms by (simp add: same_blocks_def)
  show "same_config p p'" "cached_block_hash_to_block p' = cached_block_hash_to_block p"
    "kv_event_queue p' = kv_event_queue p" "events_use_int_hashes p' = events_use_int_hashes p"
    using more by (cases p; cases p'; simp add: same_config_def)+
  show "refs p' = refs p" using pl by (intro ext) (simp add: refs_def payload_fields)
  show "is_null (heap p' b) = is_null (heap p b)" "block_hash (heap p' b) = block_hash (heap p b)"
    using pl by (simp_all add: payload_fields)
qed

lemma pool_inv_same_blocks:
  assumes "pool_inv p xs U" "same_blocks p p'" "queue_rep p' ys"
    "set ys \<inter> V = {}" "set ys \<union> V = set xs \<union> U"
  shows "pool_inv p' ys V"
  using assms same_config_usable[OF same_blocks_pool(1)[OF assms(2)]]
  unfolding pool_inv_def same_blocks_pool[OF assms(2)]
  by (simp add: same_config_def same_blocks_pool(1)[OF assms(2), unfolded same_config_def])

lemma pool_inv_members: "pool_inv p xs U \<Longrightarrow> b \<in> set xs \<Longrightarrow> usable p b \<and> refs p b = 0 \<and> b \<notin> U"
  unfolding pool_inv_def by blast

lemma usable_real: "usable p b \<Longrightarrow> real_block b \<and> b \<noteq> Blk 0"
  by (auto simp: usable_def real_block_def)

section \<open>Eviction\<close>

lemma evict_effect:
  assumes "pool_inv p xs U"
  shows "heap (snd (maybe_evict_cached_block b p)) =
           (heap p)(b := (heap p b)\<lparr>block_hash := None\<rparr>)" (is ?heap)
    and "cached_at (cached_block_hash_to_block (snd (maybe_evict_cached_block b p))) =
           (\<lambda>k. remove1 b (cached_at (cached_block_hash_to_block p) k))" (is ?map)
    and "fst (maybe_evict_cached_block b p) = (block_hash (heap p b) \<noteq> None)" (is ?res)
    and "same_config p (snd (maybe_evict_cached_block b p))" (is ?config)
    and "num_free_blocks (snd (maybe_evict_cached_block b p)) = num_free_blocks p" (is ?num)
proof -
  let ?m = "cached_block_hash_to_block p"
  have mem: "b \<in> set (cached_at ?m k) \<longleftrightarrow> block_hash (heap p b) = Some k" for k
    using assms by (simp add: pool_inv_def)
  have "?heap \<and> ?map \<and> ?res \<and> ?config \<and> ?num"
  proof (cases "block_hash (heap p b)")
    case None
    then have hp: "(heap p)(b := (heap p b)\<lparr>block_hash := None\<rparr>) = heap p"
      by (intro fun_upd_idem) (cases "heap p b", simp)
    have rm: "remove1 b (cached_at ?m k) = cached_at ?m k" for k
      using None mem[of k] by (simp add: remove1_idem)
    show ?thesis
      unfolding hp rm using None by (simp add: maybe_evict_cached_block_def)
  next
    case (Some k)
    obtain m' where pop: "map_pop k b ?m = (Some b, m')"
      using map_pop_cached_at(1)[of k b ?m] mem[of k] Some by (cases "map_pop k b ?m") simp
    have m': "cached_at m' = (cached_at ?m)(k := remove1 b (cached_at ?m k))"
      using map_pop_cached_at(2)[of k b ?m] pop by simp
    have "cached_at m' = (\<lambda>j. remove1 b (cached_at ?m j))"
    proof
      fix j
      show "cached_at m' j = remove1 b (cached_at ?m j)"
        using mem[of j] Some by (cases "j = k") (simp_all add: m' remove1_idem)
    qed
    then show ?thesis
      using Some pop by (simp add: maybe_evict_cached_block_def reset_hash_def same_config_def Let_def)
  qed
  then show ?heap ?map ?res ?config ?num by blast+
qed

lemma evict_inv:
  assumes "pool_inv p xs U"
  shows "pool_inv (snd (maybe_evict_cached_block b p)) xs U"
    and "refs (snd (maybe_evict_cached_block b p)) = refs p"
proof -
  let ?p = "snd (maybe_evict_cached_block b p)"
  note ev = evict_effect[OF assms, of b]
  show r: "refs ?p = refs p" by (rule ext) (simp add: refs_def ev(1))
  have q: "queue_rep ?p xs = queue_rep p xs"
    by (rule queue_rep_cong) (simp_all add: ev(1,5))
  have mem: "c \<in> set (remove1 b (cached_at (cached_block_hash_to_block p) k)) \<longleftrightarrow>
      block_hash (heap ?p c) = Some k" for c k
    using assms unfolding pool_inv_def ev(1) by (cases "c = b") (simp_all add: set_remove1_eq)
  show "pool_inv ?p xs U"
    using assms mem ev(4) unfolding pool_inv_def same_config_usable[OF ev(4)] r q ev(2)
    by (auto simp: ev(1) same_config_def)
qed

section \<open>Reference counts\<close>

lemma queue_rep_incr_ref [simp]: "queue_rep (incr_ref b p) xs = queue_rep p xs"
  by (rule queue_rep_cong) (simp_all add: incr_ref_def)

lemma queue_rep_decr_ref [simp]: "queue_rep (decr_ref b p) xs = queue_rep p xs"
  by (rule queue_rep_cong) (simp_all add: decr_ref_def)

lemma incr_ref_effect [simp]:
  "refs (incr_ref b p) = (refs p)(b := refs p b + 1)"
  "same_config p (incr_ref b p)"
  "block_hash (heap (incr_ref b p) c) = block_hash (heap p c)"
  "is_null (heap (incr_ref b p) c) = is_null (heap p c)"
  "cached_block_hash_to_block (incr_ref b p) = cached_block_hash_to_block p"
  by (auto simp: incr_ref_def refs_def same_config_def)

lemma decr_ref_effect [simp]:
  "refs (decr_ref b p) = (refs p)(b := refs p b - 1)"
  "same_config p (decr_ref b p)"
  "block_hash (heap (decr_ref b p) c) = block_hash (heap p c)"
  "is_null (heap (decr_ref b p) c) = is_null (heap p c)"
  "cached_block_hash_to_block (decr_ref b p) = cached_block_hash_to_block p"
  by (auto simp: decr_ref_def refs_def same_config_def)

lemma pool_inv_new_refs:
  assumes "pool_inv p xs U" "same_config p p'" "queue_rep p' xs"
    "\<And>c. is_null (heap p' c) = is_null (heap p c)"
    "\<And>c. block_hash (heap p' c) = block_hash (heap p c)"
    "cached_block_hash_to_block p' = cached_block_hash_to_block p"
    "set xs \<inter> V = {}" "\<And>b. b \<in> set xs \<or> b \<in> V \<longleftrightarrow> usable p b \<and> refs p' b = 0"
    "\<And>b. usable p b \<Longrightarrow> 0 \<le> refs p' b"
  shows "pool_inv p' xs V"
proof -
  have "set xs \<union> V = {b. usable p b \<and> refs p' b = 0}" using assms(8) by blast
  then show ?thesis
    using assms(1,2,3,7,9) unfolding pool_inv_def same_config_usable[OF assms(2)] assms(4,5,6)
    by (simp add: same_config_def)
qed

lemma pool_inv_zero:
  "pool_inv p xs U \<Longrightarrow> c \<in> set xs \<or> c \<in> U \<longleftrightarrow> usable p c \<and> refs p c = 0"
  "pool_inv p xs U \<Longrightarrow> usable p c \<Longrightarrow> 0 \<le> refs p c"
  "pool_inv p xs U \<Longrightarrow> set xs \<inter> U = {}"
  "pool_inv p xs U \<Longrightarrow> queue_rep p xs"
  unfolding pool_inv_def by blast+

lemma incr_ref_inv:
  assumes "pool_inv p xs U" "b \<in> U \<or> refs p b \<noteq> 0 \<or> \<not> usable p b"
  shows "pool_inv (incr_ref b p) xs (U - {b})"
proof (rule pool_inv_new_refs[OF assms(1)])
  fix c
  show "c \<in> set xs \<or> c \<in> U - {b} \<longleftrightarrow> usable p c \<and> refs (incr_ref b p) c = 0"
    using pool_inv_zero(1)[OF assms(1), of c] pool_inv_zero(2)[OF assms(1), of c]
      pool_inv_zero(3)[OF assms(1)] assms(2) by (cases "c = b") auto
  show "usable p c \<Longrightarrow> 0 \<le> refs (incr_ref b p) c"
    using pool_inv_zero(2)[OF assms(1), of c] by (cases "c = b") auto
qed (use pool_inv_zero(3,4)[OF assms(1)] in auto)

lemma decr_ref_inv:
  assumes "pool_inv p xs U" "usable p b \<Longrightarrow> 1 \<le> refs p b"
  shows "pool_inv (decr_ref b p) xs (if usable p b \<and> refs p b = 1 then insert b U else U)"
proof (rule pool_inv_new_refs[OF assms(1)])
  fix c
  show "c \<in> set xs \<or> c \<in> (if usable p b \<and> refs p b = 1 then insert b U else U) \<longleftrightarrow>
        usable p c \<and> refs (decr_ref b p) c = 0"
    using pool_inv_zero(1)[OF assms(1), of c] assms(2) by (cases "c = b") auto
  show "usable p c \<Longrightarrow> 0 \<le> refs (decr_ref b p) c"
    using pool_inv_zero(2)[OF assms(1), of c] assms(2) by (cases "c = b") auto
  show "set xs \<inter> (if usable p b \<and> refs p b = 1 then insert b U else U) = {}"
    using pool_inv_zero(3)[OF assms(1)] pool_inv_members[OF assms(1), of b] by auto
qed (use pool_inv_zero(4)[OF assms(1)] in auto)

section \<open>Allocation\<close>

text \<open>The reference counts after one more reference to each block of a list.\<close>

definition more_refs :: "bref list \<Rightarrow> (bref \<Rightarrow> int) \<Rightarrow> bref \<Rightarrow> int" where
  "more_refs bs f c = f c + int (count_list bs c)"

lemma more_refs_simps [simp]:
  "more_refs [] f = f"
  "more_refs (b # bs) f = more_refs bs (f(b := f b + 1))"
  by (auto simp: more_refs_def)

lemma alloc_loop_ok:
  assumes "pool_inv p xs U" "distinct bs" "set bs \<subseteq> U"
  shows "\<exists>p'. alloc_loop bs p = Inr p' \<and> pool_inv p' xs (U - set bs) \<and> same_config p p' \<and>
              refs p' = more_refs bs (refs p) \<and>
              (\<forall>c. block_hash (heap p' c) =
                     (if enable_caching p \<and> c \<in> set bs then None else block_hash (heap p c)))"
  using assms
proof (induction bs arbitrary: p U)
  case (Cons b bs)
  define p1 where "p1 = (if enable_caching p then snd (maybe_evict_cached_block b p) else p)"
  have bU: "b \<in> U" using Cons.prems by simp
  have p1: "pool_inv p1 xs U" "refs p1 = refs p" "same_config p p1"
    "\<And>c. block_hash (heap p1 c) =
       (if enable_caching p \<and> c = b then None else block_hash (heap p c))"
    using Cons.prems(1) evict_inv[OF Cons.prems(1), of b] evict_effect[OF Cons.prems(1), of b]
    by (auto simp: p1_def)
  have zero: "refs p1 b = 0" using pool_inv_zero(1)[OF Cons.prems(1), of b] bU p1(2) by simp
  have step: "alloc_loop (b # bs) p = alloc_loop bs (incr_ref b p1)"
    using zero by (simp add: p1_def[symmetric] Let_def refs_def)
  have "pool_inv (incr_ref b p1) xs (U - {b})" using incr_ref_inv[OF p1(1)] bU by blast
  then obtain p' where p': "alloc_loop bs (incr_ref b p1) = Inr p'"
    "pool_inv p' xs (U - {b} - set bs)" "same_config (incr_ref b p1) p'"
    "refs p' = more_refs bs (refs (incr_ref b p1))"
    "\<And>c. block_hash (heap p' c) =
       (if enable_caching (incr_ref b p1) \<and> c \<in> set bs then None else block_hash (heap (incr_ref b p1) c))"
    using Cons.IH[of "incr_ref b p1" "U - {b}"] Cons.prems by fastforce
  have cfg: "same_config p p'"
    using same_config_trans[OF p1(3) same_config_trans[OF incr_ref_effect(2) p'(3)]] .
  have "enable_caching (incr_ref b p1) = enable_caching p"
    using same_config_trans[OF p1(3) incr_ref_effect(2)[of p1 b]] by (simp add: same_config_def)
  then have "block_hash (heap p' c) =
      (if enable_caching p \<and> c \<in> set (b # bs) then None else block_hash (heap p c))" for c
    unfolding p'(5) incr_ref_effect(3) p1(4) by auto
  moreover have "U - {b} - set bs = U - set (b # bs)" by auto
  moreover have "refs p' = more_refs (b # bs) (refs p)" unfolding p'(4) by (simp add: p1(2))
  ultimately show ?case using p'(1,2) cfg step by (intro exI[of _ p']) simp
qed simp

lemma get_new_blocks_ok:
  assumes ok: "pool_ok p xs" and n: "n \<le> length xs"
  shows "\<exists>p'. get_new_blocks (int n) p = Inr (take n xs, p') \<and> pool_ok p' (drop n xs) \<and>
              same_config p p' \<and> refs p' = more_refs (take n xs) (refs p) \<and>
              (\<forall>c. block_hash (heap p' c) =
                 (if enable_caching p \<and> c \<in> set (take n xs) then None else block_hash (heap p c)))"
proof -
  have inv: "pool_inv p xs {}" using ok by (simp add: pool_ok_def)
  have q: "queue_rep p xs" using inv by (rule pool_inv_zero(4))
  have free: "num_free_blocks p = int (length xs)" and dist: "distinct xs"
    using fq.law_size[OF q] fq.law_distinct[OF q] by simp_all
  obtain p1 where p1: "popleft_n (int n) p = Inr (take n xs, p1)" "queue_rep p1 (drop n xs)"
    "same_blocks p p1" using fq.pop_take[OF q n] by blast
  have "set xs = set (take n xs) \<union> set (drop n xs)" by (metis append_take_drop_id set_append)
  then have split: "set (drop n xs) \<inter> set (take n xs) = {}" "set (drop n xs) \<union> set (take n xs) = set xs \<union> {}"
    using dist set_take_disj_set_drop_if_distinct[of xs n n] by auto
  have inv1: "pool_inv p1 (drop n xs) (set (take n xs))"
    by (rule pool_inv_same_blocks[OF inv p1(3,2) split])
  obtain p' where p': "alloc_loop (take n xs) p1 = Inr p'"
    "pool_inv p' (drop n xs) (set (take n xs) - set (take n xs))" "same_config p1 p'"
    "refs p' = more_refs (take n xs) (refs p1)"
    "\<forall>c. block_hash (heap p' c) =
       (if enable_caching p1 \<and> c \<in> set (take n xs) then None else block_hash (heap p1 c))"
    using alloc_loop_ok[OF inv1 distinct_take[OF dist] order_refl] by blast
  have cfg: "same_config p p'"
    using same_config_trans[OF same_blocks_pool(1)[OF p1(3)] p'(3)] .
  have ec: "enable_caching p1 = enable_caching p"
    using same_blocks_pool(1)[OF p1(3)] by (simp add: same_config_def)
  have "get_new_blocks (int n) p = Inr (take n xs, p')"
    using p1(1) p'(1) free n by (simp add: get_new_blocks_def get_num_free_blocks_def)
  then show ?thesis
    using p'(2,4,5) cfg unfolding pool_ok_def ec same_blocks_pool[OF p1(3)] by auto
qed

lemma get_new_blocks_too_many:
  assumes "pool_ok p xs" "int (length xs) < n"
  shows "get_new_blocks n p = Inl ValueError"
  using assms fq.law_size[OF pool_inv_zero(4)[of p xs "{}"]]
  by (simp add: get_new_blocks_def get_num_free_blocks_def pool_ok_def)

section \<open>Touching and freeing\<close>

lemma touch_ok:
  assumes "pool_ok p xs" "\<forall>b \<in> set bs. usable p b \<or> b = null_block p"
  shows "\<exists>p'. touch bs p = Inr p' \<and> pool_ok p' (filter (\<lambda>b. b \<notin> set bs) xs) \<and> same_config p p' \<and>
              refs p' = more_refs bs (refs p) \<and>
              (\<forall>c. block_hash (heap p' c) = block_hash (heap p c)) \<and>
              cached_block_hash_to_block p' = cached_block_hash_to_block p"
  using assms
proof (induction bs arbitrary: p xs)
  case (Cons b bs)
  have inv: "pool_inv p xs {}" using Cons.prems(1) by (simp add: pool_ok_def)
  have q: "queue_rep p xs" using inv by (rule pool_inv_zero(4))
  have null: "is_null (heap p b) \<longleftrightarrow> b = Blk 0" "null_block p = Blk 0" using inv by (simp_all add: pool_inv_def)
  have bu: "is_null (heap p b) \<or> usable p b" using Cons.prems(2) null by auto
  let ?xs = "filter (\<lambda>c. c \<noteq> b) xs"
  obtain p1 where p1: "(if ref_cnt (heap p b) = 0 \<and> \<not> is_null (heap p b) then remove_block b p else Inr p) = Inr p1"
    "pool_inv p1 ?xs (if b \<in> set xs then {b} else {})" "same_blocks p p1"
  proof (cases "refs p b = 0 \<and> \<not> is_null (heap p b)")
    case True
    then have b: "b \<in> set xs" using bu pool_inv_zero(1)[OF inv, of b] by simp
    obtain p1 where "remove_block b p = Inr p1" "queue_rep p1 ?xs" "same_blocks p p1"
      using fq.rem_member[OF q b] by blast
    moreover have "pool_inv p1 ?xs {b}"
      by (rule pool_inv_same_blocks[OF inv \<open>same_blocks p p1\<close> \<open>queue_rep p1 ?xs\<close>]) (use b in auto)
    ultimately show ?thesis using that True b by (simp add: refs_def)
  next
    case False
    then have "b \<notin> set xs"
      using pool_inv_members[OF inv, of b] null usable_real[of p b] by auto
    moreover from this have "?xs = xs" by (auto simp: filter_id_conv)
    ultimately show ?thesis using that[of p] False inv by (auto simp: refs_def)
  qed
  have "pool_inv (incr_ref b p1) ?xs ((if b \<in> set xs then {b} else {}) - {b})"
  proof (rule incr_ref_inv[OF p1(2)])
    show "b \<in> (if b \<in> set xs then {b} else {}) \<or> refs p1 b \<noteq> 0 \<or> \<not> usable p1 b"
      using pool_inv_zero(1)[OF inv, of b] same_blocks_pool(2)[OF p1(3)]
        same_config_usable[OF same_blocks_pool(1)[OF p1(3)]] by auto
  qed
  then have ok2: "pool_ok (incr_ref b p1) ?xs" by (simp add: pool_ok_def split: if_splits)
  have cfg: "same_config p (incr_ref b p1)"
    using same_config_trans[OF same_blocks_pool(1)[OF p1(3)] incr_ref_effect(2)] .
  have "\<forall>c \<in> set bs. usable (incr_ref b p1) c \<or> c = null_block (incr_ref b p1)"
    using Cons.prems(2) same_config_usable[OF cfg] cfg by (auto simp: same_config_def)
  from Cons.IH[OF ok2 this] obtain p' where p': "touch bs (incr_ref b p1) = Inr p'"
    "pool_ok p' (filter (\<lambda>c. c \<notin> set bs) ?xs)" "same_config (incr_ref b p1) p'"
    "refs p' = more_refs bs (refs (incr_ref b p1))"
    "\<forall>c. block_hash (heap p' c) = block_hash (heap (incr_ref b p1) c)"
    "cached_block_hash_to_block p' = cached_block_hash_to_block (incr_ref b p1)" by blast
  have "filter (\<lambda>c. c \<notin> set bs) ?xs = filter (\<lambda>c. c \<notin> set (b # bs)) xs"
    by (auto simp: filter_filter intro: filter_cong)
  then show ?case
    using p' p1(1) same_config_trans[OF cfg p'(3)]
    by (intro exI[of _ p']) (simp add: same_blocks_pool[OF p1(3)])
qed (simp add: filter_id_conv)

text \<open>The blocks of a list that are not the null block.\<close>

definition non_null :: "block_pool \<Rightarrow> bref list \<Rightarrow> bref list" where
  "non_null p bs = filter (\<lambda>b. b \<noteq> null_block p) bs"

definition fewer_refs :: "bref list \<Rightarrow> (bref \<Rightarrow> int) \<Rightarrow> bref \<Rightarrow> int" where
  "fewer_refs bs f c = f c - int (count_list bs c)"

lemma fewer_refs_simps [simp]:
  "fewer_refs [] f = f"
  "fewer_refs (b # bs) f = fewer_refs bs (f(b := f b - 1))"
  by (auto simp: fewer_refs_def)

definition releasable :: "block_pool \<Rightarrow> bref list \<Rightarrow> bool" where
  "releasable p bs \<longleftrightarrow>
     distinct (non_null p bs) \<and> (\<forall>b \<in> set bs. b = null_block p \<or> usable p b \<and> 1 \<le> refs p b)"

lemma same_config_non_null: "same_config p p' \<Longrightarrow> non_null p' bs = non_null p bs"
  by (simp add: non_null_def same_config_def)

lemma null_not_usable: "pool_inv p xs U \<Longrightarrow> \<not> usable p (null_block p)"
  by (auto simp: pool_inv_def usable_def)

lemma releasable_Cons:
  assumes "pool_inv p xs U" "releasable p (b # bs)"
  shows "releasable (decr_ref b p) bs" "usable p b \<Longrightarrow> 1 \<le> refs p b" "usable p b \<Longrightarrow> b \<notin> set bs"
proof -
  note cfg = decr_ref_effect(2)[of p b]
  have nb: "null_block (decr_ref b p) = null_block p" using cfg by (simp add: same_config_def)
  show "usable p b \<Longrightarrow> 1 \<le> refs p b"
    using assms null_not_usable[OF assms(1)] by (auto simp: releasable_def)
  show notin: "usable p b \<Longrightarrow> b \<notin> set bs"
    using assms null_not_usable[OF assms(1)] by (auto simp: releasable_def non_null_def split: if_splits)
  show "releasable (decr_ref b p) bs"
    using assms(2) notin null_not_usable[OF assms(1)]
    unfolding releasable_def same_config_non_null[OF cfg] same_config_usable[OF cfg] nb
    by (auto simp: non_null_def split: if_splits)
qed

lemma fold_decr_ok:
  assumes "pool_inv p xs U" "releasable p bs"
  shows "pool_inv (fold decr_ref bs p) xs (U \<union> {b \<in> set bs. usable p b \<and> refs p b = 1})"
  using assms
proof (induction bs arbitrary: p U)
  case (Cons b bs)
  let ?U = "if usable p b \<and> refs p b = 1 then insert b U else U"
  note rel = releasable_Cons[OF Cons.prems]
  have inv1: "pool_inv (decr_ref b p) xs ?U" by (rule decr_ref_inv[OF Cons.prems(1) rel(2)])
  have u: "usable (decr_ref b p) = usable p" by (rule same_config_usable) simp
  have "?U \<union> {c \<in> set bs. usable p c \<and> refs (decr_ref b p) c = 1} =
        U \<union> {c \<in> set (b # bs). usable p c \<and> refs p c = 1}"
    using rel(3) by auto
  then show ?case using Cons.IH[OF inv1 rel(1)] by (simp add: u)
qed simp

lemma fold_decr_config: "same_config p (fold decr_ref bs p)"
proof (induction bs arbitrary: p)
  case (Cons b bs)
  show ?case using same_config_trans[OF decr_ref_effect(2)[of p b] Cons] by simp
qed simp

lemma fold_decr_effect:
  "refs (fold decr_ref bs p) = fewer_refs bs (refs p)"
  "block_hash (heap (fold decr_ref bs p) c) = block_hash (heap p c)"
  "is_null (heap (fold decr_ref bs p) c) = is_null (heap p c)"
  "cached_block_hash_to_block (fold decr_ref bs p) = cached_block_hash_to_block p"
  by (induction bs arbitrary: p) simp_all

lemma free_blocks_ok:
  assumes ok: "pool_ok p xs" and rel: "releasable p bs"
  defines "freed \<equiv> filter (\<lambda>b. b \<noteq> null_block p \<and> refs p b = 1) bs"
  shows "\<exists>p'. free_blocks bs prepend p = Inr p' \<and>
              pool_ok p' (if prepend then freed @ xs else xs @ freed) \<and> same_config p p' \<and>
              refs p' = fewer_refs bs (refs p) \<and>
              (\<forall>c. block_hash (heap p' c) = block_hash (heap p c)) \<and>
              cached_block_hash_to_block p' = cached_block_hash_to_block p"
proof -
  let ?p = "fold decr_ref bs p"
  have inv: "pool_inv p xs {}" using ok by (simp add: pool_ok_def)
  note fd = fold_decr_ok[OF inv rel] fold_decr_config[of p bs] fold_decr_effect[of bs p]
  have one: "count_list bs b = 1" if "b \<in> set bs" "b \<noteq> null_block p" for b
  proof -
    have "count_list (non_null p bs) b = count_list bs b"
      using that(2) by (induction bs) (auto simp: non_null_def)
    moreover have "count_list (non_null p bs) b = 1"
      using rel that count_list_distinct[of "non_null p bs" b] by (simp add: releasable_def non_null_def)
    ultimately show ?thesis by simp
  qed
  have freed: "filter (\<lambda>b. ref_cnt (heap ?p b) = 0 \<and> \<not> is_null (heap ?p b)) bs = freed"
    unfolding freed_def
  proof (rule filter_cong)
    fix b assume b: "b \<in> set bs"
    have "ref_cnt (heap ?p b) = fewer_refs bs (refs p) b" using fd(3) by (simp add: refs_def fun_eq_iff)
    moreover have "is_null (heap ?p b) \<longleftrightarrow> b = null_block p"
      using inv unfolding fd(5) by (simp add: pool_inv_def)
    ultimately show "(ref_cnt (heap ?p b) = 0 \<and> \<not> is_null (heap ?p b)) = (b \<noteq> null_block p \<and> refs p b = 1)"
      using one[OF b] by (auto simp: fewer_refs_def)
  qed simp
  have set_freed: "set freed = {b \<in> set bs. usable p b \<and> refs p b = 1}"
    using rel null_not_usable[OF inv] by (auto simp: freed_def releasable_def)
  have inv': "pool_inv ?p xs (set freed)" using fd(1) by (simp add: set_freed)
  have "freed = filter (\<lambda>b. refs p b = 1) (non_null p bs)" by (simp add: freed_def non_null_def)
  then have d: "distinct freed" using rel by (simp add: releasable_def)
  have disj: "set freed \<inter> set xs = {}" using pool_inv_zero(3)[OF inv'] by blast
  have real: "b \<in> set freed \<Longrightarrow> real_block b" for b using set_freed usable_real by blast
  obtain p' where p': "(if prepend then prepend_n freed ?p else append_n freed ?p) = Inr p'"
    "queue_rep p' (if prepend then freed @ xs else xs @ freed)" "same_blocks ?p p'"
    using fq.law_app[OF pool_inv_zero(4)[OF inv'] d disj real]
      fq.law_pre[OF pool_inv_zero(4)[OF inv'] d disj real] by (cases prepend) auto
  have "pool_inv p' (if prepend then freed @ xs else xs @ freed) {}"
    by (rule pool_inv_same_blocks[OF inv' p'(3,2)]) auto
  moreover have "free_blocks bs prepend p = Inr p'"
    unfolding free_blocks_def Let_def freed by (rule p'(1))
  ultimately show ?thesis
    using same_config_trans[OF fd(2) same_blocks_pool(1)[OF p'(3)]] unfolding pool_ok_def
    by (intro exI[of _ p']) (simp add: same_blocks_pool[OF p'(3)] fd)
qed

section \<open>Caching full blocks\<close>

lemma pool_ok_events [simp]: "pool_ok (p\<lparr>kv_event_queue := e\<rparr>) xs = pool_ok p xs"
proof -
  have "queue_rep (p\<lparr>kv_event_queue := e\<rparr>) xs = queue_rep p xs" by (rule queue_rep_cong) simp_all
  moreover have "usable (p\<lparr>kv_event_queue := e\<rparr>) = usable p" "refs (p\<lparr>kv_event_queue := e\<rparr>) = refs p"
    by (simp_all add: usable_def refs_def fun_eq_iff)
  ultimately show ?thesis by (simp add: pool_ok_def pool_inv_def)
qed

lemma pool_ok_cache_one:
  fixes k :: bytes
  assumes ok: "pool_ok p xs" and b: "usable p b" "block_hash (heap p b) = None"
  defines "p' \<equiv> p\<lparr>heap := (heap p)(b := (heap p b)\<lparr>block_hash := Some k\<rparr>),
                  cached_block_hash_to_block := map_insert k b (cached_block_hash_to_block p)\<rparr>"
  shows "pool_ok p' xs" "same_config p p'" "refs p' = refs p"
    "block_hash (heap p' c) = (if c = b then Some k else block_hash (heap p c))"
    "is_null (heap p' c) = is_null (heap p c)"
proof -
  let ?m = "cached_block_hash_to_block p"
  show cfg: "same_config p p'" by (simp add: p'_def same_config_def)
  show r: "refs p' = refs p" by (rule ext) (simp add: p'_def refs_def)
  show h: "block_hash (heap p' c) = (if c = b then Some k else block_hash (heap p c))" for c
    by (simp add: p'_def)
  show n: "is_null (heap p' c) = is_null (heap p c)" for c by (simp add: p'_def)
  have q: "queue_rep p' xs = queue_rep p xs" by (rule queue_rep_cong) (simp_all add: p'_def)
  have inv: "pool_inv p xs {}" using ok by (simp add: pool_ok_def)
  have mem: "c \<in> set (cached_at ?m j) \<longleftrightarrow> block_hash (heap p c) = Some j" for c j
    using inv by (simp add: pool_inv_def)
  have dist: "distinct (cached_at ?m j)" for j using inv by (simp add: pool_inv_def)
  have ca: "cached_at (cached_block_hash_to_block p') j =
      (if j = k then cached_at ?m k @ [b] else cached_at ?m j)" for j
    using mem[of b k] b(2) by (simp add: p'_def cached_at_insert)
  have mem': "c \<in> set (cached_at (cached_block_hash_to_block p') j) \<longleftrightarrow> block_hash (heap p' c) = Some j" for c j
    using mem[of c j] b(2) unfolding ca h by auto
  have dist': "distinct (cached_at (cached_block_hash_to_block p') j)" for j
    using dist[of j] mem[of b j] b(2) unfolding ca by auto
  have us: "block_hash (heap p' c) \<noteq> None \<longrightarrow> usable p c" for c
    using inv b(1) unfolding h by (auto simp: pool_inv_def)
  show "pool_ok p' xs"
    using inv mem' dist' us cfg unfolding pool_ok_def pool_inv_def same_config_usable[OF cfg] r n q
    by (simp add: same_config_def)
qed

text \<open>The positions of a list of full blocks that \<^verbatim>\<open>cache_full_blocks\<close> stores.\<close>

definition to_store :: "block_pool \<Rightarrow> bool list option \<Rightarrow> nat \<Rightarrow> bref list \<Rightarrow> nat set" where
  "to_store p blk_mask i blks =
     {j. j < length blks \<and> blks ! j \<noteq> null_block p \<and> \<not> masked_out blk_mask (i + j)}"

definition cacheable :: "block_pool \<Rightarrow> bool list option \<Rightarrow> nat \<Rightarrow> bref list \<Rightarrow> bool" where
  "cacheable p blk_mask i blks \<longleftrightarrow>
     distinct (non_null p blks) \<and> (\<forall>b \<in> set blks. b = null_block p \<or> usable p b) \<and>
     (\<forall>j \<in> to_store p blk_mask i blks. block_hash (heap p (blks ! j)) = None)"

lemma cacheable_Cons:
  assumes "cacheable p blk_mask i (b # blks)"
  shows "cacheable p blk_mask (Suc i) blks" "b = null_block p \<or> usable p b"
    "b \<noteq> null_block p \<Longrightarrow> b \<notin> set blks"
    "b \<noteq> null_block p \<Longrightarrow> \<not> masked_out blk_mask i \<Longrightarrow> block_hash (heap p b) = None"
proof -
  have st: "Suc j \<in> to_store p blk_mask i (b # blks)" if "j \<in> to_store p blk_mask (Suc i) blks" for j
    using that by (simp add: to_store_def)
  have hs: "block_hash (heap p (blks ! j)) = None" if "j \<in> to_store p blk_mask (Suc i) blks" for j
  proof -
    have "block_hash (heap p ((b # blks) ! Suc j)) = None"
      using assms st[OF that] unfolding cacheable_def by blast
    then show ?thesis by simp
  qed
  have d: "distinct (non_null p blks)"
    using assms by (auto simp: cacheable_def non_null_def split: if_splits)
  show "cacheable p blk_mask (Suc i) blks"
    using assms d hs unfolding cacheable_def by simp
  show "b = null_block p \<or> usable p b" using assms by (simp add: cacheable_def)
  show "b \<noteq> null_block p \<Longrightarrow> b \<notin> set blks"
    using assms by (auto simp: cacheable_def non_null_def split: if_splits)
  show "block_hash (heap p b) = None" if "b \<noteq> null_block p" "\<not> masked_out blk_mask i"
  proof -
    have "0 \<in> to_store p blk_mask i (b # blks)" using that by (simp add: to_store_def)
    then show ?thesis using assms unfolding cacheable_def by force
  qed
qed

lemma cache_loop_ok:
  assumes "pool_ok p xs" "cacheable p blk_mask i blks" "i + length blks \<le> length hashes" "g < 2 ^ 32"
  shows "\<exists>ext p'. cache_loop g blk_mask hashes i blks p = Inr (ext, p') \<and> pool_ok p' xs \<and>
     same_config p p' \<and> refs p' = refs p \<and>
     (\<forall>c. c \<notin> set blks \<longrightarrow> block_hash (heap p' c) = block_hash (heap p c)) \<and>
     (\<forall>j \<in> to_store p blk_mask i blks.
        block_hash (heap p' (blks ! j)) = Some (hashes ! (i + j) @ to_bytes4 g))"
  using assms
proof (induction blks arbitrary: p i)
  case (Cons b blks)
  note cc = cacheable_Cons[OF Cons.prems(2)]
  have null: "is_null (heap p b) \<longleftrightarrow> b = null_block p"
    using Cons.prems(1) by (simp add: pool_ok_def pool_inv_def)
  have len: "Suc i + length blks \<le> length hashes" using Cons.prems(3) by simp
  have ts: "j \<in> to_store p blk_mask i (b # blks) \<longleftrightarrow>
      (j = 0 \<and> b \<noteq> null_block p \<and> \<not> masked_out blk_mask i) \<or>
      (\<exists>k. j = Suc k \<and> k \<in> to_store p blk_mask (Suc i) blks)" for j
    by (cases j) (auto simp: to_store_def)
  show ?case
  proof (cases "b = null_block p \<or> masked_out blk_mask i")
    case True
    then have "cache_loop g blk_mask hashes i (b # blks) p = cache_loop g blk_mask hashes (Suc i) blks p"
      using null by simp
    then show ?thesis
      using Cons.IH[OF Cons.prems(1) cc(1) len Cons.prems(4)] True ts by force
  next
    case False
    define k where "k = hashes ! i @ to_bytes4 g"
    define p1 where "p1 = p\<lparr>heap := (heap p)(b := (heap p b)\<lparr>block_hash := Some k\<rparr>),
      cached_block_hash_to_block := map_insert k b (cached_block_hash_to_block p)\<rparr>"
    have b: "usable p b" "block_hash (heap p b) = None" "b \<notin> set blks"
      using cc(2-4) False by auto
    note c1 = pool_ok_cache_one[OF Cons.prems(1) b(1,2), of k, folded p1_def]
    have nn: "null_block p1 = null_block p" using c1(2) by (simp add: same_config_def)
    have ts1: "to_store p1 blk_mask (Suc i) blks = to_store p blk_mask (Suc i) blks"
      by (simp add: to_store_def nn)
    have "cacheable p1 blk_mask (Suc i) blks"
      using cc(1) b(3) unfolding cacheable_def ts1 same_config_non_null[OF c1(2)]
        same_config_usable[OF c1(2)] nn c1(4)
      by (auto simp: to_store_def)
    from Cons.IH[OF c1(1) this len Cons.prems(4)] obtain ext p' where IH:
      "cache_loop g blk_mask hashes (Suc i) blks p1 = Inr (ext, p')" "pool_ok p' xs"
      "same_config p1 p'" "refs p' = refs p1"
      "\<forall>c. c \<notin> set blks \<longrightarrow> block_hash (heap p' c) = block_hash (heap p1 c)"
      "\<forall>j \<in> to_store p blk_mask (Suc i) blks.
         block_hash (heap p' (blks ! j)) = Some (hashes ! (Suc i + j) @ to_bytes4 g)"
      unfolding ts1 by blast
    have "cache_loop g blk_mask hashes i (b # blks) p =
        Inr (maybe_convert_block_hash (events_use_int_hashes p) (hashes ! i) # ext, p')"
      using False null b(2) Cons.prems(3,4) IH(1)
      by (simp add: list_get_def make_block_hash_with_group_id_def set_block_hash_def k_def p1_def)
    moreover have "block_hash (heap p' b) = Some k" using IH(5) b(3) c1(4)[of b] by simp
    moreover have "block_hash (heap p' c) = block_hash (heap p c)" if "c \<notin> set (b # blks)" for c
      using that IH(5) c1(4)[of c] by simp
    ultimately show ?thesis
      using IH(2,4,6) same_config_trans[OF c1(2) IH(3)] ts by (auto simp: c1(3) k_def)
  qed
qed (simp add: to_store_def)

lemma mm_keys_loop_returns:
  assumes "\<forall>f \<in> set fs. mm_identifier f \<noteq> None"
  shows "returns (mm_keys_loop fs s e idx)"
proof (induction "length fs - idx" arbitrary: idx rule: less_induct)
  case less
  show ?case
  proof (cases "length fs \<le> idx")
    case True
    then show ?thesis by (subst mm_keys_loop.simps) simp
  next
    case False
    then obtain ident where ident: "mm_identifier (fs ! idx) = Some ident"
      using assms nth_mem[of idx fs] by (metis not_le option.exhaust)
    have "returns (mm_keys_loop fs s e (idx + 1))" using False by (intro less) simp
    then obtain ks j where next_keys: "mm_keys_loop fs s e (idx + 1) = Inr (ks, j)"
      by (rule returnsE) (metis surj_pair)
    show ?thesis
      unfolding mm_keys_loop.simps[of fs s e idx] Let_def ident option.case next_keys rbind_simps
        prod.case by simp
  qed
qed

lemma extra_keys_return:
  assumes "\<forall>f \<in> set (mm_features r). mm_identifier f \<noteq> None" "0 \<le> mm"
  shows "\<exists>ks mm'. generate_block_hash_extra_keys r s e mm = Inr (ks, mm') \<and> 0 \<le> mm'"
proof -
  obtain ks j where "mm_keys_loop (mm_features r) s e (nat mm) = Inr (ks, j)"
    using mm_keys_loop_returns[OF assms(1), of s e "nat mm"] by (rule returnsE) (metis surj_pair)
  then show ?thesis using assms(2)
    by (auto simp: generate_block_hash_extra_keys_def gen_mm_extra_hash_keys_def Let_def)
qed

lemma event_keys_return:
  assumes "\<forall>f \<in> set (mm_features r). mm_identifier f \<noteq> None" "0 \<le> mm" "\<forall>i \<in> set is. i < length blocks"
  shows "returns (event_keys_loop r bs blk_mask blocks nc is mm p)"
  using assms(2,3)
proof (induction "is" arbitrary: mm)
  case (Cons i "is")
  obtain ks mm' where k: "generate_block_hash_extra_keys r (i * bs) (i * bs + bs) mm = Inr (ks, mm')" "0 \<le> mm'"
    using extra_keys_return[OF assms(1) Cons.prems(1)] by blast
  have "returns (event_keys_loop r bs blk_mask blocks nc is mm p)"
    "returns (event_keys_loop r bs blk_mask blocks nc is mm' p)"
    using Cons.IH[of mm] Cons.IH[of mm'] Cons.prems k(2) by simp_all
  then show ?case using Cons.prems k(1) by (auto simp: list_get_def elim!: returnsE)
qed simp

text \<open>The hashes at the granularity of the group's block size.\<close>

definition hashes_for :: "request \<Rightarrow> nat \<Rightarrow> block_pool \<Rightarrow> block_hash_view res" where
  "hashes_for r bs p =
     (if bs = hash_block_size p then Inr (PlainHashes (block_hashes r))
      else block_hash_list_with_block_size (block_hashes r) (hash_block_size p) bs)"

lemma cache_full_blocks_ok:
  assumes ok: "pool_ok p xs" and lt: "num_cached < num_full" "num_full \<le> length blocks"
    and hv: "hashes_for r bs p = Inr v" "num_full \<le> view_len v" "num_full \<le> length (block_hashes r)"
    and m: "case blk_mask of None \<Rightarrow> True | Some m \<Rightarrow> length m = num_full - num_cached"
    and c: "cacheable p blk_mask 0 (drop num_cached (take num_full blocks))" and g: "g < 2 ^ 32"
    and mm: "\<forall>f \<in> set (mm_features r). mm_identifier f \<noteq> None"
  shows "\<exists>p'. cache_full_blocks r blocks num_cached num_full bs g blk_mask p = Inr p' \<and>
     pool_ok p' xs \<and> same_config p p' \<and> refs p' = refs p \<and>
     (\<forall>c. c \<notin> set (drop num_cached (take num_full blocks)) \<longrightarrow>
        block_hash (heap p' c) = block_hash (heap p c)) \<and>
     (\<forall>j \<in> to_store p blk_mask 0 (drop num_cached (take num_full blocks)).
        block_hash (heap p' (blocks ! (num_cached + j))) = Some (view_item v (num_cached + j) @ to_bytes4 g))"
proof -
  let ?new = "drop num_cached (take num_full blocks)"
  have len: "length ?new = num_full - num_cached" using lt by simp
  obtain ext p' where cl: "cache_loop g blk_mask (view_from v num_cached) 0 ?new p = Inr (ext, p')"
    "pool_ok p' xs" "same_config p p'" "refs p' = refs p"
    "\<forall>c. c \<notin> set ?new \<longrightarrow> block_hash (heap p' c) = block_hash (heap p c)"
    "\<forall>j \<in> to_store p blk_mask 0 ?new. block_hash (heap p' (?new ! j)) =
       Some (view_from v num_cached ! (0 + j) @ to_bytes4 g)"
  proof -
    have "0 + length ?new \<le> length (view_from v num_cached)"
      unfolding len length_view_from using hv(2) by simp
    then show thesis using that cache_loop_ok[OF ok c _ g] by blast
  qed
  have stored: "block_hash (heap p' (blocks ! (num_cached + j))) =
      Some (view_item v (num_cached + j) @ to_bytes4 g)" if "j \<in> to_store p blk_mask 0 ?new" for j
  proof -
    have "j < num_full - num_cached" using that len by (simp add: to_store_def)
    then show ?thesis using cl(6) that lt hv(2) by (auto simp: view_from_def)
  qed
  define parent where "parent = (if num_cached = 0 then Inr None
      else rbind (view_get v (num_cached - 1)) (\<lambda>h.
        Inr (Some (maybe_convert_block_hash (events_use_int_hashes p') h))) :: external_block_hash option res)"
  have "returns parent" using lt hv(2) by (auto simp: parent_def view_get_in_range)
  then obtain par where par: "parent = Inr par" by (auto elim: returnsE)
  have "returns (event_keys_loop r bs blk_mask blocks num_cached [num_cached..<num_full] 0 p')"
    using lt by (intro event_keys_return[OF mm]) auto
  then obtain keys where keys:
    "event_keys_loop r bs blk_mask blocks num_cached [num_cached..<num_full] 0 p' = Inr keys"
    by (auto elim: returnsE)
  define p'' where "p'' = (if \<not> enable_kv_cache_events p' then p' else p'\<lparr>kv_event_queue := kv_event_queue p' @
      [BlockStored ext par (drop (num_cached * bs) (take (num_full * bs) (all_token_ids r))) bs
         (map_option (\<lambda>l. (adapter_id l, lora_name l)) (req_lora r))
         (if keys = [] then None else Some keys) g]\<rparr>)"
  have "cache_full_blocks r blocks num_cached num_full bs g blk_mask p = Inr p''"
  proof -
    have g1: "(num_cached \<ge> num_full) = False" "(length (block_hashes r) \<ge> num_full) = True"
      using lt hv(3) by simp_all
    have g2: "(case blk_mask of None \<Rightarrow> True | Some m \<Rightarrow> length m = length ?new) = True"
      using m len by (cases blk_mask) simp_all
    show ?thesis
      unfolding cache_full_blocks_def hashes_for_def[symmetric] Let_def g1 g2 hv(1) rbind_simps
        py_assert_simps if_False cl(1) p''_def prod.case parent_def[symmetric] par keys
      by (cases "enable_kv_cache_events p'") simp_all
  qed
  moreover have "pool_ok p'' xs" using cl(2) by (simp add: p''_def)
  moreover have "same_config p p''" using cl(3) by (auto simp: p''_def same_config_def)
  moreover have "heap p'' = heap p'" by (simp add: p''_def)
  moreover have "refs p'' = refs p" using cl(4) by (simp add: refs_def p''_def fun_eq_iff)
  ultimately show ?thesis using cl(5) stored by auto
qed

section \<open>Eviction by id, reset and construction\<close>

lemma evict_blocks_ok:
  assumes "pool_ok p xs" "\<forall>i \<in> set is. i < num_gpu_blocks p"
  shows "\<exists>p'. evict_blocks is p = Inr p' \<and> pool_ok p' xs \<and> same_config p p' \<and> refs p' = refs p \<and>
     (\<forall>c. block_hash (heap p' c) = (if c \<in> Blk ` set is then None else block_hash (heap p c)))"
  using assms
proof (induction "is" arbitrary: p)
  case (Cons i "is")
  let ?p = "snd (maybe_evict_cached_block (Blk i) p)"
  have inv: "pool_inv p xs {}" using Cons.prems(1) by (simp add: pool_ok_def)
  note ev = evict_effect[OF inv, of "Blk i"] evict_inv[OF inv, of "Blk i"]
  have cfg: "same_config p ?p" by (rule ev(4))
  obtain p' where p': "evict_blocks is ?p = Inr p'" "pool_ok p' xs" "same_config ?p p'" "refs p' = refs ?p"
    "\<forall>c. block_hash (heap p' c) = (if c \<in> Blk ` set is then None else block_hash (heap ?p c))"
    using Cons.IH[of ?p] ev(6) Cons.prems(2) cfg by (auto simp: pool_ok_def same_config_def)
  have "block_hash (heap p' c) = (if c \<in> Blk ` set (i # is) then None else block_hash (heap p c))" for c
    using p'(5) by (simp add: ev(1))
  then show ?case
    using p'(1,2,4) Cons.prems(2) same_config_trans[OF cfg p'(3)] ev(7) by auto
qed simp

lemma fold_reset_hash:
  "fold (\<lambda>i. reset_hash (Blk i)) is h c =
     (if c \<in> Blk ` set is then (h c)\<lparr>block_hash := None\<rparr> else h c)"
  by (induction "is" arbitrary: h) (auto simp: reset_hash_def)

lemma pool_ok_no_hashes:
  assumes ok: "pool_ok p xs"
  defines "p' \<equiv> p\<lparr>cached_block_hash_to_block := Map.empty,
                  heap := fold (\<lambda>i. reset_hash (Blk i)) [0..<num_gpu_blocks p] (heap p)\<rparr>"
  shows "pool_ok p' xs" "refs p' = refs p" "block_hash (heap p' c) = None"
proof -
  have inv: "pool_inv p xs {}" using ok by (simp add: pool_ok_def)
  show r: "refs p' = refs p" by (rule ext) (simp add: refs_def p'_def fold_reset_hash)
  have u: "usable p' = usable p" by (simp add: usable_def p'_def fun_eq_iff)
  have hashed: "block_hash (heap p c) \<noteq> None \<Longrightarrow> c \<in> Blk ` set [0..<num_gpu_blocks p]" for c
    using inv by (auto simp: pool_inv_def usable_def)
  show h: "block_hash (heap p' c) = None" for c
    using hashed[of c] by (cases "block_hash (heap p c)") (auto simp: p'_def fold_reset_hash)
  have q: "queue_rep p' xs = queue_rep p xs"
    by (rule queue_rep_cong) (simp_all add: p'_def fold_reset_hash)
  have n: "is_null (heap p' c) = is_null (heap p c)" for c by (simp add: p'_def fold_reset_hash)
  show "pool_ok p' xs"
    using inv unfolding pool_ok_def pool_inv_def q r u n h by (simp add: p'_def)
qed

lemma reset_prefix_cache_ok:
  assumes ok: "pool_ok p xs"
  shows "fst (reset_prefix_cache p) = (num_gpu_blocks p = Suc (length xs))"
    and "pool_ok (snd (reset_prefix_cache p)) xs" and "refs (snd (reset_prefix_cache p)) = refs p"
    and "fst (reset_prefix_cache p) \<Longrightarrow> block_hash (heap (snd (reset_prefix_cache p)) c) = None"
proof -
  have "num_free_blocks p = int (length xs)"
    using fq.law_size[OF pool_inv_zero(4)[of p xs "{}"]] ok by (simp add: pool_ok_def)
  then show f: "fst (reset_prefix_cache p) = (num_gpu_blocks p = Suc (length xs))"
    by (auto simp: reset_prefix_cache_def get_num_free_blocks_def Let_def)
  define p' where "p' = p\<lparr>cached_block_hash_to_block := Map.empty,
                  heap := fold (\<lambda>i. reset_hash (Blk i)) [0..<num_gpu_blocks p] (heap p)\<rparr>"
  note p' = pool_ok_no_hashes[OF ok, folded p'_def]
  have s: "snd (reset_prefix_cache p) = (if fst (reset_prefix_cache p)
      then (if enable_kv_cache_events p then p'\<lparr>kv_event_queue := kv_event_queue p' @ [AllBlocksCleared]\<rparr> else p')
      else p)"
    by (simp add: reset_prefix_cache_def Let_def p'_def)
  have ev: "refs (p'\<lparr>kv_event_queue := e\<rparr>) = refs p'" for e by (simp add: refs_def fun_eq_iff)
  show "pool_ok (snd (reset_prefix_cache p)) xs" unfolding s using ok p'(1) by simp
  show "refs (snd (reset_prefix_cache p)) = refs p" unfolding s using p'(2) ev by simp
  show "fst (reset_prefix_cache p) \<Longrightarrow> block_hash (heap (snd (reset_prefix_cache p)) c) = None"
    unfolding s using p'(3) by simp
qed

lemma fresh_payload: "payload (fst (init_free_queue n fresh_store) r) = payload (fresh_store r)"
proof -
  have "payload (fold (link_step n) is h r) = payload (h r)" for "is" h
    by (induction "is" arbitrary: h) (simp_all add: link_step_def Let_def)
  then have f: "payload (fold (link_step n) [0..<n] fresh_store r) = payload (fresh_store r)" .
  show ?thesis
    by (cases r) (use f in \<open>simp_all add: init_free_queue_def Let_def\<close>, simp_all add: fresh_store_def)
qed

lemma init_block_pool_ok:
  assumes "0 < n"
  shows "\<exists>p. init_block_pool n caching hbs events use_int = Inr p \<and> pool_ok p (map Blk [1..<n]) \<and>
             num_gpu_blocks p = n \<and> enable_caching p = caching \<and> hash_block_size p = hbs \<and>
             enable_kv_cache_events p = events \<and>
             (\<forall>c. refs p c = 0) \<and> (\<forall>c. block_hash (heap p c) = None)"
proof -
  let ?q = "\<lparr>heap = fst (init_free_queue n fresh_store), num_free_blocks = snd (init_free_queue n fresh_store),
     num_gpu_blocks = n, enable_caching = caching, hash_block_size = hbs,
     cached_block_hash_to_block = Map.empty, null_block = Head,
     enable_kv_cache_events = events, kv_event_queue = [], events_use_int_hashes = use_int\<rparr>"
  have pl: "payload (heap ?q r) = payload (fresh_store r)" for r by (simp add: fresh_payload)
  have "queue_rep ?q (map Blk [0..<n]) = queue_rep (new_free_queue n) (map Blk [0..<n])"
    by (simp add: queue_rep_def new_free_queue_def)
  then have "queue_rep ?q (Blk 0 # map Blk [1..<n])"
    using new_free_queue_rep[of n] assms by (simp add: upt_conv_Cons)
  then obtain p1 where p1: "popleft ?q = Inr (Blk 0, p1)" "queue_rep p1 (map Blk [1..<n])" "same_blocks ?q p1"
    using popleft_rep by blast
  define p where "p = p1\<lparr>null_block := Blk 0, heap := (heap p1)(Blk 0 := (heap p1 (Blk 0))\<lparr>is_null := True\<rparr>)\<rparr>"
  have pl1: "payload (heap p1 r) = payload (fresh_store r)" for r
    using p1(3) pl by (simp add: same_blocks_def)
  have fields: "ref_cnt (heap p1 r) = 0" "block_hash (heap p1 r) = None" "\<not> is_null (heap p1 r)" for r
    using pl1[of r] by (cases r; simp add: payload_fields fresh_store_def new_kv_cache_block_def)+
  have cfg: "num_gpu_blocks p1 = n" "cached_block_hash_to_block p1 = Map.empty"
    "enable_caching p1 = caching" "hash_block_size p1 = hbs" "enable_kv_cache_events p1 = events"
    using same_blocks_pool(1,5)[OF p1(3)] by (simp_all add: same_config_def)
  have r: "refs p c = 0" and h: "block_hash (heap p c) = None" and nl: "is_null (heap p c) \<longleftrightarrow> c = Blk 0" for c
    using fields by (simp_all add: p_def refs_def)
  have q: "queue_rep p (map Blk [1..<n]) = queue_rep p1 (map Blk [1..<n])"
    by (rule queue_rep_cong) (simp_all add: p_def)
  have us: "set (map Blk [1..<n]) = {b. usable p b}"
    using assms by (auto simp: usable_def p_def cfg)
  have "pool_ok p (map Blk [1..<n])"
    using p1(2) assms us unfolding pool_ok_def pool_inv_def q r h nl by (auto simp: p_def cfg)
  moreover have "init_block_pool n caching hbs events use_int = Inr p"
    using assms p1(1) by (simp add: init_block_pool_def p_def)
  ultimately show ?thesis using r h by (auto simp: p_def cfg)
qed

section \<open>The pool provides the interface\<close>

definition pool_good :: "block_pool \<Rightarrow> bool" where
  "pool_good p \<longleftrightarrow> (\<exists>xs. pool_ok p xs)"

lemma pool_ok_free_list:
  assumes "pool_ok p xs"
  shows "distinct xs" "num_free_blocks p = int (length xs)" "set xs = {b. usable p b \<and> refs p b = 0}"
  using assms pool_inv_zero(4)[of p xs "{}"] fq.law_distinct fq.law_size
  by (auto simp: pool_ok_def pool_inv_def)

lemma holding_releasable:
  "holding_ok (usable p) (null_block p) bs \<Longrightarrow> \<forall>b \<in> set bs. usable p b \<longrightarrow> 1 \<le> refs p b \<Longrightarrow>
   releasable p bs"
  by (auto simp: holding_ok_def releasable_def non_null_def)

lemma same_config_frame: "same_config p p' \<Longrightarrow> usable p' = usable p \<and> null_block p' = null_block p"
  by (rule conjI[OF same_config_usable]) (simp_all add: same_config_def)

lemma alloc_law:
  assumes "pool_good p" "int n \<le> num_free_blocks p"
  shows "\<exists>bs p'. get_new_blocks (int n) p = Inr (bs, p') \<and> pool_good p' \<and> usable p' = usable p \<and>
    null_block p' = null_block p \<and> length bs = n \<and> distinct bs \<and>
    (\<forall>b \<in> set bs. usable p b \<and> refs p b = 0) \<and> (\<forall>b. refs p' b = refs p b + int (count_list bs b))"
proof -
  obtain xs where ok: "pool_ok p xs" using assms(1) unfolding pool_good_def by blast
  note free = pool_ok_free_list[OF ok]
  have len: "n \<le> length xs" using assms(2) free(2) by simp
  obtain p' where p': "get_new_blocks (int n) p = Inr (take n xs, p')" "pool_ok p' (drop n xs)"
    "same_config p p'" "refs p' = more_refs (take n xs) (refs p)"
    using get_new_blocks_ok[OF ok len] by (elim exE conjE)
  have "\<forall>b \<in> set (take n xs). usable p b \<and> refs p b = 0"
  proof
    fix b assume "b \<in> set (take n xs)"
    then have "b \<in> set xs" by (rule in_set_takeD)
    then show "usable p b \<and> refs p b = 0" unfolding free(3) by simp
  qed
  moreover have "pool_good p'" using p'(2) unfolding pool_good_def by blast
  moreover have "\<forall>b. refs p' b = refs p b + int (count_list (take n xs) b)"
    unfolding p'(4) more_refs_def by simp
  moreover have "length (take n xs) = n" "distinct (take n xs)" using len free(1) by simp_all
  ultimately show ?thesis
    using p'(1) same_config_frame[OF p'(3), THEN conjunct1] same_config_frame[OF p'(3), THEN conjunct2]
    by (intro exI[of _ "take n xs"] exI[of _ p'] conjI)
qed

lemma share_law:
  assumes "pool_good p" "\<forall>b \<in> set bs. b = null_block p \<or> usable p b"
  shows "\<exists>p'. touch bs p = Inr p' \<and> pool_good p' \<and> usable p' = usable p \<and>
    null_block p' = null_block p \<and> (\<forall>b. refs p' b = refs p b + int (count_list bs b))"
proof -
  obtain xs where ok: "pool_ok p xs" using assms(1) unfolding pool_good_def by blast
  have "\<forall>b \<in> set bs. usable p b \<or> b = null_block p" using assms(2) by blast
  from touch_ok[OF ok this] obtain p' where p': "touch bs p = Inr p'"
    "pool_ok p' (filter (\<lambda>b. b \<notin> set bs) xs)" "same_config p p'" "refs p' = more_refs bs (refs p)" by blast
  have "pool_good p'" using p'(2) unfolding pool_good_def by blast
  moreover have "\<forall>b. refs p' b = refs p b + int (count_list bs b)"
    unfolding p'(4) more_refs_def by simp
  ultimately show ?thesis
    using p'(1) same_config_frame[OF p'(3), THEN conjunct1] same_config_frame[OF p'(3), THEN conjunct2]
    by (intro exI[of _ p'] conjI)
qed

lemma release_law:
  assumes "pool_good p" "holding_ok (usable p) (null_block p) bs"
    "\<forall>b \<in> set bs. usable p b \<longrightarrow> 1 \<le> refs p b"
  shows "\<exists>p'. free_blocks bs front p = Inr p' \<and> pool_good p' \<and> usable p' = usable p \<and>
    null_block p' = null_block p \<and> (\<forall>b. refs p' b = refs p b - int (count_list bs b))"
proof -
  obtain xs where ok: "pool_ok p xs" using assms(1) unfolding pool_good_def by blast
  from free_blocks_ok[OF ok holding_releasable[OF assms(2,3)], of front]
  obtain p' ys where p': "free_blocks bs front p = Inr p'" "pool_ok p' ys" "same_config p p'"
    "refs p' = fewer_refs bs (refs p)" by blast
  have "pool_good p'" using p'(2) unfolding pool_good_def by blast
  moreover have "\<forall>b. refs p' b = refs p b - int (count_list bs b)"
    unfolding p'(4) fewer_refs_def by simp
  ultimately show ?thesis
    using p'(1) same_config_frame[OF p'(3), THEN conjunct1] same_config_frame[OF p'(3), THEN conjunct2]
    by (intro exI[of _ p'] conjI)
qed

lemma pool_good_avail:
  "pool_good p \<Longrightarrow> num_free_blocks p = int (card {b. usable p b \<and> refs p b = 0})"
proof -
  assume "pool_good p"
  then obtain xs where "pool_ok p xs" unfolding pool_good_def by blast
  note free = pool_ok_free_list[OF this]
  show ?thesis unfolding free(3)[symmetric] free(2) using distinct_card[OF free(1)] by simp
qed

lemma pool_good_fail: "pool_good p \<Longrightarrow> num_free_blocks p < n \<Longrightarrow> get_new_blocks n p = Inl ValueError"
  by (simp add: get_new_blocks_def get_num_free_blocks_def)

lemma finite_usable: "finite {b. usable p b}"
  by (rule finite_subset[of _ "Blk ` {..<num_gpu_blocks p}"]) (auto simp: usable_def)

lemma pool_good_null: "pool_good p \<Longrightarrow> \<not> usable p (null_block p)"
  unfolding pool_good_def pool_ok_def using null_not_usable by blast

interpretation bp: ref_counted_pool pool_good usable null_block refs num_free_blocks
  get_new_blocks touch free_blocks
  by unfold_locales
     (rule pool_good_null finite_usable pool_good_avail alloc_law pool_good_fail share_law release_law;
      assumption)+

text \<open>A small pool, to show that the hypotheses of the properties can hold.\<close>

definition demo_pool :: block_pool where
  "demo_pool = projr (init_block_pool 4 True 2 False False)"

lemma demo_pool_init: "init_block_pool 4 True 2 False False = Inr demo_pool"
  using init_block_pool_ok[of 4 True 2 False False] by (auto simp: demo_pool_def)

lemma demo_pool_ok: "pool_ok demo_pool [Blk 1, Blk 2, Blk 3]"
proof -
  have "pool_ok demo_pool (map Blk [1..<4])"
    using init_block_pool_ok[of 4 True 2 False False] demo_pool_init by auto
  moreover have "map Blk [1..<4] = [Blk 1, Blk 2, Blk 3]" by (simp add: upt_rec)
  ultimately show ?thesis by simp
qed

lemma demo_pool_null: "null_block demo_pool = Blk 0"
  using demo_pool_ok by (simp add: pool_ok_def pool_inv_def)

section \<open>Properties\<close>

text \<open>
  C12. The hash map behaves as a table of lists: a lookup returns the block stored first under the key
  that is still there, an insertion adds a block at the end of its key's list unless it is listed, and
  a removal reports whether the block was listed and takes exactly it away, whatever the internal
  representation (nothing, one block, or a dictionary) is.
\<close>

theorem block_map_refines_lists:
  "get_one_block k m = (case cached_at m k of [] \<Rightarrow> None | b # _ \<Rightarrow> Some b) \<and>
   cached_at (map_insert k b m) =
     (cached_at m)(k := if b \<in> set (cached_at m k) then cached_at m k else cached_at m k @ [b]) \<and>
   fst (map_pop k b m) = (if b \<in> set (cached_at m k) then Some b else None) \<and>
   cached_at (snd (map_pop k b m)) = (cached_at m)(k := remove1 b (cached_at m k))"
  by (simp add: get_one_block_cached_at cached_at_insert map_pop_cached_at)

text \<open>
  C10. Allocation.  On a pool that satisfies the invariant with free list \<open>xs\<close>, asking for more blocks than
  are free raises \<^verbatim>\<open>ValueError\<close>; otherwise the first \<open>n\<close> blocks of the free list are returned, each
  with reference count one and, with caching on, without a hash, so that no lookup can return
  them any more; no other block's count or hash changes and the invariant holds again.
\<close>

theorem get_new_blocks_correct:
  assumes "pool_ok p xs"
  shows "if length xs < n then get_new_blocks (int n) p = Inl ValueError
    else \<exists>p'. get_new_blocks (int n) p = Inr (take n xs, p') \<and> pool_ok p' (drop n xs) \<and>
      (\<forall>b. refs p' b = (if b \<in> set (take n xs) then 1 else refs p b)) \<and>
      (\<forall>b. block_hash (heap p' b) =
         (if enable_caching p \<and> b \<in> set (take n xs) then None else block_hash (heap p b))) \<and>
      (enable_caching p \<longrightarrow> (\<forall>k b. get_one_block k (cached_block_hash_to_block p') = Some b \<longrightarrow>
                               b \<notin> set (take n xs)))"
proof (cases "length xs < n")
  case True
  then show ?thesis using get_new_blocks_too_many[OF assms] by simp
next
  case False
  then have n: "n \<le> length xs" by simp
  obtain p' where p': "get_new_blocks (int n) p = Inr (take n xs, p')" "pool_ok p' (drop n xs)"
    "refs p' = more_refs (take n xs) (refs p)"
    "\<forall>b. block_hash (heap p' b) =
       (if enable_caching p \<and> b \<in> set (take n xs) then None else block_hash (heap p b))"
    using get_new_blocks_ok[OF assms n] by blast
  note free = pool_ok_free_list[OF assms]
  have "refs p' b = (if b \<in> set (take n xs) then 1 else refs p b)" for b
    using p'(3) free(3) count_list_distinct[OF distinct_take[OF free(1)], of n b]
    by (auto simp: more_refs_def dest: in_set_takeD)
  moreover have "b \<notin> set (take n xs)"
    if "enable_caching p" "get_one_block k (cached_block_hash_to_block p') = Some b" for k b
  proof -
    have "b \<in> set (cached_at (cached_block_hash_to_block p') k)"
      using that(2) by (auto simp: get_one_block_cached_at split: list.splits)
    then have "block_hash (heap p' b) = Some k"
      using p'(2) by (simp add: pool_ok_def pool_inv_def)
    then show ?thesis using p'(4) that(1) by (metis option.distinct(1))
  qed
  ultimately show ?thesis unfolding if_not_P[OF False] using p' by blast
qed

theorem get_new_blocks_correct_witness:
  "if length [Blk 1, Blk 2, Blk 3] < 2 then get_new_blocks (int 2) demo_pool = Inl ValueError
   else \<exists>p'. get_new_blocks (int 2) demo_pool = Inr (take 2 [Blk 1, Blk 2, Blk 3], p') \<and>
      pool_ok p' (drop 2 [Blk 1, Blk 2, Blk 3]) \<and>
      (\<forall>b. refs p' b = (if b \<in> set (take 2 [Blk 1, Blk 2, Blk 3]) then 1 else refs demo_pool b)) \<and>
      (\<forall>b. block_hash (heap p' b) =
         (if enable_caching demo_pool \<and> b \<in> set (take 2 [Blk 1, Blk 2, Blk 3]) then None
          else block_hash (heap demo_pool b))) \<and>
      (enable_caching demo_pool \<longrightarrow>
         (\<forall>k b. get_one_block k (cached_block_hash_to_block p') = Some b \<longrightarrow>
            b \<notin> set (take 2 [Blk 1, Blk 2, Blk 3])))"
  by (rule get_new_blocks_correct[OF demo_pool_ok])



text \<open>
  C28. Usage is a fraction: on a pool that satisfies the invariant the reported KV-cache usage lies between
  0 and 1, and it is 0 exactly when every block but the null block is free.
\<close>

theorem usage_bounds:
  assumes "pool_ok p xs"
  shows "\<exists>u. get_usage p = Fin u \<and> 0 \<le> u \<and> u \<le> 1 \<and> (u = 0 \<longleftrightarrow> num_gpu_blocks p = Suc (length xs))"
proof -
  note free = pool_ok_free_list[OF assms]
  have n: "0 < num_gpu_blocks p" using assms by (simp add: pool_ok_def pool_inv_def)
  have "set xs \<subseteq> Blk ` {1..<num_gpu_blocks p}" unfolding free(3) by (auto simp: usable_def)
  then have "card (set xs) \<le> card (Blk ` {1..<num_gpu_blocks p})" by (intro card_mono) simp_all
  then have le: "length xs \<le> num_gpu_blocks p - 1"
    using distinct_card[OF free(1)] card_image_le[of "{1..<num_gpu_blocks p}" Blk] by simp
  define k where "k = num_gpu_blocks p - 1"
  have k: "num_gpu_blocks p = Suc k" "length xs \<le> k" using n le by (simp_all add: k_def)
  show ?thesis
  proof (cases "k = 0")
    case True
    then show ?thesis using k by (simp add: get_usage_def)
  next
    case False
    then have "get_usage p = Fin (1 - real (length xs) / real k)"
      using k free(2) by (simp add: get_usage_def get_num_free_blocks_def Let_def)
    moreover have "0 \<le> 1 - real (length xs) / real k" "1 - real (length xs) / real k \<le> 1"
      "1 - real (length xs) / real k = 0 \<longleftrightarrow> num_gpu_blocks p = Suc (length xs)"
      using False k by (auto simp: field_simps)
    ultimately show ?thesis by (intro exI[of _ "1 - real (length xs) / real k"] conjI)
  qed
qed

theorem usage_bounds_witness:
  "\<exists>u. get_usage demo_pool = Fin u \<and> 0 \<le> u \<and> u \<le> 1 \<and>
       (u = 0 \<longleftrightarrow> num_gpu_blocks demo_pool = Suc (length [Blk 1, Blk 2, Blk 3]))"
  by (rule usage_bounds[OF demo_pool_ok])

end
