(* ===== verification/KV_Spec.thy ===== *)
theory KV_Spec
  imports Prelude
begin

text \<open>
  The description of one layer's KV cache, \<^verbatim>\<open>src/vllm/vllm/v1/kv_cache_interface.py\<close>, and the registry
  that assigns a manager class to every kind of description,
  \<^verbatim>\<open>src/vllm/vllm/v1/kv_cache_spec_registry.py\<close>.  The element size of a torch data type is a parameter
  \<open>esz\<close> of the definitions that need it.  Sizes are natural numbers; a division by a size that is zero is
  the exception it is in Python.
\<close>

section \<open>Quantization modes\<close>

datatype kv_quant_mode = QNone | FP8_PER_TENSOR | INT8_PER_TOKEN_HEAD | FP8_PER_TOKEN_HEAD | NVFP4

definition is_per_token_head :: "kv_quant_mode \<Rightarrow> bool" where
  "is_per_token_head q \<longleftrightarrow> q = INT8_PER_TOKEN_HEAD \<or> q = FP8_PER_TOKEN_HEAD"

definition is_nvfp4 :: "kv_quant_mode \<Rightarrow> bool" where
  "is_nvfp4 q \<longleftrightarrow> q = NVFP4"

definition get_kv_quant_mode :: "string \<Rightarrow> kv_quant_mode" where
  "get_kv_quant_mode s =
     (if s = ''int8_per_token_head'' then INT8_PER_TOKEN_HEAD
      else if s = ''fp8_per_token_head'' then FP8_PER_TOKEN_HEAD
      else if s = ''nvfp4'' then NVFP4
      else if take 3 s = ''fp8'' then FP8_PER_TENSOR
      else QNone)"

definition is_quantized_kv_cache :: "string \<Rightarrow> bool" where
  "is_quantized_kv_cache s \<longleftrightarrow> get_kv_quant_mode s \<noteq> QNone"

definition kv_cache_uses_per_token_head_scales :: "string \<Rightarrow> bool" where
  "kv_cache_uses_per_token_head_scales s \<longleftrightarrow> is_per_token_head (get_kv_quant_mode s)"

section \<open>Specifications\<close>

text \<open>The fields of \<^verbatim>\<open>AttentionSpec\<close>, of \<^verbatim>\<open>FullAttentionSpec\<close>, of the MLA formats and of Mamba.\<close>

record attention_fields =
  af_block_size :: nat
  num_kv_heads :: nat
  head_size :: nat
  af_dtype :: string
  quant_mode :: kv_quant_mode
  page_size_padded :: "nat option"

record full_fields =
  head_size_v :: nat
  full_sliding_window :: "nat option"
  full_chunk_size :: "nat option"

record mla_fields =
  cache_dtype_str :: "string option"
  mla_alignment :: "nat option"
  compress_ratio :: nat
  model_version :: "string option"

record mamba_fields =
  mb_block_size :: nat
  shapes :: "nat list list"
  dtypes :: "string list"
  mb_page_size_padded :: "nat option"
  mamba_type :: string
  mamba_cache_mode :: string
  num_speculative_blocks :: nat

datatype kv_cache_spec =
    FullAttentionSpec attention_fields full_fields
  | TQFullAttentionSpec attention_fields full_fields nat
  | MLAAttentionSpec attention_fields full_fields mla_fields
  | HiddenStateCacheSpec attention_fields full_fields mla_fields
  | SinkFullAttentionSpec attention_fields full_fields "nat option"
  | ChunkedLocalAttentionSpec attention_fields nat
  | SlidingWindowSpec attention_fields nat nat
  | SlidingWindowMLASpec attention_fields nat "nat option" mla_fields
  | MambaSpec mamba_fields
  | EncoderOnlyAttentionSpec attention_fields
  | CrossAttentionSpec attention_fields
  | UniformTypeKVCacheSpecs nat "(string \<times> kv_cache_spec) list"

type_synonym layer_specs = "(string \<times> kv_cache_spec) list"

fun attn :: "kv_cache_spec \<Rightarrow> attention_fields option" where
  "attn (FullAttentionSpec a _) = Some a"
| "attn (TQFullAttentionSpec a _ _) = Some a"
| "attn (MLAAttentionSpec a _ _) = Some a"
| "attn (HiddenStateCacheSpec a _ _) = Some a"
| "attn (SinkFullAttentionSpec a _ _) = Some a"
| "attn (ChunkedLocalAttentionSpec a _) = Some a"
| "attn (SlidingWindowSpec a _ _) = Some a"
| "attn (SlidingWindowMLASpec a _ _ _) = Some a"
| "attn (MambaSpec _) = None"
| "attn (EncoderOnlyAttentionSpec a) = Some a"
| "attn (CrossAttentionSpec a) = Some a"
| "attn (UniformTypeKVCacheSpecs _ _) = None"

fun full_of :: "kv_cache_spec \<Rightarrow> full_fields option" where
  "full_of (FullAttentionSpec _ f) = Some f"
| "full_of (TQFullAttentionSpec _ f _) = Some f"
| "full_of (MLAAttentionSpec _ f _) = Some f"
| "full_of (HiddenStateCacheSpec _ f _) = Some f"
| "full_of (SinkFullAttentionSpec _ f _) = Some f"
| "full_of _ = None"

fun mla_of :: "kv_cache_spec \<Rightarrow> mla_fields option" where
  "mla_of (MLAAttentionSpec _ _ m) = Some m"
| "mla_of (HiddenStateCacheSpec _ _ m) = Some m"
| "mla_of (SlidingWindowMLASpec _ _ _ m) = Some m"
| "mla_of _ = None"

fun spec_block_size :: "kv_cache_spec \<Rightarrow> nat" where
  "spec_block_size (MambaSpec m) = mb_block_size m"
| "spec_block_size (UniformTypeKVCacheSpecs b _) = b"
| "spec_block_size s = (case attn s of Some a \<Rightarrow> af_block_size a | None \<Rightarrow> 0)"

text \<open>Classes and their method resolution order; \<^verbatim>\<open>isinstance\<close> looks the class up there.\<close>

datatype spec_class =
    CKVCacheSpec | CAttentionSpec | CFullAttentionSpec | CTQFullAttentionSpec | CMLAAttentionSpec
  | CHiddenStateCacheSpec | CSinkFullAttentionSpec | CChunkedLocalAttentionSpec | CSlidingWindowSpec
  | CSlidingWindowMLASpec | CMambaSpec | CEncoderOnlyAttentionSpec | CCrossAttentionSpec
  | CUniformTypeKVCacheSpecs

fun mro :: "spec_class \<Rightarrow> spec_class list" where
  "mro CKVCacheSpec = [CKVCacheSpec]"
| "mro CAttentionSpec = [CAttentionSpec, CKVCacheSpec]"
| "mro CFullAttentionSpec = [CFullAttentionSpec, CAttentionSpec, CKVCacheSpec]"
| "mro CTQFullAttentionSpec = [CTQFullAttentionSpec, CFullAttentionSpec, CAttentionSpec, CKVCacheSpec]"
| "mro CMLAAttentionSpec = [CMLAAttentionSpec, CFullAttentionSpec, CAttentionSpec, CKVCacheSpec]"
| "mro CHiddenStateCacheSpec =
     [CHiddenStateCacheSpec, CMLAAttentionSpec, CFullAttentionSpec, CAttentionSpec, CKVCacheSpec]"
| "mro CSinkFullAttentionSpec =
     [CSinkFullAttentionSpec, CFullAttentionSpec, CAttentionSpec, CKVCacheSpec]"
| "mro CChunkedLocalAttentionSpec = [CChunkedLocalAttentionSpec, CAttentionSpec, CKVCacheSpec]"
| "mro CSlidingWindowSpec = [CSlidingWindowSpec, CAttentionSpec, CKVCacheSpec]"
| "mro CSlidingWindowMLASpec =
     [CSlidingWindowMLASpec, CSlidingWindowSpec, CAttentionSpec, CKVCacheSpec]"
| "mro CMambaSpec = [CMambaSpec, CKVCacheSpec]"
| "mro CEncoderOnlyAttentionSpec = [CEncoderOnlyAttentionSpec, CAttentionSpec, CKVCacheSpec]"
| "mro CCrossAttentionSpec = [CCrossAttentionSpec, CAttentionSpec, CKVCacheSpec]"
| "mro CUniformTypeKVCacheSpecs = [CUniformTypeKVCacheSpecs, CKVCacheSpec]"

fun class_of :: "kv_cache_spec \<Rightarrow> spec_class" where
  "class_of (FullAttentionSpec _ _) = CFullAttentionSpec"
| "class_of (TQFullAttentionSpec _ _ _) = CTQFullAttentionSpec"
| "class_of (MLAAttentionSpec _ _ _) = CMLAAttentionSpec"
| "class_of (HiddenStateCacheSpec _ _ _) = CHiddenStateCacheSpec"
| "class_of (SinkFullAttentionSpec _ _ _) = CSinkFullAttentionSpec"
| "class_of (ChunkedLocalAttentionSpec _ _) = CChunkedLocalAttentionSpec"
| "class_of (SlidingWindowSpec _ _ _) = CSlidingWindowSpec"
| "class_of (SlidingWindowMLASpec _ _ _ _) = CSlidingWindowMLASpec"
| "class_of (MambaSpec _) = CMambaSpec"
| "class_of (EncoderOnlyAttentionSpec _) = CEncoderOnlyAttentionSpec"
| "class_of (CrossAttentionSpec _) = CCrossAttentionSpec"
| "class_of (UniformTypeKVCacheSpecs _ _) = CUniformTypeKVCacheSpecs"

definition issubclass :: "spec_class \<Rightarrow> spec_class \<Rightarrow> bool" where
  "issubclass c d \<longleftrightarrow> d \<in> set (mro c)"

definition isinstance :: "kv_cache_spec \<Rightarrow> spec_class \<Rightarrow> bool" where
  "isinstance s c \<longleftrightarrow> issubclass (class_of s) c"

section \<open>Page sizes\<close>

definition nvfp4_kv_cache_full_dim :: "nat \<Rightarrow> nat" where
  "nvfp4_kv_cache_full_dim hs = hs div 2 + hs div 16"

definition storage_block_size :: "kv_cache_spec \<Rightarrow> nat res" where
  "storage_block_size s =
     (case mla_of s of
        Some m \<Rightarrow> rdiv (spec_block_size s) (compress_ratio m)
      | None \<Rightarrow> Inr (spec_block_size s))"

definition attention_real_page_size :: "(string \<Rightarrow> nat) \<Rightarrow> attention_fields \<Rightarrow> nat" where
  "attention_real_page_size esz a =
     2 * af_block_size a * num_kv_heads a *
     (if is_nvfp4 (quant_mode a) then nvfp4_kv_cache_full_dim (head_size a) else head_size a) *
     esz (af_dtype a)"

definition full_real_page_size :: "(string \<Rightarrow> nat) \<Rightarrow> attention_fields \<Rightarrow> nat \<Rightarrow> nat" where
  "full_real_page_size esz a hv =
     af_block_size a * num_kv_heads a *
     (if is_nvfp4 (quant_mode a)
      then nvfp4_kv_cache_full_dim (head_size a) + nvfp4_kv_cache_full_dim hv
      else head_size a + hv) *
     esz (af_dtype a)"

definition mla_real_page_size :: "(string \<Rightarrow> nat) \<Rightarrow> attention_fields \<Rightarrow> mla_fields \<Rightarrow> nat res" where
  "mla_real_page_size esz a m =
     (if cache_dtype_str m = Some ''fp8_ds_mla''
      then (if model_version m = Some ''deepseek_v4''
            then rbind (rdiv (af_block_size a) (compress_ratio m)) (\<lambda>sb. Inr (sb * 584))
            else Inr (af_block_size a * 656))
      else rbind (rdiv (af_block_size a) (compress_ratio m)) (\<lambda>sb.
             Inr (sb * num_kv_heads a * head_size a * esz (af_dtype a))))"

definition swa_mla_real_page_size :: "(string \<Rightarrow> nat) \<Rightarrow> attention_fields \<Rightarrow> mla_fields \<Rightarrow> nat res" where
  "swa_mla_real_page_size esz a m =
     (if model_version m = Some ''deepseek_v4'' \<and> cache_dtype_str m = Some ''fp8_ds_mla''
      then rbind (rdiv (af_block_size a) (compress_ratio m)) (\<lambda>sb. Inr (sb * 584))
      else py_assert (model_version m = None \<or> model_version m = Some ''deepseek_v4'')
        (rbind (rdiv (af_block_size a) (compress_ratio m)) (\<lambda>sb.
           Inr (sb * num_kv_heads a * head_size a * esz (af_dtype a)))))"

fun real_page_size_bytes :: "(string \<Rightarrow> nat) \<Rightarrow> kv_cache_spec \<Rightarrow> nat res" where
  "real_page_size_bytes esz (FullAttentionSpec a f) = Inr (full_real_page_size esz a (head_size_v f))"
| "real_page_size_bytes esz (TQFullAttentionSpec a f slot) =
     Inr (if slot > 0 then af_block_size a * num_kv_heads a * slot
          else full_real_page_size esz a (head_size_v f))"
| "real_page_size_bytes esz (MLAAttentionSpec a f m) = mla_real_page_size esz a m"
| "real_page_size_bytes esz (HiddenStateCacheSpec a f m) = mla_real_page_size esz a m"
| "real_page_size_bytes esz (SinkFullAttentionSpec a f _) =
     Inr (full_real_page_size esz a (head_size_v f))"
| "real_page_size_bytes esz (ChunkedLocalAttentionSpec a _) = Inr (attention_real_page_size esz a)"
| "real_page_size_bytes esz (SlidingWindowSpec a _ hv) = Inr (full_real_page_size esz a hv)"
| "real_page_size_bytes esz (SlidingWindowMLASpec a _ _ m) = swa_mla_real_page_size esz a m"
| "real_page_size_bytes esz (EncoderOnlyAttentionSpec a) = Inr (attention_real_page_size esz a)"
| "real_page_size_bytes esz (CrossAttentionSpec a) = Inr (attention_real_page_size esz a)"
| "real_page_size_bytes esz (MambaSpec _) = Inl AttributeError"
| "real_page_size_bytes esz (UniformTypeKVCacheSpecs _ _) = Inl AttributeError"

definition padded_to :: "nat option \<Rightarrow> nat \<Rightarrow> nat res" where
  "padded_to pad sz = (case pad of None \<Rightarrow> Inr sz | Some p \<Rightarrow> py_assert (p \<ge> sz) (Inr p))"

definition attention_page_size :: "(string \<Rightarrow> nat) \<Rightarrow> attention_fields \<Rightarrow> nat \<Rightarrow> nat res" where
  "attention_page_size esz a sz =
     padded_to (page_size_padded a)
       (if is_per_token_head (quant_mode a)
        then sz + 2 * af_block_size a * num_kv_heads a * esz ''float32'' else sz)"

definition mamba_page_size :: "(string \<Rightarrow> nat) \<Rightarrow> mamba_fields \<Rightarrow> nat res" where
  "mamba_page_size esz m =
     padded_to (mb_page_size_padded m)
       (sum_list (map (\<lambda>(shape, d). prod_list shape * esz d) (zip (shapes m) (dtypes m))))"

lemma rmapM_cong [fundef_cong]:
  "xs = ys \<Longrightarrow> (\<And>x. x \<in> set ys \<Longrightarrow> f x = g x) \<Longrightarrow> rmapM f xs = rmapM g ys"
  by (induction xs arbitrary: ys) auto

fun page_size_bytes :: "(string \<Rightarrow> nat) \<Rightarrow> kv_cache_spec \<Rightarrow> nat res" where
  "page_size_bytes esz (UniformTypeKVCacheSpecs _ specs) =
     rbind (rmapM (\<lambda>(name, s). page_size_bytes esz s) specs) (\<lambda>ps. Inr (sum_list ps))"
| "page_size_bytes esz (MambaSpec m) = mamba_page_size esz m"
| "page_size_bytes esz s =
     (case attn s of
        Some a \<Rightarrow> rbind (real_page_size_bytes esz s) (attention_page_size esz a)
      | None \<Rightarrow> Inl NotImplementedError)"

text \<open>The padding that the construction of an MLA specification adds.\<close>

definition with_padding :: "nat \<Rightarrow> kv_cache_spec \<Rightarrow> kv_cache_spec" where
  "with_padding p s =
     (case s of
        MLAAttentionSpec a f m \<Rightarrow> MLAAttentionSpec (a\<lparr>page_size_padded := Some p\<rparr>) f m
      | HiddenStateCacheSpec a f m \<Rightarrow> HiddenStateCacheSpec (a\<lparr>page_size_padded := Some p\<rparr>) f m
      | SlidingWindowMLASpec a w hv m \<Rightarrow> SlidingWindowMLASpec (a\<lparr>page_size_padded := Some p\<rparr>) w hv m
      | _ \<Rightarrow> s)"

definition apply_alignment_padding :: "(string \<Rightarrow> nat) \<Rightarrow> kv_cache_spec \<Rightarrow> kv_cache_spec res" where
  "apply_alignment_padding esz s =
     (case mla_of s of
        None \<Rightarrow> Inr s
      | Some m \<Rightarrow>
          (case mla_alignment m of
             None \<Rightarrow> Inr s
           | Some al \<Rightarrow>
               rbind (real_page_size_bytes esz s) (\<lambda>actual.
                 if al = 0 then Inl ZeroDivisionError
                 else let padded = round_up actual al
                      in Inr (if padded \<noteq> actual then with_padding padded s else s))))"
section \<open>Memory of one request\<close>

text \<open>What the sizing code reads of the engine configuration.\<close>

record vllm_config =
  max_model_len :: nat
  original_max_model_len :: int
  decode_context_parallel_size :: nat
  prefill_context_parallel_size :: nat
  max_num_batched_tokens :: nat
  max_num_encoder_input_tokens :: nat
  cfg_mamba_cache_mode :: string
  num_gpu_blocks_override :: "nat option"
  disable_hybrid_kv_cache_manager :: bool
  cfg_use_eagle :: bool

definition chunked_max_admission_blocks :: "nat \<Rightarrow> nat \<Rightarrow> nat \<Rightarrow> nat \<Rightarrow> nat res" where
  "chunked_max_admission_blocks bs chunk batched max_len =
     rcdiv (min (chunk + batched) max_len) bs"

definition sliding_max_admission_blocks :: "nat \<Rightarrow> nat \<Rightarrow> nat \<Rightarrow> nat \<Rightarrow> nat res" where
  "sliding_max_admission_blocks bs window batched max_len =
     rbind (rcdiv (nat (min (int window - 1 + int batched) (int max_len))) bs) (\<lambda>n. Inr (n + 1))"

fun max_admission_blocks_per_request :: "nat \<Rightarrow> nat \<Rightarrow> kv_cache_spec \<Rightarrow> nat res" where
  "max_admission_blocks_per_request batched max_len (ChunkedLocalAttentionSpec a chunk) =
     chunked_max_admission_blocks (af_block_size a) chunk batched max_len"
| "max_admission_blocks_per_request batched max_len (SlidingWindowSpec a w _) =
     sliding_max_admission_blocks (af_block_size a) w batched max_len"
| "max_admission_blocks_per_request batched max_len (SlidingWindowMLASpec a w _ _) =
     sliding_max_admission_blocks (af_block_size a) w batched max_len"
| "max_admission_blocks_per_request batched max_len _ = Inl AttributeError"

definition full_max_blocks :: "vllm_config \<Rightarrow> nat \<Rightarrow> nat res" where
  "full_max_blocks c bs =
     (let ranks = decode_context_parallel_size c * prefill_context_parallel_size c
      in rcdiv (if ranks > 1 then cdiv (max_model_len c) ranks else max_model_len c) bs)"

definition max_list :: "nat list \<Rightarrow> nat res" where
  "max_list xs = (if xs = [] then Inl ValueError else Inr (Max (set xs)))"

text \<open>
  \<^verbatim>\<open>max_memory_usage_bytes\<close> of every class; a Mamba layer looks at the configuration's cache mode.
\<close>

fun spec_max_memory_usage_bytes :: "(string \<Rightarrow> nat) \<Rightarrow> vllm_config \<Rightarrow> kv_cache_spec \<Rightarrow> nat res" where
  "spec_max_memory_usage_bytes esz c (UniformTypeKVCacheSpecs b specs) =
     rbind (rmapM (\<lambda>(name, s).
              rbind (spec_max_memory_usage_bytes esz c s) (\<lambda>u.
              rbind (page_size_bytes esz s) (rcdiv u))) specs) (\<lambda>pages.
     rbind (max_list pages) (\<lambda>n.
     rbind (page_size_bytes esz (UniformTypeKVCacheSpecs b specs)) (\<lambda>pg. Inr (n * pg))))"
| "spec_max_memory_usage_bytes esz c (MambaSpec m) =
     (if cfg_mamba_cache_mode c = ''all''
      then rbind (rcdiv (max_model_len c) (mb_block_size m)) (\<lambda>n.
           rbind (mamba_page_size esz m) (\<lambda>pg. Inr ((n + num_speculative_blocks m) * pg)))
      else rbind (mamba_page_size esz m) (\<lambda>pg.
           Inr (pg * ((if cfg_mamba_cache_mode c = ''align'' then 2 else 1) + num_speculative_blocks m))))"
| "spec_max_memory_usage_bytes esz c (EncoderOnlyAttentionSpec a) = Inr 0"
| "spec_max_memory_usage_bytes esz c (CrossAttentionSpec a) =
     rbind (rcdiv (max_num_encoder_input_tokens c) (af_block_size a)) (\<lambda>n.
     rbind (page_size_bytes esz (CrossAttentionSpec a)) (\<lambda>pg. Inr (n * pg)))"
| "spec_max_memory_usage_bytes esz c s =
     (if isinstance s CSlidingWindowSpec \<and> decode_context_parallel_size c \<noteq> 1 then Inl AssertionError
      else rbind (if isinstance s CFullAttentionSpec then full_max_blocks c (spec_block_size s)
                  else max_admission_blocks_per_request (max_num_batched_tokens c) (max_model_len c) s)
        (\<lambda>n. rbind (page_size_bytes esz s) (\<lambda>pg. Inr (n * pg))))"

section \<open>The registry\<close>

datatype manager_class =
    FullAttentionManager | SlidingWindowManager | ChunkedLocalAttentionManager | MambaManager
  | CrossAttentionManager | SinkFullAttentionManager

record kv_cache_spec_metadata =
  md_manager_class :: manager_class
  uniform_type_base_spec :: spec_class

type_synonym registry = "spec_class \<rightharpoonup> kv_cache_spec_metadata"

definition register_spec ::
  "spec_class \<Rightarrow> manager_class option \<Rightarrow> spec_class option \<Rightarrow> registry \<Rightarrow> registry res" where
  "register_spec c mgr base reg =
     (case mgr of
        None \<Rightarrow> Inl AssertionError
      | Some m \<Rightarrow>
          (let b = (case base of None \<Rightarrow> c | Some b \<Rightarrow> b);
               md = \<lparr>md_manager_class = m, uniform_type_base_spec = b\<rparr>
           in py_assert (issubclass c b)
                (case reg c of
                   None \<Rightarrow> Inr (reg(c \<mapsto> md))
                 | Some old \<Rightarrow> py_assert (old = md) (Inr (reg(c \<mapsto> md))))))"

definition builtin_specs :: "(spec_class \<times> manager_class \<times> spec_class) list" where
  "builtin_specs =
     [(CFullAttentionSpec, FullAttentionManager, CFullAttentionSpec),
      (CSlidingWindowSpec, SlidingWindowManager, CSlidingWindowSpec),
      (CSlidingWindowMLASpec, SlidingWindowManager, CSlidingWindowMLASpec),
      (CMambaSpec, MambaManager, CMambaSpec),
      (CChunkedLocalAttentionSpec, ChunkedLocalAttentionManager, CChunkedLocalAttentionSpec),
      (CCrossAttentionSpec, CrossAttentionManager, CCrossAttentionSpec),
      (CTQFullAttentionSpec, FullAttentionManager, CFullAttentionSpec),
      (CMLAAttentionSpec, FullAttentionManager, CFullAttentionSpec),
      (CHiddenStateCacheSpec, FullAttentionManager, CFullAttentionSpec),
      (CSinkFullAttentionSpec, SinkFullAttentionManager, CFullAttentionSpec)]"

fun register_each :: "(spec_class \<times> manager_class \<times> spec_class) list \<Rightarrow> registry \<Rightarrow> registry res" where
  "register_each [] reg = Inr reg"
| "register_each ((c, m, b) # xs) reg =
     rbind (register_spec c (Some m) (Some b) reg) (register_each xs)"

definition register_all_kvcache_specs :: "registry \<Rightarrow> registry res" where
  "register_all_kvcache_specs = register_each builtin_specs"

definition ensure_registered :: "registry \<Rightarrow> registry res" where
  "ensure_registered reg = (if reg = Map.empty then register_all_kvcache_specs reg else Inr reg)"

definition lookup_mro :: "registry \<Rightarrow> kv_cache_spec \<Rightarrow> kv_cache_spec_metadata option" where
  "lookup_mro reg s =
     (case filter (\<lambda>c. reg c \<noteq> None) (mro (class_of s)) of [] \<Rightarrow> None | c # _ \<Rightarrow> reg c)"

definition get_manager_class :: "registry \<Rightarrow> kv_cache_spec \<Rightarrow> manager_class option" where
  "get_manager_class reg s = map_option md_manager_class (lookup_mro reg s)"

definition get_uniform_type_base_spec :: "registry \<Rightarrow> kv_cache_spec \<Rightarrow> spec_class option" where
  "get_uniform_type_base_spec reg s = map_option uniform_type_base_spec (lookup_mro reg s)"

fun check_kv_cache_spec_registry :: "registry \<Rightarrow> layer_specs \<Rightarrow> unit res" where
  "check_kv_cache_spec_registry reg [] = Inr ()"
| "check_kv_cache_spec_registry reg ((name, s) # rest) =
     (if get_uniform_type_base_spec reg s = None then Inl ValueError
      else if get_manager_class reg s = None then Inl ValueError
      else check_kv_cache_spec_registry reg rest)"

text \<open>The registry after the built-in registration.\<close>

definition the_registry :: registry where
  "the_registry =
     map_of (map (\<lambda>(c, m, b). (c, \<lparr>md_manager_class = m, uniform_type_base_spec = b\<rparr>)) (rev builtin_specs))"

section \<open>Uniform types\<close>

definition window_of :: "kv_cache_spec \<Rightarrow> nat option" where
  "window_of s = (case s of SlidingWindowSpec _ w _ \<Rightarrow> Some w | SlidingWindowMLASpec _ w _ _ \<Rightarrow> Some w | _ \<Rightarrow> None)"

fun is_uniform_with_collection :: "registry \<Rightarrow> kv_cache_spec \<Rightarrow> layer_specs \<Rightarrow> bool res" where
  "is_uniform_with_collection reg (ChunkedLocalAttentionSpec a chunk) specs =
     Inr (list_all (\<lambda>(_, s). case s of ChunkedLocalAttentionSpec _ c \<Rightarrow> c = chunk | _ \<Rightarrow> False) specs)"
| "is_uniform_with_collection reg (SlidingWindowSpec a w hv) specs =
     Inr (list_all (\<lambda>(_, s). isinstance s CSlidingWindowSpec \<and> window_of s = Some w) specs)"
| "is_uniform_with_collection reg (SlidingWindowMLASpec a w hv m) specs =
     Inr (list_all (\<lambda>(_, s). isinstance s CSlidingWindowMLASpec \<and> window_of s = Some w) specs)"
| "is_uniform_with_collection reg (MambaSpec m) specs =
     Inr (list_all (\<lambda>(_, s). case s of MambaSpec m' \<Rightarrow> num_speculative_blocks m' = num_speculative_blocks m
                                     | _ \<Rightarrow> False) specs)"
| "is_uniform_with_collection reg s specs =
     (case get_uniform_type_base_spec reg s of
        None \<Rightarrow> Inl AssertionError
      | Some b \<Rightarrow> Inr (list_all (\<lambda>(_, t). isinstance t b) specs))"

definition is_uniform_type :: "registry \<Rightarrow> layer_specs \<Rightarrow> bool res" where
  "is_uniform_type reg specs =
     (if length (remdups (map (spec_block_size \<circ> snd) specs)) > 1 then Inr False
      else case specs of
             [] \<Rightarrow> Inl StopIteration
           | (_, s) # _ \<Rightarrow> is_uniform_with_collection reg s specs)"

definition from_specs :: "registry \<Rightarrow> layer_specs \<Rightarrow> kv_cache_spec option res" where
  "from_specs reg specs =
     rbind (is_uniform_type reg specs) (\<lambda>u.
       Inr (if u then Some (UniformTypeKVCacheSpecs (spec_block_size (snd (hd specs))) specs) else None))"

definition get_page_sizes :: "(string \<Rightarrow> nat) \<Rightarrow> layer_specs \<Rightarrow> nat list res" where
  "get_page_sizes esz specs = rbind (rmapM (page_size_bytes esz \<circ> snd) specs) (\<lambda>ps. Inr (remdups ps))"

definition get_num_layer_tuples :: "(string \<Rightarrow> nat) \<Rightarrow> layer_specs \<Rightarrow> nat res" where
  "get_num_layer_tuples esz specs =
     rbind (rmapM (page_size_bytes esz \<circ> snd) specs) (\<lambda>ps.
       if ps = [] then Inl IndexError else Inr (Max (set (map (count_list ps) ps))))"

definition max_memory_usage_pages :: "(string \<Rightarrow> nat) \<Rightarrow> vllm_config \<Rightarrow> layer_specs \<Rightarrow> nat res" where
  "max_memory_usage_pages esz c specs =
     rbind (rmapM (\<lambda>(name, s).
              rbind (spec_max_memory_usage_bytes esz c s) (\<lambda>u.
              rbind (page_size_bytes esz s) (rcdiv u))) specs) max_list"
section \<open>Merging the layers of a group\<close>

definition merge_window_sizes :: "nat list \<Rightarrow> nat option res" where
  "merge_window_sizes ws =
     (case remdups ws of [] \<Rightarrow> Inr None | [w] \<Rightarrow> Inr (Some w) | _ \<Rightarrow> Inl ValueError)"

text \<open>
  The shared body of \<^verbatim>\<open>FullAttentionSpec.merge\<close> and \<^verbatim>\<open>SinkFullAttentionSpec.merge\<close>: the attention fields
  and \<^verbatim>\<open>head_size_v\<close> of the first layer, the common window sizes, and the comparison of the fields that
  \<^verbatim>\<open>fields(AttentionSpec)\<close> lists.
\<close>

definition collect_opt :: "(full_fields \<Rightarrow> nat option) \<Rightarrow> kv_cache_spec list \<Rightarrow> nat list" where
  "collect_opt f specs = List.map_filter (\<lambda>s. case full_of s of None \<Rightarrow> None | Some ff \<Rightarrow> f ff) specs"

definition merge_full_fields ::
  "attention_fields \<Rightarrow> full_fields \<Rightarrow> kv_cache_spec list \<Rightarrow> (attention_fields \<times> full_fields) res" where
  "merge_full_fields a f specs =
     py_assert (list_all (\<lambda>s. isinstance s CFullAttentionSpec) specs)
       (py_assert (\<not> list_ex (\<lambda>s. isinstance s CMLAAttentionSpec) specs)
         (rbind (merge_window_sizes (collect_opt full_sliding_window specs)) (\<lambda>sw.
          rbind (merge_window_sizes (collect_opt full_chunk_size specs)) (\<lambda>ch.
            py_assert (list_all (\<lambda>s. attn s = Some a) specs)
              (py_assert (sw = None \<or> ch = None)
                (Inr (a, f\<lparr>full_sliding_window := sw, full_chunk_size := ch\<rparr>)))))))"

definition all_same :: "(kv_cache_spec \<Rightarrow> 'a) \<Rightarrow> kv_cache_spec list \<Rightarrow> bool" where
  "all_same f specs \<longleftrightarrow> list_all (\<lambda>s. f s = f (hd specs)) specs"

definition same_mla_format :: "kv_cache_spec list \<Rightarrow> bool" where
  "same_mla_format specs \<longleftrightarrow>
     all_same (map_option cache_dtype_str \<circ> mla_of) specs \<and>
     all_same (map_option compress_ratio \<circ> mla_of) specs \<and>
     all_same (map_option model_version \<circ> mla_of) specs"

definition merge_mla ::
  "(attention_fields \<Rightarrow> full_fields \<Rightarrow> mla_fields \<Rightarrow> kv_cache_spec) \<Rightarrow> attention_fields \<Rightarrow> mla_fields \<Rightarrow>
   kv_cache_spec list \<Rightarrow> kv_cache_spec res" where
  "merge_mla build a m specs =
     py_assert (list_all (\<lambda>s. isinstance s CMLAAttentionSpec) specs)
       (py_assert (same_mla_format specs)
         (Inr (build a \<lparr>head_size_v = head_size a, full_sliding_window = None, full_chunk_size = None\<rparr>
                 (m\<lparr>mla_alignment := None\<rparr>))))"

definition merge_swa_mla ::
  "attention_fields \<Rightarrow> nat \<Rightarrow> mla_fields \<Rightarrow> kv_cache_spec list \<Rightarrow> kv_cache_spec res" where
  "merge_swa_mla a w m specs =
     py_assert (list_all (\<lambda>s. isinstance s CSlidingWindowMLASpec) specs)
       (py_assert (same_mla_format specs \<and> all_same window_of specs)
         (Inr (SlidingWindowMLASpec (a\<lparr>quant_mode := QNone\<rparr>) w None (m\<lparr>mla_alignment := None\<rparr>))))"

definition tq_slot :: "kv_cache_spec \<Rightarrow> nat option" where
  "tq_slot s = (case s of TQFullAttentionSpec _ _ k \<Rightarrow> Some k | _ \<Rightarrow> None)"

fun check_tq_slots :: "nat \<Rightarrow> kv_cache_spec list \<Rightarrow> unit res" where
  "check_tq_slots k [] = Inr ()"
| "check_tq_slots k (s # ss) =
     (case tq_slot s of
        None \<Rightarrow> Inl AttributeError
      | Some j \<Rightarrow> py_assert (j = k) (check_tq_slots k ss))"

text \<open>\<^verbatim>\<open>specs[0].merge(specs)\<close>\<close>

definition merge_specs :: "kv_cache_spec list \<Rightarrow> kv_cache_spec res" where
  "merge_specs specs =
     (case specs of
        [] \<Rightarrow> Inl IndexError
      | FullAttentionSpec a f # _ \<Rightarrow>
          rbind (merge_full_fields a f specs) (\<lambda>(a', f'). Inr (FullAttentionSpec a' f'))
      | TQFullAttentionSpec a f k # _ \<Rightarrow>
          rbind (merge_full_fields a f specs) (\<lambda>(a', f').
            rbind (check_tq_slots k specs) (\<lambda>_. Inr (TQFullAttentionSpec a' f' k)))
      | SinkFullAttentionSpec a f sl # _ \<Rightarrow>
          rbind (merge_full_fields a f specs) (\<lambda>(a', f'). Inr (SinkFullAttentionSpec a' f' sl))
      | MLAAttentionSpec a f m # _ \<Rightarrow> merge_mla MLAAttentionSpec a m specs
      | HiddenStateCacheSpec a f m # _ \<Rightarrow> merge_mla HiddenStateCacheSpec a m specs
      | SlidingWindowMLASpec a w hv m # _ \<Rightarrow> merge_swa_mla a w m specs
      | s # rest \<Rightarrow> py_assert (list_all (\<lambda>t. t = s) rest) (Inr s))"

section \<open>Kinds, groups and configurations\<close>

datatype kv_cache_spec_kind =
    FULL_ATTENTION | MLA_ATTENTION | SLIDING_WINDOW | SLIDING_WINDOW_MLA | MAMBA | CHUNKED_LOCAL_ATTENTION
  | SINK_FULL_ATTENTION | ENCODER_ONLY_ATTENTION | CROSS_ATTENTION | UNKNOWN

fun kind_value :: "kv_cache_spec_kind \<Rightarrow> string" where
  "kind_value FULL_ATTENTION = ''full_attention''"
| "kind_value MLA_ATTENTION = ''mla_attention''"
| "kind_value SLIDING_WINDOW = ''sliding_window''"
| "kind_value SLIDING_WINDOW_MLA = ''sliding_window_mla''"
| "kind_value MAMBA = ''mamba''"
| "kind_value CHUNKED_LOCAL_ATTENTION = ''chunked_local_attention''"
| "kind_value SINK_FULL_ATTENTION = ''sink_full_attention''"
| "kind_value ENCODER_ONLY_ATTENTION = ''encoder_only_attention''"
| "kind_value CROSS_ATTENTION = ''cross_attention''"
| "kind_value UNKNOWN = ''unknown''"

fun get_kv_cache_spec_kind :: "kv_cache_spec \<Rightarrow> kv_cache_spec_kind" where
  "get_kv_cache_spec_kind (UniformTypeKVCacheSpecs _ specs) =
     (case remdups (map (\<lambda>(_, s). get_kv_cache_spec_kind s) specs) of [k] \<Rightarrow> k | _ \<Rightarrow> UNKNOWN)"
| "get_kv_cache_spec_kind s =
     (if isinstance s CSlidingWindowMLASpec then SLIDING_WINDOW_MLA
      else if isinstance s CMLAAttentionSpec then MLA_ATTENTION
      else if isinstance s CSinkFullAttentionSpec then SINK_FULL_ATTENTION
      else if isinstance s CFullAttentionSpec then FULL_ATTENTION
      else if isinstance s CChunkedLocalAttentionSpec then CHUNKED_LOCAL_ATTENTION
      else if isinstance s CSlidingWindowSpec then SLIDING_WINDOW
      else if isinstance s CMambaSpec then MAMBA
      else if isinstance s CEncoderOnlyAttentionSpec then ENCODER_ONLY_ATTENTION
      else if isinstance s CCrossAttentionSpec then CROSS_ATTENTION
      else UNKNOWN)"

fun get_kv_cache_spec_sliding_window :: "kv_cache_spec \<Rightarrow> nat option" where
  "get_kv_cache_spec_sliding_window (UniformTypeKVCacheSpecs _ specs) =
     (case remdups (map (\<lambda>(_, s). get_kv_cache_spec_sliding_window s) specs) of [w] \<Rightarrow> w | _ \<Rightarrow> None)"
| "get_kv_cache_spec_sliding_window s = window_of s"

record kv_cache_tensor =
  tensor_size :: nat
  shared_by :: "string list"

record kv_cache_group_spec =
  layer_names :: "string list"
  group_spec :: kv_cache_spec
  is_eagle_group :: bool

record kv_cache_config =
  cfg_num_blocks :: nat
  kv_cache_tensors :: "kv_cache_tensor list"
  kv_cache_groups :: "kv_cache_group_spec list"

definition has_mamba_layers :: "kv_cache_config \<Rightarrow> bool" where
  "has_mamba_layers c \<longleftrightarrow> list_ex (\<lambda>g. isinstance (group_spec g) CMambaSpec) (kv_cache_groups c)"

definition needs_kv_cache_zeroing :: "kv_cache_config \<Rightarrow> bool" where
  "needs_kv_cache_zeroing c = has_mamba_layers c"
section \<open>Facts\<close>

lemma isinstance_simps [simp]:
  "isinstance s c \<longleftrightarrow> c \<in> set (mro (class_of s))"
  by (simp add: isinstance_def issubclass_def)

lemma merge_full_fields_Inr:
  "merge_full_fields a f specs = Inr (a', f') \<Longrightarrow>
     a' = a \<and> head_size_v f' = head_size_v f \<and> (\<forall>s \<in> set specs. attn s = Some a)"
  by (auto simp: merge_full_fields_def res_simps list_all_iff)

lemma page_size_full_head:
  "head_size_v f' = head_size_v f \<Longrightarrow>
     page_size_bytes esz (FullAttentionSpec a f') = page_size_bytes esz (FullAttentionSpec a f)"
  "head_size_v f' = head_size_v f \<Longrightarrow>
     page_size_bytes esz (TQFullAttentionSpec a f' k) = page_size_bytes esz (TQFullAttentionSpec a f k)"
  "head_size_v f' = head_size_v f \<Longrightarrow>
     page_size_bytes esz (SinkFullAttentionSpec a f' sl) = page_size_bytes esz (SinkFullAttentionSpec a f sl)"
  by simp_all

lemma page_size_mla_alignment:
  "page_size_bytes esz (MLAAttentionSpec a f' (m\<lparr>mla_alignment := al\<rparr>)) = page_size_bytes esz (MLAAttentionSpec a f m)"
  "page_size_bytes esz (HiddenStateCacheSpec a f' (m\<lparr>mla_alignment := al\<rparr>)) = page_size_bytes esz (HiddenStateCacheSpec a f m)"
  by (simp_all add: mla_real_page_size_def)

lemma page_size_swa_mla:
  "\<not> is_per_token_head (quant_mode a) \<Longrightarrow>
     page_size_bytes esz (SlidingWindowMLASpec (a\<lparr>quant_mode := QNone\<rparr>) w hv' (m\<lparr>mla_alignment := al\<rparr>)) =
     page_size_bytes esz (SlidingWindowMLASpec a w hv m)"
  by (simp add: swa_mla_real_page_size_def attention_page_size_def[abs_def] is_per_token_head_def)

lemma register_all_the_registry: "register_all_kvcache_specs Map.empty = Inr the_registry"
proof -
  have "register_each builtin_specs Map.empty = Inr the_registry"
    unfolding builtin_specs_def the_registry_def
    by (simp add: register_spec_def Let_def issubclass_def)
  then show ?thesis by (simp add: register_all_kvcache_specs_def)
qed

lemma the_registry_simps:
  "the_registry CKVCacheSpec = None" "the_registry CAttentionSpec = None"
  "the_registry CEncoderOnlyAttentionSpec = None" "the_registry CUniformTypeKVCacheSpecs = None"
  "the_registry CFullAttentionSpec = Some \<lparr>md_manager_class = FullAttentionManager, uniform_type_base_spec = CFullAttentionSpec\<rparr>"
  "the_registry CTQFullAttentionSpec = Some \<lparr>md_manager_class = FullAttentionManager, uniform_type_base_spec = CFullAttentionSpec\<rparr>"
  "the_registry CMLAAttentionSpec = Some \<lparr>md_manager_class = FullAttentionManager, uniform_type_base_spec = CFullAttentionSpec\<rparr>"
  "the_registry CHiddenStateCacheSpec = Some \<lparr>md_manager_class = FullAttentionManager, uniform_type_base_spec = CFullAttentionSpec\<rparr>"
  "the_registry CSinkFullAttentionSpec = Some \<lparr>md_manager_class = SinkFullAttentionManager, uniform_type_base_spec = CFullAttentionSpec\<rparr>"
  "the_registry CChunkedLocalAttentionSpec = Some \<lparr>md_manager_class = ChunkedLocalAttentionManager, uniform_type_base_spec = CChunkedLocalAttentionSpec\<rparr>"
  "the_registry CSlidingWindowSpec = Some \<lparr>md_manager_class = SlidingWindowManager, uniform_type_base_spec = CSlidingWindowSpec\<rparr>"
  "the_registry CSlidingWindowMLASpec = Some \<lparr>md_manager_class = SlidingWindowManager, uniform_type_base_spec = CSlidingWindowMLASpec\<rparr>"
  "the_registry CMambaSpec = Some \<lparr>md_manager_class = MambaManager, uniform_type_base_spec = CMambaSpec\<rparr>"
  "the_registry CCrossAttentionSpec = Some \<lparr>md_manager_class = CrossAttentionManager, uniform_type_base_spec = CCrossAttentionSpec\<rparr>"
  by (simp_all add: the_registry_def builtin_specs_def)

text \<open>The manager class of every kind of layer.\<close>

fun manager_for :: "kv_cache_spec \<Rightarrow> manager_class option" where
  "manager_for (SinkFullAttentionSpec _ _ _) = Some SinkFullAttentionManager"
| "manager_for (ChunkedLocalAttentionSpec _ _) = Some ChunkedLocalAttentionManager"
| "manager_for (SlidingWindowSpec _ _ _) = Some SlidingWindowManager"
| "manager_for (SlidingWindowMLASpec _ _ _ _) = Some SlidingWindowManager"
| "manager_for (MambaSpec _) = Some MambaManager"
| "manager_for (CrossAttentionSpec _) = Some CrossAttentionManager"
| "manager_for (EncoderOnlyAttentionSpec _) = None"
| "manager_for (UniformTypeKVCacheSpecs _ _) = None"
| "manager_for _ = Some FullAttentionManager"

lemma get_manager_class_the_registry: "get_manager_class the_registry s = manager_for s"
  by (cases s) (simp_all add: get_manager_class_def lookup_mro_def the_registry_simps)

lemma get_base_the_registry:
  "get_uniform_type_base_spec the_registry s = None \<longleftrightarrow> manager_for s = None"
  by (cases s) (simp_all add: get_uniform_type_base_spec_def lookup_mro_def the_registry_simps)

text \<open>Sample layers.\<close>

definition demo_attn :: attention_fields where
  "demo_attn = \<lparr>af_block_size = 16, num_kv_heads = 8, head_size = 128, af_dtype = ''bfloat16'',
     quant_mode = QNone, page_size_padded = None\<rparr>"

definition demo_full :: full_fields where
  "demo_full = \<lparr>head_size_v = 128, full_sliding_window = None, full_chunk_size = None\<rparr>"

definition demo_mla :: mla_fields where
  "demo_mla = \<lparr>cache_dtype_str = None, mla_alignment = None, compress_ratio = 1, model_version = None\<rparr>"

definition demo_esz :: "string \<Rightarrow> nat" where
  "demo_esz d = (if d = ''float32'' then 4 else if d = ''bfloat16'' then 2 else 1)"

lemmas spec_eval = merge_specs_def merge_full_fields_def merge_mla_def merge_swa_mla_def collect_opt_def
  List.map_filter_def merge_window_sizes_def same_mla_format_def all_same_def
  attention_page_size_def padded_to_def full_real_page_size_def mla_real_page_size_def
  swa_mla_real_page_size_def rdiv_def is_nvfp4_def is_per_token_head_def
  demo_attn_def demo_full_def demo_mla_def demo_esz_def window_of_def

section \<open>Properties\<close>

text \<open>
  C36. The registry accepts a model exactly when each of its layers has a KV cache of a built-in kind:
  after the built-in registration, which raises nothing, an encoder-only layer or a nested collection is
  rejected with a ValueError and everything else has the manager class of its kind.
\<close>

theorem registry_check_exact:
  "register_all_kvcache_specs Map.empty = Inr the_registry \<and>
   get_manager_class the_registry s = manager_for s \<and>
   check_kv_cache_spec_registry the_registry specs =
     (if list_all (\<lambda>(_, s). manager_for s \<noteq> None) specs then Inr () else Inl ValueError)"
proof (intro conjI register_all_the_registry get_manager_class_the_registry)
  show "check_kv_cache_spec_registry the_registry specs =
     (if list_all (\<lambda>(_, s). manager_for s \<noteq> None) specs then Inr () else Inl ValueError)"
    by (induction specs)
       (auto simp: get_base_the_registry get_manager_class_the_registry)
qed




end
