(* ===== verification/Single_Type_Manager.thy ===== *)
theory Single_Type_Manager
  imports Block_Pool KV_Spec
begin

text \<open>
  \<^verbatim>\<open>src/vllm/vllm/v1/core/single_type_kv_cache_manager.py\<close>: the manager of one KV-cache group, which keeps
  the block table of every request, for full, sliding-window, chunked-local, Mamba, cross and sink
  attention.  All managers share one block pool, so an operation takes the manager and the pool and
  returns both.
\<close>

section \<open>Managers\<close>

text \<open>
  One record for all manager classes; the fields after \<open>use_eagle\<close> are those of \<^verbatim>\<open>MambaManager\<close>.
  \<open>req_to_blocks\<close> is the default dictionary of the source: \<open>entry\<close> is the subscript that creates an
  empty entry.
\<close>

record kv_manager =
  mgr_class :: manager_class
  mgr_spec :: kv_cache_spec
  mgr_block_size :: nat
  scheduler_block_size :: nat
  dcp_world_size :: nat
  pcp_world_size :: nat
  mgr_enable_caching :: bool
  max_admission_blocks :: "nat option"
  new_block_ids :: "int list"
  req_to_blocks :: "string \<rightharpoonup> bref list"
  num_cached_block :: "string \<rightharpoonup> nat"
  kv_cache_group_id :: nat
  use_eagle :: bool
  cached_blocks_this_step :: "bytes set"
  last_state_block_idx :: "string \<rightharpoonup> int"
  allocated_block_reqs :: "string set"

definition blocks_of :: "kv_manager \<Rightarrow> string \<Rightarrow> bref list" where
  "blocks_of m r = (case req_to_blocks m r of None \<Rightarrow> [] | Some bs \<Rightarrow> bs)"

definition set_blocks :: "string \<Rightarrow> bref list \<Rightarrow> kv_manager \<Rightarrow> kv_manager" where
  "set_blocks r bs m = m\<lparr>req_to_blocks := (req_to_blocks m)(r \<mapsto> bs)\<rparr>"

definition entry :: "string \<Rightarrow> kv_manager \<Rightarrow> kv_manager" where
  "entry r m = set_blocks r (blocks_of m r) m"

definition cached_count :: "kv_manager \<Rightarrow> string \<Rightarrow> nat" where
  "cached_count m r = (case num_cached_block m r of None \<Rightarrow> 0 | Some n \<Rightarrow> n)"

definition init_manager ::
  "manager_class \<Rightarrow> kv_cache_spec \<Rightarrow> bool \<Rightarrow> nat \<Rightarrow> nat \<Rightarrow> nat \<Rightarrow> nat \<Rightarrow> nat option \<Rightarrow> kv_manager" where
  "init_manager cls spec caching gid sched_bs dcp pcp cap =
     \<lparr>mgr_class = cls, mgr_spec = spec,
      mgr_block_size = (if dcp * pcp > 1 then spec_block_size spec * (dcp * pcp) else spec_block_size spec),
      scheduler_block_size = sched_bs, dcp_world_size = dcp, pcp_world_size = pcp,
      mgr_enable_caching = caching, max_admission_blocks = cap, new_block_ids = [],
      req_to_blocks = Map.empty, num_cached_block = Map.empty, kv_cache_group_id = gid,
      use_eagle = False, cached_blocks_this_step = {}, last_state_block_idx = Map.empty,
      allocated_block_reqs = {}\<rparr>"

text \<open>
  \<^verbatim>\<open>get_manager_for_kv_cache_spec\<close>, as the coordinator calls it, with the keyword argument
  \<^verbatim>\<open>scheduler_block_size\<close>.  \<^verbatim>\<open>SinkFullAttentionManager.__init__\<close> has no such parameter.
\<close>

definition get_manager_for_kv_cache_spec ::
  "registry \<Rightarrow> kv_cache_spec \<Rightarrow> nat \<Rightarrow> nat \<Rightarrow> bool \<Rightarrow> nat \<Rightarrow> nat \<Rightarrow> nat \<Rightarrow> nat \<Rightarrow> kv_manager res" where
  "get_manager_for_kv_cache_spec reg spec batched max_len caching gid dcp pcp sched_bs =
     (case get_manager_class reg spec of
        None \<Rightarrow> Inl AssertionError
      | Some cls \<Rightarrow>
          rbind (if isinstance spec CSlidingWindowSpec \<or> isinstance spec CChunkedLocalAttentionSpec
                 then rbind (max_admission_blocks_per_request batched max_len spec) (\<lambda>n. Inr (Some n))
                 else Inr None) (\<lambda>cap.
            if cls = SinkFullAttentionManager then Inl TypeError
            else Inr (init_manager cls spec caching gid sched_bs dcp pcp cap)))"

definition sliding_window :: "kv_manager \<Rightarrow> nat" where
  "sliding_window m = (case window_of (mgr_spec m) of Some w \<Rightarrow> w | None \<Rightarrow> 0)"

definition attention_chunk_size :: "kv_manager \<Rightarrow> nat" where
  "attention_chunk_size m = (case mgr_spec m of ChunkedLocalAttentionSpec _ c \<Rightarrow> c | _ \<Rightarrow> 0)"

definition mamba_spec_blocks :: "kv_manager \<Rightarrow> nat" where
  "mamba_spec_blocks m = (case mgr_spec m of MambaSpec f \<Rightarrow> num_speculative_blocks f | _ \<Rightarrow> 0)"

definition mamba_align :: "kv_manager \<Rightarrow> bool" where
  "mamba_align m \<longleftrightarrow> (case mgr_spec m of MambaSpec f \<Rightarrow> mamba_cache_mode f = ''align'' | _ \<Rightarrow> False)"

section \<open>Counting and skipping\<close>

definition get_num_evictable_blocks :: "bref list \<Rightarrow> block_pool \<Rightarrow> nat" where
  "get_num_evictable_blocks bs p =
     length (filter (\<lambda>b. ref_cnt (heap p b) = 0 \<and> \<not> is_null (heap p b)) bs)"

definition get_num_skipped_tokens :: "kv_manager \<Rightarrow> int \<Rightarrow> int" where
  "get_num_skipped_tokens m n =
     (case mgr_class m of
        SlidingWindowManager \<Rightarrow> max 0 (n - int (sliding_window m) + 1)
      | ChunkedLocalAttentionManager \<Rightarrow> n div int (attention_chunk_size m) * int (attention_chunk_size m)
      | MambaManager \<Rightarrow> n - 1
      | _ \<Rightarrow> 0)"

definition base_num_blocks_to_allocate ::
  "string \<Rightarrow> nat \<Rightarrow> bref list \<Rightarrow> nat \<Rightarrow> bool \<Rightarrow> kv_manager \<Rightarrow> block_pool \<Rightarrow> int res" where
  "base_num_blocks_to_allocate r num_toks ncb total_computed cap m p =
     (let required0 = cdiv num_toks (mgr_block_size m);
          required = (case max_admission_blocks m of
                        Some k \<Rightarrow> if cap then min required0 k else required0
                      | None \<Rightarrow> required0);
          num_req = length (blocks_of m r)
      in if num_cached_block m r \<noteq> None
         then py_assert (ncb = []) (Inr (max (int required - int num_req) 0))
         else let skipped_blocks = get_num_skipped_tokens m (int total_computed) div int (mgr_block_size m);
                  local_computed = length ncb + num_req;
                  new_blocks = max (int required - max skipped_blocks (int local_computed)) 0;
                  skipped_new = nat (max 0 (skipped_blocks - int num_req))
              in Inr (new_blocks + int (get_num_evictable_blocks (drop skipped_new ncb) p)))"

text \<open>
  \<^verbatim>\<open>get_num_blocks_to_allocate\<close> of every class; in the align mode of Mamba the subscript of the default
  dictionary leaves an entry behind.
\<close>

definition get_num_blocks_to_allocate ::
  "string \<Rightarrow> nat \<Rightarrow> bref list \<Rightarrow> nat \<Rightarrow> nat \<Rightarrow> bool \<Rightarrow> kv_manager \<Rightarrow> block_pool \<Rightarrow>
   (int \<times> kv_manager) res" where
  "get_num_blocks_to_allocate r num_toks ncb total_computed main_toks cap m p =
     (if mgr_class m \<noteq> MambaManager
      then rbind (base_num_blocks_to_allocate r num_toks ncb total_computed cap m p) (\<lambda>n. Inr (n, m))
      else if ncb \<noteq> [] \<and> (case block_hash (heap p (last ncb)) of
                            None \<Rightarrow> False | Some h \<Rightarrow> h \<in> cached_blocks_this_step m)
      then Inr (int (num_gpu_blocks p) + 1, m)
      else if \<not> mamba_align m
      then rbind (base_num_blocks_to_allocate r
                    (num_toks + spec_block_size (mgr_spec m) * mamba_spec_blocks m) ncb total_computed cap m p)
             (\<lambda>n. Inr (n, m))
      else let required = cdiv main_toks (mgr_block_size m) + mamba_spec_blocks m;
               m' = entry r m;
               new0 = int required - int (length ncb) - int (length (blocks_of m r));
               new = (if new0 > 0
                      then (if r \<in> allocated_block_reqs m then 1 else 1 + int (mamba_spec_blocks m))
                      else new0)
           in Inr (new + int (get_num_evictable_blocks ncb p), m'))"

section \<open>Allocation\<close>

definition zeroed_spec :: "kv_manager \<Rightarrow> bool" where
  "zeroed_spec m \<longleftrightarrow>
     class_of (mgr_spec m) \<in> {CFullAttentionSpec, CTQFullAttentionSpec, CMLAAttentionSpec}"

definition record_new_ids :: "bref list \<Rightarrow> block_pool \<Rightarrow> kv_manager \<Rightarrow> kv_manager" where
  "record_new_ids bs p m =
     (if zeroed_spec m then m\<lparr>new_block_ids := new_block_ids m @ map (\<lambda>b. block_id (heap p b)) bs\<rparr> else m)"

definition allocate_new_computed_blocks ::
  "string \<Rightarrow> bref list \<Rightarrow> nat \<Rightarrow> nat \<Rightarrow> kv_manager \<times> block_pool \<Rightarrow> (kv_manager \<times> block_pool) res" where
  "allocate_new_computed_blocks r ncb num_local num_ext st =
     (case st of (m, p) \<Rightarrow>
       if mgr_class m = CrossAttentionManager then py_assert (ncb = []) (Inr (m, p))
       else if num_cached_block m r \<noteq> None then py_assert (ncb = []) (Inr (m, p))
       else py_assert (blocks_of m r = [])
         (let total = num_local + num_ext;
              skipped_tokens = get_num_skipped_tokens m (int total);
              skipped_blocks = skipped_tokens div int (mgr_block_size m);
              ncb' = (if skipped_blocks > 0 then drop (nat skipped_blocks) ncb else ncb);
              ext = (if skipped_blocks > 0 then min (int total - skipped_tokens) (int num_ext) else int num_ext)
          in rbind (if mgr_enable_caching m then touch ncb' p else py_assert (ncb' = []) (Inr p)) (\<lambda>p1.
             let req_blocks = replicate (nat skipped_blocks) (null_block p) @ ncb';
                 m1 = (set_blocks r req_blocks m)\<lparr>num_cached_block := (num_cached_block m)(r \<mapsto> length req_blocks)\<rparr>
             in if ext > 0
                then rbind (get_new_blocks (int (cdiv total (mgr_block_size m)) - int (length req_blocks)) p1)
                       (\<lambda>(new, p2). Inr (record_new_ids new p2 (set_blocks r (req_blocks @ new) m1), p2))
                else Inr (m1, p1))))"

definition base_allocate_new_blocks ::
  "string \<Rightarrow> nat \<Rightarrow> kv_manager \<times> block_pool \<Rightarrow> (bref list \<times> kv_manager \<times> block_pool) res" where
  "base_allocate_new_blocks r num_toks st =
     (case st of (m, p) \<Rightarrow>
       let req_blocks = blocks_of m r;
           new_num = int (cdiv num_toks (mgr_block_size m)) - int (length req_blocks)
       in if new_num \<le> 0 then Inr ([], entry r m, p)
          else rbind (get_new_blocks new_num p) (\<lambda>(new, p').
               Inr (new, record_new_ids new p' (set_blocks r (req_blocks @ new) m), p')))"

text \<open>
  The align mode of Mamba: the previous speculative blocks that fall before the new running state move
  to the end of the table.
\<close>

fun reuse_spec_blocks :: "int list \<Rightarrow> int \<Rightarrow> bref \<Rightarrow> bref list \<Rightarrow> bref list res" where
  "reuse_spec_blocks [] skipped nul bs = Inr bs"
| "reuse_spec_blocks (i # is) skipped nul bs =
     (if i < skipped
      then rbind (py_index (length bs) i) (\<lambda>j.
           rbind (py_index (length bs + 1) i) (\<lambda>k.
             reuse_spec_blocks is skipped nul ((bs @ [bs ! j])[k := nul])))
      else Inr bs)"

definition mamba_align_allocate ::
  "string \<Rightarrow> nat \<Rightarrow> kv_manager \<times> block_pool \<Rightarrow> (bref list \<times> kv_manager \<times> block_pool) res" where
  "mamba_align_allocate r main_toks st =
     (case st of (m, p) \<Rightarrow>
       let req_blocks = blocks_of m r;
           k = mamba_spec_blocks m;
           required = cdiv main_toks (mgr_block_size m) + k;
           prev = length req_blocks
       in if required = prev then Inr ([], entry r m, p)
          else py_assert (required > prev)
            (let allocated = r \<in> allocated_block_reqs m;
                 m1 = (if allocated
                       then m\<lparr>last_state_block_idx := (last_state_block_idx m)(r \<mapsto> int prev - 1 - int k)\<rparr>
                       else if prev > 0
                       then m\<lparr>last_state_block_idx := (last_state_block_idx m)(r \<mapsto> int prev - 1)\<rparr>
                       else m);
                 skipped = int required - int k - 1;
                 bs1 = (if int prev < skipped then req_blocks @ replicate (nat skipped - prev) (null_block p)
                        else req_blocks)
             in rbind (if allocated
                       then reuse_spec_blocks [int prev - int k..int prev - 1] skipped (null_block p) bs1
                       else Inr bs1) (\<lambda>bs2.
                let new_num = int required - int (length bs2)
                in py_assert (if allocated then new_num \<le> 1 else new_num \<le> int k + 1)
                     (rbind (get_new_blocks new_num p) (\<lambda>(new, p').
                        let bs3 = bs2 @ new;
                            m2 = set_blocks r bs3
                                   (m1\<lparr>allocated_block_reqs := insert r (allocated_block_reqs m1)\<rparr>)
                        in Inr (drop prev bs3, m2, p'))))))"

definition allocate_new_blocks ::
  "string \<Rightarrow> nat \<Rightarrow> nat \<Rightarrow> kv_manager \<times> block_pool \<Rightarrow> (bref list \<times> kv_manager \<times> block_pool) res" where
  "allocate_new_blocks r num_toks main_toks st =
     (case st of (m, p) \<Rightarrow>
       if mgr_class m \<noteq> MambaManager then base_allocate_new_blocks r num_toks (m, p)
       else if mamba_align m then mamba_align_allocate r main_toks (m, p)
       else base_allocate_new_blocks r (num_toks + mgr_block_size m * mamba_spec_blocks m) (m, p))"

definition take_new_block_ids :: "kv_manager \<Rightarrow> int list \<times> kv_manager" where
  "take_new_block_ids m = (new_block_ids m, m\<lparr>new_block_ids := []\<rparr>)"
section \<open>Caching full blocks\<close>

definition contiguous_blocks_for_hit :: "nat \<Rightarrow> nat \<Rightarrow> bool \<Rightarrow> nat" where
  "contiguous_blocks_for_hit window bs eagle = cdiv (window - 1) bs + (if eagle then 1 else 0)"

text \<open>
  \<^verbatim>\<open>SlidingWindowManager.reachable_block_mask\<close>: the tails of the segments, and the tail before the last
  aligned position of the prompt.
\<close>

definition swa_block_mask ::
  "nat \<Rightarrow> nat \<Rightarrow> nat \<Rightarrow> nat \<Rightarrow> nat \<Rightarrow> bool \<Rightarrow> nat option \<Rightarrow> nat \<Rightarrow> bool list option res" where
  "swa_block_mask start_block end_block al bs window eagle retention prompt_toks =
     py_assert (al mod bs = 0)
       (let need = contiguous_blocks_for_hit window bs eagle;
            shift = (if eagle then 1 else 0);
            segment = (case retention of None \<Rightarrow> Some al | Some v \<Rightarrow> if v = 0 then None else Some v);
            tail = (\<lambda>i. case segment of
                          None \<Rightarrow> False
                        | Some sg \<Rightarrow> i \<ge> shift \<and> (i - shift) mod (sg div bs) \<ge> sg div bs - need);
            latest = (int prompt_toks - 1) div int al * int al;
            prompt_end = latest div int bs + int shift;
            replay = (\<lambda>i. retention \<noteq> None \<and> prompt_end - int need \<le> int i \<and> int i < prompt_end)
        in if (case segment of None \<Rightarrow> False | Some sg \<Rightarrow> need \<ge> sg div bs) then Inr None
           else Inr (Some (map (\<lambda>i. tail i \<or> replay i) [start_block..<end_block])))"

definition reachable_block_mask ::
  "nat \<Rightarrow> nat \<Rightarrow> nat option \<Rightarrow> nat \<Rightarrow> kv_manager \<Rightarrow> bool list option res" where
  "reachable_block_mask start_block end_block retention prompt_toks m =
     (if mgr_class m = SlidingWindowManager
      then swa_block_mask start_block end_block (scheduler_block_size m) (spec_block_size (mgr_spec m))
             (sliding_window m) (use_eagle m) retention prompt_toks
      else Inr None)"

definition base_cache_blocks ::
  "request \<Rightarrow> nat \<Rightarrow> nat option \<Rightarrow> kv_manager \<times> block_pool \<Rightarrow> (kv_manager \<times> block_pool) res" where
  "base_cache_blocks req num_toks retention st =
     (case st of (m, p) \<Rightarrow>
       let r = request_id req;
           num_cached = cached_count m r;
           num_full = num_toks div mgr_block_size m
       in if num_cached \<ge> num_full then Inr (m, p)
          else rbind (reachable_block_mask num_cached num_full retention (num_prompt_tokens req) m) (\<lambda>blk_mask.
               rbind (cache_full_blocks req (blocks_of m r) num_cached num_full (mgr_block_size m)
                        (kv_cache_group_id m) blk_mask p) (\<lambda>p'.
               Inr ((entry r m)\<lparr>num_cached_block := (num_cached_block m)(r \<mapsto> num_full)\<rparr>, p'))))"

fun step_hashes :: "block_pool \<Rightarrow> bref list \<Rightarrow> bytes set \<Rightarrow> bytes set res" where
  "step_hashes p [] hs = Inr hs"
| "step_hashes p (b # bs) hs =
     (if is_null (heap p b) then step_hashes p bs hs
      else case block_hash (heap p b) of
             None \<Rightarrow> Inl AssertionError
           | Some h \<Rightarrow> step_hashes p bs (insert h hs))"

definition cache_blocks ::
  "request \<Rightarrow> nat \<Rightarrow> nat option \<Rightarrow> kv_manager \<times> block_pool \<Rightarrow> (kv_manager \<times> block_pool) res" where
  "cache_blocks req num_toks retention st =
     (case st of (m, p) \<Rightarrow>
       case mgr_class m of
         CrossAttentionManager \<Rightarrow> Inl ValueError
       | MambaManager \<Rightarrow>
           (let r = request_id req; before = cached_count m r
            in rbind (base_cache_blocks req num_toks retention (m, p)) (\<lambda>(m', p').
                 let after = cached_count m' r
                 in if after > before
                    then rbind (step_hashes p' (drop before (take after (blocks_of m' r)))
                                  (cached_blocks_this_step m'))
                           (\<lambda>hs. Inr (m'\<lparr>cached_blocks_this_step := hs\<rparr>, p'))
                    else Inr (m', p')))
       | _ \<Rightarrow> base_cache_blocks req num_toks retention (m, p))"

definition new_step_starts :: "kv_manager \<Rightarrow> kv_manager" where
  "new_step_starts m =
     (if mgr_class m = MambaManager then m\<lparr>cached_blocks_this_step := {}\<rparr> else m)"

section \<open>Releasing blocks\<close>

definition drop_request :: "string \<Rightarrow> kv_manager \<Rightarrow> kv_manager" where
  "drop_request r m =
     m\<lparr>req_to_blocks := (req_to_blocks m)(r := None), num_cached_block := (num_cached_block m)(r := None)\<rparr>"

definition free_request ::
  "string \<Rightarrow> kv_manager \<times> block_pool \<Rightarrow> (kv_manager \<times> block_pool) res" where
  "free_request r st =
     (case st of (m, p) \<Rightarrow>
       let bs = rev (blocks_of m r)
       in case mgr_class m of
            SlidingWindowManager \<Rightarrow>
              (if bs = [] then Inr (drop_request r m, p)
               else rbind (free_blocks (filter (\<lambda>b. block_hash (heap p b) \<noteq> None) bs) False p) (\<lambda>p1.
                    rbind (free_blocks (filter (\<lambda>b. block_hash (heap p b) = None) bs) True p1) (\<lambda>p2.
                    Inr (drop_request r m, p2))))
          | MambaManager \<Rightarrow>
              (let m1 = (if mamba_align m
                         then m\<lparr>allocated_block_reqs := allocated_block_reqs m - {r},
                                last_state_block_idx := (last_state_block_idx m)(r := None)\<rparr>
                         else m)
               in rbind (free_blocks bs False p) (\<lambda>p1. Inr (drop_request r m1, p1)))
          | _ \<Rightarrow> rbind (free_blocks bs False p) (\<lambda>p1. Inr (drop_request r m, p1)))"

definition alias_request_blocks_from_snapshot ::
  "string \<Rightarrow> bref list \<Rightarrow> nat \<Rightarrow> int \<Rightarrow> kv_manager \<times> block_pool \<Rightarrow> (kv_manager \<times> block_pool) res" where
  "alias_request_blocks_from_snapshot dst src_blocks src_num_cached n st =
     (case st of (m, p) \<Rightarrow>
       if n < 0 then Inl ValueError
       else if int (length src_blocks) < n then Inl ValueError
       else rbind (if blocks_of m dst = [] then Inr p else free_blocks (rev (blocks_of m dst)) False p) (\<lambda>p1.
            let aliased = take (nat n) src_blocks
            in rbind (touch (filter (\<lambda>b. \<not> is_null (heap p1 b)) aliased) p1) (\<lambda>p2.
               Inr ((set_blocks dst aliased m)\<lparr>num_cached_block :=
                      (num_cached_block m)(dst \<mapsto> min src_num_cached (nat n))\<rparr>, p2))))"

definition alias_request_blocks ::
  "string \<Rightarrow> string \<Rightarrow> int \<Rightarrow> kv_manager \<times> block_pool \<Rightarrow> (kv_manager \<times> block_pool) res" where
  "alias_request_blocks dst src n st =
     (case st of (m, p) \<Rightarrow>
       case req_to_blocks m src of
         None \<Rightarrow> Inl ValueError
       | Some bs \<Rightarrow> alias_request_blocks_from_snapshot dst bs (cached_count m src) n (m, p))"

text \<open>
  The loop of \<^verbatim>\<open>remove_skipped_blocks\<close>, from the last skipped position down to the first null block: the
  removed cached blocks, the removed uncached blocks and the table.
\<close>

fun skip_loop :: "nat \<Rightarrow> bref list \<Rightarrow> block_pool \<Rightarrow> bref list \<times> bref list \<times> bref list" where
  "skip_loop 0 bs p = ([], [], bs)"
| "skip_loop (Suc i) bs p =
     (if bs ! i = null_block p then ([], [], bs)
      else case skip_loop i (bs[i := null_block p]) p of
             (cached, uncached, bs') \<Rightarrow>
               if block_hash (heap p (bs ! i)) = None then (cached, bs ! i # uncached, bs')
               else (bs ! i # cached, uncached, bs'))"

definition base_remove_skipped_blocks ::
  "string \<Rightarrow> nat \<Rightarrow> kv_manager \<times> block_pool \<Rightarrow> (kv_manager \<times> block_pool) res" where
  "base_remove_skipped_blocks r total_computed st =
     (case st of (m, p) \<Rightarrow>
       let skipped_tokens = get_num_skipped_tokens m (int total_computed)
       in if skipped_tokens \<le> 0 then Inr (m, p)
          else let bs = blocks_of m r;
                   n = min (nat (skipped_tokens div int (mgr_block_size m))) (length bs)
               in case skip_loop n bs p of
                    (cached, uncached, bs') \<Rightarrow>
                      rbind (free_blocks cached False p) (\<lambda>p1.
                      rbind (free_blocks uncached True p1) (\<lambda>p2. Inr (set_blocks r bs' m, p2))))"

definition remove_skipped_blocks ::
  "string \<Rightarrow> nat \<Rightarrow> kv_manager \<times> block_pool \<Rightarrow> (kv_manager \<times> block_pool) res" where
  "remove_skipped_blocks r total_computed st =
     (case st of (m0, p0) \<Rightarrow>
       if mgr_class m0 \<noteq> MambaManager then base_remove_skipped_blocks r total_computed (m0, p0)
       else let n = total_computed - mamba_spec_blocks m0
            in rbind (base_remove_skipped_blocks r n (m0, p0)) (\<lambda>(m, p).
               if \<not> mamba_align m then Inr (m, p)
               else case last_state_block_idx m r of
                      None \<Rightarrow> Inr (m, p)
                    | Some i \<Rightarrow>
                        if i < int (cdiv n (mgr_block_size m)) - 1
                        then rbind (py_index (length (blocks_of m r)) i) (\<lambda>j.
                             let b = blocks_of m r ! j
                             in if b \<noteq> null_block p
                                then rbind (free_blocks [b] False p) (\<lambda>p1.
                                     Inr (set_blocks r ((blocks_of m r)[j := null_block p]) m, p1))
                                else Inr (entry r m, p))
                        else Inr (m, p)))"
section \<open>Prefix-cache lookup\<close>

text \<open>
  The lookups work on all groups of one specification at once.  A row holds the blocks of one position,
  one for each group; \<open>columns\<close> turns the rows into the block list of every group.
\<close>

definition columns :: "nat \<Rightarrow> bref list list \<Rightarrow> bref list list" where
  "columns n rows = map (\<lambda>g. map (\<lambda>row. row ! g) rows) [0..<n]"

text \<open>A hit is a non-empty answer of \<^verbatim>\<open>get_cached_block\<close>.\<close>

definition hit_row :: "bytes \<Rightarrow> nat list \<Rightarrow> block_pool \<Rightarrow> bref list option res" where
  "hit_row h gids p =
     rbind (get_cached_block h gids p) (\<lambda>c. Inr (case c of Some (b # bs) \<Rightarrow> Some (b # bs) | _ \<Rightarrow> None))"

fun hit_prefix :: "bytes list \<Rightarrow> nat list \<Rightarrow> block_pool \<Rightarrow> bref list list res" where
  "hit_prefix [] gids p = Inr []"
| "hit_prefix (h # hs) gids p =
     rbind (hit_row h gids p) (\<lambda>c.
       case c of None \<Rightarrow> Inr [] | Some row \<Rightarrow> rbind (hit_prefix hs gids p) (\<lambda>rows. Inr (row # rows)))"

fun hit_range :: "block_hash_view \<Rightarrow> nat list \<Rightarrow> nat list \<Rightarrow> block_pool \<Rightarrow> bref list list res" where
  "hit_range hashes [] gids p = Inr []"
| "hit_range hashes (i # is) gids p =
     rbind (view_get hashes i) (\<lambda>h.
     rbind (hit_row h gids p) (\<lambda>c.
       case c of
         None \<Rightarrow> Inr []
       | Some row \<Rightarrow> rbind (hit_range hashes is gids p) (\<lambda>rows. Inr (row # rows))))"

text \<open>The loop that pops blocks until the length is aligned.\<close>

fun align_len :: "nat \<Rightarrow> nat \<Rightarrow> nat \<Rightarrow> nat" where
  "align_len bs al 0 = 0"
| "align_len bs al (Suc n) = (if bs \<noteq> al \<and> Suc n * bs mod al \<noteq> 0 then align_len bs al n else Suc n)"

definition pop_eagle :: "bool \<Rightarrow> 'a list \<Rightarrow> 'a list" where
  "pop_eagle eagle xs = (if eagle then butlast xs else xs)"

definition full_find_longest_cache_hit ::
  "block_hash_view \<Rightarrow> int \<Rightarrow> nat list \<Rightarrow> kv_cache_spec \<Rightarrow> bool \<Rightarrow> nat \<Rightarrow> nat \<Rightarrow> nat \<Rightarrow> block_pool \<Rightarrow>
   bref list list res" where
  "full_find_longest_cache_hit hashes max_length gids spec eagle al dcp pcp p =
     py_assert (isinstance spec CFullAttentionSpec \<or> isinstance spec CChunkedLocalAttentionSpec)
       (let bs = (if dcp * pcp > 1 then spec_block_size spec * (dcp * pcp) else spec_block_size spec);
            max_num = max_length div int bs
        in if max_num < 0 then Inl ValueError
           else rbind (hit_prefix (take (nat max_num) (view_from hashes 0)) gids p) (\<lambda>rows.
                if gids = [] \<and> (eagle \<or> bs \<noteq> al) then Inl IndexError
                else let rows' = pop_eagle eagle rows
                     in Inr (columns (length gids) (take (align_len bs al (length rows')) rows'))))"

text \<open>
  The right-to-left scan of the sliding-window manager: \<open>contig\<close> counts the matched blocks to the right of
  position \<open>i\<close>; the flag says that a full match was found.
\<close>

fun swa_scan ::
  "block_hash_view \<Rightarrow> nat list \<Rightarrow> nat \<Rightarrow> nat \<Rightarrow> bool \<Rightarrow> nat \<Rightarrow> block_pool \<Rightarrow> nat \<Rightarrow> nat \<Rightarrow> bref list list \<Rightarrow>
   (bref list list \<times> nat \<times> bool) res" where
  "swa_scan hashes gids bs al eagle need p 0 contig rows = Inr (rows, contig, False)"
| "swa_scan hashes gids bs al eagle need p (Suc i) contig rows =
     rbind (view_get hashes i) (\<lambda>h.
     rbind (hit_row h gids p) (\<lambda>c.
       case c of
         None \<Rightarrow> swa_scan hashes gids bs al eagle need p i 0 rows
       | Some row \<Rightarrow>
           if contig = 0 \<and> bs \<noteq> al \<and> (if eagle then i else i + 1) * bs mod al \<noteq> 0
           then swa_scan hashes gids bs al eagle need p i contig rows
           else let rows' = rows[i := row]; contig' = contig + 1
                in if contig' \<ge> need then Inr (take (i + contig') rows', contig', True)
                   else swa_scan hashes gids bs al eagle need p i contig' rows'))"

definition swa_find_longest_cache_hit ::
  "block_hash_view \<Rightarrow> int \<Rightarrow> nat list \<Rightarrow> kv_cache_spec \<Rightarrow> bool \<Rightarrow> nat \<Rightarrow> nat \<Rightarrow> nat \<Rightarrow> block_pool \<Rightarrow>
   bref list list res" where
  "swa_find_longest_cache_hit hashes max_length gids spec eagle al dcp pcp p =
     py_assert (isinstance spec CSlidingWindowSpec)
       (py_assert (dcp = 1) (py_assert (pcp = 1)
         (let bs = spec_block_size spec;
              window = (case window_of spec of Some w \<Rightarrow> w | None \<Rightarrow> 0);
              need = contiguous_blocks_for_hit window bs eagle;
              max_num = nat (max_length div int bs);
              rows0 = replicate max_num (replicate (length gids) (null_block p))
          in rbind (swa_scan hashes gids bs al eagle need p max_num 0 rows0) (\<lambda>(rows, contig, found).
             if gids = [] \<and> (eagle \<or> bs \<noteq> al) then Inl IndexError
             else let rows1 = (if found then rows
                               else let short = take contig rows in take (align_len bs al (length short)) short);
                      rows2 = (if eagle \<and> rows1 \<noteq> []
                               then take (align_len bs al (length rows1 - 1)) rows1
                               else rows1)
                  in Inr (columns (length gids) rows2)))))"

definition chunked_find_longest_cache_hit ::
  "block_hash_view \<Rightarrow> int \<Rightarrow> nat list \<Rightarrow> kv_cache_spec \<Rightarrow> bool \<Rightarrow> nat \<Rightarrow> nat \<Rightarrow> nat \<Rightarrow> block_pool \<Rightarrow>
   bref list list res" where
  "chunked_find_longest_cache_hit hashes max_length gids spec eagle al dcp pcp p =
     (case spec of
        ChunkedLocalAttentionSpec a chunk \<Rightarrow>
          py_assert (\<not> eagle) (py_assert (dcp = 1) (py_assert (pcp = 1) (py_assert (af_block_size a = al)
            (let bs = af_block_size a;
                 max_num = nat (max_length div int bs);
                 start_idx = (if max_length > 0 then nat max_length div chunk * chunk else 0);
                 start_block = start_idx div bs
             in rbind (hit_range hashes [start_block..<max_num] gids p) (\<lambda>rows.
                  Inr (columns (length gids)
                         (replicate start_block (replicate (length gids) (null_block p)) @ rows)))))))
      | _ \<Rightarrow> Inl AssertionError)"

fun mamba_scan ::
  "block_hash_view \<Rightarrow> nat list \<Rightarrow> nat \<Rightarrow> nat \<Rightarrow> block_pool \<Rightarrow> nat \<Rightarrow> bref list list res" where
  "mamba_scan hashes gids bs al p 0 = Inr []"
| "mamba_scan hashes gids bs al p (Suc i) =
     rbind (view_get hashes i) (\<lambda>h.
     rbind (hit_row h gids p) (\<lambda>c.
       case c of
         None \<Rightarrow> mamba_scan hashes gids bs al p i
       | Some row \<Rightarrow>
           if bs \<noteq> al \<and> (i + 1) * bs mod al \<noteq> 0 then mamba_scan hashes gids bs al p i
           else Inr (replicate i (replicate (length gids) (null_block p)) @ [row])))"

definition mamba_find_longest_cache_hit ::
  "block_hash_view \<Rightarrow> int \<Rightarrow> nat list \<Rightarrow> kv_cache_spec \<Rightarrow> bool \<Rightarrow> nat \<Rightarrow> nat \<Rightarrow> nat \<Rightarrow> block_pool \<Rightarrow>
   bref list list res" where
  "mamba_find_longest_cache_hit hashes max_length gids spec eagle al dcp pcp p =
     py_assert (isinstance spec CMambaSpec) (py_assert (dcp = 1) (py_assert (pcp = 1)
       (let bs = spec_block_size spec
        in rbind (mamba_scan hashes gids bs al p (nat (max_length div int bs))) (\<lambda>rows.
             Inr (columns (length gids) rows)))))"

definition find_longest_cache_hit ::
  "manager_class \<Rightarrow> block_hash_view \<Rightarrow> int \<Rightarrow> nat list \<Rightarrow> kv_cache_spec \<Rightarrow> bool \<Rightarrow> nat \<Rightarrow> nat \<Rightarrow> nat \<Rightarrow>
   block_pool \<Rightarrow> bref list list res" where
  "find_longest_cache_hit cls =
     (case cls of
        FullAttentionManager \<Rightarrow> full_find_longest_cache_hit
      | SinkFullAttentionManager \<Rightarrow> full_find_longest_cache_hit
      | SlidingWindowManager \<Rightarrow> swa_find_longest_cache_hit
      | ChunkedLocalAttentionManager \<Rightarrow> chunked_find_longest_cache_hit
      | MambaManager \<Rightarrow> mamba_find_longest_cache_hit
      | CrossAttentionManager \<Rightarrow> (\<lambda>hashes max_length gids spec eagle al dcp pcp p.
          py_assert (isinstance spec CCrossAttentionSpec) (Inl NotImplementedError)))"

definition get_num_common_prefix_blocks :: "string \<Rightarrow> kv_manager \<Rightarrow> block_pool \<Rightarrow> nat \<times> kv_manager" where
  "get_num_common_prefix_blocks r m p =
     (if mgr_class m = FullAttentionManager \<or> mgr_class m = SinkFullAttentionManager
      then let m' = entry r m
           in (length (takeWhile (\<lambda>b. ref_cnt (heap p b) = int (card (dom (req_to_blocks m')))) (blocks_of m' r)), m')
      else (0, m))"

end
