(* ===== verification/KV_Coordinator.thy ===== *)
theory KV_Coordinator
  imports Single_Type_Manager
begin

text \<open>
  \<^verbatim>\<open>src/vllm/vllm/v1/core/kv_cache_coordinator.py\<close>: the managers of all KV-cache groups over one block pool,
  in the three variants without prefix caching, with one group, and with several groups of different
  kinds.  The environment variable that sets the retention interval is an argument of the constructor.
\<close>

section \<open>State and construction\<close>

datatype coordinator_kind = NoPrefixCache | Unitary | Hybrid

record spec_group =
  sg_spec :: kv_cache_spec
  sg_group_ids :: "nat list"
  sg_manager_cls :: manager_class
  sg_use_eagle :: bool

record coordinator =
  co_kind :: coordinator_kind
  co_config :: kv_cache_config
  co_max_model_len :: nat
  co_enable_caching :: bool
  co_scheduler_block_size :: nat
  co_hash_block_size :: nat
  co_dcp_world_size :: nat
  co_pcp_world_size :: nat
  co_pool :: block_pool
  eagle_group_ids :: "nat list"
  single_type_managers :: "kv_manager list"
  retention_interval :: "int option"
  attention_groups :: "spec_group list"

definition validate_prefix_cache_retention_interval ::
  "int option \<Rightarrow> nat \<Rightarrow> kv_cache_config \<Rightarrow> unit res" where
  "validate_prefix_cache_retention_interval retention sched_bs config =
     (case retention of
        None \<Rightarrow> Inr ()
      | Some v \<Rightarrow>
          if \<not> list_ex (\<lambda>g. isinstance (group_spec g) CSlidingWindowSpec) (kv_cache_groups config)
          then Inl ValueError
          else if v < 0 \<or> v mod int sched_bs \<noteq> 0 then Inl ValueError
          else Inr ())"

definition init_eagle_group_ids :: "bool \<Rightarrow> kv_cache_config \<Rightarrow> nat list" where
  "init_eagle_group_ids eagle config =
     (let gs = kv_cache_groups config;
          ids = filter (\<lambda>i. is_eagle_group (gs ! i)) [0..<length gs]
      in if eagle \<and> ids = [] then [0..<length gs] else ids)"

fun init_managers ::
  "registry \<Rightarrow> nat \<Rightarrow> nat \<Rightarrow> bool \<Rightarrow> nat \<Rightarrow> nat \<Rightarrow> nat \<Rightarrow> nat \<Rightarrow> kv_cache_group_spec list \<Rightarrow> kv_manager list res" where
  "init_managers reg batched max_len caching dcp pcp sched_bs i [] = Inr []"
| "init_managers reg batched max_len caching dcp pcp sched_bs i (g # gs) =
     rbind (get_manager_for_kv_cache_spec reg (group_spec g) batched max_len caching i dcp pcp sched_bs) (\<lambda>m.
     rbind (init_managers reg batched max_len caching dcp pcp sched_bs (i + 1) gs) (\<lambda>ms. Inr (m # ms)))"

definition init_base_coordinator ::
  "coordinator_kind \<Rightarrow> registry \<Rightarrow> int option \<Rightarrow> kv_cache_config \<Rightarrow> nat \<Rightarrow> nat \<Rightarrow> bool \<Rightarrow> bool \<Rightarrow> bool \<Rightarrow>
   bool \<Rightarrow> nat \<Rightarrow> nat \<Rightarrow> nat \<Rightarrow> nat \<Rightarrow> coordinator res" where
  "init_base_coordinator kind reg retention config max_len batched eagle caching events int_hashes
     dcp pcp sched_bs hash_bs =
     py_assert (sched_bs mod hash_bs = 0 \<and>
                list_all (\<lambda>g. sched_bs mod spec_block_size (group_spec g) = 0) (kv_cache_groups config))
       (rbind (init_block_pool (cfg_num_blocks config) caching hash_bs events int_hashes) (\<lambda>p.
        rbind (init_managers reg batched max_len caching dcp pcp sched_bs 0 (kv_cache_groups config)) (\<lambda>ms.
        rbind (validate_prefix_cache_retention_interval retention sched_bs config) (\<lambda>_.
          Inr \<lparr>co_kind = kind, co_config = config, co_max_model_len = max_len, co_enable_caching = caching,
               co_scheduler_block_size = sched_bs, co_hash_block_size = hash_bs, co_dcp_world_size = dcp,
               co_pcp_world_size = pcp, co_pool = p, eagle_group_ids = init_eagle_group_ids eagle config,
               single_type_managers = ms, retention_interval = retention, attention_groups = []\<rparr>))))"

text \<open>The block size of the one group of a unitary coordinator.\<close>

definition unitary_block_size :: "coordinator \<Rightarrow> nat" where
  "unitary_block_size co =
     (case kv_cache_groups (co_config co) of
        [] \<Rightarrow> 0
      | g # _ \<Rightarrow> spec_block_size (group_spec g) *
               (if co_dcp_world_size co > 1 then co_dcp_world_size co else 1) *
               (if co_pcp_world_size co > 1 then co_pcp_world_size co else 1))"

definition init_unitary :: "coordinator \<Rightarrow> coordinator res" where
  "init_unitary co =
     (case (kv_cache_groups (co_config co), single_type_managers co) of
        (g # gs, m # ms) \<Rightarrow>
          py_assert (\<not> co_enable_caching co \<or> co_hash_block_size co = unitary_block_size co)
            (py_assert (gs = [])
              (Inr (co\<lparr>single_type_managers := m\<lparr>use_eagle := 0 \<in> set (eagle_group_ids co)\<rparr> # ms\<rparr>)))
      | _ \<Rightarrow> Inl IndexError)"

text \<open>\<^verbatim>\<open>verify_and_split_kv_cache_groups\<close>: one \<^verbatim>\<open>SpecGroup\<close> for every specification.\<close>

fun add_to_groups ::
  "kv_cache_spec \<Rightarrow> nat \<Rightarrow> manager_class \<Rightarrow> bool \<Rightarrow> spec_group list \<Rightarrow> spec_group list res" where
  "add_to_groups spec i cls eagle [] =
     Inr [\<lparr>sg_spec = spec, sg_group_ids = [i], sg_manager_cls = cls, sg_use_eagle = eagle\<rparr>]"
| "add_to_groups spec i cls eagle (g # gs) =
     (if sg_spec g = spec
      then py_assert (sg_manager_cls g = cls)
             (Inr (g\<lparr>sg_group_ids := sg_group_ids g @ [i], sg_use_eagle := sg_use_eagle g \<or> eagle\<rparr> # gs))
      else rbind (add_to_groups spec i cls eagle gs) (\<lambda>gs'. Inr (g # gs')))"

fun split_groups ::
  "nat list \<Rightarrow> nat \<Rightarrow> kv_cache_group_spec list \<Rightarrow> kv_manager list \<Rightarrow> spec_group list \<Rightarrow> spec_group list res" where
  "split_groups eagle_ids i (g # gs) (m # ms) acc =
     rbind (add_to_groups (group_spec g) i (mgr_class m) (i \<in> set eagle_ids) acc)
       (split_groups eagle_ids (i + 1) gs ms)"
| "split_groups eagle_ids i _ _ acc = Inr acc"

definition full_first :: "spec_group list \<Rightarrow> spec_group list" where
  "full_first gs =
     filter (\<lambda>g. isinstance (sg_spec g) CFullAttentionSpec) gs @
     filter (\<lambda>g. \<not> isinstance (sg_spec g) CFullAttentionSpec) gs"

definition propagate_eagle :: "spec_group list \<Rightarrow> kv_manager list \<Rightarrow> kv_manager list" where
  "propagate_eagle gs ms =
     map (\<lambda>(i, m). if list_ex (\<lambda>g. sg_use_eagle g \<and> i \<in> set (sg_group_ids g)) gs
                   then m\<lparr>use_eagle := True\<rparr> else m)
       (zip [0..<length ms] ms)"

definition verify_and_split_kv_cache_groups :: "coordinator \<Rightarrow> coordinator res" where
  "verify_and_split_kv_cache_groups co =
     rbind (split_groups (eagle_group_ids co) 0 (kv_cache_groups (co_config co)) (single_type_managers co) [])
       (\<lambda>gs. py_assert (length gs > 1)
          (let gs' = full_first gs
           in Inr (co\<lparr>attention_groups := gs',
                      single_type_managers := propagate_eagle gs' (single_type_managers co)\<rparr>)))"

definition init_hybrid :: "coordinator \<Rightarrow> coordinator res" where
  "init_hybrid co =
     py_assert (list_all (\<lambda>g. spec_block_size (group_spec g) mod co_hash_block_size co = 0)
                  (kv_cache_groups (co_config co)))
       (py_assert (co_dcp_world_size co = 1) (py_assert (co_pcp_world_size co = 1)
         (verify_and_split_kv_cache_groups co)))"

definition get_kv_cache_coordinator ::
  "registry \<Rightarrow> int option \<Rightarrow> kv_cache_config \<Rightarrow> nat \<Rightarrow> nat \<Rightarrow> bool \<Rightarrow> bool \<Rightarrow> bool \<Rightarrow> bool \<Rightarrow> nat \<Rightarrow> nat \<Rightarrow>
   nat \<Rightarrow> nat \<Rightarrow> coordinator res" where
  "get_kv_cache_coordinator reg retention config max_len batched eagle caching events int_hashes
     dcp pcp sched_bs hash_bs =
     (if \<not> caching
      then init_base_coordinator NoPrefixCache reg retention config max_len batched eagle False events
             int_hashes dcp pcp sched_bs hash_bs
      else if length (kv_cache_groups config) = 1
      then rbind (init_base_coordinator Unitary reg retention config max_len batched eagle caching events
             int_hashes dcp pcp sched_bs hash_bs) init_unitary
      else rbind (init_base_coordinator Hybrid reg retention config max_len batched eagle caching events
             int_hashes dcp pcp sched_bs hash_bs) init_hybrid)"

section \<open>Operations on all groups\<close>

text \<open>The loop over the managers; each call sees the pool its predecessor left.\<close>

fun each_manager ::
  "(nat \<Rightarrow> kv_manager \<times> block_pool \<Rightarrow> (kv_manager \<times> block_pool) res) \<Rightarrow> nat \<Rightarrow> kv_manager list \<Rightarrow>
   block_pool \<Rightarrow> (kv_manager list \<times> block_pool) res" where
  "each_manager f i [] p = Inr ([], p)"
| "each_manager f i (m # ms) p =
     rbind (f i (m, p)) (\<lambda>(m', p').
     rbind (each_manager f (i + 1) ms p') (\<lambda>(ms', p''). Inr (m' # ms', p'')))"

definition on_managers ::
  "(nat \<Rightarrow> kv_manager \<times> block_pool \<Rightarrow> (kv_manager \<times> block_pool) res) \<Rightarrow> coordinator \<Rightarrow> coordinator res" where
  "on_managers f co =
     rbind (each_manager f 0 (single_type_managers co) (co_pool co)) (\<lambda>(ms, p).
       Inr (co\<lparr>single_type_managers := ms, co_pool := p\<rparr>))"

fun sum_blocks_to_allocate ::
  "string \<Rightarrow> nat \<Rightarrow> bref list list \<Rightarrow> nat \<Rightarrow> nat \<Rightarrow> nat \<Rightarrow> bool \<Rightarrow> nat \<Rightarrow> kv_manager list \<Rightarrow> block_pool \<Rightarrow>
   (int \<times> kv_manager list) res" where
  "sum_blocks_to_allocate r num_toks ncbs enc_toks total_computed main_toks cap i [] p = Inr (0, [])"
| "sum_blocks_to_allocate r num_toks ncbs enc_toks total_computed main_toks cap i (m # ms) p =
     rbind (if mgr_class m = CrossAttentionManager
            then get_num_blocks_to_allocate r enc_toks [] 0 enc_toks cap m p
            else rbind (list_get ncbs i) (\<lambda>ncb.
                 get_num_blocks_to_allocate r num_toks ncb total_computed main_toks cap m p)) (\<lambda>(n, m').
     rbind (sum_blocks_to_allocate r num_toks ncbs enc_toks total_computed main_toks cap (i + 1) ms p)
       (\<lambda>(k, ms'). Inr (n + k, m' # ms')))"

definition co_get_num_blocks_to_allocate ::
  "string \<Rightarrow> nat \<Rightarrow> bref list list \<Rightarrow> nat \<Rightarrow> nat \<Rightarrow> nat \<Rightarrow> bool \<Rightarrow> coordinator \<Rightarrow> (int \<times> coordinator) res" where
  "co_get_num_blocks_to_allocate r num_toks ncbs enc_toks total_computed main_toks cap co =
     rbind (sum_blocks_to_allocate r num_toks ncbs enc_toks total_computed main_toks cap 0
              (single_type_managers co) (co_pool co)) (\<lambda>(n, ms).
       Inr (n, co\<lparr>single_type_managers := ms\<rparr>))"

definition co_allocate_new_computed_blocks ::
  "string \<Rightarrow> bref list list \<Rightarrow> nat \<Rightarrow> nat \<Rightarrow> coordinator \<Rightarrow> coordinator res" where
  "co_allocate_new_computed_blocks r ncbs num_local num_ext =
     on_managers (\<lambda>i st. rbind (list_get ncbs i) (\<lambda>ncb.
       allocate_new_computed_blocks r ncb num_local num_ext st))"

fun each_allocate ::
  "string \<Rightarrow> nat \<Rightarrow> nat \<Rightarrow> nat \<Rightarrow> kv_manager list \<Rightarrow> block_pool \<Rightarrow>
   (bref list list \<times> kv_manager list \<times> block_pool) res" where
  "each_allocate r num_toks main_toks enc_toks [] p = Inr ([], [], p)"
| "each_allocate r num_toks main_toks enc_toks (m # ms) p =
     rbind (allocate_new_blocks r (if mgr_class m = CrossAttentionManager then enc_toks else num_toks)
              main_toks (m, p)) (\<lambda>(new, m', p').
     rbind (each_allocate r num_toks main_toks enc_toks ms p') (\<lambda>(news, ms', p'').
       Inr (new # news, m' # ms', p'')))"

definition co_allocate_new_blocks ::
  "string \<Rightarrow> nat \<Rightarrow> nat \<Rightarrow> nat \<Rightarrow> coordinator \<Rightarrow> (bref list list \<times> coordinator) res" where
  "co_allocate_new_blocks r num_toks main_toks enc_toks co =
     rbind (each_allocate r num_toks main_toks enc_toks (single_type_managers co) (co_pool co))
       (\<lambda>(news, ms, p). Inr (news, co\<lparr>single_type_managers := ms, co_pool := p\<rparr>))"

definition tokens_to_cache :: "coordinator \<Rightarrow> nat \<Rightarrow> kv_manager \<Rightarrow> nat" where
  "tokens_to_cache co num_computed m =
     (if co_kind co \<noteq> Hybrid then num_computed
      else let aligned = num_computed div co_scheduler_block_size co * co_scheduler_block_size co
           in if use_eagle m \<and> aligned > 0 then min num_computed (aligned + mgr_block_size m) else aligned)"

definition co_cache_blocks :: "request \<Rightarrow> nat \<Rightarrow> coordinator \<Rightarrow> coordinator res" where
  "co_cache_blocks req num_computed co =
     on_managers (\<lambda>i st. cache_blocks req (tokens_to_cache co num_computed (fst st))
                          (map_option nat (retention_interval co)) st) co"

definition co_free :: "string \<Rightarrow> coordinator \<Rightarrow> coordinator res" where
  "co_free r = on_managers (\<lambda>i. free_request r)"

definition co_alias_request_blocks :: "string \<Rightarrow> string \<Rightarrow> int \<Rightarrow> coordinator \<Rightarrow> coordinator res" where
  "co_alias_request_blocks dst src n = on_managers (\<lambda>i. alias_request_blocks dst src n)"

definition co_alias_request_blocks_from_snapshot ::
  "string \<Rightarrow> bref list list \<Rightarrow> nat list \<Rightarrow> int \<Rightarrow> coordinator \<Rightarrow> coordinator res" where
  "co_alias_request_blocks_from_snapshot dst src_blocks src_num_cached n co =
     (if length src_blocks \<noteq> length (single_type_managers co) then Inl ValueError
      else if length src_num_cached \<noteq> length (single_type_managers co) then Inl ValueError
      else on_managers (\<lambda>i. alias_request_blocks_from_snapshot dst (src_blocks ! i) (src_num_cached ! i) n) co)"

definition co_get_num_cached_blocks :: "string \<Rightarrow> coordinator \<Rightarrow> nat list" where
  "co_get_num_cached_blocks r co = map (\<lambda>m. cached_count m r) (single_type_managers co)"

definition co_get_num_common_prefix_blocks :: "string \<Rightarrow> coordinator \<Rightarrow> nat list \<times> coordinator" where
  "co_get_num_common_prefix_blocks r co =
     (if co_kind co = NoPrefixCache then (replicate (length (single_type_managers co)) 0, co)
      else let rs = map (\<lambda>m. get_num_common_prefix_blocks r m (co_pool co)) (single_type_managers co)
           in (map fst rs, co\<lparr>single_type_managers := map snd rs\<rparr>))"

definition co_remove_skipped_blocks :: "string \<Rightarrow> nat \<Rightarrow> coordinator \<Rightarrow> coordinator res" where
  "co_remove_skipped_blocks r total_computed = on_managers (\<lambda>i. remove_skipped_blocks r total_computed)"

definition co_get_blocks :: "string \<Rightarrow> coordinator \<Rightarrow> bref list list" where
  "co_get_blocks r co = map (\<lambda>m. blocks_of m r) (single_type_managers co)"

definition co_new_step_starts :: "coordinator \<Rightarrow> coordinator" where
  "co_new_step_starts co = co\<lparr>single_type_managers := map new_step_starts (single_type_managers co)\<rparr>"

section \<open>The longest cache hit\<close>

text \<open>The hashes at the granularity of a specification.\<close>

definition get_block_hashes :: "bytes list \<Rightarrow> nat \<Rightarrow> kv_cache_spec \<Rightarrow> block_hash_view res" where
  "get_block_hashes hashes hash_bs spec =
     (if spec_block_size spec = hash_bs then Inr (PlainHashes hashes)
      else block_hash_list_with_block_size hashes hash_bs (spec_block_size spec))"

record hybrid_search =
  curr_hit_length :: int
  hit_blocks_by_group :: "bref list option list"
  eagle_verified :: "nat set"

definition store_hits :: "nat list \<Rightarrow> bref list list \<Rightarrow> bref list option list \<Rightarrow> bref list option list" where
  "store_hits gids hits by_group = fold (\<lambda>(g, blks) acc. acc[g := Some blks]) (zip gids hits) by_group"

definition hybrid_group_step ::
  "coordinator \<Rightarrow> bytes list \<Rightarrow> int \<Rightarrow> nat \<Rightarrow> spec_group \<Rightarrow> hybrid_search \<Rightarrow> hybrid_search res" where
  "hybrid_group_step co hashes max_len idx g st =
     (let spec = sg_spec g; bs = int (spec_block_size spec)
      in if isinstance spec CFullAttentionSpec \<and> hit_blocks_by_group st ! hd (sg_group_ids g) \<noteq> None
         then Inr (st\<lparr>curr_hit_length := curr_hit_length st div bs * bs\<rparr>)
         else let drop_eagle = sg_use_eagle g \<and> idx \<notin> eagle_verified st;
                  lookup_len = (if drop_eagle then min (curr_hit_length st + bs) max_len
                                else curr_hit_length st)
              in rbind (get_block_hashes hashes (co_hash_block_size co) spec) (\<lambda>v.
                 rbind (find_longest_cache_hit (sg_manager_cls g) v lookup_len (sg_group_ids g) spec drop_eagle
                          (co_scheduler_block_size co) 1 1 (co_pool co)) (\<lambda>hits.
                   let new_len = int (length (hd hits)) * bs
                   in Inr \<lparr>curr_hit_length = new_len,
                           hit_blocks_by_group = store_hits (sg_group_ids g) hits (hit_blocks_by_group st),
                           eagle_verified = (if drop_eagle then insert idx (eagle_verified st)
                                             else if new_len < curr_hit_length st then {}
                                             else eagle_verified st)\<rparr>)))"

fun hybrid_pass ::
  "coordinator \<Rightarrow> bytes list \<Rightarrow> int \<Rightarrow> nat \<Rightarrow> spec_group list \<Rightarrow> hybrid_search \<Rightarrow> hybrid_search res" where
  "hybrid_pass co hashes max_len idx [] st = Inr st"
| "hybrid_pass co hashes max_len idx (g # gs) st =
     rbind (hybrid_group_step co hashes max_len idx g st) (hybrid_pass co hashes max_len (idx + 1) gs)"

definition is_simple_hybrid :: "coordinator \<Rightarrow> bool" where
  "is_simple_hybrid co \<longleftrightarrow>
     (case attention_groups co of [g, _] \<Rightarrow> isinstance (sg_spec g) CFullAttentionSpec | _ \<Rightarrow> False)"

text \<open>
  The loop: a pass over all groups, repeated with the shorter length as long as the length shrinks.
\<close>

function hybrid_loop ::
  "coordinator \<Rightarrow> bytes list \<Rightarrow> int \<Rightarrow> int \<Rightarrow> bref list option list \<Rightarrow> nat set \<Rightarrow>
   (int \<times> bref list option list) res" where
  "hybrid_loop co hashes max_len hit_len by_group verified =
     rbind (hybrid_pass co hashes max_len 0 (attention_groups co)
              \<lparr>curr_hit_length = hit_len, hit_blocks_by_group = by_group, eagle_verified = verified\<rparr>) (\<lambda>st.
       if curr_hit_length st \<ge> hit_len then Inr (hit_len, hit_blocks_by_group st)
       else if is_simple_hybrid co then Inr (curr_hit_length st, hit_blocks_by_group st)
       else if curr_hit_length st < 0 then Inl Diverges
       else hybrid_loop co hashes max_len (curr_hit_length st) (hit_blocks_by_group st) (eagle_verified st))"
  by pat_completeness auto
termination by (relation "measure (\<lambda>(_, _, _, hit_len, _, _). nat hit_len)") auto

declare hybrid_loop.simps [simp del]

definition trim_full :: "coordinator \<Rightarrow> int \<Rightarrow> bref list option list \<Rightarrow> bref list option list" where
  "trim_full co hit_len by_group =
     (case attention_groups co of
        [] \<Rightarrow> by_group
      | g # _ \<Rightarrow>
          if isinstance (sg_spec g) CFullAttentionSpec
          then let n = nat (hit_len div int (spec_block_size (sg_spec g)))
               in map (\<lambda>(i, b). if i \<in> set (sg_group_ids g) then map_option (take n) b else b)
                    (zip [0..<length by_group] by_group)
          else by_group)"

definition hybrid_find_longest_cache_hit ::
  "bytes list \<Rightarrow> int \<Rightarrow> coordinator \<Rightarrow> (bref list list \<times> int) res" where
  "hybrid_find_longest_cache_hit hashes max_len co =
     rbind (hybrid_loop co hashes max_len max_len
              (replicate (length (kv_cache_groups (co_config co))) None) {}) (\<lambda>(hit_len, by_group).
       Inr (map (\<lambda>b. case b of None \<Rightarrow> [] | Some blks \<Rightarrow> blks) (trim_full co hit_len by_group), hit_len))"

definition unitary_find_longest_cache_hit ::
  "bytes list \<Rightarrow> int \<Rightarrow> coordinator \<Rightarrow> (bref list list \<times> int) res" where
  "unitary_find_longest_cache_hit hashes max_len co =
     (case (kv_cache_groups (co_config co), single_type_managers co) of
        (g # _, m # _) \<Rightarrow>
          rbind (find_longest_cache_hit (mgr_class m) (PlainHashes hashes) max_len [0] (group_spec g)
                   (0 \<in> set (eagle_group_ids co)) (unitary_block_size co) (co_dcp_world_size co)
                   (co_pcp_world_size co) (co_pool co)) (\<lambda>hits.
            Inr (hits, int (length (hd hits)) * int (unitary_block_size co)))
      | _ \<Rightarrow> Inl IndexError)"

definition co_find_longest_cache_hit ::
  "bytes list \<Rightarrow> int \<Rightarrow> coordinator \<Rightarrow> (bref list list \<times> int) res" where
  "co_find_longest_cache_hit hashes max_len co =
     (case co_kind co of
        NoPrefixCache \<Rightarrow> Inr (replicate (length (single_type_managers co)) [], 0)
      | Unitary \<Rightarrow> unitary_find_longest_cache_hit hashes max_len co
      | Hybrid \<Rightarrow> hybrid_find_longest_cache_hit hashes max_len co)"

end
