(* ===== verification/KV_Manager.thy ===== *)
theory KV_Manager
  imports KV_Coordinator
begin

text \<open>
  \<^verbatim>\<open>src/vllm/vllm/v1/core/kv_cache_manager.py\<close>: the interface between the scheduler and the KV cache.
  \<^verbatim>\<open>KVCacheBlocks\<close> is one block list for each group.  The block pool is inside the coordinator.
\<close>

section \<open>Block lists\<close>

type_synonym kv_cache_blocks = "bref list list"

definition kv_blocks_add :: "kv_cache_blocks \<Rightarrow> kv_cache_blocks \<Rightarrow> kv_cache_blocks" where
  "kv_blocks_add xs ys = map (\<lambda>(b, c). b @ c) (zip xs ys)"

definition kv_block_ids :: "block_pool \<Rightarrow> bool \<Rightarrow> kv_cache_blocks \<Rightarrow> int list list option" where
  "kv_block_ids p allow_none xs =
     (if allow_none \<and> list_all (\<lambda>g. g = []) xs then None
      else Some (map (map (\<lambda>b. block_id (heap p b))) xs))"

definition get_unhashed_block_ids :: "block_pool \<Rightarrow> kv_cache_blocks \<Rightarrow> int list res" where
  "get_unhashed_block_ids p xs =
     py_assert (length xs = 1)
       (Inr (map (\<lambda>b. block_id (heap p b)) (filter (\<lambda>b. block_hash (heap p b) = None) (hd xs))))"

definition get_unhashed_block_ids_all_groups :: "block_pool \<Rightarrow> kv_cache_blocks \<Rightarrow> int list list" where
  "get_unhashed_block_ids_all_groups p xs =
     map (\<lambda>g. map (\<lambda>b. block_id (heap p b))
               (filter (\<lambda>b. block_hash (heap p b) = None \<and> \<not> is_null (heap p b)) g)) xs"

definition new_empty :: "kv_cache_blocks \<Rightarrow> kv_cache_blocks" where
  "new_empty xs = map (\<lambda>_. []) xs"

section \<open>Statistics\<close>

record prefix_cache_stats =
  stats_reset :: bool
  stat_requests :: nat
  stat_queries :: nat
  stat_hits :: int
  preempted_requests :: nat
  preempted_queries :: nat
  preempted_hits :: int

definition new_prefix_cache_stats :: prefix_cache_stats where
  "new_prefix_cache_stats =
     \<lparr>stats_reset = False, stat_requests = 0, stat_queries = 0, stat_hits = 0,
      preempted_requests = 0, preempted_queries = 0, preempted_hits = 0\<rparr>"

definition record_prefix_stats :: "nat \<Rightarrow> int \<Rightarrow> bool \<Rightarrow> prefix_cache_stats \<Rightarrow> prefix_cache_stats" where
  "record_prefix_stats num_toks num_hits preempted s =
     (if preempted
      then s\<lparr>preempted_requests := preempted_requests s + 1,
             preempted_queries := preempted_queries s + num_toks,
             preempted_hits := preempted_hits s + num_hits\<rparr>
      else s\<lparr>stat_requests := stat_requests s + 1, stat_queries := stat_queries s + num_toks,
             stat_hits := stat_hits s + num_hits\<rparr>)"

section \<open>The manager\<close>

record kv_cache_manager =
  km_max_model_len :: nat
  km_enable_caching :: bool
  prefix_stats :: "prefix_cache_stats option"
  km_coordinator :: coordinator
  kv_cache_event_metadata :: "(string \<times> nat option) list"

definition init_kv_cache_manager ::
  "registry \<Rightarrow> int option \<Rightarrow> kv_cache_config \<Rightarrow> nat \<Rightarrow> nat \<Rightarrow> nat \<Rightarrow> nat option \<Rightarrow> bool \<Rightarrow> bool \<Rightarrow> bool \<Rightarrow>
   bool \<Rightarrow> bool \<Rightarrow> nat \<Rightarrow> nat \<Rightarrow> kv_cache_manager res" where
  "init_kv_cache_manager reg retention config max_len sched_bs hash_bs batched caching eagle log_stats
     events int_hashes dcp pcp =
     rbind (get_kv_cache_coordinator reg retention config max_len
              (case batched of None \<Rightarrow> max_len | Some b \<Rightarrow> b) eagle caching events int_hashes dcp pcp
              sched_bs hash_bs) (\<lambda>co.
       Inr \<lparr>km_max_model_len = max_len, km_enable_caching = caching,
            prefix_stats = (if log_stats then Some new_prefix_cache_stats else None),
            km_coordinator = co,
            kv_cache_event_metadata = map (\<lambda>g. (kind_value (get_kv_cache_spec_kind (group_spec g)),
                get_kv_cache_spec_sliding_window (group_spec g))) (kv_cache_groups config)\<rparr>)"

definition km_pool :: "kv_cache_manager \<Rightarrow> block_pool" where
  "km_pool km = co_pool (km_coordinator km)"

definition km_usage :: "kv_cache_manager \<Rightarrow> pyfloat" where
  "km_usage km = get_usage (km_pool km)"

definition make_prefix_cache_stats :: "kv_cache_manager \<Rightarrow> prefix_cache_stats option \<times> kv_cache_manager" where
  "make_prefix_cache_stats km =
     (case prefix_stats km of
        None \<Rightarrow> (None, km)
      | Some s \<Rightarrow> (Some s, km\<lparr>prefix_stats := Some new_prefix_cache_stats\<rparr>))"

definition empty_kv_cache_blocks :: "kv_cache_manager \<Rightarrow> kv_cache_blocks" where
  "empty_kv_cache_blocks km = replicate (length (kv_cache_groups (co_config (km_coordinator km)))) []"

text \<open>Empty results are the one empty object, which \<^verbatim>\<open>allocate_slots\<close> recognises by identity.\<close>

definition create_kv_cache_blocks :: "kv_cache_manager \<Rightarrow> bref list list \<Rightarrow> kv_cache_blocks" where
  "create_kv_cache_blocks km blks =
     (if list_ex (\<lambda>g. g \<noteq> []) blks then blks else empty_kv_cache_blocks km)"

definition get_computed_blocks ::
  "request \<Rightarrow> kv_cache_manager \<Rightarrow> (kv_cache_blocks \<times> int \<times> kv_cache_manager) res" where
  "get_computed_blocks req km =
     (if \<not> km_enable_caching km \<or> req_skip_reading_prefix_cache req
      then Inr (empty_kv_cache_blocks km, 0, km)
      else rbind (co_find_longest_cache_hit (block_hashes req) (int (num_tokens req) - 1) (km_coordinator km))
             (\<lambda>(blks, n).
               Inr (create_kv_cache_blocks km blks, n,
                    km\<lparr>prefix_stats := map_option (record_prefix_stats (num_tokens req) n
                                                    (num_preemptions req > 0)) (prefix_stats km)\<rparr>)))"

definition with_coordinator :: "kv_cache_manager \<Rightarrow> coordinator \<Rightarrow> kv_cache_manager" where
  "with_coordinator km co = km\<lparr>km_coordinator := co\<rparr>"

text \<open>
  \<^verbatim>\<open>allocate_slots\<close>: the admission gate on the whole sequence, the release of skipped blocks, the test
  whether the blocks fit, the computed blocks, the new blocks, and the caching of the full ones.  The
  result \<open>None\<close> is the code's \<^verbatim>\<open>return None\<close>.
\<close>

record slot_args =
  num_new_tokens :: nat
  num_new_computed_tokens :: nat
  new_computed_blocks :: "kv_cache_blocks option"
  num_lookahead_tokens :: nat
  num_external_computed_tokens :: nat
  delay_cache_blocks :: bool
  num_encoder_tokens :: nat
  full_sequence_must_fit :: bool
  reserved_blocks :: int

definition computed_block_list :: "kv_cache_manager \<Rightarrow> slot_args \<Rightarrow> kv_cache_blocks" where
  "computed_block_list km a =
     (case new_computed_blocks a of Some b \<Rightarrow> b | None \<Rightarrow> empty_kv_cache_blocks km)"

definition full_sequence_fits ::
  "request \<Rightarrow> slot_args \<Rightarrow> nat \<Rightarrow> kv_cache_manager \<Rightarrow> (bool \<times> kv_cache_manager) res" where
  "full_sequence_fits req a total_computed km =
     (if \<not> full_sequence_must_fit a then Inr (True, km)
      else let full = min (num_tokens req) (km_max_model_len km)
           in rbind (co_get_num_blocks_to_allocate (request_id req) full (computed_block_list km a)
                       (num_encoder_tokens a) total_computed full True (km_coordinator km)) (\<lambda>(n, co).
                Inr (n \<le> get_num_free_blocks (co_pool co), with_coordinator km co)))"

definition allocate_and_cache ::
  "request \<Rightarrow> slot_args \<Rightarrow> nat \<Rightarrow> nat \<Rightarrow> nat \<Rightarrow> nat \<Rightarrow> kv_cache_manager \<Rightarrow>
   (kv_cache_blocks \<times> kv_cache_manager) res" where
  "allocate_and_cache req a num_local total_computed need_slot main_toks km =
     rbind (if list_ex (\<lambda>g. g \<noteq> []) (computed_block_list km a) \<or> num_external_computed_tokens a > 0
            then co_allocate_new_computed_blocks (request_id req) (computed_block_list km a) num_local
                   (num_external_computed_tokens a) (km_coordinator km)
            else Inr (km_coordinator km)) (\<lambda>co1.
     rbind (co_allocate_new_blocks (request_id req) need_slot main_toks (num_encoder_tokens a) co1) (\<lambda>(new, co2).
       if \<not> km_enable_caching km \<or> delay_cache_blocks a
       then Inr (create_kv_cache_blocks km new, with_coordinator km co2)
       else rbind (co_cache_blocks req (min (total_computed + num_new_tokens a) (num_tokens req)) co2) (\<lambda>co3.
              Inr (create_kv_cache_blocks km new, with_coordinator km co3))))"

definition allocate_slots ::
  "request \<Rightarrow> slot_args \<Rightarrow> kv_cache_manager \<Rightarrow> (kv_cache_blocks option \<times> kv_cache_manager) res" where
  "allocate_slots req a km =
     (if num_new_tokens a = 0 \<and> num_external_computed_tokens a = 0 then Inl ValueError
      else let r = request_id req;
               num_local = num_computed_tokens req + num_new_computed_tokens a;
               total_computed = min (num_local + num_external_computed_tokens a) (km_max_model_len km)
           in rbind (full_sequence_fits req a total_computed km) (\<lambda>(fits, km1).
              if \<not> fits then Inr (None, km1)
              else let main_toks = total_computed + num_new_tokens a;
                       need_slot = min (main_toks + num_lookahead_tokens a) (km_max_model_len km)
                   in rbind (co_remove_skipped_blocks r total_computed (km_coordinator km1)) (\<lambda>co2.
                      rbind (co_get_num_blocks_to_allocate r need_slot (computed_block_list km a)
                               (num_encoder_tokens a) (num_local + num_external_computed_tokens a)
                               main_toks False co2) (\<lambda>(n, co3).
                        if n > get_num_free_blocks (co_pool co3) - reserved_blocks a
                        then Inr (None, with_coordinator km1 co3)
                        else rbind (allocate_and_cache req a num_local total_computed need_slot main_toks
                                      (with_coordinator km1 co3)) (\<lambda>(blks, km4).
                             Inr (Some blks, km4))))))"

section \<open>The remaining operations\<close>

definition on_coordinator ::
  "(coordinator \<Rightarrow> coordinator res) \<Rightarrow> kv_cache_manager \<Rightarrow> kv_cache_manager res" where
  "on_coordinator f km = rbind (f (km_coordinator km)) (\<lambda>co. Inr (with_coordinator km co))"

definition km_free :: "request \<Rightarrow> kv_cache_manager \<Rightarrow> kv_cache_manager res" where
  "km_free req = on_coordinator (co_free (request_id req))"

definition km_alias_request_blocks ::
  "string \<Rightarrow> string \<Rightarrow> int \<Rightarrow> kv_cache_manager \<Rightarrow> kv_cache_manager res" where
  "km_alias_request_blocks dst src n = on_coordinator (co_alias_request_blocks dst src n)"

definition km_alias_request_blocks_from_snapshot ::
  "string \<Rightarrow> kv_cache_blocks \<Rightarrow> nat list \<Rightarrow> int \<Rightarrow> kv_cache_manager \<Rightarrow> kv_cache_manager res" where
  "km_alias_request_blocks_from_snapshot dst src_blocks src_num_cached n =
     on_coordinator (co_alias_request_blocks_from_snapshot dst src_blocks src_num_cached n)"

definition km_get_num_cached_blocks :: "string \<Rightarrow> kv_cache_manager \<Rightarrow> nat list" where
  "km_get_num_cached_blocks r km = co_get_num_cached_blocks r (km_coordinator km)"

definition km_remove_skipped_blocks :: "string \<Rightarrow> nat \<Rightarrow> kv_cache_manager \<Rightarrow> kv_cache_manager res" where
  "km_remove_skipped_blocks r n = on_coordinator (co_remove_skipped_blocks r n)"

definition km_evict_blocks :: "nat list \<Rightarrow> kv_cache_manager \<Rightarrow> kv_cache_manager res" where
  "km_evict_blocks ids = on_coordinator (\<lambda>co. rbind (evict_blocks ids (co_pool co)) (\<lambda>p. Inr (co\<lparr>co_pool := p\<rparr>)))"

definition km_reset_prefix_cache :: "kv_cache_manager \<Rightarrow> bool \<times> kv_cache_manager" where
  "km_reset_prefix_cache km =
     (let co = km_coordinator km
      in case Block_Pool.reset_prefix_cache (co_pool co) of
           (False, p) \<Rightarrow> (False, with_coordinator km (co\<lparr>co_pool := p\<rparr>))
         | (True, p) \<Rightarrow>
             (True, (with_coordinator km (co\<lparr>co_pool := p\<rparr>))
                \<lparr>prefix_stats := map_option (\<lambda>s. s\<lparr>stats_reset := True\<rparr>) (prefix_stats km)\<rparr>))"

definition km_get_num_common_prefix_blocks :: "string \<Rightarrow> kv_cache_manager \<Rightarrow> nat list \<times> kv_cache_manager" where
  "km_get_num_common_prefix_blocks r km =
     (case co_get_num_common_prefix_blocks r (km_coordinator km) of (ns, co) \<Rightarrow> (ns, with_coordinator km co))"

text \<open>A stored-block event is returned with the kind and the window of its group.\<close>

definition annotate_event ::
  "(string \<times> nat option) list \<Rightarrow> kv_cache_event \<Rightarrow> kv_cache_event \<times> (string \<times> nat option) option" where
  "annotate_event md e =
     (case e of
        BlockStored _ _ _ _ _ _ g \<Rightarrow> if g \<ge> length md then (e, None) else (e, Some (md ! g))
      | _ \<Rightarrow> (e, None))"

definition km_take_events ::
  "kv_cache_manager \<Rightarrow> (kv_cache_event \<times> (string \<times> nat option) option) list \<times> kv_cache_manager" where
  "km_take_events km =
     (let co = km_coordinator km
      in case take_events (co_pool co) of
           (evs, p) \<Rightarrow> (map (annotate_event (kv_cache_event_metadata km)) evs,
                        with_coordinator km (co\<lparr>co_pool := p\<rparr>)))"

definition km_get_blocks :: "string \<Rightarrow> kv_cache_manager \<Rightarrow> kv_cache_blocks" where
  "km_get_blocks r km = create_kv_cache_blocks km (co_get_blocks r (km_coordinator km))"

definition km_get_block_ids :: "string \<Rightarrow> kv_cache_manager \<Rightarrow> int list list" where
  "km_get_block_ids r km = map (map (\<lambda>b. block_id (heap (km_pool km) b))) (km_get_blocks r km)"

definition km_cache_blocks :: "request \<Rightarrow> nat \<Rightarrow> kv_cache_manager \<Rightarrow> kv_cache_manager res" where
  "km_cache_blocks req n km =
     (if km_enable_caching km then on_coordinator (co_cache_blocks req n) km else Inr km)"

definition km_take_new_block_ids :: "kv_cache_manager \<Rightarrow> int list \<times> kv_cache_manager" where
  "km_take_new_block_ids km =
     (let co = km_coordinator km; ms = single_type_managers co
      in (concat (map (fst \<circ> take_new_block_ids) ms),
          with_coordinator km (co\<lparr>single_type_managers := map (snd \<circ> take_new_block_ids) ms\<rparr>)))"

definition km_new_step_starts :: "kv_cache_manager \<Rightarrow> kv_cache_manager" where
  "km_new_step_starts km = with_coordinator km (co_new_step_starts (km_coordinator km))"

end
