(* ===== verification/Encoder_Cache.thy ===== *)
theory Encoder_Cache
  imports Request
begin

text \<open>
  \<^verbatim>\<open>src/vllm/vllm/v1/core/encoder_cache_manager.py\<close>: the bookkeeping of cached encoder outputs.  The
  dictionary \<^verbatim>\<open>cached\<close> maps the hash of a multi-modal input to the set of requests that use it; the
  ordered dictionary \<^verbatim>\<open>freeable\<close> is an association list in insertion order.  A hash that is missing from
  a feature is the key \<open>None\<close>, as in Python.
\<close>

section \<open>Encoder cache of decoder-only models\<close>

type_synonym mm_hash = "string option"

record encoder_cache_manager =
  cache_size :: nat
  num_free_slots :: int
  num_freeable_slots :: int
  cached :: "mm_hash \<rightharpoonup> string set"
  request_cached_ids :: "string \<rightharpoonup> nat set"
  freeable :: "(mm_hash \<times> nat) list"
  freed :: "mm_hash list"

definition init_encoder_cache :: "nat \<Rightarrow> encoder_cache_manager" where
  "init_encoder_cache n =
     \<lparr>cache_size = n, num_free_slots = int n, num_freeable_slots = int n, cached = Map.empty,
      request_cached_ids = Map.empty, freeable = [], freed = []\<rparr>"

definition reset_encoder_cache :: "encoder_cache_manager \<Rightarrow> encoder_cache_manager" where
  "reset_encoder_cache e =
     e\<lparr>cached := Map.empty, request_cached_ids := Map.empty, freeable := [], freed := [],
       num_free_slots := int (cache_size e), num_freeable_slots := int (cache_size e)\<rparr>"

definition mm_hash_of :: "request \<Rightarrow> nat \<Rightarrow> mm_hash res" where
  "mm_hash_of req i = rbind (list_get (mm_features req) i) (\<lambda>f. Inr (mm_identifier f))"

definition add_cached_id :: "string \<Rightarrow> nat \<Rightarrow> encoder_cache_manager \<Rightarrow> encoder_cache_manager" where
  "add_cached_id r i e =
     e\<lparr>request_cached_ids := (request_cached_ids e)
         (r \<mapsto> insert i (case request_cached_ids e r of None \<Rightarrow> {} | Some s \<Rightarrow> s))\<rparr>"

definition check_and_update_cache ::
  "request \<Rightarrow> nat \<Rightarrow> encoder_cache_manager \<Rightarrow> (bool \<times> encoder_cache_manager) res" where
  "check_and_update_cache req i e =
     rbind (mm_hash_of req i) (\<lambda>h.
       case cached e h of
         None \<Rightarrow> Inr (False, e)
       | Some users \<Rightarrow>
           rbind (if users = {}
                  then (case map_of (freeable e) h of
                          None \<Rightarrow> Inl KeyError
                        | Some n \<Rightarrow> Inr (e\<lparr>freeable := filter (\<lambda>(k, _). k \<noteq> h) (freeable e),
                                          num_freeable_slots := num_freeable_slots e - int n\<rparr>))
                  else Inr e) (\<lambda>e1.
             Inr (True, add_cached_id (request_id req) i
                          (e1\<lparr>cached := (cached e1)(h \<mapsto> insert (request_id req) users)\<rparr>))))"

text \<open>The eviction loop of \<^verbatim>\<open>can_allocate\<close>: \<^verbatim>\<open>popitem\<close> raises on an empty dictionary.\<close>

fun evict_loop :: "int \<Rightarrow> (mm_hash \<times> nat) list \<Rightarrow> encoder_cache_manager \<Rightarrow> encoder_cache_manager res" where
  "evict_loop n [] e = (if n \<le> num_free_slots e then Inr (e\<lparr>freeable := []\<rparr>) else Inl KeyError)"
| "evict_loop n ((h, k) # rest) e =
     (if n \<le> num_free_slots e then Inr (e\<lparr>freeable := (h, k) # rest\<rparr>)
      else if cached e h = None then Inl KeyError
      else evict_loop n rest (e\<lparr>cached := (cached e)(h := None), freed := freed e @ [h],
                               num_free_slots := num_free_slots e + int k\<rparr>))"

definition can_allocate ::
  "request \<Rightarrow> nat \<Rightarrow> int \<Rightarrow> nat \<Rightarrow> encoder_cache_manager \<Rightarrow> (bool \<times> encoder_cache_manager) res" where
  "can_allocate req i compute_budget scheduled e =
     rbind (get_num_encoder_embeds req i) (\<lambda>n0.
       if int n0 > compute_budget then Inr (False, e)
       else let n = int n0 + int scheduled
            in if n \<le> num_free_slots e then Inr (True, e)
               else if n > num_freeable_slots e then Inr (False, e)
               else rbind (evict_loop n (freeable e) e) (\<lambda>e'. Inr (True, e')))"

definition allocate_encoder :: "request \<Rightarrow> nat \<Rightarrow> encoder_cache_manager \<Rightarrow> encoder_cache_manager res" where
  "allocate_encoder req i e =
     rbind (mm_hash_of req i) (\<lambda>h.
     rbind (get_num_encoder_embeds req i) (\<lambda>n.
       py_assert (num_free_slots e \<ge> int n) (py_assert (num_freeable_slots e \<ge> int n)
         (let users = (case cached e h of None \<Rightarrow> {} | Some u \<Rightarrow> u)
          in Inr (add_cached_id (request_id req) i
                    (e\<lparr>cached := (cached e)(h \<mapsto> insert (request_id req) users),
                       num_free_slots := num_free_slots e - int n,
                       num_freeable_slots := num_freeable_slots e - int n\<rparr>))))))"

definition get_cached_input_ids :: "request \<Rightarrow> encoder_cache_manager \<Rightarrow> nat set" where
  "get_cached_input_ids req e =
     (case request_cached_ids e (request_id req) of None \<Rightarrow> {} | Some s \<Rightarrow> s)"

definition discard_cached_id :: "string \<Rightarrow> nat \<Rightarrow> encoder_cache_manager \<Rightarrow> encoder_cache_manager" where
  "discard_cached_id r i e =
     (case request_cached_ids e r of
        None \<Rightarrow> e
      | Some s \<Rightarrow> e\<lparr>request_cached_ids := (request_cached_ids e)
                      (r := if s - {i} = {} then None else Some (s - {i}))\<rparr>)"

definition free_encoder_input ::
  "request \<Rightarrow> nat \<Rightarrow> encoder_cache_manager \<Rightarrow> encoder_cache_manager res" where
  "free_encoder_input req i e =
     rbind (mm_hash_of req i) (\<lambda>h.
       let r = request_id req; e1 = discard_cached_id r i e
       in case cached e1 h of
            None \<Rightarrow> Inr e1
          | Some users \<Rightarrow>
              if users = {} then Inr e1
              else let e2 = e1\<lparr>cached := (cached e1)(h \<mapsto> users - {r})\<rparr>
                   in if users - {r} \<noteq> {} then Inr e2
                      else rbind (get_num_encoder_embeds req i) (\<lambda>n.
                        Inr (e2\<lparr>freeable := dict_set h n (freeable e2),
                                num_freeable_slots := num_freeable_slots e2 + int n\<rparr>)))"

text \<open>\<^verbatim>\<open>free\<close> visits the ids of a set; the list is an enumeration of it.\<close>

fun free_inputs :: "request \<Rightarrow> nat list \<Rightarrow> encoder_cache_manager \<Rightarrow> encoder_cache_manager res" where
  "free_inputs req [] e = Inr e"
| "free_inputs req (i # is) e = rbind (free_encoder_input req i e) (free_inputs req is)"

definition free_encoder_request :: "request \<Rightarrow> encoder_cache_manager \<Rightarrow> encoder_cache_manager res" where
  "free_encoder_request req e =
     free_inputs req (filter (\<lambda>i. i \<in> get_cached_input_ids req e) [0..<length (mm_features req)]) e"

definition get_freed_mm_hashes :: "encoder_cache_manager \<Rightarrow> mm_hash list \<times> encoder_cache_manager" where
  "get_freed_mm_hashes e = (freed e, e\<lparr>freed := []\<rparr>)"

section \<open>Budgets\<close>

definition compute_mm_encoder_budget ::
  "bool \<Rightarrow> nat \<Rightarrow> nat \<Rightarrow> nat \<Rightarrow> nat list \<Rightarrow> (nat \<times> nat) res" where
  "compute_mm_encoder_budget disable_chunked batched max_encoder_input cache_sz max_toks_per_item =
     (if max_toks_per_item = [] then Inr (0, 0)
      else let mx = Max (set max_toks_per_item)
           in if disable_chunked \<and> mx > batched then Inl ValueError
              else Inr (max max_encoder_input mx, max cache_sz mx))"

section \<open>Encoder-decoder models\<close>

record encoder_decoder_cache =
  ed_cache_size :: nat
  ed_num_free_slots :: int
  ed_allocated :: "mm_hash list"
  ed_to_free :: "mm_hash list"

definition init_encoder_decoder :: "nat \<Rightarrow> encoder_decoder_cache" where
  "init_encoder_decoder n = \<lparr>ed_cache_size = n, ed_num_free_slots = int n, ed_allocated = [], ed_to_free = []\<rparr>"

definition reset_encoder_decoder :: "encoder_decoder_cache \<Rightarrow> encoder_decoder_cache" where
  "reset_encoder_decoder e = init_encoder_decoder (ed_cache_size e)"

definition ed_can_allocate ::
  "request \<Rightarrow> nat \<Rightarrow> int \<Rightarrow> nat \<Rightarrow> encoder_decoder_cache \<Rightarrow> bool res" where
  "ed_can_allocate req i compute_budget scheduled e =
     rbind (get_num_encoder_embeds req i) (\<lambda>n.
       Inr (int n \<le> compute_budget \<and> int n + int scheduled \<le> ed_num_free_slots e))"

definition ed_allocate :: "request \<Rightarrow> nat \<Rightarrow> encoder_decoder_cache \<Rightarrow> encoder_decoder_cache res" where
  "ed_allocate req i e =
     rbind (get_num_encoder_embeds req i) (\<lambda>n.
     rbind (mm_hash_of req i) (\<lambda>h.
       Inr (e\<lparr>ed_num_free_slots := ed_num_free_slots e - int n, ed_allocated := ed_allocated e @ [h]\<rparr>)))"

definition ed_free_encoder_input ::
  "request \<Rightarrow> nat \<Rightarrow> encoder_decoder_cache \<Rightarrow> encoder_decoder_cache res" where
  "ed_free_encoder_input req i e =
     rbind (get_num_encoder_embeds req i) (\<lambda>n.
       Inr (e\<lparr>ed_num_free_slots := ed_num_free_slots e + int n\<rparr>))"

fun ed_free_inputs :: "request \<Rightarrow> nat list \<Rightarrow> encoder_decoder_cache \<Rightarrow> encoder_decoder_cache res" where
  "ed_free_inputs req [] e = Inr e"
| "ed_free_inputs req (i # is) e = rbind (ed_free_encoder_input req i e) (ed_free_inputs req is)"

definition ed_free :: "request \<Rightarrow> encoder_decoder_cache \<Rightarrow> encoder_decoder_cache res" where
  "ed_free req = ed_free_inputs req [0..<length (mm_features req)]"

definition ed_get_freed_mm_hashes :: "encoder_decoder_cache \<Rightarrow> mm_hash list \<times> encoder_decoder_cache" where
  "ed_get_freed_mm_hashes e = (ed_to_free e, e\<lparr>ed_to_free := ed_allocated e, ed_allocated := []\<rparr>)"

end
