(* ===== verification/Request_Queue.thy ===== *)
theory Request_Queue
  imports Request
begin

text \<open>
  The queues of waiting requests, \<^verbatim>\<open>src/vllm/vllm/v1/core/sched/request_queue.py\<close>, and the helpers of
  \<^verbatim>\<open>src/vllm/vllm/v1/core/sched/utils.py\<close>: the removal of requests from a list, the detection of repeated
  patterns and the stop conditions.  The binary heap of the priority queue is represented by the list of
  its elements in order; the source looks at a heap only through its smallest element, its
  length, and the sequence of repeated pops.
\<close>

section \<open>First come, first served\<close>

datatype scheduling_policy = FCFS | PRIORITY

definition fcfs_add :: "'r \<Rightarrow> 'r list \<Rightarrow> 'r list" where
  "fcfs_add r q = q @ [r]"

fun fcfs_pop :: "'r list \<Rightarrow> ('r \<times> 'r list) res" where
  "fcfs_pop [] = Inl IndexError"
| "fcfs_pop (r # q) = Inr (r, q)"

fun fcfs_peek :: "'r list \<Rightarrow> 'r res" where
  "fcfs_peek [] = Inl IndexError"
| "fcfs_peek (r # q) = Inr r"

definition fcfs_prepend :: "'r \<Rightarrow> 'r list \<Rightarrow> 'r list" where
  "fcfs_prepend r q = r # q"

text \<open>\<^verbatim>\<open>extendleft\<close> reverses the order of the prepended requests.\<close>

definition fcfs_prepend_all :: "'r list \<Rightarrow> 'r list \<Rightarrow> 'r list" where
  "fcfs_prepend_all rs q = fold (\<lambda>r acc. r # acc) rs q"

definition fcfs_remove :: "'r \<Rightarrow> 'r list \<Rightarrow> 'r list res" where
  "fcfs_remove r q = (if r \<in> set q then Inr (remove1 r q) else Inl ValueError)"

definition fcfs_remove_all :: "'r set \<Rightarrow> 'r list \<Rightarrow> 'r list" where
  "fcfs_remove_all rs q = filter (\<lambda>r. r \<notin> rs) q"

section \<open>Priorities\<close>

text \<open>The queue under an order \<open>lt\<close> on requests, which is \<^verbatim>\<open>Request.__lt__\<close>.\<close>

fun heap_push :: "('r \<Rightarrow> 'r \<Rightarrow> bool) \<Rightarrow> 'r \<Rightarrow> 'r list \<Rightarrow> 'r list" where
  "heap_push lt r [] = [r]"
| "heap_push lt r (x # q) = (if lt r x then r # x # q else x # heap_push lt r q)"

definition priority_add :: "('r \<Rightarrow> 'r \<Rightarrow> bool) \<Rightarrow> 'r \<Rightarrow> 'r list \<Rightarrow> 'r list" where
  "priority_add lt r q = heap_push lt r q"

definition priority_pop :: "'r list \<Rightarrow> ('r \<times> 'r list) res" where
  "priority_pop q = fcfs_pop q"

definition priority_peek :: "'r list \<Rightarrow> 'r res" where
  "priority_peek q = fcfs_peek q"

definition priority_prepend :: "('r \<Rightarrow> 'r \<Rightarrow> bool) \<Rightarrow> 'r \<Rightarrow> 'r list \<Rightarrow> 'r list" where
  "priority_prepend lt r q = priority_add lt r q"

definition priority_prepend_all :: "('r \<Rightarrow> 'r \<Rightarrow> bool) \<Rightarrow> 'r list \<Rightarrow> 'r list \<Rightarrow> 'r list" where
  "priority_prepend_all lt rs q = fold (priority_add lt) rs q"

definition priority_remove :: "'r \<Rightarrow> 'r list \<Rightarrow> 'r list res" where
  "priority_remove r q = fcfs_remove r q"

definition priority_remove_all :: "'r set \<Rightarrow> 'r list \<Rightarrow> 'r list" where
  "priority_remove_all rs q = filter (\<lambda>r. r \<notin> rs) q"

section \<open>Lists of requests\<close>

text \<open>\<^verbatim>\<open>remove_all\<close>: a single item is removed at its first occurrence only.\<close>

definition remove_all :: "'r list \<Rightarrow> 'r set \<Rightarrow> 'r list" where
  "remove_all xs items =
     (if items = {} then xs
      else if card items = 1 then remove1 (the_elem items) xs
      else filter (\<lambda>x. x \<notin> items) xs)"

section \<open>Repetition\<close>

text \<open>\<^verbatim>\<open>token_ids[-k]\<close> for a positive \<open>k\<close>.\<close>

definition from_end :: "int list \<Rightarrow> nat \<Rightarrow> int res" where
  "from_end ts k = rbind (py_index (length ts) (- int k)) (\<lambda>j. Inr (ts ! j))"

fun same_at :: "int list \<Rightarrow> int \<Rightarrow> nat \<Rightarrow> nat \<Rightarrow> nat list \<Rightarrow> bool res" where
  "same_at ts target pattern_len n [] = Inr True"
| "same_at ts target pattern_len n (m # ms) =
     rbind (from_end ts (pattern_len * m + n)) (\<lambda>x.
       if x \<noteq> target then Inr False else same_at ts target pattern_len n ms)"

fun pattern_loop :: "int list \<Rightarrow> nat \<Rightarrow> nat \<Rightarrow> nat list \<Rightarrow> bool res" where
  "pattern_loop ts pattern_len cnt [] = Inr True"
| "pattern_loop ts pattern_len cnt (n # ns) =
     rbind (from_end ts n) (\<lambda>target.
     rbind (same_at ts target pattern_len n [1..<cnt]) (\<lambda>b.
       if b then pattern_loop ts pattern_len cnt ns else Inr False))"

definition has_repeating_pattern :: "int list \<Rightarrow> nat \<Rightarrow> nat \<Rightarrow> bool res" where
  "has_repeating_pattern ts pattern_len cnt = pattern_loop ts pattern_len cnt [1..<pattern_len + 1]"

fun repetition_loop :: "int list \<Rightarrow> nat \<Rightarrow> nat list \<Rightarrow> bool res" where
  "repetition_loop ts cnt [] = Inr False"
| "repetition_loop ts cnt (k # ks) =
     (if k * cnt > length ts then Inr False
      else rbind (has_repeating_pattern ts k cnt) (\<lambda>b.
           if b then Inr True else repetition_loop ts cnt ks))"

definition check_sequence_repetition :: "int list \<Rightarrow> repetition_detection_params \<Rightarrow> bool res" where
  "check_sequence_repetition ts params =
     (let lo = (if min_pattern_size params \<le> 0 then 1 else min_pattern_size params);
          hi = max_pattern_size params
      in if hi \<le> 0 \<or> min_count params < 2 \<or> lo > hi then Inr False
         else repetition_loop ts (nat (min_count params)) [nat lo..<nat hi + 1])"

section \<open>Stop conditions\<close>

definition check_stop :: "request \<Rightarrow> nat \<Rightarrow> (bool \<times> request) res" where
  "check_stop r max_len =
     py_assert (\<not> is_pooling r)
       (case req_sampling_params r of
          None \<Rightarrow> Inl AssertionError
        | Some sp \<Rightarrow>
            if num_output_tokens r < min_tokens sp then Inr (False, r)
            else if output_token_ids r = [] then Inl IndexError
            else let last_id = last (output_token_ids r)
                 in if eos_token_id sp = Some last_id
                    then Inr (True, r\<lparr>status := FINISHED_STOPPED\<rparr>)
                    else if last_id \<in> set (case stop_token_ids sp of None \<Rightarrow> [] | Some l \<Rightarrow> l)
                    then Inr (True, r\<lparr>status := FINISHED_STOPPED, req_stop_reason := Some (StopToken last_id)\<rparr>)
                    else if num_tokens r \<ge> max_len \<or> num_output_tokens r \<ge> req_max_tokens r
                    then Inr (True, r\<lparr>status := FINISHED_LENGTH_CAPPED\<rparr>)
                    else (case repetition_detection sp of
                            None \<Rightarrow> Inr (False, r)
                          | Some rp \<Rightarrow>
                              rbind (check_sequence_repetition (output_token_ids r) rp) (\<lambda>b.
                                if b then Inr (True, r\<lparr>status := FINISHED_REPETITION,
                                       req_stop_reason := Some (StopString ''repetition_detected'')\<rparr>)
                                else Inr (False, r))))"

section \<open>The contract of a request queue\<close>

text \<open>
  \<^verbatim>\<open>RequestQueue\<close> is the interface that both policies implement.  The scheduler relies on the contents: an
  operation adds or removes exactly the requests it names.
\<close>

locale request_queue =
  fixes add :: "'r \<Rightarrow> 'r list \<Rightarrow> 'r list"
    and prepend :: "'r \<Rightarrow> 'r list \<Rightarrow> 'r list"
    and prepend_all :: "'r list \<Rightarrow> 'r list \<Rightarrow> 'r list"
    and remove_requests :: "'r set \<Rightarrow> 'r list \<Rightarrow> 'r list"
  assumes mset_add: "mset (add r q) = add_mset r (mset q)"
    and mset_prepend: "mset (prepend r q) = add_mset r (mset q)"
    and mset_prepend_all: "mset (prepend_all rs q) = mset rs + mset q"
    and remove_requests: "remove_requests R q = filter (\<lambda>r. r \<notin> R) q"
begin

lemma set_queue:
  "set (add r q) = insert r (set q)" "set (prepend r q) = insert r (set q)"
  "set (prepend_all rs q) = set rs \<union> set q" "set (remove_requests R q) = set q - R"
  using mset_add[of r q, THEN mset_eq_setD[where ys = "r # q", simplified]]
    mset_prepend[of r q, THEN mset_eq_setD[where ys = "r # q", simplified]]
    mset_prepend_all[of rs q, THEN mset_eq_setD[where ys = "rs @ q", simplified]]
  by (auto simp: remove_requests)

lemma distinct_queue:
  "distinct (add r q) \<longleftrightarrow> r \<notin> set q \<and> distinct q" "distinct (prepend r q) \<longleftrightarrow> r \<notin> set q \<and> distinct q"
  "distinct (prepend_all rs q) \<longleftrightarrow> distinct rs \<and> distinct q \<and> set rs \<inter> set q = {}"
  "distinct q \<Longrightarrow> distinct (remove_requests R q)"
  using mset_eq_imp_distinct_iff[of "add r q" "r # q"] mset_eq_imp_distinct_iff[of "prepend r q" "r # q"]
    mset_eq_imp_distinct_iff[of "prepend_all rs q" "rs @ q"]
  by (auto simp: remove_requests mset_add mset_prepend mset_prepend_all)

lemma length_queue:
  "length (add r q) = Suc (length q)" "length (prepend r q) = Suc (length q)"
  "length (prepend_all rs q) = length rs + length q"
  using mset_add[of r q, THEN arg_cong[where f = size]] mset_prepend[of r q, THEN arg_cong[where f = size]]
    mset_prepend_all[of rs q, THEN arg_cong[where f = size]]
  by simp_all

end

lemma fold_Cons_rev: "fold (\<lambda>r acc. r # acc) rs q = rev rs @ q"
  by (induction rs arbitrary: q) simp_all

lemma mset_heap_push [simp]: "mset (heap_push lt r q) = add_mset r (mset q)"
  by (induction q) auto

lemma mset_fold_push: "mset (fold (heap_push lt) rs q) = mset rs + mset q"
  by (induction rs arbitrary: q) auto

interpretation fcfs: request_queue fcfs_add fcfs_prepend fcfs_prepend_all fcfs_remove_all
  by unfold_locales
     (simp_all add: fcfs_add_def fcfs_prepend_def fcfs_prepend_all_def fcfs_remove_all_def fold_Cons_rev)

interpretation prio: request_queue "priority_add lt" "priority_prepend lt" "priority_prepend_all lt" priority_remove_all
  for lt :: "'r \<Rightarrow> 'r \<Rightarrow> bool"
proof unfold_locales
  show "mset (priority_prepend_all lt rs q) = mset rs + mset q" for rs q
    using mset_fold_push[of lt rs q] by (simp add: priority_prepend_all_def priority_add_def[abs_def])
qed (simp_all add: priority_add_def priority_prepend_def priority_remove_all_def)

section \<open>The order of the priority queue\<close>

text \<open>
  The list stands for the heap: it is sorted for the order of requests, so its head is the smallest
  element, which is what a pop of the heap returns.
\<close>

definition in_order :: "('r \<Rightarrow> 'r \<Rightarrow> bool) \<Rightarrow> 'r list \<Rightarrow> bool" where
  "in_order lt = sorted_wrt (\<lambda>a b. \<not> lt b a)"

definition strict_weak :: "('r \<Rightarrow> 'r \<Rightarrow> bool) \<Rightarrow> bool" where
  "strict_weak lt \<longleftrightarrow> (\<forall>a b. lt a b \<longrightarrow> \<not> lt b a) \<and> (\<forall>a b c. lt a c \<longrightarrow> lt a b \<or> lt b c)"

lemma heap_push_in_order:
  assumes "strict_weak lt" "in_order lt q"
  shows "in_order lt (heap_push lt r q)"
  using assms(2)
proof (induction q)
  case (Cons x q)
  have hp: "set (heap_push lt r q) = insert r (set q)"
    using mset_heap_push[of lt r q, THEN mset_eq_setD[where ys = "r # q", simplified]] by simp
  show ?case
    using Cons assms(1) hp unfolding in_order_def strict_weak_def
    by (cases "lt r x") (auto, blast+)
qed (simp add: in_order_def)

lemma request_lt_strict_weak: "strict_weak (request_lt False)"
  unfolding strict_weak_def request_lt_def by (auto split: if_splits)

section \<open>Repetition detection\<close>

text \<open>The tail of a sequence is a pattern of \<open>k\<close> tokens, \<open>c\<close> times.\<close>

definition ends_with_repetition :: "int list \<Rightarrow> nat \<Rightarrow> nat \<Rightarrow> bool" where
  "ends_with_repetition ts k c \<longleftrightarrow> (\<exists>pre pat. length pat = k \<and> ts = pre @ concat (replicate c pat))"

lemma from_end_Inr: "0 < k \<Longrightarrow> k \<le> length ts \<Longrightarrow> from_end ts k = Inr (rev ts ! (k - 1))"
  by (auto simp: from_end_def py_index_def rev_nth nat_diff_distrib' Let_def of_nat_diff)

lemma same_at_Inr:
  "0 < n \<Longrightarrow> \<forall>m \<in> set ms. k * m + n \<le> length ts \<Longrightarrow>
     same_at ts t k n ms = Inr (\<forall>m \<in> set ms. rev ts ! (k * m + n - 1) = t)"
  by (induction ms) (simp_all add: from_end_Inr)

lemma pattern_loop_Inr:
  assumes "\<forall>n \<in> set ns. 1 \<le> n \<and> n \<le> k" "k * c \<le> length ts" "1 \<le> c"
  shows "pattern_loop ts k c ns =
    Inr (\<forall>n \<in> set ns. \<forall>m \<in> {1..<c}. rev ts ! (k * m + n - 1) = rev ts ! (n - 1))"
  using assms(1)
proof (induction ns)
  case (Cons n ns)
  have le: "k * m + n \<le> length ts" if "m < c" for m
  proof -
    have "k * m + n \<le> k * Suc m" using Cons.prems by simp
    also have "\<dots> \<le> k * c" using that by (intro mult_le_mono) simp_all
    finally show ?thesis using assms(2) by simp
  qed
  have "from_end ts n = Inr (rev ts ! (n - 1))"
    using le[of 0] Cons.prems assms(3) by (intro from_end_Inr) auto
  moreover have "same_at ts t k n [1..<c] = Inr (\<forall>m \<in> {1..<c}. rev ts ! (k * m + n - 1) = t)" for t
    using Cons.prems le by (subst same_at_Inr) auto
  ultimately show ?case using Cons by simp
qed simp

lemma concat_replicate_nth:
  "i < length pat * c \<Longrightarrow> concat (replicate c pat) ! i = pat ! (i mod length pat)"
proof (induction c arbitrary: i)
  case (Suc c)
  then show ?case by (cases "i < length pat") (auto simp: nth_append le_mod_geq)
qed simp

lemma ends_with_repetition_iff:
  assumes "k * c \<le> length ts" "1 \<le> c"
  shows "ends_with_repetition ts k c \<longleftrightarrow>
    (\<forall>n. 1 \<le> n \<and> n \<le> k \<longrightarrow> (\<forall>m \<in> {1..<c}. rev ts ! (k * m + n - 1) = rev ts ! (n - 1)))"
    (is "_ \<longleftrightarrow> ?P")
proof
  have len: "length (concat (replicate c pat)) = length pat * c" for pat :: "int list"
    by (induction c) simp_all
  show "ends_with_repetition ts k c \<Longrightarrow> ?P"
  proof (intro allI ballI impI, elim conjE)
    fix n m assume r: "ends_with_repetition ts k c" and n: "1 \<le> n" "n \<le> k" and m: "m \<in> {1..<c}"
    obtain pre pat where p: "length pat = k" "ts = pre @ concat (replicate c pat)"
      using r by (auto simp: ends_with_repetition_def)
    have rv: "rev ts = concat (replicate c (rev pat)) @ rev pre"
      using p(2) by (simp add: rev_concat rev_replicate)
    have at: "rev ts ! i = rev pat ! (i mod k)" if "i < k * c" for i
    proof -
      have "rev ts ! i = concat (replicate c (rev pat)) ! i"
        using that p(1) len[of "rev pat"] by (simp add: rv nth_append)
      then show ?thesis using concat_replicate_nth[of i "rev pat" c] that p(1) by simp
    qed
    have "k * m + n \<le> k * Suc m" "k * Suc m \<le> k * c" using n m mult_le_mono2[of "Suc m" c k] by auto
    then have a: "k * m + n - 1 < k * c" using n by linarith
    moreover have "n - 1 < k * c" using a n by linarith
    moreover have "(k * m + n - 1) mod k = (n - 1) mod k"
      using n by (metis Nat.add_diff_assoc add.commute mod_mult_self2)
    ultimately show "rev ts ! (k * m + n - 1) = rev ts ! (n - 1)" using at by simp
  qed
next
  assume P: ?P
  define pat where "pat = rev (take k (rev ts))"
  have kt: "k \<le> length ts" using assms mult_le_mono2[of 1 c k] by linarith
  have pl: "length pat = k" using kt by (simp add: pat_def)
  have at: "rev ts ! i = rev pat ! (i mod k)" if i: "i < k * c" for i
  proof -
    have k: "0 < k" using i by (cases k) simp_all
    let ?m = "i div k" and ?n = "Suc (i mod k)"
    have m: "?m < c" using i by (simp add: less_mult_imp_div_less mult.commute)
    have n: "1 \<le> ?n" "?n \<le> k" using k by (simp_all add: Suc_leI)
    have "rev ts ! (k * ?m + ?n - 1) = rev ts ! (?n - 1)"
    proof (cases "?m = 0")
      case False
      then show ?thesis using P n m by (metis One_nat_def Suc_leI atLeastLessThan_iff neq0_conv)
    qed simp
    then show ?thesis using k by (simp add: pat_def)
  qed
  have "take (k * c) (rev ts) = concat (replicate c (rev pat))"
  proof (rule nth_equalityI)
    show "length (take (k * c) (rev ts)) = length (concat (replicate c (rev pat)))"
      using assms pl by (simp add: length_concat sum_list_replicate mult.commute)
  qed (use at pl assms in \<open>simp add: concat_replicate_nth\<close>)
  then have "rev ts = concat (replicate c (rev pat)) @ drop (k * c) (rev ts)"
    by (metis append_take_drop_id)
  then have "ts = rev (drop (k * c) (rev ts)) @ concat (replicate c pat)"
    by (metis (no_types, lifting) rev_append rev_concat rev_rev_ident map_replicate rev_replicate)
  then show "ends_with_repetition ts k c" using pl by (auto simp: ends_with_repetition_def)
qed

lemma has_repeating_pattern_iff:
  "k * c \<le> length ts \<Longrightarrow> 1 \<le> c \<Longrightarrow> has_repeating_pattern ts k c = Inr (ends_with_repetition ts k c)"
  unfolding has_repeating_pattern_def by (subst pattern_loop_Inr) (auto simp: ends_with_repetition_iff)

lemma ends_with_repetition_length: "ends_with_repetition ts k c \<Longrightarrow> k * c \<le> length ts"
  by (auto simp: ends_with_repetition_def length_concat sum_list_replicate mult.commute)

lemma repetition_loop_Inr:
  "1 \<le> c \<Longrightarrow> sorted ks \<Longrightarrow> repetition_loop ts c ks = Inr (\<exists>k \<in> set ks. ends_with_repetition ts k c)"
proof (induction ks)
  case (Cons k ks)
  show ?case
  proof (cases "k * c > length ts")
    case True
    have "\<not> ends_with_repetition ts k' c" if "k' \<in> set (k # ks)" for k'
    proof -
      have "k * c \<le> k' * c" using that Cons.prems(2) by auto
      then show ?thesis using True ends_with_repetition_length[of ts k' c] by linarith
    qed
    then show ?thesis using True by auto
  qed (use Cons has_repeating_pattern_iff in auto)
qed simp

text \<open>
  C40. Repetition detection is exact and never raises: it reports a repetition if and only if the tokens
  end with \<^verbatim>\<open>min_count\<close> copies of a pattern whose length lies between the two bounds.
\<close>

theorem check_sequence_repetition_exact:
  "check_sequence_repetition ts params =
     Inr (2 \<le> min_count params \<and>
          (\<exists>k. 1 \<le> k \<and> min_pattern_size params \<le> int k \<and> int k \<le> max_pattern_size params \<and>
               ends_with_repetition ts k (nat (min_count params))))"
proof -
  let ?lo = "if min_pattern_size params \<le> 0 then 1 else min_pattern_size params"
  let ?hi = "max_pattern_size params" and ?c = "min_count params"
  have range: "k \<in> set [nat ?lo..<nat ?hi + 1] \<longleftrightarrow> 1 \<le> k \<and> min_pattern_size params \<le> int k \<and> int k \<le> ?hi"
    if "0 < ?hi" for k
    using that by auto
  show ?thesis
  proof (cases "?hi \<le> 0 \<or> ?c < 2 \<or> ?lo > ?hi")
    case True
    then show ?thesis by (auto simp: check_sequence_repetition_def Let_def split: if_splits)
  next
    case False
    then have hi: "0 < ?hi" by linarith
    have "check_sequence_repetition ts params =
        Inr (\<exists>k \<in> set [nat ?lo..<nat ?hi + 1]. ends_with_repetition ts k (nat ?c))"
      using False repetition_loop_Inr[OF _ sorted_upt, of "nat ?c" ts "nat ?lo" "nat ?hi + 1"]
      unfolding check_sequence_repetition_def Let_def by (simp only: if_False) linarith
    moreover have "(\<exists>k \<in> set [nat ?lo..<nat ?hi + 1]. P k) \<longleftrightarrow>
        (\<exists>k. 1 \<le> k \<and> min_pattern_size params \<le> int k \<and> int k \<le> ?hi \<and> P k)" for P
      using False by (simp only: Bex_def range[OF hi] conj_assoc)
    ultimately show ?thesis using False by simp
  qed
qed

end
