(* ===== verification/Smc_Weights.thy ===== *)
theory Smc_Weights
  imports Smc_Config
begin

text \<open>
  The numerical core of \<^verbatim>\<open>src/vllm/vllm/v1/power_smc.py\<close>: the alpha ramp, the log-weight update,
  normalisation of log weights, the effective sample size, systematic resampling and the final draw.
  The lemmas show that normalisation is the softmax of the log weights and never raises on a
  non-empty group, that the effective sample size lies between 1 and the number of particles, that
  the fused routine agrees with the two separate ones, and that systematic resampling copies every
  particle a number of times that differs from its expectation by less than one.
\<close>

section \<open>Definitions\<close>

definition alpha_ramp :: "int \<Rightarrow> pyfloat \<Rightarrow> int \<Rightarrow> pyfloat" where
  "alpha_ramp step alpha_final ramp_tokens =
     (if ramp_tokens \<le> 1 then alpha_final
      else if step < ramp_tokens
      then (let frac = Fin (of_int (step + 1) / of_int ramp_tokens)
            in fadd (Fin 1) (fmul (fsub alpha_final (Fin 1)) frac))
      else alpha_final)"

definition proposal_temperature :: "pyfloat \<Rightarrow> pyfloat res" where
  "proposal_temperature alpha_t =
     (if fle alpha_t (Fin 0) then Inl ValueError else fdiv (Fin 1) alpha_t)"

definition update_log_weight ::
  "pyfloat \<Rightarrow> pyfloat \<Rightarrow> pyfloat \<Rightarrow> pyfloat \<Rightarrow> pyfloat \<Rightarrow> pyfloat \<Rightarrow> pyfloat \<times> pyfloat \<times> pyfloat" where
  "update_log_weight log_weight cum_logp prev_alpha alpha_t base_logp proposal_logq =
     (let lw = (if \<not> feq alpha_t prev_alpha
                then fadd log_weight (fmul (fsub alpha_t prev_alpha) cum_logp) else log_weight)
      in (fadd lw (fsub (fmul alpha_t base_logp) proposal_logq), fadd cum_logp base_logp, alpha_t))"

definition max_step :: "pyfloat \<Rightarrow> pyfloat \<times> nat \<times> bool \<Rightarrow> pyfloat \<Rightarrow> pyfloat \<times> nat \<times> bool" where
  "max_step first acc w =
     (case acc of (m, c, eq) \<Rightarrow> (if flt m w then w else m, c + 1, eq \<and> feq w first))"

definition max_log_weight_and_uniform :: "pyfloat list \<Rightarrow> (pyfloat \<times> nat \<times> bool) res" where
  "max_log_weight_and_uniform ws =
     (case ws of [] \<Rightarrow> Inl ValueError
      | first # rest \<Rightarrow> Inr (foldl (max_step first) (first, 1, True) rest))"

definition uniform_weights :: "nat \<Rightarrow> pyfloat list" where
  "uniform_weights cnt = replicate cnt (Fin (1 / real cnt))"

definition unnormalized_weights :: "pyfloat list \<Rightarrow> pyfloat \<Rightarrow> pyfloat list" where
  "unnormalized_weights ws m = map (\<lambda>w. math_exp (fsub w m)) ws"

definition normalize_log_weights :: "pyfloat list \<Rightarrow> pyfloat list res" where
  "normalize_log_weights ws =
     rbind (max_log_weight_and_uniform ws) (\<lambda>(m, cnt, all_equal).
       if all_equal then Inr (uniform_weights cnt)
       else rbind (math_fsum (unnormalized_weights ws m)) (\<lambda>total.
         if feq total (Fin 0) \<or> \<not> is_finite total then Inr (uniform_weights cnt)
         else rmapM (\<lambda>w. fdiv w total) (unnormalized_weights ws m)))"

definition ess_of_denom :: "pyfloat \<Rightarrow> pyfloat res" where
  "ess_of_denom denom = (if fle denom (Fin 0) then Inr (Fin 0) else fdiv (Fin 1) denom)"

definition effective_sample_size :: "pyfloat list \<Rightarrow> pyfloat res" where
  "effective_sample_size ws = rbind (math_fsum (map (\<lambda>w. fmul w w) ws)) ess_of_denom"

definition normalize_log_weights_and_ess_from_max ::
  "pyfloat list \<Rightarrow> pyfloat \<Rightarrow> nat \<Rightarrow> (pyfloat list \<times> pyfloat) res" where
  "normalize_log_weights_and_ess_from_max ws m cnt =
     rbind (math_fsum (unnormalized_weights ws m)) (\<lambda>total.
       if feq total (Fin 0) \<or> \<not> is_finite total
       then Inr (uniform_weights cnt, Fin (real cnt))
       else rbind (rmapM (\<lambda>w. fdiv w total) (unnormalized_weights ws m)) (\<lambda>weights.
            rbind (ess_of_denom (foldl (\<lambda>d w. fadd d (fmul w w)) (Fin 0) weights)) (\<lambda>ess.
            Inr (weights, ess))))"

definition normalize_log_weights_and_ess :: "pyfloat list \<Rightarrow> (pyfloat list \<times> pyfloat) res" where
  "normalize_log_weights_and_ess ws =
     rbind (max_log_weight_and_uniform ws) (\<lambda>(m, cnt, all_equal).
       if all_equal then Inr (uniform_weights cnt, Fin (real cnt))
       else normalize_log_weights_and_ess_from_max ws m cnt)"

text \<open>The random generator is the sequence of the numbers it will return.\<close>

record py_rng =
  draws :: "nat \<Rightarrow> real"
  drawn :: nat

definition rng_random :: "py_rng \<Rightarrow> pyfloat \<times> py_rng" where
  "rng_random r = (Fin (draws r (drawn r)), r\<lparr>drawn := drawn r + 1\<rparr>)"

definition proper_rng :: "py_rng \<Rightarrow> bool" where
  "proper_rng r \<longleftrightarrow> (\<forall>k. 0 \<le> draws r k \<and> draws r k < 1)"

text \<open>The inner \<^verbatim>\<open>while\<close> loop of \<^verbatim>\<open>systematic_resample\<close>, then the loop over the positions.\<close>

function advance :: "pyfloat list \<Rightarrow> pyfloat \<Rightarrow> nat \<Rightarrow> pyfloat \<Rightarrow> nat \<times> pyfloat" where
  "advance ws pos idx cum =
     (if idx < length ws - 1 \<and> flt (fadd cum (ws ! idx)) pos
      then advance ws pos (idx + 1) (fadd cum (ws ! idx)) else (idx, cum))"
  by pat_completeness auto
termination by (relation "measure (\<lambda>(ws, _, idx, _). length ws - idx)") auto

declare advance.simps [simp del]

fun resample_loop ::
  "pyfloat list \<Rightarrow> pyfloat \<Rightarrow> pyfloat \<Rightarrow> nat list \<Rightarrow> nat \<Rightarrow> pyfloat \<Rightarrow> nat list" where
  "resample_loop ws start inv_n [] idx cum = []"
| "resample_loop ws start inv_n (i # is) idx cum =
     (let pos = fadd start (fmul (Fin (real i)) inv_n);
          (idx', cum') = advance ws pos idx cum
      in idx' # resample_loop ws start inv_n is idx' cum')"

definition systematic_resample :: "pyfloat list \<Rightarrow> py_rng \<Rightarrow> (nat list \<times> py_rng) res" where
  "systematic_resample ws rng =
     (let n = length ws
      in rbind (fdiv (Fin 1) (Fin (real n))) (\<lambda>inv_n.
           let (u, rng') = rng_random rng
           in Inr (resample_loop ws (fmul u inv_n) inv_n [0..<n] 0 (Fin 0), rng')))"

text \<open>\<^verbatim>\<open>sample_index\<close>: the loop returns at the first position that the running sum reaches, and
  otherwise the last index (-1 for no weights at all).\<close>

fun sample_loop :: "pyfloat \<Rightarrow> int \<Rightarrow> pyfloat \<Rightarrow> pyfloat list \<Rightarrow> int option" where
  "sample_loop draw idx cum [] = None"
| "sample_loop draw idx cum (w # ws) =
     (let cum' = fadd cum w
      in if fle draw cum' then Some idx else sample_loop draw (idx + 1) cum' ws)"

definition sample_index :: "pyfloat list \<Rightarrow> py_rng \<Rightarrow> int \<times> py_rng" where
  "sample_index ws rng =
     (let (draw, rng') = rng_random rng
      in (case sample_loop draw 0 (Fin 0) ws of
            Some idx \<Rightarrow> idx | None \<Rightarrow> int (length ws) - 1, rng'))"

section \<open>Normalisation is the softmax\<close>

definition softmax :: "real list \<Rightarrow> real list" where
  "softmax l = map (\<lambda>x. exp x / sum_list (map exp l)) l"

lemma sum_list_map_divide: "sum_list (map (\<lambda>x. f x / c) l) = sum_list (map f l) / (c :: real)"
  by (induction l) (simp_all add: add_divide_distrib)

lemma sum_exp_pos: "l \<noteq> [] \<Longrightarrow> 0 < sum_list (map exp l :: real list)"
proof (induction l)
  case (Cons x xs)
  then show ?case by (cases xs) (auto intro: add_pos_pos)
qed simp

lemma softmax_sum: "l \<noteq> [] \<Longrightarrow> sum_list (softmax l) = 1"
  unfolding softmax_def sum_list_map_divide using sum_exp_pos[of l] by simp

lemma softmax_pos: "p \<in> set (softmax l) \<Longrightarrow> 0 < p"
  unfolding softmax_def using sum_exp_pos[of l] by (cases "l = []") (auto intro!: divide_pos_pos)

lemma length_softmax [simp]: "length (softmax l) = length l"
  by (simp add: softmax_def)

lemma max_fold:
  fixes xs :: "real list"
  shows "foldl (max_step (Fin f)) (Fin m, c, e) (map Fin xs) =
    (Fin (fold max xs m), c + length xs, e \<and> (\<forall>x \<in> set xs. x = f))"
  by (induction xs arbitrary: m c e) (auto simp: max_step_def max_def)

lemma max_step_count: "foldl (max_step f) (m, c, e) ws = (m', c', e') \<Longrightarrow> c' = c + length ws"
proof (induction ws arbitrary: m c e)
  case (Cons w ws)
  have "max_step f (m, c, e) w = (if flt m w then w else m, c + 1, e \<and> feq w f)"
    by (simp add: max_step_def)
  then show ?case using Cons.IH Cons.prems by fastforce
qed simp

lemma max_log_weight_Cons:
  "max_log_weight_and_uniform (map Fin (x # xs)) =
     Inr (Fin (fold max xs x), Suc (length xs), \<forall>y \<in> set xs. y = x)"
  by (simp add: max_log_weight_and_uniform_def max_fold)

lemma unnormalized_Fin:
  "unnormalized_weights (map Fin l) (Fin m) = map Fin (map (\<lambda>x. exp (x - m)) l)"
  by (simp add: unnormalized_weights_def)

lemma softmax_shift: "softmax l = map (\<lambda>x. exp (x - m) / sum_list (map (\<lambda>x. exp (x - m)) l)) l"
  unfolding softmax_def exp_diff sum_list_map_divide by simp

lemma softmax_const:
  assumes "\<forall>y \<in> set xs. y = x"
  shows "softmax (x # xs) = replicate (Suc (length xs)) (1 / real (Suc (length xs)))"
proof -
  have xs: "xs = replicate (length xs) x"
    using assms by (simp add: replicate_length_same)
  define n where "n = length xs"
  have sum: "exp x + real n * exp x = exp x * (1 + real n)" by (simp add: algebra_simps)
  have quot: "exp x / (exp x * (1 + real n)) = 1 / (1 + real n)" by simp
  show ?thesis unfolding n_def[symmetric] xs[folded n_def] softmax_def
    by (simp add: sum_list_replicate sum quot del: times_divide_eq_left times_divide_eq_right)
qed

lemma shifted_total_pos:
  "l \<noteq> [] \<Longrightarrow> 0 < (\<Sum>x\<leftarrow>l. exp (x - m :: real))"
  using sum_exp_pos[of l] unfolding exp_diff sum_list_map_divide by simp

lemma divide_by_total:
  "t \<noteq> 0 \<Longrightarrow> rmapM (\<lambda>w. fdiv w (Fin t)) (map Fin ys) = Inr (map Fin (map (\<lambda>y. y / t) ys))"
  by (induction ys) simp_all

lemma normalize_log_weights_Fin:
  assumes "l \<noteq> []"
  shows "normalize_log_weights (map Fin l) = Inr (map Fin (softmax l))"
proof -
  obtain x xs where l: "l = x # xs" using assms by (cases l) auto
  define m eq where "m = fold max xs x" and "eq = (\<forall>y \<in> set xs. y = x)"
  have M: "max_log_weight_and_uniform (map Fin l) = Inr (Fin m, Suc (length xs), eq)"
    unfolding l m_def eq_def by (rule max_log_weight_Cons)
  show ?thesis
  proof (cases eq)
    case True
    then have "softmax l = replicate (Suc (length xs)) (1 / real (Suc (length xs)))"
      unfolding l eq_def by (rule softmax_const)
    then show ?thesis
      using True by (simp add: normalize_log_weights_def M uniform_weights_def map_replicate)
  next
    case False
    have pos: "(\<Sum>x\<leftarrow>l. exp (x - m)) \<noteq> 0" using shifted_total_pos[OF assms, of m] by simp
    have "rmapM (\<lambda>w. fdiv w (Fin (\<Sum>x\<leftarrow>l. exp (x - m)))) (map Fin (map (\<lambda>x. exp (x - m)) l))
          = Inr (map Fin (softmax l))"
      unfolding divide_by_total[OF pos] softmax_shift[of l m] by (simp add: comp_def)
    then show ?thesis
      using False pos by (simp add: normalize_log_weights_def M unnormalized_Fin del: map_map)
  qed
qed

definition ess_real :: "real list \<Rightarrow> real" where
  "ess_real ps = 1 / (\<Sum>p\<leftarrow>ps. p * p)"

lemma sum_squares_pos:
  assumes "ps \<noteq> []" "\<And>p. p \<in> set ps \<Longrightarrow> 0 < (p :: real)"
  shows "0 < (\<Sum>p\<leftarrow>ps. p * p)"
  using assms
proof (induction ps)
  case (Cons p ps)
  show ?case
  proof (cases "ps = []")
    case True
    then show ?thesis using Cons.prems(2)[of p] by simp
  next
    case False
    then have "0 < (\<Sum>p\<leftarrow>ps. p * p)" using Cons by simp
    moreover have "0 < p * p" using Cons.prems(2)[of p] by simp
    ultimately show ?thesis by simp
  qed
qed simp

lemma softmax_squares_pos: "l \<noteq> [] \<Longrightarrow> 0 < (\<Sum>p\<leftarrow>softmax l. p * p)"
  by (rule sum_squares_pos) (simp_all add: softmax_pos, simp add: softmax_def)

lemma ess_of_denom_pos: "0 < d \<Longrightarrow> ess_of_denom (Fin d) = Inr (Fin (1 / d))"
  by (simp add: ess_of_denom_def)

lemma effective_sample_size_Fin:
  assumes "0 < (\<Sum>p\<leftarrow>ps. p * p)"
  shows "effective_sample_size (map Fin ps) = Inr (Fin (ess_real ps))"
proof -
  have "map (\<lambda>w. fmul w w) (map Fin ps) = map Fin (map (\<lambda>p. p * p) ps)" by simp
  then show ?thesis
    using assms unfolding effective_sample_size_def ess_real_def
    by (simp add: ess_of_denom_pos del: map_map)
qed

lemma foldl_squares:
  "foldl (\<lambda>d w. fadd d (fmul w w)) (Fin a) (map Fin ps) = Fin (a + (\<Sum>p\<leftarrow>ps. p * p))"
  by (induction ps arbitrary: a) simp_all

lemma normalize_and_ess_from_max_Fin:
  assumes "l \<noteq> []"
  shows "normalize_log_weights_and_ess_from_max (map Fin l) (Fin m) cnt =
         Inr (map Fin (softmax l), Fin (ess_real (softmax l)))"
proof -
  have pos: "(\<Sum>x\<leftarrow>l. exp (x - m)) \<noteq> 0" using shifted_total_pos[OF assms, of m] by simp
  have div: "rmapM (\<lambda>w. fdiv w (Fin (\<Sum>x\<leftarrow>l. exp (x - m)))) (map Fin (map (\<lambda>x. exp (x - m)) l))
        = Inr (map Fin (softmax l))"
    unfolding divide_by_total[OF pos] softmax_shift[of l m] by (simp add: comp_def)
  show ?thesis
    using pos div softmax_squares_pos[OF assms]
    by (simp add: normalize_log_weights_and_ess_from_max_def unnormalized_Fin foldl_squares
          ess_of_denom_pos ess_real_def del: map_map)
qed

lemma ess_uniform: "0 < n \<Longrightarrow> ess_real (replicate n (1 / real n)) = real n"
  by (simp add: ess_real_def sum_list_replicate)

lemma normalize_and_ess_Fin:
  assumes "l \<noteq> []"
  shows "normalize_log_weights_and_ess (map Fin l) =
         Inr (map Fin (softmax l), Fin (ess_real (softmax l)))"
proof -
  obtain x xs where l: "l = x # xs" using assms by (cases l) auto
  define m eq where "m = fold max xs x" and "eq = (\<forall>y \<in> set xs. y = x)"
  have M: "max_log_weight_and_uniform (map Fin l) = Inr (Fin m, Suc (length xs), eq)"
    unfolding l m_def eq_def by (rule max_log_weight_Cons)
  show ?thesis
  proof (cases eq)
    case True
    then have "softmax l = replicate (Suc (length xs)) (1 / real (Suc (length xs)))"
      unfolding l eq_def by (rule softmax_const)
    then show ?thesis
      using True ess_uniform[of "Suc (length xs)"]
      by (simp add: normalize_log_weights_and_ess_def M uniform_weights_def map_replicate
               del: replicate_Suc)
  next
    case False
    then show ?thesis
      by (simp add: normalize_log_weights_and_ess_def M normalize_and_ess_from_max_Fin[OF assms])
  qed
qed

section \<open>Bounds on the effective sample size\<close>

lemma sum_square_dev:
  "(\<Sum>x\<leftarrow>xs. (x - c) * (x - c)) =
   (\<Sum>x\<leftarrow>xs. x * x) - 2 * c * sum_list xs + real (length xs) * (c * c)"
  by (induction xs) (simp_all add: algebra_simps)

lemma sum_list_squares_nonneg: "0 \<le> (\<Sum>x\<leftarrow>xs. (x - c) * (x - c :: real))"
  by (induction xs) simp_all

lemma sum_squares_ge:
  assumes "sum_list xs = (1::real)" "xs \<noteq> []"
  shows "1 / real (length xs) \<le> (\<Sum>x\<leftarrow>xs. x * x)"
proof -
  define n where "n = real (length xs)"
  have n: "0 < n" using assms(2) by (simp add: n_def)
  have "0 \<le> (\<Sum>x\<leftarrow>xs. x * x) - 2 * (1 / n) * 1 + n * (1 / n * (1 / n))"
    using sum_list_squares_nonneg[where xs = xs and c = "1 / n"] unfolding sum_square_dev assms(1) n_def[symmetric] .
  moreover have "n * (1 / n * (1 / n)) = 1 / n" using n by simp
  ultimately show ?thesis unfolding n_def[symmetric] by simp
qed

lemma member_le_sum_list_nonneg:
  "(\<And>x. x \<in> set xs \<Longrightarrow> 0 \<le> x) \<Longrightarrow> x \<in> set xs \<Longrightarrow> x \<le> sum_list (xs :: real list)"
proof (induction xs)
  case (Cons y ys)
  have "0 \<le> sum_list ys" using Cons.prems(1) by (intro sum_list_nonneg) simp
  then show ?case using Cons by fastforce
qed simp

lemma sum_squares_le:
  assumes "\<And>x. x \<in> set xs \<Longrightarrow> 0 \<le> x" "sum_list xs \<le> (1::real)"
  shows "(\<Sum>x\<leftarrow>xs. x * x) \<le> sum_list xs"
proof -
  have "x \<le> 1" if "x \<in> set xs" for x
    using member_le_sum_list_nonneg[OF assms(1) that] assms(2) by linarith
  then have "(\<Sum>x\<leftarrow>xs. x * x) \<le> (\<Sum>x\<leftarrow>xs. x)"
    using assms(1) by (intro sum_list_mono) (simp add: mult_left_le_one_le)
  then show ?thesis by simp
qed

lemma ess_real_bounds:
  assumes "xs \<noteq> []" "sum_list xs = 1" "\<And>x. x \<in> set xs \<Longrightarrow> 0 < x"
  shows "1 \<le> ess_real xs" "ess_real xs \<le> real (length xs)"
proof -
  have pos: "0 < (\<Sum>x\<leftarrow>xs. x * x)" using sum_squares_pos assms by blast
  have "(\<Sum>x\<leftarrow>xs. x * x) \<le> 1"
    using sum_squares_le[of xs] assms(2,3) by (simp add: less_imp_le)
  then show "1 \<le> ess_real xs" using pos by (simp add: ess_real_def)
  have "1 \<le> real (length xs) * (\<Sum>x\<leftarrow>xs. x * x)"
    using sum_squares_ge[OF assms(2,1)] assms(1) by (simp add: field_simps)
  then show "ess_real xs \<le> real (length xs)" using pos by (simp add: ess_real_def field_simps)
qed

lemmas ess_softmax_bounds =
  ess_real_bounds[of "softmax l" for l, OF _ softmax_sum softmax_pos]

section \<open>Normalisation never raises\<close>

lemma math_exp_not_NegInf [simp]: "math_exp x \<noteq> NegInf"
  by (cases x) simp_all

lemma fsum_unnormalized: "\<exists>t. math_fsum (unnormalized_weights ws m) = Inr t"
proof -
  have "NegInf \<notin> set (unnormalized_weights ws m)"
    unfolding unnormalized_weights_def by (auto dest: sym simp del: set_map simp: set_map)
  then show ?thesis by (simp add: math_fsum_def)
qed

lemma rmapM_fdiv_total:
  assumes "\<not> (feq t (Fin 0) \<or> \<not> is_finite t)"
  shows "\<exists>vs. rmapM (\<lambda>w. fdiv w t) ws = Inr vs \<and> length vs = length ws"
proof -
  obtain r where t: "t = Fin r" "r \<noteq> 0" using assms by (auto simp: is_finite_iff)
  have "fdiv w t = Inr (case w of Fin x \<Rightarrow> Fin (x / r) | _ \<Rightarrow> fmul w t)" for w
    using t by (cases w) simp_all
  then show ?thesis using rmapM_Inr[of ws "\<lambda>w. fdiv w t"] by fastforce
qed

lemma ess_of_denom_total: "\<exists>e. ess_of_denom d = Inr e"
  by (cases d) (auto simp: ess_of_denom_def fle_def)

lemma normalize_and_ess_from_max_total:
  assumes "cnt = length ws"
  shows "\<exists>ps e. normalize_log_weights_and_ess_from_max ws m cnt = Inr (ps, e) \<and>
                length ps = length ws"
proof -
  obtain t where t: "math_fsum (unnormalized_weights ws m) = Inr t"
    using fsum_unnormalized by blast
  show ?thesis
  proof (cases "feq t (Fin 0) \<or> \<not> is_finite t")
    case True
    then show ?thesis
      unfolding normalize_log_weights_and_ess_from_max_def t rbind_simps
      using assms by (simp only: if_P) (simp add: uniform_weights_def)
  next
    case False
    obtain vs where vs: "rmapM (\<lambda>w. fdiv w t) (unnormalized_weights ws m) = Inr vs"
        "length vs = length ws"
      using rmapM_fdiv_total[OF False, of "unnormalized_weights ws m"]
      by (auto simp: unnormalized_weights_def)
    obtain e where e: "ess_of_denom (foldl (\<lambda>d w. fadd d (fmul w w)) (Fin 0) vs) = Inr e"
      using ess_of_denom_total by blast
    show ?thesis
      unfolding normalize_log_weights_and_ess_from_max_def t rbind_simps if_not_P[OF False] vs(1) e
      using vs(2) by simp
  qed
qed

lemma max_log_weight_total:
  assumes "ws \<noteq> []"
  obtains m eq where "max_log_weight_and_uniform ws = Inr (m, length ws, eq)"
proof -
  obtain x xs where ws: "ws = x # xs" using assms by (cases ws) auto
  obtain m c e where f: "foldl (max_step x) (x, 1, True) xs = (m, c, e)"
    by (cases "foldl (max_step x) (x, 1, True) xs") auto
  have "c = length ws" using max_step_count[OF f] ws by simp
  then have "max_log_weight_and_uniform ws = Inr (m, length ws, e)"
    using f by (simp add: ws max_log_weight_and_uniform_def)
  then show ?thesis by (rule that)
qed

lemma normalize_and_ess_total:
  assumes "ws \<noteq> []"
  shows "\<exists>ps e. normalize_log_weights_and_ess ws = Inr (ps, e) \<and> length ps = length ws"
proof -
  obtain m eq where M: "max_log_weight_and_uniform ws = Inr (m, length ws, eq)"
    using max_log_weight_total[OF assms] .
  show ?thesis
    using normalize_and_ess_from_max_total[of "length ws" ws m]
    by (cases eq) (simp_all add: normalize_log_weights_and_ess_def M uniform_weights_def)
qed

section \<open>Systematic resampling\<close>

lemma advance_range:
  "idx < length ws \<Longrightarrow>
   idx \<le> fst (advance ws pos idx cum) \<and> fst (advance ws pos idx cum) < length ws"
proof (induction ws pos idx cum rule: advance.induct)
  case (1 ws pos idx cum)
  show ?case
  proof (cases "idx < length ws - 1 \<and> flt (fadd cum (ws ! idx)) pos")
    case True
    then have "advance ws pos idx cum = advance ws pos (idx + 1) (fadd cum (ws ! idx))"
      by (subst advance.simps) simp
    moreover have "idx + 1 < length ws" using True by linarith
    ultimately show ?thesis using 1(1)[OF True] by simp
  next
    case False
    then have "advance ws pos idx cum = (idx, cum)" by (subst advance.simps) (simp only: if_False)
    then show ?thesis using 1(2) by simp
  qed
qed

lemma resample_loop_shape:
  assumes "idx < length ws"
  shows "length (resample_loop ws start inv_n is idx cum) = length is \<and>
         sorted (resample_loop ws start inv_n is idx cum) \<and>
         (\<forall>a \<in> set (resample_loop ws start inv_n is idx cum). idx \<le> a \<and> a < length ws)"
  using assms
proof (induction "is" arbitrary: idx cum)
  case (Cons i "is")
  obtain k c where a: "advance ws (fadd start (fmul (Fin (real i)) inv_n)) idx cum = (k, c)"
    by (cases "advance ws (fadd start (fmul (Fin (real i)) inv_n)) idx cum") auto
  have k: "idx \<le> k" "k < length ws"
    using advance_range[of idx ws "fadd start (fmul (Fin (real i)) inv_n)" cum] Cons.prems a by auto
  have r: "resample_loop ws start inv_n (i # is) idx cum = k # resample_loop ws start inv_n is k c"
    by (simp add: a)
  have IH: "\<forall>a \<in> set (resample_loop ws start inv_n is k c). k \<le> a \<and> a < length ws"
    using Cons.IH[OF k(2), of c] by blast
  then have "\<forall>a \<in> set (resample_loop ws start inv_n is k c). idx \<le> a" using k(1) by fastforce
  then show ?case unfolding r using Cons.IH[OF k(2), of c] IH k by simp
qed simp

lemma systematic_resample_eq:
  assumes "ws \<noteq> []"
  shows "systematic_resample ws rng =
    Inr (resample_loop ws (fmul (Fin (draws rng (drawn rng))) (Fin (1 / real (length ws))))
           (Fin (1 / real (length ws))) [0..<length ws] 0 (Fin 0), rng\<lparr>drawn := drawn rng + 1\<rparr>)"
  using assms by (simp add: systematic_resample_def rng_random_def Let_def)

lemma systematic_resample_shape:
  assumes "ws \<noteq> []"
  obtains as where "systematic_resample ws rng = Inr (as, rng\<lparr>drawn := drawn rng + 1\<rparr>)"
    "length as = length ws" "sorted as" "\<forall>a \<in> set as. a < length ws"
proof (rule that[OF systematic_resample_eq[OF assms]])
qed (use assms resample_loop_shape[of 0 ws] in simp_all)

text \<open>The running sum of the first weights, and what the loops compute on finite weights.\<close>

definition prefix_sum :: "real list \<Rightarrow> nat \<Rightarrow> real" where
  "prefix_sum w k = sum_list (take k w)"

lemma prefix_sum_0 [simp]: "prefix_sum w 0 = 0"
  by (simp add: prefix_sum_def)

lemma prefix_sum_Suc: "k < length w \<Longrightarrow> prefix_sum w (Suc k) = prefix_sum w k + w ! k"
  by (simp add: prefix_sum_def take_Suc_conv_app_nth)

lemma prefix_sum_mono:
  assumes "\<forall>x \<in> set w. 0 \<le> x" "j \<le> k"
  shows "prefix_sum w j \<le> prefix_sum w k"
proof -
  have "take k w = take j w @ take (k - j) (drop j w)"
    using assms(2) by (metis le_add_diff_inverse take_add)
  moreover have "0 \<le> sum_list (take (k - j) (drop j w))"
    using assms(1) by (intro sum_list_nonneg) (meson in_set_dropD in_set_takeD)
  ultimately show ?thesis by (simp add: prefix_sum_def)
qed

lemma advance_Fin:
  assumes "idx < length w" "prefix_sum w idx < pos"
  shows "\<exists>k. advance (map Fin w) (Fin pos) idx (Fin (prefix_sum w idx)) = (k, Fin (prefix_sum w k)) \<and>
             k < length w \<and> prefix_sum w k < pos \<and>
             (k = length w - 1 \<or> pos \<le> prefix_sum w (Suc k))"
  using assms
proof (induction "length w - idx" arbitrary: idx rule: less_induct)
  case less
  have nth: "fadd (Fin (prefix_sum w idx)) (map Fin w ! idx) = Fin (prefix_sum w (Suc idx))"
    using less.prems(1) by (simp add: prefix_sum_Suc)
  show ?case
  proof (cases "idx < length w - 1 \<and> prefix_sum w (Suc idx) < pos")
    case True
    then have "advance (map Fin w) (Fin pos) idx (Fin (prefix_sum w idx)) =
               advance (map Fin w) (Fin pos) (Suc idx) (Fin (prefix_sum w (Suc idx)))"
      by (subst advance.simps) (simp add: nth[simplified])
    moreover have "length w - Suc idx < length w - idx" "Suc idx < length w" using True by linarith+
    ultimately show ?thesis using less.hyps[of "Suc idx"] True by simp
  next
    case False
    then have "advance (map Fin w) (Fin pos) idx (Fin (prefix_sum w idx)) =
               (idx, Fin (prefix_sum w idx))"
      by (subst advance.simps) (auto simp: nth[simplified])
    then show ?thesis using less.prems False by auto
  qed
qed

definition lands :: "real list \<Rightarrow> real \<Rightarrow> nat \<Rightarrow> bool" where
  "lands w pos a \<longleftrightarrow> a < length w \<and> prefix_sum w a < pos \<and>
     (a = length w - 1 \<or> pos \<le> prefix_sum w (Suc a))"

lemma resample_loop_Fin:
  assumes "idx < length w" "sorted is" "0 \<le> d"
    "\<forall>i \<in> set is. prefix_sum w idx < s + real i * d"
  shows "list_all2 (\<lambda>i a. lands w (s + real i * d) a) is
           (resample_loop (map Fin w) (Fin s) (Fin d) is idx (Fin (prefix_sum w idx)))"
  using assms
proof (induction "is" arbitrary: idx)
  case (Cons i "is")
  obtain k where k: "advance (map Fin w) (Fin (s + real i * d)) idx (Fin (prefix_sum w idx)) =
      (k, Fin (prefix_sum w k))" "lands w (s + real i * d) k"
    using advance_Fin[of idx w "s + real i * d"] Cons.prems unfolding lands_def by auto
  have next_pos: "prefix_sum w k < s + real j * d" if "j \<in> set is" for j
  proof -
    have "real i * d \<le> real j * d"
      using Cons.prems(2,3) that by (intro mult_right_mono) auto
    then show ?thesis using k(2) by (simp add: lands_def)
  qed
  have "list_all2 (\<lambda>i a. lands w (s + real i * d) a) is
          (resample_loop (map Fin w) (Fin s) (Fin d) is k (Fin (prefix_sum w k)))"
    using Cons.IH[of k] Cons.prems k(2) next_pos by (simp add: lands_def)
  then show ?case using k by simp
qed simp

lemma lands_unique:
  assumes "\<forall>x \<in> set w. 0 \<le> x" "pos \<le> prefix_sum w (length w)" "lands w pos a" "k < length w"
  shows "a = k \<longleftrightarrow> prefix_sum w k < pos \<and> pos \<le> prefix_sum w (Suc k)"
proof -
  have l: "a < length w" "prefix_sum w a < pos" "a = length w - 1 \<or> pos \<le> prefix_sum w (Suc a)"
    using assms(3) by (auto simp: lands_def)
  have "Suc a = length w" if "a = length w - 1" using that l(1) by linarith
  then have a: "prefix_sum w a < pos" "pos \<le> prefix_sum w (Suc a)" using l assms(2) by auto
  have "prefix_sum w (Suc a) \<le> prefix_sum w k" if "a < k"
    using that assms(1) by (intro prefix_sum_mono) auto
  moreover have "prefix_sum w (Suc k) \<le> prefix_sum w a" if "k < a"
    using that assms(1) by (intro prefix_sum_mono) auto
  ultimately show ?thesis using a by (cases a k rule: linorder_cases) force+
qed

lemma card_integers_between:
  fixes A B :: real
  assumes "-1 < A" "A \<le> B" "B < real n"
  shows "\<bar>real (card {i. i < n \<and> A < real i \<and> real i \<le> B}) - (B - A)\<bar> < 1"
proof -
  let ?I = "{i. i < n \<and> A < real i \<and> real i \<le> B}"
  have floors: "\<lfloor>A\<rfloor> \<le> \<lfloor>B\<rfloor>" "-1 \<le> \<lfloor>A\<rfloor>" using assms floor_mono[of A B] by (simp_all add: le_floor_iff)
  have "int ` ?I = {\<lfloor>A\<rfloor><..\<lfloor>B\<rfloor>}"
  proof (intro set_eqI iffI)
    fix x assume "x \<in> int ` ?I"
    then obtain i where "x = int i" "A < real i" "real i \<le> B" by auto
    then show "x \<in> {\<lfloor>A\<rfloor><..\<lfloor>B\<rfloor>}" by (simp add: floor_less_iff le_floor_iff)
  next
    fix x assume x: "x \<in> {\<lfloor>A\<rfloor><..\<lfloor>B\<rfloor>}"
    then have "0 \<le> x" using floors by simp
    then obtain i where i: "x = int i" by (metis nonneg_int_cases)
    have "A < real i" "real i \<le> B" using x i by (simp_all add: floor_less_iff le_floor_iff)
    then show "x \<in> int ` ?I" using i assms(3) by auto
  qed
  then have "card ?I = nat (\<lfloor>B\<rfloor> - \<lfloor>A\<rfloor>)"
    using card_image[of int ?I] by simp
  then have "real (card ?I) = of_int \<lfloor>B\<rfloor> - of_int \<lfloor>A\<rfloor>" using floors by simp
  then show ?thesis by linarith
qed

lemma count_list_card: "count_list xs x = card {i. i < length xs \<and> xs ! i = x}"
  by (simp add: count_list_eq_length_filter length_filter_conv_card eq_commute)

text \<open>
  The number of children of particle \<open>k\<close> is within one of \<open>n * w ! k\<close>, for every draw strictly
  between 0 and 1.
\<close>

lemma resample_count:
  fixes w :: "real list"
  assumes w: "\<forall>x \<in> set w. 0 \<le> x" "sum_list w = 1" and u: "0 < u" "u < 1" and k: "k < length w"
  defines "n \<equiv> real (length w)"
  shows "\<bar>real (count_list (resample_loop (map Fin w) (Fin (u * (1 / n))) (Fin (1 / n))
            [0..<length w] 0 (Fin 0)) k) - n * w ! k\<bar> < 1"
proof -
  let ?as = "resample_loop (map Fin w) (Fin (u * (1 / n))) (Fin (1 / n)) [0..<length w] 0 (Fin 0)"
  let ?S = "prefix_sum w"
  have n: "0 < n" using k unfolding n_def by linarith
  have "0 < u * (1 / n) + real i * (1 / n)" for i using n u by (simp add: add_pos_nonneg)
  then have lands: "list_all2 (\<lambda>i a. lands w (u * (1 / n) + real i * (1 / n)) a) [0..<length w] ?as"
    using resample_loop_Fin[of 0 w "[0..<length w]" "1 / n" "u * (1 / n)"] k n
    by (metis gr_implies_not0 gr_zeroI less_imp_le prefix_sum_0 sorted_upt zero_le_divide_1_iff)
  have len: "length ?as = length w" using list_all2_lengthD[OF lands] by simp
  have total: "?S (length w) = 1" using w(2) by (simp add: prefix_sum_def)
  have iff: "?as ! i = k \<longleftrightarrow> n * ?S k - u < real i \<and> real i \<le> n * ?S (Suc k) - u"
    if i: "i < length w" for i
  proof -
    let ?p = "u * (1 / n) + real i * (1 / n)"
    have p: "?p = (u + real i) / n" by (simp add: add_divide_distrib)
    have "u + real i \<le> n" using i u by (simp add: n_def)
    then have "?p \<le> ?S (length w)" unfolding total p using n by simp
    moreover have "lands w ?p (?as ! i)" using list_all2_nthD2[OF lands, of i] i len by simp
    ultimately have "?as ! i = k \<longleftrightarrow> ?S k < ?p \<and> ?p \<le> ?S (Suc k)"
      using lands_unique w(1) k by blast
    then show ?thesis unfolding p using n by (auto simp: field_simps)
  qed
  have "count_list ?as k =
        card {i. i < length w \<and> n * ?S k - u < real i \<and> real i \<le> n * ?S (Suc k) - u}"
    unfolding count_list_card len using iff by (intro arg_cong[of _ _ card]) auto
  moreover have step: "n * ?S (Suc k) - u - (n * ?S k - u) = n * w ! k"
    using prefix_sum_Suc[OF k] by (simp add: algebra_simps)
  moreover have "0 \<le> n * ?S k" using prefix_sum_mono[OF w(1), of 0 k] n by simp
  then have "-1 < n * ?S k - u" using u by linarith
  moreover have "n * ?S k - u \<le> n * ?S (Suc k) - u"
    using prefix_sum_mono[OF w(1), of k "Suc k"] n by simp
  moreover have "n * ?S (Suc k) - u < real (length w)"
  proof -
    have "n * ?S (Suc k) \<le> n * 1"
      using prefix_sum_mono[OF w(1), of "Suc k" "length w"] k n total by (intro mult_left_mono) auto
    then show ?thesis using u(1) unfolding n_def by linarith
  qed
  ultimately show ?thesis
    using card_integers_between[of "n * ?S k - u" "n * ?S (Suc k) - u" "length w"] by simp
qed

section \<open>The final draw\<close>

lemma sample_loop_range:
  "sample_loop draw i cum ws = Some k \<Longrightarrow> i \<le> k \<and> k < i + int (length ws)"
  by (induction ws arbitrary: i cum) (fastforce simp: Let_def split: if_splits)+

lemma sample_index_range:
  assumes "ws \<noteq> []"
  shows "0 \<le> fst (sample_index ws rng)" "fst (sample_index ws rng) < int (length ws)"
  using assms sample_loop_range[of "Fin (draws rng (drawn rng))" 0 "Fin 0" ws]
  by (auto simp: sample_index_def rng_random_def neq_Nil_conv split: option.splits)

lemma sample_loop_Fin:
  assumes "u \<le> c + sum_list w" "w \<noteq> []" "c < u \<or> i = 0"
  shows "\<exists>k < length w. sample_loop (Fin u) i (Fin c) (map Fin w) = Some (i + int k) \<and>
           u \<le> c + prefix_sum w (Suc k) \<and> (0 < k \<longrightarrow> c + prefix_sum w k < u)"
  using assms
proof (induction w arbitrary: c i)
  case (Cons x w)
  show ?case
  proof (cases "u \<le> c + x")
    case True
    then show ?thesis by (intro exI[of _ 0]) (simp add: prefix_sum_def)
  next
    case False
    then have "w \<noteq> []" using Cons.prems(1) by auto
    then obtain k where k: "k < length w"
        "sample_loop (Fin u) (i + 1) (Fin (c + x)) (map Fin w) = Some (i + 1 + int k)"
        "u \<le> c + x + prefix_sum w (Suc k)" "0 < k \<longrightarrow> c + x + prefix_sum w k < u"
      using Cons.IH[of "c + x" "i + 1"] Cons.prems(1) False by (auto simp: add.assoc)
    have "c + prefix_sum (x # w) (Suc k) < u"
      using k(4) False by (cases k) (simp_all add: prefix_sum_def add.assoc)
    then show ?thesis
      using k False by (intro exI[of _ "Suc k"]) (simp add: prefix_sum_def add.assoc)
  qed
qed simp

section \<open>Properties\<close>





text \<open>
  C23. The final draw inverts the cumulative weights: for non-empty weights it is an index of the list,
  and for weights that sum to one and a draw strictly between 0 and 1 it is the index whose slice of
  the unit interval contains the draw.
\<close>

theorem sample_index_inverse_cdf:
  assumes "w \<noteq> []" "sum_list w = 1" "0 < draws rng (drawn rng)" "draws rng (drawn rng) < 1"
  shows "\<exists>k < length w. fst (sample_index (map Fin w) rng) = int k \<and>
           prefix_sum w k < draws rng (drawn rng) \<and> draws rng (drawn rng) \<le> prefix_sum w (Suc k)"
proof -
  obtain k where k: "k < length w"
      "sample_loop (Fin (draws rng (drawn rng))) 0 (Fin 0) (map Fin w) = Some (int k)"
      "draws rng (drawn rng) \<le> prefix_sum w (Suc k)"
      "0 < k \<longrightarrow> prefix_sum w k < draws rng (drawn rng)"
    using sample_loop_Fin[of "draws rng (drawn rng)" 0 w 0] assms by auto
  have "prefix_sum w k < draws rng (drawn rng)" using k(4) assms(3) by (cases k) simp_all
  then show ?thesis using k by (auto simp: sample_index_def rng_random_def)
qed

theorem sample_index_inverse_cdf_witness:
  "\<exists>k < length [1 / 4, 3 / 4 :: real].
     fst (sample_index (map Fin [1 / 4, 3 / 4]) \<lparr>draws = \<lambda>_. 1 / 2, drawn = 0\<rparr>) = int k \<and>
     prefix_sum [1 / 4, 3 / 4] k
       < draws \<lparr>draws = \<lambda>_. 1 / 2, drawn = 0\<rparr> (drawn \<lparr>draws = \<lambda>_. 1 / 2, drawn = 0\<rparr>) \<and>
     draws \<lparr>draws = \<lambda>_. 1 / 2, drawn = 0\<rparr> (drawn \<lparr>draws = \<lambda>_. 1 / 2, drawn = 0\<rparr>)
       \<le> prefix_sum [1 / 4, 3 / 4] (Suc k)"
  by (rule sample_index_inverse_cdf) simp_all

end
