(* ===== verification/Smc_Group.thy ===== *)
theory Smc_Group
  imports Smc_Weights "HOL-Library.List_Lexorder" "HOL-Library.Char_ord"
begin

text \<open>
  \<^verbatim>\<open>PowerSMCGroupManager\<close> of \<^verbatim>\<open>src/vllm/vllm/v1/power_smc.py\<close>: the particle states with their
  boundary history, the update after each sampled token, the resampling decision at block
  boundaries, the final selection and the diagnostics.  The list objects that a resampling plan
  shares with the new particles are values here, so a plan is what it was when it was made, which
  is when the scheduler reads it.  A call that raises returns the exception only; the lemmas show
  that no call on a reachable group raises except an update of a finished or unknown particle.
\<close>

section \<open>Particles\<close>

type_synonym smc_state = "pyfloat \<times> pyfloat \<times> pyfloat"

record power_smc_particle_state =
  token_ids :: "int list"
  log_weight :: pyfloat
  cum_logp :: pyfloat
  prev_alpha :: pyfloat
  is_done :: bool
  finish_reason :: "string option"
  stop_reason :: "stop_value option"
  history_start_length :: nat
  history_start_state :: smc_state
  boundary_state_history :: "(nat \<times> smc_state) list"

definition new_particle_state :: power_smc_particle_state where
  "new_particle_state =
     \<lparr>token_ids = [], log_weight = Fin 0, cum_logp = Fin 0, prev_alpha = Fin 1, is_done = False,
      finish_reason = None, stop_reason = None, history_start_length = 0,
      history_start_state = (Fin 0, Fin 0, Fin 1), boundary_state_history = []\<rparr>"

definition current_state :: "power_smc_particle_state \<Rightarrow> smc_state" where
  "current_state p = (log_weight p, cum_logp p, prev_alpha p)"

definition state_at :: "power_smc_particle_state \<Rightarrow> nat \<Rightarrow> smc_state res" where
  "state_at p output_length =
     (if output_length = length (token_ids p) then Inr (current_state p)
      else if output_length = 0 then Inr (Fin 0, Fin 0, Fin 1)
      else if output_length = history_start_length p then Inr (history_start_state p)
      else if output_length < history_start_length p then Inl ValueError
      else (case map_of (rev (boundary_state_history p)) output_length of
              Some st \<Rightarrow> Inr st
            | None \<Rightarrow> Inl ValueError))"

record power_smc_resample_plan =
  ancestors :: "nat list"
  particle_token_ids :: "int list list"

section \<open>The group manager\<close>

record power_smc_group_manager =
  config :: power_smc_config
  rng :: py_rng
  particle_count :: int
  block_size :: nat
  resample_ess_threshold :: pyfloat
  alpha_final :: pyfloat
  ramp_tokens :: int
  alpha_is_constant :: bool
  alpha_slope :: pyfloat
  particles :: "power_smc_particle_state list"
  resample_count :: nat
  ess_history :: "pyfloat list"
  unique_ancestors_per_resample :: "nat list"
  ancestor_history :: "nat list list"
  kv_resample_events :: "(string \<times> py_val) list list"
  maybe_resample_calls :: nat
  block_boundary_checks :: nat
  resample_skip_reasons :: "(string \<times> nat) list"
  last_boundary_check_length :: nat
  last_resample_plan :: "power_smc_resample_plan option"
  chosen_particle :: "int option"
  chosen_final_ess :: "pyfloat option"

definition init_group_manager ::
  "power_smc_config \<Rightarrow> py_rng \<Rightarrow> power_smc_group_manager res" where
  "init_group_manager c r =
     rbind (validate_self c) (\<lambda>_.
     rbind (if alpha_ramp_tokens c \<le> 1 then Inr (Fin 0)
            else fdiv (fsub (alpha c) (Fin 1)) (float_of_int (alpha_ramp_tokens c))) (\<lambda>slope. Inr
       \<lparr>config = c, rng = r, particle_count = particles_cfg c, block_size = nat (block_size_cfg c),
        resample_ess_threshold = fmul (ess_threshold c) (float_of_int (particles_cfg c)),
        alpha_final = alpha c, ramp_tokens = alpha_ramp_tokens c,
        alpha_is_constant = (alpha_ramp_tokens c \<le> 1),
        alpha_slope = slope,
        particles = replicate (nat (particles_cfg c)) new_particle_state,
        resample_count = 0, ess_history = [], unique_ancestors_per_resample = [],
        ancestor_history = [], kv_resample_events = [], maybe_resample_calls = 0,
        block_boundary_checks = 0, resample_skip_reasons = [], last_boundary_check_length = 0,
        last_resample_plan = None, chosen_particle = None, chosen_final_ess = None\<rparr>))"

definition alpha_at_step :: "power_smc_group_manager \<Rightarrow> nat \<Rightarrow> pyfloat" where
  "alpha_at_step m step =
     (if int step \<ge> ramp_tokens m then alpha_final m
      else if alpha_is_constant m then alpha_final m
      else fadd (Fin 1) (fmul (alpha_slope m) (Fin (real (step + 1)))))"

text \<open>The body of \<^verbatim>\<open>update_after_token\<close> on one particle, for the alpha of its step.\<close>

definition extend_particle ::
  "nat \<Rightarrow> pyfloat \<Rightarrow> int \<Rightarrow> pyfloat \<Rightarrow> pyfloat \<Rightarrow> bool \<Rightarrow> string option \<Rightarrow> stop_value option \<Rightarrow>
   power_smc_particle_state \<Rightarrow> power_smc_particle_state" where
  "extend_particle bsize alpha_t token_id base_logp proposal_logq fin fr sr p =
     (let lw1 = (if \<not> feq alpha_t (prev_alpha p)
                 then fadd (log_weight p) (fmul (fsub alpha_t (prev_alpha p)) (cum_logp p))
                 else log_weight p);
          lw = fadd lw1 (fsub (fmul alpha_t base_logp) proposal_logq);
          cl = fadd (cum_logp p) base_logp;
          output_length = length (token_ids p) + 1
      in p\<lparr>token_ids := token_ids p @ [token_id], log_weight := lw, cum_logp := cl,
           prev_alpha := alpha_t,
           boundary_state_history :=
             (if output_length mod bsize = 0
              then boundary_state_history p @ [(output_length, (lw, cl, alpha_t))]
              else boundary_state_history p),
           is_done := fin, finish_reason := (if fin then fr else None),
           stop_reason := (if fin then sr else None)\<rparr>)"

definition update_after_token ::
  "power_smc_group_manager \<Rightarrow> nat \<Rightarrow> int \<Rightarrow> pyfloat \<Rightarrow> pyfloat \<Rightarrow> bool \<Rightarrow> string option \<Rightarrow>
   stop_value option \<Rightarrow> (bool \<times> power_smc_group_manager) res" where
  "update_after_token m idx token_id base_logp proposal_logq fin fr sr =
     (if length (particles m) \<le> idx then Inl IndexError
      else (let p = particles m ! idx
            in if is_done p then Inl ValueError
               else (let step = length (token_ids p);
                         alpha_t = (if alpha_is_constant m \<or> int step \<ge> ramp_tokens m
                                    then alpha_final m
                                    else fadd (Fin 1) (fmul (alpha_slope m) (Fin (real (step + 1)))));
                         p' = extend_particle (block_size m) alpha_t token_id base_logp
                                proposal_logq fin fr sr p
                     in Inr ((step + 1) mod block_size m = 0,
                             m\<lparr>chosen_final_ess := None, particles := (particles m)[idx := p']\<rparr>))))"

fun eligible_loop ::
  "power_smc_particle_state list \<Rightarrow> nat option \<Rightarrow> nat option \<times> bool" where
  "eligible_loop [] min_length = (min_length, False)"
| "eligible_loop (p # ps) min_length =
     (if is_done p then (None, True)
      else (let len = length (token_ids p)
            in if len = 0 then eligible_loop ps (Some 0)
               else eligible_loop ps
                 (case min_length of None \<Rightarrow> Some len
                  | Some k \<Rightarrow> if len < k then Some len else Some k)))"

definition eligible_resample_boundary :: "power_smc_group_manager \<Rightarrow> nat option \<times> bool" where
  "eligible_resample_boundary m =
     (case eligible_loop (particles m) None of
        (_, True) \<Rightarrow> (None, True)
      | (None, False) \<Rightarrow> (None, False)
      | (Some k, False) \<Rightarrow>
          (let boundary = k div block_size m * block_size m
           in if boundary = 0 then (None, False) else (Some boundary, False)))"

fun bump :: "string \<Rightarrow> (string \<times> nat) list \<Rightarrow> (string \<times> nat) list" where
  "bump k [] = [(k, 1)]"
| "bump k ((k', n) # d) = (if k' = k then (k', n + 1) # d else (k', n) # bump k d)"

definition record_resample_skip ::
  "string \<Rightarrow> power_smc_group_manager \<Rightarrow> power_smc_group_manager" where
  "record_resample_skip reason m =
     m\<lparr>resample_skip_reasons := bump reason (resample_skip_reasons m)\<rparr>"

definition scan_step ::
  "pyfloat option \<times> pyfloat \<times> bool \<Rightarrow> pyfloat \<Rightarrow> pyfloat option \<times> pyfloat \<times> bool" where
  "scan_step acc w =
     (case acc of
        (None, _, eq) \<Rightarrow> (Some w, w, eq)
      | (Some f, mx, eq) \<Rightarrow> (Some f, if flt mx w then w else mx, eq \<and> feq w f))"

text \<open>The weights (\<^verbatim>\<open>None\<close> for equal log weights) and the effective sample size at a boundary.\<close>

definition boundary_weights ::
  "power_smc_group_manager \<Rightarrow> smc_state list \<Rightarrow> (pyfloat list option \<times> pyfloat) res" where
  "boundary_weights m states =
     (let lws = map fst states; (_, mx, all_equal) = foldl scan_step (None, NegInf, True) lws
      in if all_equal then Inr (None, float_of_int (particle_count m))
         else rbind (normalize_log_weights_and_ess_from_max lws mx (nat (particle_count m)))
                (\<lambda>(ws, ess). Inr (Some ws, ess)))"

definition resampled_particle ::
  "power_smc_particle_state list \<Rightarrow> smc_state list \<Rightarrow> nat \<Rightarrow> nat \<Rightarrow> power_smc_particle_state res" where
  "resampled_particle ps states boundary a =
     rbind (list_get ps a) (\<lambda>p. rbind (list_get states a) (\<lambda>(_, cl, pa).
       let toks = take boundary (token_ids p)
       in Inr (new_particle_state
            \<lparr>token_ids := toks, log_weight := Fin 0, cum_logp := cl, prev_alpha := pa,
             history_start_length := length toks, history_start_state := (Fin 0, cl, pa)\<rparr>)))"

definition apply_resample ::
  "power_smc_group_manager \<Rightarrow> smc_state list \<Rightarrow> nat \<Rightarrow> pyfloat list \<Rightarrow>
   (bool \<times> power_smc_group_manager) res" where
  "apply_resample m states boundary ws =
     rbind (systematic_resample ws (rng m)) (\<lambda>(anc, rng').
     rbind (rmapM (resampled_particle (particles m) states boundary) anc) (\<lambda>new.
     Inr (True, m\<lparr>rng := rng', particles := new, chosen_final_ess := None,
                  last_resample_plan := Some \<lparr>ancestors = anc,
                                              particle_token_ids = map token_ids new\<rparr>,
                  resample_count := resample_count m + 1,
                  ancestor_history := ancestor_history m @ [anc],
                  unique_ancestors_per_resample :=
                    unique_ancestors_per_resample m @ [length (remdups anc)]\<rparr>)))"

definition maybe_resample :: "power_smc_group_manager \<Rightarrow> (bool \<times> power_smc_group_manager) res" where
  "maybe_resample m0 =
     (let m = m0\<lparr>maybe_resample_calls := maybe_resample_calls m0 + 1, last_resample_plan := None\<rparr>
      in if particle_count m = 1 then Inr (False, record_resample_skip ''particles_one'' m)
         else (case eligible_resample_boundary m of
                 (_, True) \<Rightarrow> Inr (False, record_resample_skip ''done_particle'' m)
               | (None, False) \<Rightarrow> Inr (False, record_resample_skip ''not_block_boundary'' m)
               | (Some boundary, False) \<Rightarrow>
                   if boundary \<le> last_boundary_check_length m
                   then Inr (False, record_resample_skip ''stale_block_boundary'' m)
                   else
                     rbind (rmapM (\<lambda>p. state_at p boundary) (particles m)) (\<lambda>states.
                     rbind (boundary_weights m states) (\<lambda>(ws, ess).
                       let m' = m\<lparr>block_boundary_checks := block_boundary_checks m + 1,
                                  ess_history := ess_history m @ [ess],
                                  last_boundary_check_length := boundary\<rparr>
                       in if fle (resample_ess_threshold m') ess
                          then Inr (False, record_resample_skip ''ess_above_threshold'' m')
                          else (case ws of
                                  None \<Rightarrow> Inl AssertionError
                                | Some w \<Rightarrow> apply_resample m' states boundary w)))))"

definition normalized_weights :: "power_smc_group_manager \<Rightarrow> pyfloat list res" where
  "normalized_weights m = normalize_log_weights (map log_weight (particles m))"

definition record_kv_resample_event ::
  "(string \<times> py_val) list \<Rightarrow> power_smc_group_manager \<Rightarrow> power_smc_group_manager" where
  "record_kv_resample_event ev m = m\<lparr>kv_resample_events := kv_resample_events m @ [ev]\<rparr>"

definition final_select :: "power_smc_group_manager \<Rightarrow> (int \<times> power_smc_group_manager) res" where
  "final_select m =
     rbind (normalize_log_weights_and_ess (map log_weight (particles m))) (\<lambda>(ws, final_ess).
       let (idx, rng') = sample_index ws (rng m)
       in Inr (idx, m\<lparr>chosen_final_ess := Some final_ess, chosen_particle := Some idx,
                      rng := rng'\<rparr>))"

section \<open>Diagnostics\<close>

record smc_diagnostics =
  d_alpha :: pyfloat
  d_particles :: int
  d_chosen_particle :: "int option"
  d_resample_count :: nat
  d_final_ess :: pyfloat
  d_mean_ess :: pyfloat
  d_ess_history :: "pyfloat list"
  d_ancestor_history :: "nat list list"
  d_maybe_resample_calls :: nat
  d_block_boundary_checks :: nat
  d_last_boundary_check_length :: nat
  d_resample_skip_reasons :: "(string \<times> nat) list"
  d_unique_ancestors_per_resample :: "nat list"
  d_particle_lengths :: "nat list"
  d_min_particle_length :: nat
  d_max_particle_length :: nat
  d_done_count :: nat
  d_finish_reason_counts :: "(string \<times> nat) list"
  d_stop_reason_counts :: "(string \<times> nat) list"
  d_avg_log_weight :: pyfloat
  d_kv_resample_events :: "(string \<times> py_val) list list"
  d_kv_alias_success_count :: int
  d_kv_alias_fallback_count :: int
  d_kv_aliased_blocks :: int
  d_kv_aliased_tokens :: int
  d_kv_cow_physical_blocks :: int
  d_kv_cow_saved_blocks :: int
  d_kv_cow_saved_tokens :: int

fun stop_value_str :: "stop_value \<Rightarrow> string" where
  "stop_value_str (StopToken i) = int_str i"
| "stop_value_str (StopString s) = s"

definition opt_bump :: "string option \<Rightarrow> (string \<times> nat) list \<Rightarrow> (string \<times> nat) list" where
  "opt_bump k d = (case k of None \<Rightarrow> d | Some s \<Rightarrow> bump s d)"

definition event_sum :: "string \<Rightarrow> (string \<times> py_val) list list \<Rightarrow> int res" where
  "event_sum k evs = rbind (rmapM (\<lambda>ev. py_int (dict_get ev k (VInt 0))) evs) (\<lambda>is. Inr (sum_list is))"

definition fsum_over :: "pyfloat list \<Rightarrow> pyfloat \<Rightarrow> pyfloat res" where
  "fsum_over xs d = rbind (math_fsum xs) (\<lambda>t. fdiv t d)"

definition diagnostics :: "power_smc_group_manager \<Rightarrow> smc_diagnostics res" where
  "diagnostics m =
     (let ps = particles m; lengths = map (length \<circ> token_ids) ps; lws = map log_weight ps;
          evs = kv_resample_events m
      in
      rbind (case chosen_final_ess m of
               Some e \<Rightarrow> Inr e
             | None \<Rightarrow> rbind (normalize_log_weights_and_ess lws) (\<lambda>(_, e). Inr e)) (\<lambda>final_ess.
      rbind (event_sum ''alias_success_count'' evs) (\<lambda>k1.
      rbind (event_sum ''fallback_count'' evs) (\<lambda>k2.
      rbind (event_sum ''aliased_blocks'' evs) (\<lambda>k3.
      rbind (event_sum ''aliased_tokens'' evs) (\<lambda>k4.
      rbind (event_sum ''cow_physical_blocks'' evs) (\<lambda>k5.
      rbind (event_sum ''cow_saved_blocks'' evs) (\<lambda>k6.
      rbind (event_sum ''cow_saved_tokens'' evs) (\<lambda>k7.
      rbind (if ess_history m = [] then Inr final_ess
             else fsum_over (ess_history m) (Fin (real (length (ess_history m))))) (\<lambda>mean.
      rbind (fsum_over lws (float_of_int (particle_count m))) (\<lambda>avg.
      Inr \<lparr>d_alpha = alpha (config m), d_particles = particles_cfg (config m),
           d_chosen_particle = chosen_particle m, d_resample_count = resample_count m,
           d_final_ess = final_ess, d_mean_ess = mean, d_ess_history = ess_history m,
           d_ancestor_history = ancestor_history m,
           d_maybe_resample_calls = maybe_resample_calls m,
           d_block_boundary_checks = block_boundary_checks m,
           d_last_boundary_check_length = last_boundary_check_length m,
           d_resample_skip_reasons = sort_key fst (resample_skip_reasons m),
           d_unique_ancestors_per_resample = unique_ancestors_per_resample m,
           d_particle_lengths = lengths,
           d_min_particle_length = (if lengths = [] then 0 else Min (set lengths)),
           d_max_particle_length = foldl max 0 lengths,
           d_done_count = length (filter is_done ps),
           d_finish_reason_counts = foldl (\<lambda>d p. opt_bump (finish_reason p) d) [] ps,
           d_stop_reason_counts =
             foldl (\<lambda>d p. opt_bump (map_option stop_value_str (stop_reason p)) d) [] ps,
           d_avg_log_weight = avg, d_kv_resample_events = evs,
           d_kv_alias_success_count = k1, d_kv_alias_fallback_count = k2,
           d_kv_aliased_blocks = k3, d_kv_aliased_tokens = k4, d_kv_cow_physical_blocks = k5,
           d_kv_cow_saved_blocks = k6, d_kv_cow_saved_tokens = k7\<rparr>)))))))))))"

section \<open>The boundary history of a particle\<close>

definition particle_ok :: "nat \<Rightarrow> power_smc_particle_state \<Rightarrow> bool" where
  "particle_ok bsize p \<longleftrightarrow>
     history_start_length p \<le> length (token_ids p) \<and>
     map fst (boundary_state_history p) =
       filter (\<lambda>b. bsize dvd b) [history_start_length p + 1..<length (token_ids p) + 1] \<and>
     (length (token_ids p) = history_start_length p \<longrightarrow> history_start_state p = current_state p) \<and>
     (history_start_length p = 0 \<longrightarrow> history_start_state p = (Fin 0, Fin 0, Fin 1)) \<and>
     (bsize dvd length (token_ids p) \<and> history_start_length p < length (token_ids p) \<longrightarrow>
        boundary_state_history p \<noteq> [] \<and>
        last (boundary_state_history p) = (length (token_ids p), current_state p))"

lemma history_distinct: "particle_ok bsize p \<Longrightarrow> distinct (map fst (boundary_state_history p))"
  by (simp add: particle_ok_def)

lemma history_lookup:
  "particle_ok bsize p \<Longrightarrow>
   map_of (rev (boundary_state_history p)) = map_of (boundary_state_history p)"
proof -
  assume "particle_ok bsize p"
  then have d: "distinct (map fst (boundary_state_history p))" by (rule history_distinct)
  then have "distinct (map fst (rev (boundary_state_history p)))"
    unfolding rev_map[symmetric] distinct_rev .
  then show ?thesis using d by (simp only: map_of_inject_set set_rev)
qed

text \<open>The boundaries whose state a particle can still report.\<close>

definition rewindable :: "nat \<Rightarrow> power_smc_particle_state \<Rightarrow> nat \<Rightarrow> bool" where
  "rewindable bsize p b \<longleftrightarrow> bsize dvd b \<and> history_start_length p \<le> b \<and> b \<le> length (token_ids p)"

lemma state_at_defined:
  assumes "particle_ok bsize p" "rewindable bsize p b"
  shows "returns (state_at p b)"
proof (cases "b = length (token_ids p) \<or> b = 0 \<or> b = history_start_length p")
  case True
  then show ?thesis unfolding state_at_def by (elim disjE) simp_all
next
  case False
  have keys: "map fst (boundary_state_history p) =
    filter (\<lambda>b. bsize dvd b) [history_start_length p + 1..<length (token_ids p) + 1]"
    using assms(1) by (simp add: particle_ok_def)
  have "b \<in> set (map fst (boundary_state_history p))"
    unfolding keys using False assms(2) by (auto simp: rewindable_def)
  then obtain st where "map_of (boundary_state_history p) b = Some st"
    by (cases "map_of (boundary_state_history p) b") (simp_all add: map_of_eq_None_iff)
  then show ?thesis
    using False assms(2)
    unfolding state_at_def history_lookup[OF assms(1)] rewindable_def by simp
qed

lemma extend_fields [simp]:
  "token_ids (extend_particle B a t lp lq fin fr sr p) = token_ids p @ [t]"
  "history_start_length (extend_particle B a t lp lq fin fr sr p) = history_start_length p"
  "history_start_state (extend_particle B a t lp lq fin fr sr p) = history_start_state p"
  "prev_alpha (extend_particle B a t lp lq fin fr sr p) = a"
  "is_done (extend_particle B a t lp lq fin fr sr p) = fin"
  by (simp_all add: extend_particle_def Let_def)

lemma extend_history:
  "boundary_state_history (extend_particle B a t lp lq fin fr sr p) =
     (if B dvd length (token_ids p) + 1
      then boundary_state_history p @
             [(length (token_ids p) + 1, current_state (extend_particle B a t lp lq fin fr sr p))]
      else boundary_state_history p)"
  by (simp add: extend_particle_def Let_def current_state_def dvd_eq_mod_eq_0)

lemma extend_particle_ok:
  assumes "particle_ok B p"
  shows "particle_ok B (extend_particle B a t lp lq fin fr sr p)"
proof -
  let ?p = "extend_particle B a t lp lq fin fr sr p"
  have h: "history_start_length p \<le> length (token_ids p)" and
    keys: "map fst (boundary_state_history p) =
      filter (\<lambda>b. B dvd b) [history_start_length p + 1..<length (token_ids p) + 1]"
    using assms by (simp_all add: particle_ok_def)
  have up: "[history_start_length p + 1..<length (token_ids ?p) + 1] =
            [history_start_length p + 1..<length (token_ids p) + 1] @ [length (token_ids p) + 1]"
    using h by simp
  have "map fst (boundary_state_history ?p) =
        filter (\<lambda>b. B dvd b) [history_start_length p + 1..<length (token_ids ?p) + 1]"
    unfolding up filter_append keys[symmetric] extend_history by simp
  then show ?thesis
    using assms h by (simp add: particle_ok_def extend_history)
qed

text \<open>Rewinding is exact: a later token does not change what a boundary reports.\<close>

lemma state_at_extend:
  assumes ok: "particle_ok B p" and b: "rewindable B p b"
  shows "state_at (extend_particle B a t lp lq fin fr sr p) b = state_at p b"
proof (cases "b = length (token_ids p)")
  case False
  let ?p = "extend_particle B a t lp lq fin fr sr p"
  have lt: "b < length (token_ids p)" using False b by (simp add: rewindable_def)
  have "map_of (boundary_state_history ?p) b = map_of (boundary_state_history p) b"
    using lt by (simp add: extend_history map_add_def split: option.splits)
  then show ?thesis
    using lt unfolding state_at_def history_lookup[OF ok] history_lookup[OF extend_particle_ok[OF ok]]
    by simp
next
  case True
  let ?p = "extend_particle B a t lp lq fin fr sr p"
  have cur: "state_at p b = Inr (current_state p)" using True by (simp add: state_at_def)
  show ?thesis
  proof (cases "b = history_start_length p")
    case hs: True
    have "history_start_state p = current_state p"
      "b = 0 \<Longrightarrow> current_state p = (Fin 0, Fin 0, Fin 1)"
      using ok True hs by (auto simp: particle_ok_def)
    then show ?thesis unfolding cur using True hs by (simp add: state_at_def)
  next
    case nhs: False
    then have gt: "history_start_length p < b" using b by (simp add: rewindable_def)
    have "boundary_state_history p \<noteq> []" "last (boundary_state_history p) = (b, current_state p)"
      using ok b True gt by (simp_all add: particle_ok_def rewindable_def)
    then have mem: "(b, current_state p) \<in> set (boundary_state_history p)"
      by (metis last_in_set)
    then have "map_of (boundary_state_history p) b = Some (current_state p)"
      using history_distinct[OF ok] by simp
    then have "map_of (boundary_state_history ?p) b = Some (current_state p)"
      using True by (simp add: extend_history)
    then show ?thesis
      unfolding cur state_at_def history_lookup[OF extend_particle_ok[OF ok]]
      using gt True by auto
  qed
qed

lemma new_particle_ok: "particle_ok B new_particle_state" "history_start_length new_particle_state = 0"
  by (simp_all add: particle_ok_def new_particle_state_def current_state_def)

section \<open>The group invariant\<close>

definition group_ok :: "power_smc_group_manager \<Rightarrow> bool" where
  "group_ok m \<longleftrightarrow>
     1 \<le> block_size m \<and> 1 \<le> particle_count m \<and>
     length (particles m) = nat (particle_count m) \<and>
     (\<exists>t. resample_ess_threshold m = Fin t \<and> 0 < t \<and> t \<le> of_int (particle_count m)) \<and>
     (\<forall>p \<in> set (particles m). particle_ok (block_size m) p \<and>
        history_start_length p \<le> last_boundary_check_length m)"

lemma init_group_ok:
  assumes "init_group_manager c r = Inr m"
  shows "group_ok m"
proof -
  from assms obtain slope e where v: "valid_config c" and e: "ess_threshold c = Fin e" "0 < e" "e \<le> 1"
    and m: "particle_count m = particles_cfg c" "block_size m = nat (block_size_cfg c)"
      "particles m = replicate (nat (particles_cfg c)) new_particle_state"
      "resample_ess_threshold m = fmul (ess_threshold c) (float_of_int (particles_cfg c))"
    unfolding init_group_manager_def
    by (auto simp: res_simps validate_self_iff valid_config_def)
  have n: "1 \<le> particles_cfg c" "1 \<le> block_size_cfg c" using v by (auto simp: valid_config_def)
  have "0 < e * of_int (particles_cfg c)" "e * of_int (particles_cfg c) \<le> of_int (particles_cfg c)"
    using e n by (simp_all add: mult_left_le_one_le)
  then show ?thesis
    using n by (auto simp: group_ok_def m e float_of_int_def new_particle_ok)
qed

lemma update_after_token_cases:
  assumes "update_after_token m i tok lp lq fin fr sr = Inr (bd, m')"
  obtains a where "i < length (particles m)" "\<not> is_done (particles m ! i)"
    "m' = m\<lparr>chosen_final_ess := None,
           particles := (particles m)[i := extend_particle (block_size m) a tok lp lq fin fr sr
                                             (particles m ! i)]\<rparr>"
    "a = alpha_at_step m (length (token_ids (particles m ! i)))"
    "bd = ((length (token_ids (particles m ! i)) + 1) mod block_size m = 0)"
  using assms unfolding update_after_token_def alpha_at_step_def Let_def
  by (fastforce split: if_splits)

lemma update_group_ok:
  assumes "group_ok m" "update_after_token m i tok lp lq fin fr sr = Inr (bd, m')"
  shows "group_ok m'"
  using assms(2)
proof (cases rule: update_after_token_cases)
  case (1 a)
  have "particles m ! i \<in> set (particles m)" using 1(1) by simp
  then have "particle_ok (block_size m) (particles m ! i)"
    "history_start_length (particles m ! i) \<le> last_boundary_check_length m"
    using assms(1) unfolding group_ok_def by blast+
  then show ?thesis
    using assms(1) unfolding 1(3) group_ok_def
    by (auto simp: extend_particle_ok dest!: set_update_subset_insert[THEN subsetD])
qed

lemma eligible_loop_Some:
  "eligible_loop ps acc = (Some k, False) \<Longrightarrow>
   (\<forall>p \<in> set ps. \<not> is_done p \<and> k \<le> length (token_ids p)) \<and> (\<forall>j. acc = Some j \<longrightarrow> k \<le> j)"
proof (induction ps arbitrary: acc)
  case (Cons p ps)
  have nd: "\<not> is_done p" using Cons.prems by (auto split: if_splits)
  define acc' where "acc' = (if token_ids p = [] then Some 0 else
    (case acc of None \<Rightarrow> Some (length (token_ids p))
     | Some j \<Rightarrow> if length (token_ids p) < j then Some (length (token_ids p)) else Some j))"
  have "eligible_loop ps acc' = (Some k, False)"
    using Cons.prems nd by (simp add: acc'_def Let_def split: if_splits)
  from Cons.IH[OF this] have IH: "\<forall>p \<in> set ps. \<not> is_done p \<and> k \<le> length (token_ids p)"
    "\<And>j. acc' = Some j \<Longrightarrow> k \<le> j" by auto
  have "k \<le> length (token_ids p) \<and> (\<forall>j. acc = Some j \<longrightarrow> k \<le> j)"
    using IH(2) unfolding acc'_def by (cases acc; cases "token_ids p = []") (force split: if_splits)+
  then show ?case using IH(1) nd by simp
qed simp

lemma eligible_boundary_Some:
  assumes "eligible_resample_boundary m = (Some b, False)"
  shows "0 < b" "block_size m dvd b" "\<forall>p \<in> set (particles m). \<not> is_done p \<and> b \<le> length (token_ids p)"
proof -
  from assms obtain k where k: "eligible_loop (particles m) None = (Some k, False)"
      "b = k div block_size m * block_size m" "b \<noteq> 0"
    unfolding eligible_resample_boundary_def
    by (auto simp: Let_def split: prod.splits option.splits bool.splits if_splits)
  then show "0 < b" "block_size m dvd b" by simp_all
  have "b \<le> k" unfolding k(2) by simp
  then show "\<forall>p \<in> set (particles m). \<not> is_done p \<and> b \<le> length (token_ids p)"
    using eligible_loop_Some[OF k(1)] by auto
qed

lemma boundary_weights_ok:
  assumes "length states = nat (particle_count m)" "1 \<le> particle_count m"
  obtains ws e where "boundary_weights m states = Inr (ws, e)"
    "ws = None \<longrightarrow> e = Fin (of_int (particle_count m))"
    "\<forall>w. ws = Some w \<longrightarrow> length w = nat (particle_count m)"
proof -
  obtain f mx eq where s: "foldl scan_step (None, NegInf, True) (map fst states) = (f, mx, eq)"
    by (cases "foldl scan_step (None, NegInf, True) (map fst states)") auto
  show ?thesis
  proof (cases eq)
    case True
    then show ?thesis using that s by (simp add: boundary_weights_def float_of_int_def)
  next
    case False
    obtain ps e where "normalize_log_weights_and_ess_from_max (map fst states) mx
        (nat (particle_count m)) = Inr (ps, e)" "length ps = length (map fst states)"
      using normalize_and_ess_from_max_total[of "nat (particle_count m)" "map fst states" mx] assms
      by auto
    then show ?thesis using that[of "Some ps" e] s False assms by (simp add: boundary_weights_def)
  qed
qed

section \<open>Resampling\<close>

text \<open>The new particle in a slot: the first tokens of its ancestor, weight one.\<close>

definition reborn :: "nat \<Rightarrow> power_smc_particle_state \<Rightarrow> smc_state \<Rightarrow> power_smc_particle_state" where
  "reborn b p st = new_particle_state
     \<lparr>token_ids := take b (token_ids p), cum_logp := fst (snd st), prev_alpha := snd (snd st),
      history_start_length := length (take b (token_ids p)),
      history_start_state := (Fin 0, snd st)\<rparr>"

lemma reborn_fields [simp]:
  "token_ids (reborn b p st) = take b (token_ids p)"
  "log_weight (reborn b p st) = Fin 0"
  "cum_logp (reborn b p st) = fst (snd st)"
  "prev_alpha (reborn b p st) = snd (snd st)"
  "\<not> is_done (reborn b p st)"
  "history_start_length (reborn b p st) = min (length (token_ids p)) b"
  by (simp_all add: reborn_def new_particle_state_def)

lemma resampled_particle_eq:
  "a < length ps \<Longrightarrow> a < length states \<Longrightarrow>
   resampled_particle ps states b a = Inr (reborn b (ps ! a) (states ! a))"
  by (cases "states ! a")
     (simp add: resampled_particle_def list_get_def reborn_def Let_def new_particle_state_def)

lemma reborn_ok: "0 < b \<Longrightarrow> b \<le> length (token_ids p) \<Longrightarrow> particle_ok B (reborn b p st)"
  by (auto simp: particle_ok_def reborn_def new_particle_state_def current_state_def)

lemma apply_resample_eq:
  assumes "ws \<noteq> []" "length ws = length (particles m)" "length states = length (particles m)"
  obtains anc where "systematic_resample ws (rng m) = Inr (anc, (rng m)\<lparr>drawn := drawn (rng m) + 1\<rparr>)"
    "length anc = length (particles m)" "sorted anc" "\<forall>a \<in> set anc. a < length (particles m)"
    "apply_resample m states b ws = Inr (True, m
       \<lparr>rng := (rng m)\<lparr>drawn := drawn (rng m) + 1\<rparr>,
        particles := map (\<lambda>a. reborn b (particles m ! a) (states ! a)) anc,
        chosen_final_ess := None,
        last_resample_plan := Some \<lparr>ancestors = anc,
          particle_token_ids = map (\<lambda>a. take b (token_ids (particles m ! a))) anc\<rparr>,
        resample_count := resample_count m + 1,
        ancestor_history := ancestor_history m @ [anc],
        unique_ancestors_per_resample :=
          unique_ancestors_per_resample m @ [length (remdups anc)]\<rparr>)"
proof -
  obtain anc where anc: "systematic_resample ws (rng m) = Inr (anc, (rng m)\<lparr>drawn := drawn (rng m) + 1\<rparr>)"
    "length anc = length ws" "sorted anc" "\<forall>a \<in> set anc. a < length ws"
    using systematic_resample_shape[OF assms(1), of "rng m"] .
  have "rmapM (resampled_particle (particles m) states b) anc =
        Inr (map (\<lambda>a. reborn b (particles m ! a) (states ! a)) anc)"
    using anc(4) assms by (intro rmapM_Inr resampled_particle_eq) auto
  then show ?thesis
    using that[of anc] anc assms(2) by (simp add: apply_resample_def comp_def)
qed

definition counted :: "power_smc_group_manager \<Rightarrow> power_smc_group_manager" where
  "counted m = m\<lparr>maybe_resample_calls := maybe_resample_calls m + 1, last_resample_plan := None\<rparr>"

definition at_boundary ::
  "nat \<Rightarrow> pyfloat \<Rightarrow> power_smc_group_manager \<Rightarrow> power_smc_group_manager" where
  "at_boundary b ess m = m\<lparr>block_boundary_checks := block_boundary_checks m + 1,
     ess_history := ess_history m @ [ess], last_boundary_check_length := b\<rparr>"

lemma boundary_states:
  assumes ok: "group_ok m" and b: "eligible_resample_boundary m = (Some b, False)"
    "last_boundary_check_length m < b"
  obtains states where "rmapM (\<lambda>p. state_at p b) (particles m) = Inr states"
    "length states = length (particles m)"
proof -
  have "returns (state_at p b)" if p: "p \<in> set (particles m)" for p
  proof (rule state_at_defined)
    show "particle_ok (block_size m) p" using ok p by (simp add: group_ok_def)
    have "history_start_length p \<le> last_boundary_check_length m"
      using ok p by (simp add: group_ok_def)
    then show "rewindable (block_size m) p b"
      using eligible_boundary_Some[OF b(1)] b(2) p by (auto simp: rewindable_def)
  qed
  then have "returns (rmapM (\<lambda>p. state_at p b) (particles m))" by (rule rmapM_returns)
  then show ?thesis by (rule returnsE) (use that rmapM_eq_Inr_length in blast)
qed

text \<open>
  What a call does on a group that satisfies the invariant: it skips, with the reason counted, or it
  replaces every particle by its ancestor's prefix.
\<close>

lemma counted_fields [simp]:
  "particles (counted m) = particles m" "particle_count (counted m) = particle_count m"
  "last_boundary_check_length (counted m) = last_boundary_check_length m"
  "resample_ess_threshold (counted m) = resample_ess_threshold m" "rng (counted m) = rng m"
  "block_size (counted m) = block_size m"
  by (simp_all add: counted_def)

lemma eligible_counted [simp]:
  "eligible_resample_boundary (counted m) = eligible_resample_boundary m"
  unfolding eligible_resample_boundary_def counted_fields ..

lemma boundary_weights_counted [simp]: "boundary_weights (counted m) = boundary_weights m"
  unfolding boundary_weights_def counted_fields ..

lemma group_ok_counted [simp]: "group_ok (counted m) = group_ok m"
  unfolding group_ok_def counted_fields ..

lemma at_boundary_fields [simp]:
  "particles (at_boundary b e m) = particles m" "particle_count (at_boundary b e m) = particle_count m"
  "last_boundary_check_length (at_boundary b e m) = b" "block_size (at_boundary b e m) = block_size m"
  "resample_ess_threshold (at_boundary b e m) = resample_ess_threshold m" "rng (at_boundary b e m) = rng m"
  by (simp_all add: at_boundary_def)

lemma maybe_resample_unfold:
  "maybe_resample m =
     (if particle_count m = 1 then Inr (False, record_resample_skip ''particles_one'' (counted m))
      else (case eligible_resample_boundary m of
              (_, True) \<Rightarrow> Inr (False, record_resample_skip ''done_particle'' (counted m))
            | (None, False) \<Rightarrow> Inr (False, record_resample_skip ''not_block_boundary'' (counted m))
            | (Some b, False) \<Rightarrow>
                if b \<le> last_boundary_check_length m
                then Inr (False, record_resample_skip ''stale_block_boundary'' (counted m))
                else rbind (rmapM (\<lambda>p. state_at p b) (particles m)) (\<lambda>states.
                     rbind (boundary_weights m states) (\<lambda>(ws, ess).
                       if fle (resample_ess_threshold m) ess
                       then Inr (False, record_resample_skip ''ess_above_threshold''
                                          (at_boundary b ess (counted m)))
                       else (case ws of None \<Rightarrow> Inl AssertionError
                             | Some w \<Rightarrow> apply_resample (at_boundary b ess (counted m)) states b w)))))"
  unfolding maybe_resample_def Let_def counted_def[symmetric] at_boundary_def[symmetric]
    eligible_counted boundary_weights_counted counted_fields at_boundary_fields ..

definition resampled ::
  "nat \<Rightarrow> smc_state list \<Rightarrow> nat list \<Rightarrow> power_smc_group_manager \<Rightarrow> power_smc_group_manager" where
  "resampled b states anc m = m
     \<lparr>rng := (rng m)\<lparr>drawn := drawn (rng m) + 1\<rparr>,
      particles := map (\<lambda>a. reborn b (particles m ! a) (states ! a)) anc,
      chosen_final_ess := None,
      last_resample_plan := Some \<lparr>ancestors = anc,
        particle_token_ids = map (\<lambda>a. take b (token_ids (particles m ! a))) anc\<rparr>,
      resample_count := resample_count m + 1,
      ancestor_history := ancestor_history m @ [anc],
      unique_ancestors_per_resample :=
        unique_ancestors_per_resample m @ [length (remdups anc)]\<rparr>"

lemma maybe_resample_split:
  assumes ok: "group_ok m"
  obtains (skip) reason m1 where "maybe_resample m = Inr (False, record_resample_skip reason m1)"
      "m1 = counted m \<or> (\<exists>b e. last_boundary_check_length m < b \<and> m1 = at_boundary b e (counted m))"
  | (done_resample) b states w ess anc where
      "eligible_resample_boundary m = (Some b, False)" "last_boundary_check_length m < b"
      "rmapM (\<lambda>p. state_at p b) (particles m) = Inr states"
      "boundary_weights m states = Inr (Some w, ess)" "\<not> fle (resample_ess_threshold m) ess"
      "systematic_resample w (rng m) = Inr (anc, (rng m)\<lparr>drawn := drawn (rng m) + 1\<rparr>)"
      "length anc = length (particles m)" "sorted anc" "\<forall>a \<in> set anc. a < length (particles m)"
      "maybe_resample m = Inr (True, resampled b states anc (at_boundary b ess (counted m)))"
proof (cases "\<exists>b. particle_count m \<noteq> 1 \<and> eligible_resample_boundary m = (Some b, False) \<and>
               last_boundary_check_length m < b")
  case False
  then have "\<exists>reason. maybe_resample m = Inr (False, record_resample_skip reason (counted m))"
    unfolding maybe_resample_unfold by (auto split: prod.splits option.splits bool.splits)
  then show ?thesis using skip by blast
next
  case True
  then obtain b where b: "particle_count m \<noteq> 1" "eligible_resample_boundary m = (Some b, False)"
    "last_boundary_check_length m < b" by blast
  obtain states where st: "rmapM (\<lambda>p. state_at p b) (particles m) = Inr states"
    "length states = length (particles m)" using boundary_states[OF ok b(2,3)] .
  have n: "length states = nat (particle_count m)" "1 \<le> particle_count m"
    using ok st(2) by (simp_all add: group_ok_def)
  obtain ws e where w: "boundary_weights m states = Inr (ws, e)"
    "ws = None \<longrightarrow> e = Fin (of_int (particle_count m))"
    "\<forall>w. ws = Some w \<longrightarrow> length w = nat (particle_count m)" using boundary_weights_ok[OF n] .
  have unf: "maybe_resample m = (if fle (resample_ess_threshold m) e
      then Inr (False, record_resample_skip ''ess_above_threshold'' (at_boundary b e (counted m)))
      else (case ws of None \<Rightarrow> Inl AssertionError
            | Some w \<Rightarrow> apply_resample (at_boundary b e (counted m)) states b w))"
    unfolding maybe_resample_unfold using b st(1) w(1) by simp
  show ?thesis
  proof (cases "fle (resample_ess_threshold m) e")
    case True
    then show ?thesis using unf skip b(3) by auto
  next
    case False
    have "ws \<noteq> None" using False ok w(2) by (auto simp: group_ok_def)
    then obtain v where v: "ws = Some v" by auto
    have lv: "length v = length (particles (at_boundary b e (counted m)))"
      "length states = length (particles (at_boundary b e (counted m)))"
      using w(3) v st(2) n by simp_all
    then have "v \<noteq> []" using n st(2) by auto
    from apply_resample_eq[OF this lv, of b] obtain anc where anc:
      "systematic_resample v (rng m) = Inr (anc, (rng m)\<lparr>drawn := drawn (rng m) + 1\<rparr>)"
      "length anc = length (particles m)" "sorted anc" "\<forall>a \<in> set anc. a < length (particles m)"
      "apply_resample (at_boundary b e (counted m)) states b v =
       Inr (True, resampled b states anc (at_boundary b e (counted m)))"
      unfolding resampled_def[symmetric] by auto
    then show ?thesis using done_resample[OF b(2,3) st(1) w(1)[unfolded v] False anc(1-4)] unf v False
      by simp
  qed
qed

lemma maybe_resample_group_ok:
  assumes ok: "group_ok m" and r: "maybe_resample m = Inr (res, m')"
  shows "group_ok m'"
  using ok
proof (cases rule: maybe_resample_split)
  case (skip reason m1)
  have "m' = record_resample_skip reason m1" using skip(1) r by simp
  moreover have "group_ok m1"
    using skip(2) ok by (force simp: group_ok_def)
  ultimately show ?thesis by (simp add: group_ok_def record_resample_skip_def)
next
  case (done_resample b states w ess anc)
  have m': "m' = resampled b states anc (at_boundary b ess (counted m))"
    using done_resample(10) r by simp
  have "particle_ok (block_size m) (reborn b (particles m ! a) st)" if "a \<in> set anc" for a st
    using that done_resample(9) eligible_boundary_Some[OF done_resample(1)]
    by (intro reborn_ok) (auto simp: nth_mem)
  then show ?thesis
    using ok done_resample(7) unfolding m' group_ok_def by (auto simp: resampled_def)
qed

lemma maybe_resample_returns: "group_ok m \<Longrightarrow> returns (maybe_resample m)"
  by (erule maybe_resample_split) simp_all

lemma final_select_fields:
  assumes "final_select m = Inr (i, m')"
  shows "m' = m\<lparr>chosen_final_ess := chosen_final_ess m', chosen_particle := Some i, rng := rng m'\<rparr>"
proof -
  from assms obtain ws e where "(case sample_index ws (rng m) of (idx, rng') \<Rightarrow>
      Inr (idx, m\<lparr>chosen_final_ess := Some e, chosen_particle := Some idx, rng := rng'\<rparr>)) =
      (Inr (i, m') :: (int \<times> power_smc_group_manager) res)"
    unfolding final_select_def Let_def by (auto simp: res_simps)
  then show ?thesis by (cases "sample_index ws (rng m)") auto
qed

section \<open>Reachable groups\<close>

inductive reachable_group :: "power_smc_config \<Rightarrow> power_smc_group_manager \<Rightarrow> bool" for c where
  init: "init_group_manager c r = Inr m \<Longrightarrow> reachable_group c m"
| token: "reachable_group c m \<Longrightarrow>
    update_after_token m i tok lp lq fin fr sr = Inr (bd, m') \<Longrightarrow> reachable_group c m'"
| resample: "reachable_group c m \<Longrightarrow> maybe_resample m = Inr (res, m') \<Longrightarrow> reachable_group c m'"
| kv_event: "reachable_group c m \<Longrightarrow> reachable_group c (record_kv_resample_event ev m)"
| select: "reachable_group c m \<Longrightarrow> final_select m = Inr (i, m') \<Longrightarrow> reachable_group c m'"

lemma reachable_group_ok: "reachable_group c m \<Longrightarrow> group_ok m"
proof (induction rule: reachable_group.induct)
  case (kv_event m ev)
  then show ?case by (simp add: group_ok_def record_kv_resample_event_def)
next
  case (select m i m')
  have eq: "m' = m\<lparr>chosen_final_ess := chosen_final_ess m', chosen_particle := Some i, rng := rng m'\<rparr>"
    by (rule final_select_fields) (rule select(2))
  show ?case by (subst eq) (use select.IH in \<open>simp add: group_ok_def\<close>)
qed (auto intro: init_group_ok update_group_ok maybe_resample_group_ok)

text \<open>The fields that no call changes determine the alpha schedule.\<close>

definition schedule :: "power_smc_group_manager \<Rightarrow> pyfloat \<times> int \<times> bool \<times> pyfloat" where
  "schedule m = (alpha_final m, ramp_tokens m, alpha_is_constant m, alpha_slope m)"

lemma alpha_at_step_schedule: "schedule m = schedule m' \<Longrightarrow> alpha_at_step m = alpha_at_step m'"
  by (rule ext) (simp add: schedule_def alpha_at_step_def)

lemma update_schedule:
  "update_after_token m i tok lp lq fin fr sr = Inr (bd, m') \<Longrightarrow> schedule m' = schedule m"
  by (erule update_after_token_cases) (simp add: schedule_def)

lemma resample_schedule:
  assumes "group_ok m" "maybe_resample m = Inr (res, m')"
  shows "schedule m' = schedule m"
  using assms(1)
proof (cases rule: maybe_resample_split)
  case (skip reason m1)
  then show ?thesis using assms(2)
    by (auto simp: schedule_def record_resample_skip_def at_boundary_def counted_def)
next
  case (done_resample b states w ess anc)
  then show ?thesis using assms(2)
    by (auto simp: schedule_def resampled_def at_boundary_def counted_def)
qed

lemma init_alpha_at_step:
  assumes "init_group_manager c r = Inr m"
  shows "alpha_at_step m k = alpha_ramp (int k) (alpha c) (alpha_ramp_tokens c)"
proof (cases "alpha_ramp_tokens c \<le> 1")
  case True
  then show ?thesis using assms
    by (auto simp: init_group_manager_def res_simps alpha_at_step_def alpha_ramp_def)
next
  case False
  define R where "R = real_of_int (alpha_ramp_tokens c)"
  have R: "1 < R" using False by (simp add: R_def)
  obtain slope where slope: "fdiv (fsub (alpha c) (Fin 1)) (Fin R) = Inr slope"
    and m: "alpha_final m = alpha c" "ramp_tokens m = alpha_ramp_tokens c"
      "\<not> alpha_is_constant m" "alpha_slope m = slope"
    using assms False by (auto simp: init_group_manager_def res_simps float_of_int_def R_def)
  have "fmul slope (Fin (real (k + 1))) =
        fmul (fsub (alpha c) (Fin 1)) (Fin (of_int (int k + 1) / R))"
    using slope R
    by (cases "alpha c") (auto simp: fsub_def inf_mul_def split: if_splits)
  then show ?thesis
    using False by (simp add: alpha_at_step_def alpha_ramp_def m R_def add.commute)
qed

lemma reachable_alpha_at_step:
  "reachable_group c m \<Longrightarrow> alpha_at_step m k = alpha_ramp (int k) (alpha c) (alpha_ramp_tokens c)"
proof (induction rule: reachable_group.induct)
  case (init r m)
  then show ?case by (rule init_alpha_at_step)
next
  case (token m i tok lp lq fin fr sr bd m')
  then show ?case using alpha_at_step_schedule[OF update_schedule] by metis
next
  case (resample m res m')
  then show ?case
    using alpha_at_step_schedule[OF resample_schedule] reachable_group_ok by metis
next
  case (kv_event m ev)
  have "schedule (record_kv_resample_event ev m) = schedule m"
    by (simp add: schedule_def record_kv_resample_event_def)
  then show ?case using alpha_at_step_schedule kv_event.IH by metis
next
  case (select m i m')
  have eq: "m' = m\<lparr>chosen_final_ess := chosen_final_ess m', chosen_particle := Some i, rng := rng m'\<rparr>"
    by (rule final_select_fields) (rule select(2))
  have "schedule m' = schedule m" by (subst eq) (simp add: schedule_def)
  then show ?case using alpha_at_step_schedule select.IH by metis
qed

section \<open>Importance weights\<close>

text \<open>A run of unfinished tokens \<open>(particle, token, base log-probability, proposal log-probability)\<close>,
  interleaved over the particles in any order.\<close>

type_synonym observation = "nat \<times> int \<times> real \<times> real"

fun observe_all :: "power_smc_group_manager \<Rightarrow> observation list \<Rightarrow> power_smc_group_manager res" where
  "observe_all m [] = Inr m"
| "observe_all m ((i, tok, lp, lq) # obs) =
     rbind (update_after_token m i tok (Fin lp) (Fin lq) False None None) (\<lambda>(_, m').
       observe_all m' obs)"

definition base_sum :: "nat \<Rightarrow> observation list \<Rightarrow> real" where
  "base_sum i obs = (\<Sum>(j, _, lp, _)\<leftarrow>obs. if j = i then lp else 0)"

definition proposal_sum :: "nat \<Rightarrow> observation list \<Rightarrow> real" where
  "proposal_sum i obs = (\<Sum>(j, _, _, lq)\<leftarrow>obs. if j = i then lq else 0)"

lemma extend_particle_weight:
  assumes "current_state p = (Fin lw, Fin cl, Fin a)"
  shows "current_state (extend_particle B (Fin a') t (Fin lp) (Fin lq) fin fr sr p) =
         (Fin (lw + a' * (cl + lp) - a * cl - lq), Fin (cl + lp), Fin a')"
  using assms
  by (simp add: current_state_def extend_particle_def Let_def algebra_simps)

lemma alpha_ramp_finite: "is_finite a \<Longrightarrow> is_finite (alpha_ramp k a r)"
  by (cases a) (simp_all add: alpha_ramp_def Let_def)

lemma observe_all_weight:
  assumes "reachable_group c m" "is_finite (alpha c)" "observe_all m obs = Inr m'"
    "i < length (particles m)" "current_state (particles m ! i) = (Fin lw, Fin cl, Fin a)"
  shows "\<exists>a'. current_state (particles m' ! i) =
    (Fin (lw + a' * (cl + base_sum i obs) - a * cl - proposal_sum i obs),
     Fin (cl + base_sum i obs), Fin a')"
  using assms
proof (induction obs arbitrary: m lw cl a)
  case Nil
  then show ?case by (auto simp: base_sum_def proposal_sum_def intro!: exI[of _ a])
next
  case (Cons ob obs)
  obtain j tok lp lq where ob: "ob = (j, tok, lp, lq)" by (cases ob) auto
  from Cons.prems(3) obtain bd m1 where u:
    "update_after_token m j tok (Fin lp) (Fin lq) False None None = Inr (bd, m1)"
    and rest: "observe_all m1 obs = Inr m'" by (auto simp: ob res_simps)
  have reach: "reachable_group c m1" by (rule reachable_group.token[OF Cons.prems(1) u])
  obtain al where al: "j < length (particles m)"
    "particles m1 = (particles m)[j := extend_particle (block_size m) (Fin al) tok (Fin lp) (Fin lq)
       False None None (particles m ! j)]"
    using u
  proof (cases rule: update_after_token_cases)
    case (1 b)
    have "is_finite b"
      using 1(4) reachable_alpha_at_step[OF Cons.prems(1)] alpha_ramp_finite[OF Cons.prems(2)] by metis
    then show ?thesis using that 1 by (auto simp: is_finite_iff)
  qed
  show ?case
  proof (cases "j = i")
    case False
    then have "current_state (particles m1 ! i) = (Fin lw, Fin cl, Fin a)"
      using al Cons.prems(5) by simp
    from Cons.IH[OF reach Cons.prems(2) rest _ this] show ?thesis
      using Cons.prems(4) al False by (simp add: ob base_sum_def proposal_sum_def)
  next
    case True
    then have "current_state (particles m1 ! i) =
        (Fin (lw + al * (cl + lp) - a * cl - lq), Fin (cl + lp), Fin al)"
      using al by (simp add: extend_particle_weight[OF Cons.prems(5)])
    from Cons.IH[OF reach Cons.prems(2) rest _ this] show ?thesis
      using Cons.prems(4) al True by (auto simp: ob base_sum_def proposal_sum_def algebra_simps)
  qed
qed

text \<open>Rewinding through a run: what a boundary reports is not changed by later tokens.\<close>

lemma observe_all_state_at:
  assumes "group_ok m" "observe_all m obs = Inr m'" "i < length (particles m)"
    "rewindable (block_size m) (particles m ! i) b"
  shows "state_at (particles m' ! i) b = state_at (particles m ! i) b"
  using assms
proof (induction obs arbitrary: m)
  case (Cons ob obs)
  obtain j tok lp lq where ob: "ob = (j, tok, lp, lq)" by (cases ob) auto
  from Cons.prems(2) obtain bd m1 where u:
    "update_after_token m j tok (Fin lp) (Fin lq) False None None = Inr (bd, m1)"
    and rest: "observe_all m1 obs = Inr m'" by (auto simp: ob res_simps)
  have ok1: "group_ok m1" by (rule update_group_ok[OF Cons.prems(1) u])
  have pok: "particle_ok (block_size m) (particles m ! i)"
    using Cons.prems(1,3) by (simp add: group_ok_def)
  have "state_at (particles m1 ! i) b = state_at (particles m ! i) b \<and>
        rewindable (block_size m1) (particles m1 ! i) b \<and> length (particles m1) = length (particles m)"
    using u
  proof (cases rule: update_after_token_cases)
    case (1 al)
    then show ?thesis
      using Cons.prems(4) state_at_extend[OF pok Cons.prems(4)]
      by (cases "j = i") (simp_all add: rewindable_def)
  qed
  then show ?case using Cons.IH[OF ok1 rest] Cons.prems(3) by simp
qed simp

section \<open>Properties\<close>

text \<open>
  C2. Resampling never raises.  In every group state reachable from a validated configuration by
  token updates, resampling calls, recorded KV events and final selections, \<^verbatim>\<open>maybe_resample\<close> returns:
  the boundary state of every particle is available and the weights are there when they are needed.
\<close>

theorem maybe_resample_never_raises:
  assumes "reachable_group c m"
  shows "returns (maybe_resample m)"
  using reachable_group_ok[OF assms] by (rule maybe_resample_returns)

definition demo_config :: power_smc_config where
  "demo_config = default_config\<lparr>enabled := True, particles_cfg := 2, block_size_cfg := 1,
     ess_threshold := Fin 1, alpha_ramp_tokens := 1\<rparr>"

definition demo_rng :: py_rng where
  "demo_rng = \<lparr>draws = \<lambda>_. 1 / 2, drawn = 0\<rparr>"

definition demo_group :: power_smc_group_manager where
  "demo_group = projr (init_group_manager demo_config demo_rng)"

lemma replicate_2: "replicate 2 x = [x, x]"
  by (simp add: numeral_2_eq_2)

lemmas demo_group_defs = replicate_2 demo_group_def init_group_manager_def demo_config_def default_config_def
  validate_self_def float_of_int_def new_particle_state_def

lemma demo_group_init: "init_group_manager demo_config demo_rng = Inr demo_group"
  by (simp add: demo_group_defs)

lemma demo_group_reachable: "reachable_group demo_config demo_group"
  by (rule reachable_group.init[OF demo_group_init])

definition demo_group1 :: power_smc_group_manager where
  "demo_group1 = snd (projr (update_after_token demo_group 0 10 NegInf (Fin 0) False None None))"

definition demo_group2 :: power_smc_group_manager where
  "demo_group2 = snd (projr (update_after_token demo_group1 1 11 (Fin 0) (Fin 0) False None None))"

lemma demo_group1_step:
  "update_after_token demo_group 0 10 NegInf (Fin 0) False None None = Inr (True, demo_group1)"
  by (simp add: demo_group1_def demo_group_defs update_after_token_def Let_def)

lemma demo_group2_step:
  "update_after_token demo_group1 1 11 (Fin 0) (Fin 0) False None None = Inr (True, demo_group2)"
  by (simp add: demo_group2_def demo_group1_def demo_group_defs update_after_token_def Let_def)

lemma demo_group2_reachable: "reachable_group demo_config demo_group2"
  by (rule reachable_group.token[OF reachable_group.token[OF demo_group_reachable demo_group1_step]
        demo_group2_step])

lemma demo_resample: "maybe_resample demo_group2 = Inr (True, snd (projr (maybe_resample demo_group2)))"
  by (simp add: demo_group2_def demo_group1_def demo_group_defs update_after_token_def
        extend_particle_def fsub_def inf_mul_def feq_def fle_def demo_rng_def Let_def
        maybe_resample_def eligible_resample_boundary_def state_at_def current_state_def
        boundary_weights_def scan_step_def normalize_log_weights_and_ess_from_max_def
        unnormalized_weights_def math_fsum_def ess_of_denom_def apply_resample_def
        systematic_resample_def rng_random_def upt_rec advance.simps resampled_particle_def
        list_get_def)

theorem maybe_resample_never_raises_witness: "returns (maybe_resample demo_group2)"
  by (rule maybe_resample_never_raises) (rule demo_group2_reachable)

text \<open>
  C3. What a resampling does.  When \<^verbatim>\<open>maybe_resample\<close> reports a resampling on a reachable group, no
  particle was finished and there is a block boundary beyond the last one checked that every particle
  has reached; the plan names one existing ancestor per slot, in order; slot by slot the new particle
  consists of its ancestor's tokens up to the boundary, with log weight zero and not finished, and
  the plan's token lists are those tokens.
\<close>

theorem maybe_resample_effect:
  assumes "reachable_group c m" "maybe_resample m = Inr (True, m')"
  shows "\<exists>b anc. 0 < b \<and> block_size m dvd b \<and> last_boundary_check_length m < b \<and>
     last_boundary_check_length m' = b \<and>
     (\<forall>p \<in> set (particles m). \<not> is_done p \<and> b \<le> length (token_ids p)) \<and>
     length anc = length (particles m) \<and> sorted anc \<and> (\<forall>a \<in> set anc. a < length (particles m)) \<and>
     last_resample_plan m' = Some \<lparr>ancestors = anc, particle_token_ids = map token_ids (particles m')\<rparr> \<and>
     length (particles m') = length (particles m) \<and>
     (\<forall>i < length (particles m).
        token_ids (particles m' ! i) = take b (token_ids (particles m ! (anc ! i))) \<and>
        log_weight (particles m' ! i) = Fin 0 \<and> \<not> is_done (particles m' ! i))"
  using reachable_group_ok[OF assms(1)]
proof (cases rule: maybe_resample_split)
  case (skip reason m1)
  then show ?thesis using assms(2) by simp
next
  case (done_resample b states w ess anc)
  have m': "m' = resampled b states anc (at_boundary b ess (counted m))"
    using done_resample(10) assms(2) by simp
  show ?thesis
    using done_resample(2,7,8,9) eligible_boundary_Some[OF done_resample(1)] unfolding m'
    by (intro exI[of _ b] exI[of _ anc]) (simp add: resampled_def comp_def)
qed

theorem maybe_resample_effect_witness:
  "\<exists>b anc. 0 < b \<and> block_size demo_group2 dvd b \<and> last_boundary_check_length demo_group2 < b \<and>
     last_boundary_check_length (snd (projr (maybe_resample demo_group2))) = b \<and>
     (\<forall>p \<in> set (particles demo_group2). \<not> is_done p \<and> b \<le> length (token_ids p)) \<and>
     length anc = length (particles demo_group2) \<and> sorted anc \<and>
     (\<forall>a \<in> set anc. a < length (particles demo_group2)) \<and>
     last_resample_plan (snd (projr (maybe_resample demo_group2))) =
       Some \<lparr>ancestors = anc, particle_token_ids =
               map token_ids (particles (snd (projr (maybe_resample demo_group2))))\<rparr> \<and>
     length (particles (snd (projr (maybe_resample demo_group2)))) = length (particles demo_group2) \<and>
     (\<forall>i < length (particles demo_group2).
        token_ids (particles (snd (projr (maybe_resample demo_group2))) ! i) =
          take b (token_ids (particles demo_group2 ! (anc ! i))) \<and>
        log_weight (particles (snd (projr (maybe_resample demo_group2))) ! i) = Fin 0 \<and>
        \<not> is_done (particles (snd (projr (maybe_resample demo_group2))) ! i))"
  by (rule maybe_resample_effect[OF demo_group2_reachable demo_resample])

text \<open>
  C8. The log weight is the importance weight.  Over any interleaved run of tokens on a reachable
  group with a finite alpha, the log weight of every particle changes by exactly the change of
  \<^verbatim>\<open>alpha * cum_logp\<close> minus the proposal log-probabilities of its tokens, whatever the ramp did to
  alpha in between; for a fresh particle that is \<^verbatim>\<open>alpha_t * log p(y) - log q(y)\<close>.
\<close>

theorem log_weight_telescopes:
  assumes "reachable_group c m" "is_finite (alpha c)" "observe_all m obs = Inr m'"
    "i < length (particles m)" "current_state (particles m ! i) = (Fin lw, Fin cl, Fin a)"
  shows "\<exists>a'. current_state (particles m' ! i) =
    (Fin (lw + a' * (cl + base_sum i obs) - a * cl - proposal_sum i obs),
     Fin (cl + base_sum i obs), Fin a')"
  using assms by (rule observe_all_weight)

theorem log_weight_telescopes_witness:
  "\<exists>a'. current_state
     (particles (projr (observe_all demo_group [(1, 5, -2, -3), (0, 6, -1, -1)])) ! 1) =
    (Fin (0 + a' * (0 + base_sum 1 [(1, 5, -2, -3), (0, 6, -1, -1)]) - 1 * 0
          - proposal_sum 1 [(1, 5, -2, -3), (0, 6, -1, -1)]),
     Fin (0 + base_sum 1 [(1, 5, -2, -3), (0, 6, -1, -1)]), Fin a')"
  by (rule log_weight_telescopes[OF demo_group_reachable])
     (simp_all add: demo_group_defs update_after_token_def Let_def current_state_def extend_particle_def)

text \<open>
  C13. Rewinding is exact: the state that a particle of a reachable group reports for a block boundary it
  has kept is not changed by any further run of tokens.
\<close>

theorem rewind_exact:
  assumes "reachable_group c m" "observe_all m obs = Inr m'" "i < length (particles m)"
    "rewindable (block_size m) (particles m ! i) b"
  shows "state_at (particles m' ! i) b = state_at (particles m ! i) b \<and>
         returns (state_at (particles m ! i) b)"
proof
  have ok: "group_ok m" by (rule reachable_group_ok[OF assms(1)])
  then show "state_at (particles m' ! i) b = state_at (particles m ! i) b"
    using assms(2-4) by (rule observe_all_state_at)
  show "returns (state_at (particles m ! i) b)"
    using ok assms(3,4) by (intro state_at_defined) (simp_all add: group_ok_def)
qed

theorem rewind_exact_witness:
  "state_at (particles (projr (observe_all demo_group2 [(0, 12, -1, -1)])) ! 0) 1 =
     state_at (particles demo_group2 ! 0) 1 \<and>
   returns (state_at (particles demo_group2 ! 0) 1)"
  by (rule rewind_exact[OF demo_group2_reachable, of "[(0, 12, -1, -1)]"])
     (simp_all add: demo_group2_def demo_group1_def demo_group_defs update_after_token_def Let_def
        extend_particle_def rewindable_def)



end
