(* ===== verification/Sched_State.thy ===== *)
theory Sched_State
  imports KV_Manager Encoder_Cache Request_Queue Smc_Group
begin

text \<open>
  The state of \<^verbatim>\<open>src/vllm/vllm/v1/core/sched/scheduler.py\<close> and the life cycle of requests in it: arrival,
  streaming sessions, preemption, completion and release.  A request object is identified by its id and
  the dictionary \<^verbatim>\<open>requests\<close> holds its fields, so the queues are lists of ids.  The model covers schedulers
  without KV and encoder-cache connectors, without routed-expert output, metrics and traces; the
  statuses that only a connector sets are kept where the code tests them.
\<close>

section \<open>The encoder cache in use\<close>

datatype enc_cache = EncCache encoder_cache_manager | EncDecCache encoder_decoder_cache

fun enc_check_and_update :: "request \<Rightarrow> nat \<Rightarrow> enc_cache \<Rightarrow> (bool \<times> enc_cache) res" where
  "enc_check_and_update req i (EncCache e) =
     rbind (check_and_update_cache req i e) (\<lambda>(b, e'). Inr (b, EncCache e'))"
| "enc_check_and_update req i (EncDecCache e) = Inr (False, EncDecCache e)"

fun enc_can_allocate :: "request \<Rightarrow> nat \<Rightarrow> int \<Rightarrow> nat \<Rightarrow> enc_cache \<Rightarrow> (bool \<times> enc_cache) res" where
  "enc_can_allocate req i budget scheduled (EncCache e) =
     rbind (can_allocate req i budget scheduled e) (\<lambda>(b, e'). Inr (b, EncCache e'))"
| "enc_can_allocate req i budget scheduled (EncDecCache e) =
     rbind (ed_can_allocate req i budget scheduled e) (\<lambda>b. Inr (b, EncDecCache e))"

fun enc_allocate :: "request \<Rightarrow> nat \<Rightarrow> enc_cache \<Rightarrow> enc_cache res" where
  "enc_allocate req i (EncCache e) = rbind (allocate_encoder req i e) (\<lambda>e'. Inr (EncCache e'))"
| "enc_allocate req i (EncDecCache e) = rbind (ed_allocate req i e) (\<lambda>e'. Inr (EncDecCache e'))"

fun enc_free :: "request \<Rightarrow> enc_cache \<Rightarrow> enc_cache res" where
  "enc_free req (EncCache e) = rbind (free_encoder_request req e) (\<lambda>e'. Inr (EncCache e'))"
| "enc_free req (EncDecCache e) = rbind (ed_free req e) (\<lambda>e'. Inr (EncDecCache e'))"

fun enc_free_input :: "request \<Rightarrow> nat \<Rightarrow> enc_cache \<Rightarrow> enc_cache res" where
  "enc_free_input req i (EncCache e) = rbind (free_encoder_input req i e) (\<lambda>e'. Inr (EncCache e'))"
| "enc_free_input req i (EncDecCache e) = rbind (ed_free_encoder_input req i e) (\<lambda>e'. Inr (EncDecCache e'))"

text \<open>The cached input ids of a request, in increasing order.\<close>

fun enc_cached_input_ids :: "request \<Rightarrow> enc_cache \<Rightarrow> nat list" where
  "enc_cached_input_ids req (EncCache e) =
     filter (\<lambda>i. i \<in> get_cached_input_ids req e) [0..<length (mm_features req)]"
| "enc_cached_input_ids req (EncDecCache e) = [0..<length (mm_features req)]"

fun enc_get_freed :: "enc_cache \<Rightarrow> mm_hash list \<times> enc_cache" where
  "enc_get_freed (EncCache e) = (case get_freed_mm_hashes e of (hs, e') \<Rightarrow> (hs, EncCache e'))"
| "enc_get_freed (EncDecCache e) = (case ed_get_freed_mm_hashes e of (hs, e') \<Rightarrow> (hs, EncDecCache e'))"

fun enc_reset :: "enc_cache \<Rightarrow> enc_cache" where
  "enc_reset (EncCache e) = EncCache (reset_encoder_cache e)"
| "enc_reset (EncDecCache e) = EncDecCache (reset_encoder_decoder e)"

section \<open>The scheduler\<close>

datatype pause_state = UNPAUSED | PAUSED_NEW | PAUSED_ALL

text \<open>
  The first group of fields is the configuration, among them the random number generators that
  \<^verbatim>\<open>random.Random\<close> makes from a seed and from the entropy of the system.
\<close>

record scheduler =
  sc_policy :: scheduling_policy
  sc_block_size :: nat
  sc_cache_block_size :: nat
  sc_max_model_len :: nat
  sc_max_num_running_reqs :: nat
  sc_max_num_scheduled_tokens :: nat
  sc_long_prefill_token_threshold :: nat
  sc_enable_chunked_prefill :: bool
  sc_disable_chunked_mm_input :: bool
  sc_max_num_encoder_input_tokens :: nat
  sc_num_spec_tokens :: nat
  sc_num_lookahead_tokens :: nat
  sc_use_eagle :: bool
  sc_is_encoder_decoder :: bool
  sc_need_mamba_block_aligned_split :: bool
  sc_needs_kv_cache_zeroing :: bool
  sc_reserve_full_isl :: bool
  sc_use_pp :: bool
  sc_pp_size :: nat
  sc_async_scheduling :: bool
  sc_use_v2_model_runner :: bool
  sc_max_loras :: "nat option"
  sc_seeded_rng :: "int \<Rightarrow> py_rng"
  sc_system_rng :: "nat \<Rightarrow> py_rng"
  sc_num_system_rngs :: nat
  sc_kv :: kv_cache_manager
  sc_enc :: enc_cache
  sc_requests :: "(string \<times> request) list"
  waiting :: "string list"
  skipped_waiting :: "string list"
  running :: "string list"
  finished_req_ids :: "string set"
  prev_step_scheduled_req_ids :: "string set"
  num_waiting_for_streaming_input :: int
  finished_recving_kv_req_ids :: "string set"
  failed_recving_kv_req_ids :: "string set"
  sc_pause_state :: pause_state
  inflight_prefills :: "string set"
  current_step :: nat
  power_smc_group_managers :: "(string \<times> power_smc_group_manager) list"
  power_smc_group_children :: "(string \<times> (nat \<times> string) list) list"
  last_power_smc_kv_event :: "(string \<times> py_val) list option"

definition get_request :: "scheduler \<Rightarrow> string \<Rightarrow> request option" where
  "get_request s rid = map_of (sc_requests s) rid"

text \<open>The assignment to fields of a request object; one that has left the dictionary is not seen again.\<close>

definition put_request :: "request \<Rightarrow> scheduler \<Rightarrow> scheduler" where
  "put_request req s =
     (if get_request s (request_id req) = None then s
      else s\<lparr>sc_requests := dict_set (request_id req) req (sc_requests s)\<rparr>)"

definition with_kv :: "(kv_cache_manager \<Rightarrow> kv_cache_manager res) \<Rightarrow> scheduler \<Rightarrow> scheduler res" where
  "with_kv f s = rbind (f (sc_kv s)) (\<lambda>km. Inr (s\<lparr>sc_kv := km\<rparr>))"

definition with_enc :: "(enc_cache \<Rightarrow> enc_cache res) \<Rightarrow> scheduler \<Rightarrow> scheduler res" where
  "with_enc f s = rbind (f (sc_enc s)) (\<lambda>e. Inr (s\<lparr>sc_enc := e\<rparr>))"

section \<open>Queues\<close>

text \<open>
  The order of the priority queue.  Two queued objects have different ids, so the comparison never
  reaches the identity of the objects.
\<close>

definition queued_before :: "scheduler \<Rightarrow> string \<Rightarrow> string \<Rightarrow> bool" where
  "queued_before s a b =
     (case (get_request s a, get_request s b) of
        (Some ra, Some rb) \<Rightarrow> request_lt False ra rb
      | _ \<Rightarrow> False)"

definition queue_add :: "scheduler \<Rightarrow> string \<Rightarrow> string list \<Rightarrow> string list" where
  "queue_add s r q = (case sc_policy s of FCFS \<Rightarrow> fcfs_add r q | PRIORITY \<Rightarrow> priority_add (queued_before s) r q)"

definition queue_prepend :: "scheduler \<Rightarrow> string \<Rightarrow> string list \<Rightarrow> string list" where
  "queue_prepend s r q =
     (case sc_policy s of FCFS \<Rightarrow> fcfs_prepend r q | PRIORITY \<Rightarrow> priority_prepend (queued_before s) r q)"

definition queue_prepend_all :: "scheduler \<Rightarrow> string list \<Rightarrow> string list \<Rightarrow> string list" where
  "queue_prepend_all s rs q =
     (case sc_policy s of FCFS \<Rightarrow> fcfs_prepend_all rs q
                        | PRIORITY \<Rightarrow> priority_prepend_all (queued_before s) rs q)"

definition queue_remove_all :: "scheduler \<Rightarrow> string set \<Rightarrow> string list \<Rightarrow> string list" where
  "queue_remove_all s rs q =
     (case sc_policy s of FCFS \<Rightarrow> fcfs_remove_all rs q | PRIORITY \<Rightarrow> priority_remove_all rs q)"

fun is_blocked_waiting_status :: "request_status \<Rightarrow> bool" where
  "is_blocked_waiting_status WAITING_FOR_STRUCTURED_OUTPUT_GRAMMAR = True"
| "is_blocked_waiting_status WAITING_FOR_REMOTE_KVS = True"
| "is_blocked_waiting_status WAITING_FOR_STREAMING_REQ = True"
| "is_blocked_waiting_status _ = False"

definition enqueue_waiting_request :: "request \<Rightarrow> scheduler \<Rightarrow> scheduler" where
  "enqueue_waiting_request req s =
     (if is_blocked_waiting_status (status req)
      then s\<lparr>skipped_waiting := queue_add s (request_id req) (skipped_waiting s)\<rparr>
      else s\<lparr>waiting := queue_add s (request_id req) (waiting s)\<rparr>)"
section \<open>Streaming sessions\<close>

text \<open>
  \<^verbatim>\<open>_update_request_as_session\<close>: the output tokens that have been computed become part of the prompt, the
  last sampled token is dropped, and the tokens of the update follow.  The hashes of the request are
  kept and extended.
\<close>

definition shift_feature :: "nat \<Rightarrow> mm_feature \<Rightarrow> mm_feature" where
  "shift_feature base f = f\<lparr>mm_offset := mm_offset f + base\<rparr>"

definition update_request_as_session ::
  "request \<Rightarrow> streaming_update \<Rightarrow> scheduler \<Rightarrow> (request \<times> scheduler) res" where
  "update_request_as_session session upd s =
     (let n = num_computed_tokens session;
          kept = drop (num_prompt_tokens session) (take n (all_token_ids session));
          all0 = take n (all_token_ids session);
          new_toks = (case upd_prompt_token_ids upd of None \<Rightarrow> [] | Some ts \<Rightarrow> ts)
      in case prompt_token_ids session of
           None \<Rightarrow> Inl AssertionError
         | Some prompt \<Rightarrow>
             rbind (update_block_hashes
                      (session\<lparr>output_token_ids := [], all_token_ids := all0 @ new_toks,
                               prompt_token_ids := Some (prompt @ kept @ new_toks),
                               mm_features := mm_features session @
                                 map (shift_feature (length all0)) (upd_mm_features upd)\<rparr>)) (\<lambda>r1.
               let r2 = r1\<lparr>num_prompt_tokens := length (prompt @ kept @ new_toks),
                           arrival_time := upd_arrival_time upd,
                           req_sampling_params := upd_sampling_params upd,
                           status := WAITING\<rparr>;
                   s1 = (if status session = WAITING_FOR_STREAMING_REQ
                         then s\<lparr>num_waiting_for_streaming_input := num_waiting_for_streaming_input s - 1\<rparr>
                         else s)
               in Inr (r2, put_request r2 s1)))"

text \<open>\<^verbatim>\<open>_handle_stopped_request\<close>: the flag says that the request is finished.\<close>

definition handle_stopped_request :: "request \<Rightarrow> scheduler \<Rightarrow> (bool \<times> request \<times> scheduler) res" where
  "handle_stopped_request req s =
     (if \<not> resumable req then Inr (True, req, s)
      else case streaming_queue req of
             Some (None # q) \<Rightarrow>
               (let r1 = req\<lparr>streaming_queue := Some q\<rparr> in Inr (True, r1, put_request r1 s))
           | Some (Some upd # q) \<Rightarrow>
               rbind (update_request_as_session (req\<lparr>streaming_queue := Some q\<rparr>) upd s) (\<lambda>(r1, s1).
                 Inr (False, r1, enqueue_waiting_request r1 s1))
           | _ \<Rightarrow>
               (let r1 = req\<lparr>status := WAITING_FOR_STREAMING_REQ\<rparr>;
                    s1 = put_request r1 (s\<lparr>num_waiting_for_streaming_input :=
                           num_waiting_for_streaming_input s + 1\<rparr>)
                in Inr (False, r1, enqueue_waiting_request r1 s1)))"

section \<open>Releasing requests\<close>

text \<open>The index of a particle is read from decimal digits, so it is a natural number.\<close>

definition child_index :: "power_smc_child_request_info \<Rightarrow> nat" where
  "child_index info = nat (particle_idx info)"

definition forget_smc_child :: "request \<Rightarrow> scheduler \<Rightarrow> scheduler" where
  "forget_smc_child req s =
     (case power_smc_child_info req of
        None \<Rightarrow> s
      | Some info \<Rightarrow>
          (case map_of (power_smc_group_children s) (parent_id info) of
             None \<Rightarrow> s
           | Some children \<Rightarrow>
               let children' = dict_del (child_index info) children
               in if children' = []
                  then s\<lparr>power_smc_group_children := dict_del (parent_id info) (power_smc_group_children s),
                         power_smc_group_managers := dict_del (parent_id info) (power_smc_group_managers s)\<rparr>
                  else s\<lparr>power_smc_group_children :=
                           dict_set (parent_id info) children' (power_smc_group_children s)\<rparr>))"

definition sched_free_blocks :: "request \<Rightarrow> scheduler \<Rightarrow> scheduler res" where
  "sched_free_blocks req s =
     py_assert (is_finished req)
       (rbind (with_kv (km_free req) s) (\<lambda>s1.
        let s2 = forget_smc_child req s1
        in if get_request s2 (request_id req) = None then Inl KeyError
           else Inr (s2\<lparr>sc_requests := dict_del (request_id req) (sc_requests s2)\<rparr>)))"

definition sched_free_request :: "request \<Rightarrow> bool \<Rightarrow> scheduler \<Rightarrow> scheduler res" where
  "sched_free_request req delay s =
     py_assert (is_finished req)
       (rbind (with_enc (enc_free req)
                 (s\<lparr>inflight_prefills := inflight_prefills s - {request_id req}\<rparr>)) (\<lambda>s1.
        let s2 = s1\<lparr>finished_req_ids := insert (request_id req) (finished_req_ids s1)\<rparr>
        in if delay then Inr s2 else sched_free_blocks req s2))"

text \<open>
  \<^verbatim>\<open>finish_requests\<close>: the requests of \<open>ids\<close> that are live leave the queues, then each gets its final status
  and is released.  \<open>None\<close> stands for all requests.
\<close>

definition live_request :: "scheduler \<Rightarrow> string \<Rightarrow> bool" where
  "live_request s rid = (case get_request s rid of None \<Rightarrow> False | Some r \<Rightarrow> \<not> is_finished r)"

definition status_of :: "scheduler \<Rightarrow> string \<Rightarrow> request_status option" where
  "status_of s rid = map_option status (get_request s rid)"

fun finish_each :: "request_status \<Rightarrow> string list \<Rightarrow> scheduler \<Rightarrow> scheduler res" where
  "finish_each st [] s = Inr s"
| "finish_each st (rid # rids) s =
     (case get_request s rid of
        None \<Rightarrow> finish_each st rids s
      | Some req \<Rightarrow>
          let remote = (status req = WAITING_FOR_REMOTE_KVS);
              delay = remote \<and> rid \<notin> finished_recving_kv_req_ids s;
              s1 = (if remote
                    then s\<lparr>finished_recving_kv_req_ids := finished_recving_kv_req_ids s - {rid},
                           failed_recving_kv_req_ids := failed_recving_kv_req_ids s - {rid}\<rparr>
                    else s);
              req1 = req\<lparr>status := st\<rparr>
          in rbind (sched_free_request req1 delay (put_request req1 s1)) (finish_each st rids))"

definition finish_requests ::
  "string list option \<Rightarrow> request_status \<Rightarrow> scheduler \<Rightarrow> (string list \<times> scheduler) res" where
  "finish_requests ids st s =
     py_assert (is_finished_status st)
       (let rids = filter (live_request s)
                     (case ids of None \<Rightarrow> map fst (sc_requests s) | Some l \<Rightarrow> remdups l);
            run = filter (\<lambda>r. status_of s r = Some RUNNING) rids;
            wait = filter (\<lambda>r. status_of s r \<noteq> Some RUNNING) rids;
            streaming = length (filter (\<lambda>r. status_of s r = Some WAITING_FOR_STREAMING_REQ) rids);
            s1 = s\<lparr>num_waiting_for_streaming_input := num_waiting_for_streaming_input s - int streaming\<rparr>;
            s2 = (if run = [] then s1 else s1\<lparr>running := remove_all (running s1) (set run)\<rparr>);
            s3 = (if wait = [] then s2
                  else s2\<lparr>waiting := queue_remove_all s2 (set wait) (waiting s2),
                          skipped_waiting := queue_remove_all s2 (set wait) (skipped_waiting s2)\<rparr>)
        in rbind (finish_each st rids s3) (\<lambda>s4. Inr (rids, s4)))"

section \<open>Arrival and preemption\<close>

definition add_request :: "request \<Rightarrow> scheduler \<Rightarrow> scheduler res" where
  "add_request req s =
     (case get_request s (request_id req) of
        Some existing \<Rightarrow>
          (case streaming_update_from_request req of
             upd \<Rightarrow>
               if status existing \<noteq> WAITING_FOR_STREAMING_REQ
               then (case streaming_queue existing of
                       None \<Rightarrow> Inl AssertionError
                     | Some q \<Rightarrow> Inr (put_request (existing\<lparr>streaming_queue := Some (q @ [upd])\<rparr>) s))
               else (case upd of
                       Some u \<Rightarrow> rbind (update_request_as_session existing u s) (\<lambda>(_, s1). Inr s1)
                     | None \<Rightarrow> rbind (finish_requests (Some [request_id req]) FINISHED_ABORTED s)
                                 (\<lambda>(_, s1). Inr s1)))
      | None \<Rightarrow>
          let req1 = (if resumable req then req\<lparr>streaming_queue := Some []\<rparr> else req);
              s1 = s\<lparr>sc_requests := dict_set (request_id req) req1 (sc_requests s)\<rparr>
          in Inr (enqueue_waiting_request req1 s1))"

text \<open>The request has been taken from the running list by the caller.\<close>

definition preempt_request :: "request \<Rightarrow> scheduler \<Rightarrow> scheduler res" where
  "preempt_request req s =
     py_assert (status req = RUNNING)
       (rbind (with_kv (km_free req) s) (\<lambda>s1.
        rbind (with_enc (enc_free req) s1) (\<lambda>s2.
          let req1 = req\<lparr>status := PREEMPTED, num_computed_tokens := 0, spec_token_ids := [],
                         num_preemptions := num_preemptions req + 1\<rparr>;
              s3 = put_request req1 (s2\<lparr>inflight_prefills := inflight_prefills s2 - {request_id req}\<rparr>)
          in Inr (s3\<lparr>waiting := queue_prepend s3 (request_id req) (waiting s3)\<rparr>))))"

section \<open>Counters and resets\<close>

definition get_request_counts :: "scheduler \<Rightarrow> nat \<times> nat" where
  "get_request_counts s = (length (running s), length (waiting s) + length (skipped_waiting s))"

definition get_num_unfinished_requests :: "scheduler \<Rightarrow> int" where
  "get_num_unfinished_requests s =
     (case sc_pause_state s of
        PAUSED_ALL \<Rightarrow> 0
      | PAUSED_NEW \<Rightarrow> int (length (running s))
      | UNPAUSED \<Rightarrow> int (length (waiting s)) + int (length (skipped_waiting s))
                    - num_waiting_for_streaming_input s + int (length (running s)))"

definition has_finished_requests :: "scheduler \<Rightarrow> bool" where
  "has_finished_requests s \<longleftrightarrow> finished_req_ids s \<noteq> {}"

text \<open>The loop of \<^verbatim>\<open>reset_prefix_cache\<close> over the running list, from its end.\<close>

fun preempt_all :: "string list \<Rightarrow> scheduler \<Rightarrow> scheduler res" where
  "preempt_all [] s = Inr s"
| "preempt_all (rid # rids) s =
     (case get_request s rid of
        None \<Rightarrow> Inl KeyError
      | Some req \<Rightarrow>
          rbind (preempt_request req (s\<lparr>running := butlast (running s)\<rparr>)) (\<lambda>s1.
            case get_request s1 rid of
              None \<Rightarrow> Inl KeyError
            | Some req1 \<Rightarrow>
                preempt_all rids (put_request
                  (req1\<lparr>async_tokens_to_discard := num_output_placeholders req1,
                        num_output_placeholders := 0\<rparr>) s1)))"

definition sched_reset_prefix_cache :: "bool \<Rightarrow> scheduler \<Rightarrow> (bool \<times> scheduler) res" where
  "sched_reset_prefix_cache reset_running s =
     rbind (if reset_running
            then rbind (preempt_all (rev (running s)) s) (\<lambda>s1. Inr (s1\<lparr>prev_step_scheduled_req_ids := {}\<rparr>))
            else Inr s) (\<lambda>s1.
       case km_reset_prefix_cache (sc_kv s1) of
         (ok, km) \<Rightarrow>
           if reset_running \<and> \<not> ok then Inl RuntimeError
           else Inr (ok, s1\<lparr>sc_kv := km\<rparr>))"

definition sched_reset_encoder_cache :: "scheduler \<Rightarrow> scheduler" where
  "sched_reset_encoder_cache s = s\<lparr>sc_enc := enc_reset (sc_enc s)\<rparr>"

end
