(* ===== verification/Sched_Smc.thy ===== *)
theory Sched_Smc
  imports Sched_State
begin

text \<open>
  The Power-SMC hooks of \<^verbatim>\<open>src/vllm/vllm/v1/core/sched/scheduler.py\<close>: the group manager of a parent request,
  the observation of sampled tokens, the gate that holds fast particles at a block boundary, and the
  application of a resampling plan to the requests and their KV-cache blocks.
\<close>

section \<open>Observing tokens\<close>

fun finish_reason_str :: "finish_reason_enum \<Rightarrow> string" where
  "finish_reason_str FR_STOP = ''stop''"
| "finish_reason_str FR_LENGTH = ''length''"
| "finish_reason_str FR_ABORT = ''abort''"
| "finish_reason_str FR_ERROR = ''error''"
| "finish_reason_str FR_REPETITION = ''repetition''"

definition power_smc_should_pause_at_group_boundary :: "scheduler \<Rightarrow> request \<Rightarrow> bool" where
  "power_smc_should_pause_at_group_boundary s req =
     (case (req_power_smc_config req, power_smc_child_info req) of
        (Some c, Some info) \<Rightarrow>
          if num_computed_tokens req < num_tokens req then False
          else let n = num_output_tokens req
               in if n = 0 \<or> int n mod block_size_cfg c \<noteq> 0 then False
                  else (case map_of (power_smc_group_managers s) (parent_id info) of
                          None \<Rightarrow> False
                        | Some m \<Rightarrow> list_ex (\<lambda>p. length (token_ids p) < n) (particles m))
      | _ \<Rightarrow> False)"

text \<open>
  \<^verbatim>\<open>random.Random(seed)\<close> for the seed of the parent, which is the seed of the child minus its index.
\<close>

definition group_rng :: "request \<Rightarrow> power_smc_child_request_info \<Rightarrow> scheduler \<Rightarrow> py_rng \<times> scheduler" where
  "group_rng req info s =
     (case req_sampling_params req of
        None \<Rightarrow> (sc_system_rng s (sc_num_system_rngs s), s\<lparr>sc_num_system_rngs := sc_num_system_rngs s + 1\<rparr>)
      | Some sp \<Rightarrow>
          (case seed sp of
             None \<Rightarrow> (sc_system_rng s (sc_num_system_rngs s), s\<lparr>sc_num_system_rngs := sc_num_system_rngs s + 1\<rparr>)
           | Some k \<Rightarrow> (sc_seeded_rng s (k - particle_idx info), s)))"

definition get_power_smc_group_manager ::
  "request \<Rightarrow> scheduler \<Rightarrow> ((string \<times> nat \<times> power_smc_group_manager) option \<times> scheduler) res" where
  "get_power_smc_group_manager req s =
     (case (req_power_smc_config req, power_smc_child_info req) of
        (Some c, Some info) \<Rightarrow>
          if particle_idx info \<ge> particles_cfg c then Inl RuntimeError
          else let pid = parent_id info; idx = child_index info
               in rbind (case map_of (power_smc_group_managers s) pid of
                           Some m \<Rightarrow> Inr (m, s)
                         | None \<Rightarrow>
                             (case group_rng req info s of
                                (g, s0) \<Rightarrow>
                                  rbind (init_group_manager c g) (\<lambda>m.
                                    Inr (m, s0\<lparr>power_smc_group_managers := dict_set pid m (power_smc_group_managers s0),
                                               power_smc_group_children := dict_set pid [] (power_smc_group_children s0)\<rparr>))))
                    (\<lambda>(m, s1).
                      case map_of (power_smc_group_children s1) pid of
                        None \<Rightarrow> Inl KeyError
                      | Some children \<Rightarrow>
                          Inr (Some (pid, idx, m),
                               s1\<lparr>power_smc_group_children :=
                                    dict_set pid (dict_set idx (request_id req) children)
                                      (power_smc_group_children s1)\<rparr>))
      | _ \<Rightarrow> Inr (None, s))"

definition set_group_manager :: "string \<Rightarrow> power_smc_group_manager \<Rightarrow> scheduler \<Rightarrow> scheduler" where
  "set_group_manager pid m s =
     s\<lparr>power_smc_group_managers := dict_set pid m (power_smc_group_managers s)\<rparr>"

text \<open>The parent to check for resampling, if there is one.\<close>

definition observe_power_smc_request_output ::
  "request \<Rightarrow> int list \<Rightarrow> (pyfloat \<times> pyfloat) option \<Rightarrow> finish_reason_enum option \<Rightarrow> stop_value option \<Rightarrow>
   scheduler \<Rightarrow> (string option \<times> scheduler) res" where
  "observe_power_smc_request_output req new_toks logps fr sr s =
     (if new_toks = [] then Inr (None, s)
      else rbind (get_power_smc_group_manager req s) (\<lambda>(gi, s1).
        case gi of
          None \<Rightarrow> Inr (None, s1)
        | Some (pid, idx, m) \<Rightarrow>
            (case logps of
               None \<Rightarrow> Inl RuntimeError
             | Some (base_logp, proposal_logq) \<Rightarrow>
                 if length new_toks \<noteq> 1 then Inl RuntimeError
                 else rbind (update_after_token m idx (hd new_toks) base_logp proposal_logq (fr \<noteq> None)
                               (map_option finish_reason_str fr) sr) (\<lambda>(boundary, m').
                        Inr (if fr \<noteq> None \<or> boundary then Some pid else None,
                             set_group_manager pid m' s1)))))"

section \<open>Diagnostics of the block pool\<close>

definition power_smc_kv_pool_snapshot :: "scheduler \<Rightarrow> (string \<times> py_val) list" where
  "power_smc_kv_pool_snapshot s =
     (let p = km_pool (sc_kv s); free_n = get_num_free_blocks p
      in [(''total_blocks'', VInt (int (num_gpu_blocks p))), (''free_blocks'', VInt free_n),
          (''used_blocks'', VInt (int (num_gpu_blocks p) - free_n)), (''usage'', VFloat (get_usage p))])"

definition add_power_smc_kv_pool_snapshot ::
  "string \<Rightarrow> scheduler \<Rightarrow> (string \<times> py_val) list \<Rightarrow> (string \<times> py_val) list" where
  "add_power_smc_kv_pool_snapshot suffix s ev =
     fold (\<lambda>(k, v). dict_set (''kv_pool_'' @ k @ ''_'' @ suffix) v) (power_smc_kv_pool_snapshot s) ev"

definition power_smc_kv_alias_supported :: "scheduler \<Rightarrow> bool" where
  "power_smc_kv_alias_supported s \<longleftrightarrow>
     list_all (\<lambda>g. spec_block_size (group_spec g) = sc_block_size s)
       (kv_cache_groups (co_config (km_coordinator (sc_kv s))))"

definition power_smc_child_resample_is_scheduler_noop :: "request \<Rightarrow> int list \<Rightarrow> bool \<Rightarrow> bool" where
  "power_smc_child_resample_is_scheduler_noop req toks same_ancestor \<longleftrightarrow>
     same_ancestor \<and> has_output_token_ids req toks \<and> num_tokens req \<le> num_computed_tokens req \<and>
     \<not> (num_output_placeholders req \<noteq> 0 \<or> async_tokens_to_discard req \<noteq> 0 \<or> spec_token_ids req \<noteq> [] \<or>
        is_prefill_chunk req)"
section \<open>Aliasing blocks, with the state that a \<^verbatim>\<open>ValueError\<close> leaves\<close>

text \<open>
  The scheduler catches a \<^verbatim>\<open>ValueError\<close> of \<^verbatim>\<open>alias_request_blocks_from_snapshot\<close>.  A manager raises it before it
  changes anything, but the managers before it have already been changed, so the caught call returns the
  managers and the pool as they are at that point.
\<close>

fun alias_each ::
  "string \<Rightarrow> bref list list \<Rightarrow> nat list \<Rightarrow> int \<Rightarrow> kv_manager list \<Rightarrow> block_pool \<Rightarrow>
   (bool \<times> kv_manager list \<times> block_pool) res" where
  "alias_each dst (b # bs) (c # cs) n (m # ms) p =
     (case alias_request_blocks_from_snapshot dst b c n (m, p) of
        Inl e \<Rightarrow> if e = ValueError then Inr (False, m # ms, p) else Inl e
      | Inr (m', p') \<Rightarrow>
          rbind (alias_each dst bs cs n ms p') (\<lambda>(ok, ms', p''). Inr (ok, m' # ms', p'')))"
| "alias_each dst _ _ n ms p = Inr (True, ms, p)"

definition try_alias_from_snapshot ::
  "string \<Rightarrow> kv_cache_blocks \<Rightarrow> nat list \<Rightarrow> int \<Rightarrow> kv_cache_manager \<Rightarrow> (bool \<times> kv_cache_manager) res" where
  "try_alias_from_snapshot dst src_blocks src_num_cached n km =
     (let co = km_coordinator km; ms = single_type_managers co
      in if length src_blocks \<noteq> length ms \<or> length src_num_cached \<noteq> length ms then Inr (False, km)
         else rbind (alias_each dst src_blocks src_num_cached n ms (co_pool co)) (\<lambda>(ok, ms', p').
                Inr (ok, with_coordinator km (co\<lparr>single_type_managers := ms', co_pool := p'\<rparr>))))"

section \<open>Applying a resampling plan\<close>

text \<open>The first pass over the particles: the live children, which of them keep their state, the ancestors needed.\<close>

record smc_scan =
  scan_active :: "(nat \<times> int list \<times> string) list"
  scan_noop :: "nat list"
  scan_needed :: "(nat \<times> string) list"
  scan_all_noop :: bool

definition scan_child ::
  "scheduler \<Rightarrow> power_smc_resample_plan \<Rightarrow> (nat \<times> string) list \<Rightarrow> bool \<Rightarrow> nat \<times> int list \<Rightarrow> smc_scan \<Rightarrow>
   smc_scan res" where
  "scan_child s plan children can_alias ent acc =
     (case ent of (idx, toks) \<Rightarrow>
       case map_of children idx of
         None \<Rightarrow> Inr (acc\<lparr>scan_all_noop := False\<rparr>)
       | Some rid \<Rightarrow>
           (case get_request s rid of
              None \<Rightarrow> Inr (acc\<lparr>scan_all_noop := False\<rparr>)
            | Some req \<Rightarrow>
                if is_finished req then Inr (acc\<lparr>scan_all_noop := False\<rparr>)
                else let acc1 = acc\<lparr>scan_active := scan_active acc @ [(idx, toks, rid)]\<rparr>
                     in rbind (list_get (ancestors plan) idx) (\<lambda>a.
                        if power_smc_child_resample_is_scheduler_noop req toks (a = idx)
                        then Inr (acc1\<lparr>scan_noop := scan_noop acc1 @ [idx]\<rparr>)
                        else let acc2 = acc1\<lparr>scan_all_noop := False\<rparr>
                             in Inr (case map_of children a of
                                       Some arid \<Rightarrow>
                                         if can_alias \<and> get_request s arid \<noteq> None \<and>
                                            map_of (scan_needed acc2) a = None
                                         then acc2\<lparr>scan_needed := scan_needed acc2 @ [(a, arid)]\<rparr>
                                         else acc2
                                     | None \<Rightarrow> acc2))))"

fun scan_children ::
  "scheduler \<Rightarrow> power_smc_resample_plan \<Rightarrow> (nat \<times> string) list \<Rightarrow> bool \<Rightarrow> (nat \<times> int list) list \<Rightarrow> smc_scan \<Rightarrow>
   smc_scan res" where
  "scan_children s plan children can_alias [] acc = Inr acc"
| "scan_children s plan children can_alias (e # es) acc =
     rbind (scan_child s plan children can_alias e acc) (scan_children s plan children can_alias es)"

text \<open>The second pass: alias or free the blocks of every child and reset it.  The counters of the event.\<close>

type_synonym smc_snapshots = "(nat \<times> kv_cache_blocks \<times> nat list) list"

record smc_counts =
  cnt_child :: nat
  cnt_attempt :: nat
  cnt_success :: nat
  cnt_fallback :: nat
  cnt_blocks :: nat
  cnt_tokens :: nat
  cnt_replay :: nat
  cnt_noop :: nat
  cnt_by_ancestor :: "(nat \<times> nat) list"

definition no_counts :: smc_counts where
  "no_counts = \<lparr>cnt_child = 0, cnt_attempt = 0, cnt_success = 0, cnt_fallback = 0, cnt_blocks = 0,
     cnt_tokens = 0, cnt_replay = 0, cnt_noop = 0, cnt_by_ancestor = []\<rparr>"

definition num_alias_blocks :: "nat \<Rightarrow> request \<Rightarrow> int list \<Rightarrow> nat" where
  "num_alias_blocks bsize req toks =
     (let safe = int (num_prompt_tokens req) + int (length toks) - 1
      in if safe \<le> 0 then 0 else nat safe div bsize)"

text \<open>The number of tokens whose blocks the child now shares.\<close>

definition alias_child ::
  "smc_snapshots \<Rightarrow> nat \<Rightarrow> int list \<Rightarrow> request \<Rightarrow> smc_counts \<Rightarrow> scheduler \<Rightarrow> (nat \<times> smc_counts \<times> scheduler) res" where
  "alias_child snaps a toks req cnt s =
     (case map_of snaps a of
        None \<Rightarrow> Inr (0, cnt, s)
      | Some (src_blocks, src_num_cached) \<Rightarrow>
          let n = num_alias_blocks (sc_block_size s) req toks;
              cnt1 = cnt\<lparr>cnt_attempt := cnt_attempt cnt + 1\<rparr>
          in if n = 0 then Inr (0, cnt, s)
             else rbind (try_alias_from_snapshot (request_id req) src_blocks src_num_cached (int n) (sc_kv s))
                    (\<lambda>(ok, km).
                      if ok
                      then Inr (n * sc_block_size s,
                             cnt1\<lparr>cnt_success := cnt_success cnt1 + 1, cnt_blocks := cnt_blocks cnt1 + n,
                                  cnt_tokens := cnt_tokens cnt1 + n * sc_block_size s,
                                  cnt_by_ancestor := dict_set a
                                    (max (case map_of (cnt_by_ancestor cnt1) a of None \<Rightarrow> 0 | Some k \<Rightarrow> k) n)
                                    (cnt_by_ancestor cnt1)\<rparr>,
                             s\<lparr>sc_kv := km\<rparr>)
                      else Inr (0, cnt1, s\<lparr>sc_kv := km\<rparr>)))"

definition reset_child :: "int list \<Rightarrow> nat \<Rightarrow> request \<Rightarrow> request res" where
  "reset_child toks computed req =
     rbind (reset_output_token_ids req toks) (\<lambda>r.
       Inr (r\<lparr>num_computed_tokens := computed, num_output_placeholders := 0, async_tokens_to_discard := 0,
              spec_token_ids := [], is_prefill_chunk := False, status := PREEMPTED\<rparr>))"

definition resample_child ::
  "smc_snapshots \<Rightarrow> nat \<Rightarrow> int list \<Rightarrow> request \<Rightarrow> smc_counts \<Rightarrow> scheduler \<Rightarrow> (smc_counts \<times> scheduler) res" where
  "resample_child snaps a toks req cnt s =
     rbind (alias_child snaps a toks req cnt s) (\<lambda>(computed, cnt1, s1).
     rbind (if computed = 0 then with_kv (km_free req) s1 else Inr s1) (\<lambda>s2.
     rbind (with_enc (enc_free req) s2) (\<lambda>s3.
     rbind (reset_child toks computed req) (\<lambda>req1.
       Inr (cnt1\<lparr>cnt_fallback := cnt_fallback cnt1 + (if computed = 0 then 1 else 0),
                 cnt_replay := cnt_replay cnt1 + (num_tokens req1 - computed)\<rparr>,
            put_request req1 (s3\<lparr>inflight_prefills := inflight_prefills s3 - {request_id req}\<rparr>))))))"

fun resample_children ::
  "smc_snapshots \<Rightarrow> power_smc_resample_plan \<Rightarrow> nat list \<Rightarrow> (nat \<times> int list \<times> string) list \<Rightarrow>
   string list \<Rightarrow> smc_counts \<Rightarrow> scheduler \<Rightarrow> (string list \<times> smc_counts \<times> scheduler) res" where
  "resample_children snaps plan noop [] done_ids cnt s = Inr (done_ids, cnt, s)"
| "resample_children snaps plan noop ((idx, toks, rid) # es) done_ids cnt s =
     (let cnt1 = cnt\<lparr>cnt_child := cnt_child cnt + 1\<rparr>
      in if idx \<in> set noop
         then resample_children snaps plan noop es done_ids (cnt1\<lparr>cnt_noop := cnt_noop cnt1 + 1\<rparr>) s
         else rbind (list_get (ancestors plan) idx) (\<lambda>a.
              case get_request s rid of
                None \<Rightarrow> Inl KeyError
              | Some req \<Rightarrow>
                  rbind (resample_child snaps a toks req cnt1 s) (\<lambda>(cnt2, s1).
                    resample_children snaps plan noop es (done_ids @ [rid]) cnt2 s1)))"

section \<open>The event and the whole method\<close>

definition initial_kv_event :: "power_smc_group_manager \<Rightarrow> bool \<Rightarrow> scheduler \<Rightarrow> (string \<times> py_val) list" where
  "initial_kv_event m supported s =
     [(''resample_index'', VInt (int (resample_count m))), (''kv_cow_enabled'', VBool (kv_cow (config m))),
      (''kv_alias_supported'', VBool supported),
      (''kv_mode'', VStr (if kv_cow (config m) \<and> supported then ''snapshot_alias_replay''
                          else if \<not> kv_cow (config m) then ''disabled_reset_recompute''
                          else ''unsupported_reset_recompute'')),
      (''block_size'', VInt (int (sc_block_size s))), (''child_count'', VInt 0), (''snapshot_count'', VInt 0),
      (''alias_attempt_count'', VInt 0), (''alias_success_count'', VInt 0), (''fallback_count'', VInt 0),
      (''aliased_blocks'', VInt 0), (''aliased_tokens'', VInt 0), (''cow_physical_blocks'', VInt 0),
      (''cow_saved_blocks'', VInt 0), (''cow_saved_tokens'', VInt 0), (''replay_tokens'', VInt 0),
      (''identity_noop_count'', VInt 0)]"

definition set_all :: "(string \<times> py_val) list \<Rightarrow> (string \<times> py_val) list \<Rightarrow> (string \<times> py_val) list" where
  "set_all kvs ev = fold (\<lambda>(k, v). dict_set k v) kvs ev"

definition counts_event :: "nat \<Rightarrow> smc_counts \<Rightarrow> (string \<times> py_val) list" where
  "counts_event bsize cnt =
     (let physical = sum_list (map snd (cnt_by_ancestor cnt)); saved = cnt_blocks cnt - physical
      in [(''child_count'', VInt (int (cnt_child cnt))), (''alias_attempt_count'', VInt (int (cnt_attempt cnt))),
          (''alias_success_count'', VInt (int (cnt_success cnt))),
          (''fallback_count'', VInt (int (cnt_fallback cnt))), (''aliased_blocks'', VInt (int (cnt_blocks cnt))),
          (''aliased_tokens'', VInt (int (cnt_tokens cnt))), (''replay_tokens'', VInt (int (cnt_replay cnt))),
          (''identity_noop_count'', VInt (int (cnt_noop cnt))), (''cow_physical_blocks'', VInt (int physical)),
          (''cow_saved_blocks'', VInt (int saved)), (''cow_saved_tokens'', VInt (int (saved * bsize)))])"

definition publish_kv_event ::
  "string \<Rightarrow> power_smc_group_manager \<Rightarrow> (string \<times> py_val) list \<Rightarrow> scheduler \<Rightarrow> scheduler" where
  "publish_kv_event pid m ev s =
     (let ev1 = (if kv_pool_diagnostics (config m) then add_power_smc_kv_pool_snapshot ''after'' s ev else ev)
      in set_group_manager pid (record_kv_resample_event ev1 m) (s\<lparr>last_power_smc_kv_event := Some ev1\<rparr>))"

definition take_snapshots :: "(nat \<times> string) list \<Rightarrow> kv_cache_manager \<Rightarrow> smc_snapshots" where
  "take_snapshots needed km =
     map (\<lambda>(a, rid). (a, km_get_blocks rid km, km_get_num_cached_blocks rid km)) needed"

definition apply_power_smc_resample_plan ::
  "string \<Rightarrow> power_smc_group_manager \<Rightarrow> scheduler \<Rightarrow> (string list \<times> scheduler) res" where
  "apply_power_smc_resample_plan pid m s =
     (case last_resample_plan m of
        None \<Rightarrow> Inr ([], s)
      | Some plan \<Rightarrow>
          let children = (case map_of (power_smc_group_children s) pid of None \<Rightarrow> [] | Some c \<Rightarrow> c);
              supported = power_smc_kv_alias_supported s;
              can_alias = kv_cow (config m) \<and> supported;
              n = length (particle_token_ids plan);
              ev0 = initial_kv_event m supported s;
              ev1 = (if kv_pool_diagnostics (config m)
                     then add_power_smc_kv_pool_snapshot ''before'' s ev0 else ev0)
          in rbind (scan_children s plan children can_alias (zip [0..<n] (particle_token_ids plan))
                      \<lparr>scan_active = [], scan_noop = [], scan_needed = [], scan_all_noop = True\<rparr>) (\<lambda>sc.
             if scan_all_noop sc
             then Inr ([], publish_kv_event pid m
                             (set_all [(''kv_mode'', VStr ''identity_noop''), (''child_count'', VInt (int n)),
                                       (''identity_noop_count'', VInt (int n))] ev1) s)
             else let snaps = (if can_alias then take_snapshots (scan_needed sc) (sc_kv s) else []);
                      ev2 = (if can_alias
                             then dict_set ''snapshot_count'' (VInt (int (length snaps))) ev1 else ev1)
                  in rbind (resample_children snaps plan (scan_noop sc) (scan_active sc) [] no_counts s)
                       (\<lambda>(rids, cnt, s1).
                         if rids = [] then Inr ([], s1)
                         else Inr (rids, publish_kv_event pid m
                                           (set_all (counts_event (sc_block_size s1) cnt) ev2) s1))))"

definition maybe_resample_power_smc_parent :: "string \<Rightarrow> scheduler \<Rightarrow> (string list \<times> scheduler) res" where
  "maybe_resample_power_smc_parent pid s =
     (case map_of (power_smc_group_managers s) pid of
        None \<Rightarrow> Inr ([], s)
      | Some m \<Rightarrow>
          rbind (maybe_resample m) (\<lambda>(b, m').
            let s1 = set_group_manager pid m' s
            in if b then apply_power_smc_resample_plan pid m' s1 else Inr ([], s1)))"

end
