(* ===== verification/Sched_Update.thy ===== *)
theory Sched_Update
  imports Sched_Smc
begin

text \<open>
  \<^verbatim>\<open>update_from_output\<close> of \<^verbatim>\<open>src/vllm/vllm/v1/core/sched/scheduler.py\<close> and the method that
  \<^verbatim>\<open>src/vllm/vllm/v1/core/sched/async_scheduler.py\<close> overrides: the tokens of a step are appended, stopped
  requests are released, Power-SMC groups are observed and resampled, and the queues are adjusted.
  The grammar of structured outputs is an argument.  Log probabilities, statistics, traces and routed
  experts are passed through by the code and left out.
\<close>

section \<open>Outputs\<close>

record new_request_data =
  nrd_req_id :: string
  nrd_prompt_token_ids :: "int list option"
  nrd_block_ids :: "int list list"
  nrd_num_computed_tokens :: nat
  nrd_prefill_token_ids :: "int list option"

record cached_request_data =
  crd_req_ids :: "string list"
  crd_resumed_req_ids :: "string list"
  crd_new_token_ids :: "int list list"
  crd_all_token_ids :: "(string \<times> int list) list"
  crd_new_block_ids :: "int list list option list"
  crd_num_computed_tokens :: "nat list"
  crd_num_output_tokens :: "int list"

record scheduler_output =
  scheduled_new_reqs :: "new_request_data list"
  scheduled_cached_reqs :: cached_request_data
  num_scheduled_tokens :: "(string \<times> nat) list"
  total_num_scheduled_tokens :: nat
  scheduled_spec_decode_tokens :: "(string \<times> int list) list"
  scheduled_encoder_inputs :: "(string \<times> nat list) list"
  num_common_prefix_blocks :: "nat list"
  preempted_req_ids :: "string list"
  so_finished_req_ids :: "string set"
  free_encoder_mm_hashes :: "mm_hash list"
  new_block_ids_to_zero :: "int list option"
  has_structured_output_requests :: bool
  pending_structured_output_tokens :: bool

record model_runner_output =
  req_id_to_index :: "(string \<times> nat) list"
  sampled_token_ids :: "int list list"
  mro_power_smc_logprobs :: "(pyfloat \<times> pyfloat) list option"
  pooler_output :: "bool list"

record engine_core_output =
  eco_request_id :: string
  eco_new_token_ids :: "int list"
  eco_finish_reason :: "finish_reason_enum option"
  eco_power_smc_logprobs :: "(pyfloat \<times> pyfloat) option"
  eco_power_smc_kv_event :: "(string \<times> py_val) list option"
  eco_stop_reason :: "stop_value option"

record grammar =
  grammar_ready :: "request \<Rightarrow> bool"
  should_advance :: "request \<Rightarrow> bool"
  accept_tokens :: "string \<Rightarrow> int list \<Rightarrow> bool"

section \<open>One request\<close>

text \<open>Append the tokens until one of them stops the request.\<close>

fun append_until_stop :: "nat \<Rightarrow> request \<Rightarrow> int list \<Rightarrow> (int list \<times> bool \<times> request) res" where
  "append_until_stop max_len r [] = Inr ([], False, r)"
| "append_until_stop max_len r (t # ts) =
     rbind (append_output_token_ids r [t]) (\<lambda>r1.
     rbind (check_stop r1 max_len) (\<lambda>(stopped, r2).
       if stopped then Inr ([t], True, r2)
       else rbind (append_until_stop max_len r2 ts) (\<lambda>(kept, b, r3). Inr (t # kept, b, r3))))"

definition update_request_with_output ::
  "request \<Rightarrow> int list \<Rightarrow> scheduler \<Rightarrow> (int list \<times> bool \<times> request \<times> scheduler) res" where
  "update_request_with_output req toks s =
     rbind (append_until_stop (sc_max_model_len s) req toks) (\<lambda>(kept, stopped, r).
       Inr (kept, stopped, r, put_request r s))"

text \<open>The override of the asynchronous scheduler.\<close>

definition async_update_request_with_output ::
  "request \<Rightarrow> int list \<Rightarrow> scheduler \<Rightarrow> (int list \<times> bool \<times> request \<times> scheduler) res" where
  "async_update_request_with_output req toks s =
     (if async_tokens_to_discard req > 0
      then let r = req\<lparr>async_tokens_to_discard := async_tokens_to_discard req - 1\<rparr>
           in Inr ([], False, r, put_request r s)
      else rbind (update_request_with_output req toks s) (\<lambda>(kept, stopped, r, s1).
           let r1 = r\<lparr>num_output_placeholders := num_output_placeholders r - int (length kept)\<rparr>;
               s2 = put_request r1 s1
           in py_assert (num_output_placeholders r1 \<ge> 0)
                (if status req = RUNNING
                 then let n = int (num_computed_tokens r1) - num_output_placeholders r1
                      in if n < 0 then Inl Unmodelled
                         else rbind (with_kv (km_cache_blocks r1 (nat n)) s2) (\<lambda>s3.
                              Inr (kept, stopped, r1, s3))
                 else Inr (kept, stopped, r1, s2))))"

fun free_encoder_inputs_loop :: "request \<Rightarrow> nat list \<Rightarrow> scheduler \<Rightarrow> scheduler res" where
  "free_encoder_inputs_loop req [] s = Inr s"
| "free_encoder_inputs_loop req (i # is) s =
     rbind (list_get (mm_features req) i) (\<lambda>f.
     rbind (if sc_is_encoder_decoder s \<and> num_computed_tokens req > 0 \<or>
               mm_offset f + mm_length f \<le> num_computed_tokens req
            then with_enc (enc_free_input req i) s else Inr s) (free_encoder_inputs_loop req is))"

definition free_encoder_inputs :: "request \<Rightarrow> scheduler \<Rightarrow> scheduler res" where
  "free_encoder_inputs req s = free_encoder_inputs_loop req (enc_cached_input_ids req (sc_enc s)) s"

text \<open>Rejected draft tokens are taken back from the computed tokens and the placeholders.\<close>

definition reject_drafts :: "int list \<Rightarrow> int list \<Rightarrow> request \<Rightarrow> request res" where
  "reject_drafts drafts generated req =
     (if drafts = [] \<or> generated = [] then Inr req
      else let rejected = int (length drafts) - (int (length generated) - 1);
               computed = (if num_computed_tokens req > 0 then int (num_computed_tokens req) - rejected
                           else int (num_computed_tokens req));
               placeholders = (if num_output_placeholders req > 0 then num_output_placeholders req - rejected
                               else num_output_placeholders req)
           in if computed < 0 then Inl Unmodelled
              else Inr (req\<lparr>num_computed_tokens := nat computed, num_output_placeholders := placeholders\<rparr>))"

text \<open>The tokens of a request and whether it stops: sampled tokens, a pooling result, the grammar.\<close>

definition step_tokens ::
  "grammar \<Rightarrow> request \<Rightarrow> int list \<Rightarrow> bool \<Rightarrow> scheduler \<Rightarrow> (int list \<times> bool \<times> request \<times> scheduler) res" where
  "step_tokens g req generated pooled s =
     rbind (if generated \<noteq> []
            then (if sc_async_scheduling s then async_update_request_with_output req generated s
                  else update_request_with_output req generated s)
            else if is_pooling req \<and> pooled
            then (let r = req\<lparr>status := FINISHED_STOPPED\<rparr> in Inr ([], True, r, put_request r s))
            else Inr ([], False, req, s)) (\<lambda>(new_toks, stopped, r, s1).
       if new_toks \<noteq> [] \<and> should_advance g r \<and> \<not> accept_tokens g (request_id r) new_toks
       then let r1 = r\<lparr>status := FINISHED_ERROR, resumable := False\<rparr>
            in Inr (new_toks, True, r1, put_request r1 s1)
       else Inr (new_toks, stopped, r, s1))"

record update_state =
  us_outputs :: "engine_core_output list"
  us_stopped_running :: "string list"
  us_stopped_preempted :: "string list"
  us_parents :: "string list"
  us_output_by_parent :: "(string \<times> string) list"

text \<open>The finish reason is read before a resumable request is put back to wait.\<close>

definition step_stopped ::
  "request_status \<Rightarrow> request \<Rightarrow> update_state \<Rightarrow> scheduler \<Rightarrow>
   (finish_reason_enum option \<times> request \<times> update_state \<times> scheduler) res" where
  "step_stopped before req us s =
     rbind (handle_stopped_request req s) (\<lambda>(fin, r, s1).
     rbind (if fin then sched_free_request r False s1 else Inr s1) (\<lambda>s2.
       Inr (get_finished_reason (status req), r,
            (if before = RUNNING then us\<lparr>us_stopped_running := request_id req # us_stopped_running us\<rparr>
             else us\<lparr>us_stopped_preempted := request_id req # us_stopped_preempted us\<rparr>), s2)))"

definition step_power_smc ::
  "request \<Rightarrow> int list \<Rightarrow> bool \<Rightarrow> nat \<Rightarrow> (pyfloat \<times> pyfloat) list option \<Rightarrow> update_state \<Rightarrow> scheduler \<Rightarrow>
   ((pyfloat \<times> pyfloat) option \<times> string option \<times> update_state \<times> scheduler) res" where
  "step_power_smc req new_toks stopped i logps us s =
     (if req_power_smc_config req = None \<or> new_toks = [] then Inr (None, None, us, s)
      else rbind (case logps of None \<Rightarrow> Inr None
                  | Some l \<Rightarrow> rbind (list_get l i) (\<lambda>x. Inr (Some x))) (\<lambda>lp.
        if stopped then Inr (lp, None, us, s)
        else rbind (observe_power_smc_request_output req new_toks lp None (req_stop_reason req) s)
               (\<lambda>(pid, s1).
                 Inr (lp, pid,
                      (case pid of
                         None \<Rightarrow> us
                       | Some p \<Rightarrow> if p \<in> set (us_parents us) then us
                                  else us\<lparr>us_parents := us_parents us @ [p]\<rparr>), s1))))"

definition update_one ::
  "grammar \<Rightarrow> scheduler_output \<Rightarrow> model_runner_output \<Rightarrow> string \<times> nat \<Rightarrow> update_state \<times> scheduler \<Rightarrow>
   (update_state \<times> scheduler) res" where
  "update_one g so mo ent st =
     (case (ent, st) of ((rid, n), (us, s)) \<Rightarrow>
       py_assert (n > 0)
        (case get_request s rid of
           None \<Rightarrow> Inr (us, s)
         | Some req0 \<Rightarrow>
             if is_finished req0 then Inr (us, s)
             else case map_of (req_id_to_index mo) rid of
                    None \<Rightarrow> Inl KeyError
                  | Some i \<Rightarrow>
                      rbind (if sampled_token_ids mo = [] then Inr [] else list_get (sampled_token_ids mo) i) (\<lambda>generated.
                      rbind (if pooler_output mo = [] then Inr False else list_get (pooler_output mo) i) (\<lambda>pooled.
                      rbind (reject_drafts (case map_of (scheduled_spec_decode_tokens so) rid of None \<Rightarrow> [] | Some d \<Rightarrow> d)
                               generated req0) (\<lambda>req.
                      let s0 = put_request req s
                      in rbind (if has_encoder_inputs req then free_encoder_inputs req s0 else Inr s0) (\<lambda>s1.
                         rbind (step_tokens g req generated pooled s1) (\<lambda>(new_toks, stopped, r1, s2).
                         rbind (if stopped then step_stopped (status req) r1 us s2 else Inr (None, r1, us, s2))
                           (\<lambda>(fr, r2, us2, s3).
                         rbind (step_power_smc r2 new_toks stopped i (mro_power_smc_logprobs mo) us2 s3)
                           (\<lambda>(lp, pid, us3, s4).
                         if new_toks \<noteq> [] \<or> pooled \<or> stopped
                         then Inr (us3\<lparr>us_outputs := us_outputs us3 @
                                         [\<lparr>eco_request_id = rid, eco_new_token_ids = new_toks,
                                           eco_finish_reason = fr, eco_power_smc_logprobs = lp,
                                           eco_power_smc_kv_event = None, eco_stop_reason = req_stop_reason r2\<rparr>],
                                       us_output_by_parent :=
                                         (case pid of None \<Rightarrow> us_output_by_parent us3
                                          | Some p \<Rightarrow> dict_set p rid (us_output_by_parent us3))\<rparr>, s4)
                         else Inr (us3, s4))))))))))"

fun update_each ::
  "grammar \<Rightarrow> scheduler_output \<Rightarrow> model_runner_output \<Rightarrow> (string \<times> nat) list \<Rightarrow> update_state \<times> scheduler \<Rightarrow>
   (update_state \<times> scheduler) res" where
  "update_each g so mo [] st = Inr st"
| "update_each g so mo (e # es) st = rbind (update_one g so mo e st) (update_each g so mo es)"

section \<open>The whole step\<close>

definition attach_event ::
  "string option \<Rightarrow> (string \<times> py_val) list option \<Rightarrow> engine_core_output list \<Rightarrow> engine_core_output list" where
  "attach_event rid ev outs =
     (if rid = None \<or> ev = None then outs
      else map (\<lambda>out. if Some (eco_request_id out) = rid then out\<lparr>eco_power_smc_kv_event := ev\<rparr> else out) outs)"

fun resample_parents ::
  "string list \<Rightarrow> (string \<times> string) list \<Rightarrow> string list \<Rightarrow> engine_core_output list \<Rightarrow> scheduler \<Rightarrow>
   (string list \<times> engine_core_output list \<times> scheduler) res" where
  "resample_parents [] by_parent rids outs s = Inr (rids, outs, s)"
| "resample_parents (pid # pids) by_parent rids outs s =
     rbind (maybe_resample_power_smc_parent pid (s\<lparr>last_power_smc_kv_event := None\<rparr>)) (\<lambda>(new, s1).
       resample_parents pids by_parent (rids @ new)
         (attach_event (map_of by_parent pid) (last_power_smc_kv_event s1) outs)
         (s1\<lparr>last_power_smc_kv_event := None\<rparr>))"

definition requeue_one :: "string \<Rightarrow> scheduler \<Rightarrow> scheduler" where
  "requeue_one rid s =
     (let s1 = s\<lparr>prev_step_scheduled_req_ids := prev_step_scheduled_req_ids s - {rid}\<rparr>
      in if live_request s1 rid then s1\<lparr>waiting := queue_prepend s1 rid (waiting s1)\<rparr> else s1)"

definition requeue_resampled :: "string list \<Rightarrow> scheduler \<Rightarrow> scheduler" where
  "requeue_resampled rids s =
     (if rids = [] then s
      else fold requeue_one (rev rids)
             (s\<lparr>running := remove_all (running s) (set rids),
                waiting := queue_remove_all s (set rids) (waiting s),
                skipped_waiting := queue_remove_all s (set rids) (skipped_waiting s)\<rparr>))"

definition remove_stopped :: "update_state \<Rightarrow> scheduler \<Rightarrow> scheduler" where
  "remove_stopped us s =
     (let s1 = (if us_stopped_running us = [] then s
                else s\<lparr>running := remove_all (running s) (set (us_stopped_running us))\<rparr>)
      in if us_stopped_preempted us = [] then s1
         else s1\<lparr>waiting := queue_remove_all s1 (set (us_stopped_preempted us)) (waiting s1)\<rparr>)"

definition update_from_output ::
  "grammar \<Rightarrow> scheduler_output \<Rightarrow> model_runner_output \<Rightarrow> scheduler \<Rightarrow>
   (engine_core_output list \<times> (kv_cache_event \<times> (string \<times> nat option) option) list \<times> scheduler) res" where
  "update_from_output g so mo s =
     rbind (update_each g so mo (num_scheduled_tokens so)
              (\<lparr>us_outputs = [], us_stopped_running = [], us_stopped_preempted = [], us_parents = [],
                us_output_by_parent = []\<rparr>, s)) (\<lambda>(us, s1).
     rbind (resample_parents (us_parents us) (us_output_by_parent us) [] (us_outputs us) s1)
       (\<lambda>(rids, outs, s2).
         let s3 = requeue_resampled rids (remove_stopped us s2)
         in case km_take_events (sc_kv s3) of
              (evs, km) \<Rightarrow> Inr (outs, evs, s3\<lparr>sc_kv := km\<rparr>)))"

end
