(* ===== verification/Sched_Schedule.thy ===== *)
theory Sched_Schedule
  imports Sched_Update
begin

text \<open>
  \<^verbatim>\<open>schedule\<close> of \<^verbatim>\<open>src/vllm/vllm/v1/core/sched/scheduler.py\<close>: the running requests get tokens first, with
  preemption when blocks run out, then waiting requests are admitted within the token budget, and the
  output for the workers is built.  The encoder inputs that fall into the scheduled window are chosen by
  \<^verbatim>\<open>_try_schedule_encoder_inputs\<close>.
\<close>

lemma rbind_cong [fundef_cong]:
  "r = r' \<Longrightarrow> (\<And>x. r' = Inr x \<Longrightarrow> f x = g x) \<Longrightarrow> rbind r f = rbind r' g"
  by (cases r') simp_all

section \<open>Multi-modal inputs in a window\<close>

text \<open>\<^verbatim>\<open>bisect.bisect_left\<close> with a key function.\<close>

function bisect_left :: "'a list \<Rightarrow> int \<Rightarrow> ('a \<Rightarrow> int) \<Rightarrow> nat \<Rightarrow> nat \<Rightarrow> nat" where
  "bisect_left xs x key lo hi =
     (if lo < hi
      then let mid = (lo + hi) div 2
           in if key (xs ! mid) < x then bisect_left xs x key (mid + 1) hi else bisect_left xs x key lo mid
      else lo)"
  by pat_completeness auto
termination
  by (relation "measure (\<lambda>(_, _, _, lo, hi). hi - lo)") auto

declare bisect_left.simps [simp del]

definition get_mm_features_in_window :: "mm_feature list \<Rightarrow> int \<Rightarrow> int \<Rightarrow> nat \<times> nat" where
  "get_mm_features_in_window fs start_pos end_pos =
     (bisect_left fs (start_pos + 1) (\<lambda>f. int (mm_offset f + mm_length f)) 0 (length fs),
      bisect_left fs end_pos (\<lambda>f. int (mm_offset f)) 0 (length fs))"

definition get_num_embeds :: "mm_feature \<Rightarrow> nat" where
  "get_num_embeds f = (case mm_is_embed f of None \<Rightarrow> mm_length f | Some m \<Rightarrow> length (filter id m))"

definition embeds_before :: "bool list \<Rightarrow> int \<Rightarrow> int res" where
  "embeds_before m k =
     (if k > 0 then rbind (py_index (length m) (k - 1)) (\<lambda>j. Inr (int (length (filter id (take (j + 1) m)))))
      else Inr 0)"

definition get_embeds_indices_in_range :: "mm_feature \<Rightarrow> int \<Rightarrow> int \<Rightarrow> (int \<times> int) res" where
  "get_embeds_indices_in_range f start_idx end_idx =
     (case mm_is_embed f of
        None \<Rightarrow> Inr (start_idx, end_idx)
      | Some m \<Rightarrow> rbind (embeds_before m start_idx) (\<lambda>a. rbind (embeds_before m end_idx) (\<lambda>b. Inr (a, b))))"

section \<open>Choosing encoder inputs\<close>

record encoder_choice =
  ec_inputs :: "nat list"
  ec_new_tokens :: int
  ec_budget :: int
  ec_hashes :: "mm_hash list"
  ec_embeds :: nat
  ec_cache :: enc_cache

text \<open>The loop over the inputs of the window; it ends early when an input does not fit.\<close>

fun encoder_inputs_loop ::
  "scheduler \<Rightarrow> request \<Rightarrow> nat \<Rightarrow> nat \<Rightarrow> nat list \<Rightarrow> encoder_choice \<Rightarrow> encoder_choice res" where
  "encoder_inputs_loop s req computed shift [] c = Inr c"
| "encoder_inputs_loop s req computed shift (i # is) c =
     rbind (list_get (mm_features req) i) (\<lambda>f.
       let pos = int (mm_offset f); n = ec_new_tokens c
       in if sc_is_encoder_decoder s \<and> computed > 0
          then py_assert (pos = 0) (encoder_inputs_loop s req computed shift is c)
          else if \<not> sc_is_encoder_decoder s \<and> mm_identifier f \<in> set (ec_hashes c)
          then encoder_inputs_loop s req computed shift is c
          else rbind (if sc_is_encoder_decoder s then Inr (False, ec_cache c)
                      else enc_check_and_update req i (ec_cache c)) (\<lambda>(hit, e1).
            let c1 = c\<lparr>ec_cache := e1\<rparr>
            in if hit then encoder_inputs_loop s req computed shift is c1
               else if sc_disable_chunked_mm_input s \<and> int computed < pos \<and>
                       int computed + n < pos + int (mm_length f)
               then Inr (c1\<lparr>ec_new_tokens := max 0 (pos - (int computed + int shift))\<rparr>)
               else rbind (enc_can_allocate req i (ec_budget c1) (ec_embeds c1) e1) (\<lambda>(fits, e2).
                 let c2 = c1\<lparr>ec_cache := e2\<rparr>
                 in if \<not> fits
                    then Inr (c2\<lparr>ec_new_tokens := (if int computed + int shift < pos
                                                   then pos - (int computed + int shift) else 0)\<rparr>)
                    else rbind (get_embeds_indices_in_range f (max 0 (int computed - pos))
                                  (min (int (mm_length f)) (int computed + n - pos))) (\<lambda>(a, b).
                      if b - a = 0 then encoder_inputs_loop s req computed shift is c2
                      else encoder_inputs_loop s req computed shift is
                             (c2\<lparr>ec_embeds := ec_embeds c2 + get_num_embeds f,
                                 ec_budget := ec_budget c2 - int (get_num_embeds f),
                                 ec_hashes := mm_identifier f # ec_hashes c2,
                                 ec_inputs := ec_inputs c2 @ [i]\<rparr>)))))"

definition try_schedule_encoder_inputs ::
  "request \<Rightarrow> nat \<Rightarrow> int \<Rightarrow> int \<Rightarrow> nat \<Rightarrow> scheduler \<Rightarrow> (nat list \<times> int \<times> int \<times> scheduler) res" where
  "try_schedule_encoder_inputs req computed n budget shift s =
     (if n = 0 \<or> \<not> has_encoder_inputs req then Inr ([], n, budget, s)
      else case get_mm_features_in_window (mm_features req) (int computed) (int computed + n + int shift) of
             (lo, hi) \<Rightarrow>
               rbind (encoder_inputs_loop s req computed shift
                        [(if sc_is_encoder_decoder s then 0 else lo)..<hi]
                        \<lparr>ec_inputs = [], ec_new_tokens = n, ec_budget = budget, ec_hashes = [], ec_embeds = 0,
                         ec_cache = sc_enc s\<rparr>) (\<lambda>c.
                 Inr (ec_inputs c, ec_new_tokens c, ec_budget c, s\<lparr>sc_enc := ec_cache c\<rparr>)))"

fun allocate_encoder_inputs :: "request \<Rightarrow> nat list \<Rightarrow> scheduler \<Rightarrow> scheduler res" where
  "allocate_encoder_inputs req [] s = Inr s"
| "allocate_encoder_inputs req (i # is) s =
     rbind (with_enc (enc_allocate req i) s) (allocate_encoder_inputs req is)"

section \<open>Mamba alignment\<close>

definition mamba_block_aligned_split :: "request \<Rightarrow> int \<Rightarrow> nat \<Rightarrow> nat \<Rightarrow> scheduler \<Rightarrow> int" where
  "mamba_block_aligned_split req n new_local ext s =
     (let computed = int (num_computed_tokens req) + int new_local + int ext
      in if computed < max (int (num_prompt_tokens req)) (int (num_tokens req) - 1)
         then let bs = int (sc_cache_block_size s);
                  last0 = int (num_tokens req) - int (num_tokens req) mod bs;
                  last1 = (if sc_use_eagle s then max (last0 - bs) 0 else last0);
                  after = computed + n
              in if after < last1 then n div bs * bs
                 else if computed < last1 \<and> last1 < after then last1 - computed
                 else n
         else n)"

section \<open>The accumulated step\<close>

record step_acc =
  sa_new :: "string list"
  sa_resumed :: "string list"
  sa_running :: "string list"
  sa_preempted :: "string list"
  sa_new_blocks :: "(string \<times> kv_cache_blocks) list"
  sa_num_scheduled :: "(string \<times> nat) list"
  sa_budget :: int
  sa_encoder_inputs :: "(string \<times> nat list) list"
  sa_encoder_budget :: int
  sa_spec :: "(string \<times> int list) list"

definition take_budget :: "string \<Rightarrow> nat \<Rightarrow> kv_cache_blocks \<Rightarrow> step_acc \<Rightarrow> step_acc" where
  "take_budget rid n blks acc =
     acc\<lparr>sa_new_blocks := dict_set rid blks (sa_new_blocks acc),
         sa_num_scheduled := dict_set rid n (sa_num_scheduled acc), sa_budget := sa_budget acc - int n\<rparr>"

definition schedule_encoder_inputs ::
  "request \<Rightarrow> nat list \<Rightarrow> int \<Rightarrow> step_acc \<times> scheduler \<Rightarrow> (step_acc \<times> scheduler) res" where
  "schedule_encoder_inputs req inputs budget st =
     (case st of (acc, s) \<Rightarrow>
       if inputs = [] then Inr (acc, s)
       else rbind (allocate_encoder_inputs req inputs s) (\<lambda>s1.
            Inr (acc\<lparr>sa_encoder_inputs := dict_set (request_id req) inputs (sa_encoder_inputs acc),
                     sa_encoder_budget := budget\<rparr>, s1)))"
section \<open>Preemption\<close>

text \<open>\<^verbatim>\<open>max\<close> over the running list: the first request whose priority and arrival time are the largest.\<close>

definition preempt_key_less :: "scheduler \<Rightarrow> string \<Rightarrow> string \<Rightarrow> bool" where
  "preempt_key_less s a b =
     (case (get_request s a, get_request s b) of
        (Some ra, Some rb) \<Rightarrow>
          priority ra < priority rb \<or> priority ra = priority rb \<and> arrival_time ra < arrival_time rb
      | _ \<Rightarrow> False)"

definition lowest_priority :: "scheduler \<Rightarrow> string list \<Rightarrow> string" where
  "lowest_priority s rids = foldl (\<lambda>best r. if preempt_key_less s best r then r else best) (hd rids) (tl rids)"

text \<open>A victim that was already scheduled in this step gives its tokens and encoder budget back.\<close>

fun sum_embeds :: "request \<Rightarrow> nat list \<Rightarrow> nat res" where
  "sum_embeds req [] = Inr 0"
| "sum_embeds req (i # is) =
     rbind (get_num_encoder_embeds req i) (\<lambda>n. rbind (sum_embeds req is) (\<lambda>k. Inr (n + k)))"

definition unschedule :: "request \<Rightarrow> step_acc \<Rightarrow> step_acc res" where
  "unschedule req acc =
     (let rid = request_id req
      in case map_of (sa_num_scheduled acc) rid of
           None \<Rightarrow> Inl KeyError
         | Some n \<Rightarrow>
             rbind (sum_embeds req (case map_of (sa_encoder_inputs acc) rid of None \<Rightarrow> [] | Some l \<Rightarrow> l)) (\<lambda>k.
               if map_of (sa_new_blocks acc) rid = None then Inl KeyError
               else Inr (acc\<lparr>sa_running := remove1 rid (sa_running acc), sa_budget := sa_budget acc + int n,
                             sa_num_scheduled := dict_del rid (sa_num_scheduled acc),
                             sa_new_blocks := dict_del rid (sa_new_blocks acc),
                             sa_spec := dict_del rid (sa_spec acc),
                             sa_encoder_inputs := dict_del rid (sa_encoder_inputs acc),
                             sa_encoder_budget := sa_encoder_budget acc + int k\<rparr>)))"

text \<open>The victim, taken from the running list, with the index of the loop adjusted.\<close>

definition pick_victim ::
  "nat \<Rightarrow> step_acc \<Rightarrow> scheduler \<Rightarrow> (string \<times> nat \<times> step_acc \<times> scheduler) res" where
  "pick_victim idx acc s =
     (case sc_policy s of
        FCFS \<Rightarrow>
          if running s = [] then Inl IndexError
          else Inr (last (running s), idx, acc, s\<lparr>running := butlast (running s)\<rparr>)
      | PRIORITY \<Rightarrow>
          if running s = [] then Inl ValueError
          else let v = lowest_priority s (running s); s1 = s\<lparr>running := remove1 v (running s)\<rparr>
               in if v \<in> set (sa_running acc)
                  then (case get_request s v of
                          None \<Rightarrow> Inl KeyError
                        | Some req \<Rightarrow> rbind (unschedule req acc) (\<lambda>acc1. Inr (v, idx - 1, acc1, s1)))
                  else Inr (v, idx, acc, s1))"

definition running_slot_args :: "nat \<Rightarrow> scheduler \<Rightarrow> slot_args" where
  "running_slot_args n s =
     \<lparr>num_new_tokens = n, num_new_computed_tokens = 0, new_computed_blocks = None,
      num_lookahead_tokens = sc_num_lookahead_tokens s, num_external_computed_tokens = 0,
      delay_cache_blocks = False, num_encoder_tokens = 0, full_sequence_must_fit = False,
      reserved_blocks = 0\<rparr>"

lemma put_request_fields [simp]:
  "running (put_request req s) = running s" "sc_policy (put_request req s) = sc_policy s"
  "waiting (put_request req s) = waiting s" "skipped_waiting (put_request req s) = skipped_waiting s"
  by (simp_all add: put_request_def)

lemma with_kv_Inr: "with_kv f s = Inr s' \<longleftrightarrow> (\<exists>km. f (sc_kv s) = Inr km \<and> s' = s\<lparr>sc_kv := km\<rparr>)"
  by (auto simp: with_kv_def rbind_eq_Inr)

lemma with_enc_Inr: "with_enc f s = Inr s' \<longleftrightarrow> (\<exists>e. f (sc_enc s) = Inr e \<and> s' = s\<lparr>sc_enc := e\<rparr>)"
  by (auto simp: with_enc_def rbind_eq_Inr)

lemma preempt_request_running: "preempt_request req s = Inr s' \<Longrightarrow> running s' = running s"
  by (auto simp: preempt_request_def py_assert_eq_Inr rbind_eq_Inr with_kv_Inr with_enc_Inr Let_def)

lemma pick_victim_running:
  "pick_victim idx acc s = Inr (v, idx', acc', s') \<Longrightarrow>
     length (running s') < length (running s) \<and> length (running s') - idx' \<le> length (running s) - idx"
proof -
  assume a: "pick_victim idx acc s = Inr (v, idx', acc', s')"
  have fold_in: "foldl (\<lambda>best r. if preempt_key_less s best r then r else best) x xs \<in> set (x # xs)" for x xs
    by (induction xs arbitrary: x) auto
  have "rs \<noteq> [] \<Longrightarrow> lowest_priority s rs \<in> set rs" for rs
    using fold_in[of "hd rs" "tl rs"] by (cases rs) (simp_all add: lowest_priority_def)
  then show ?thesis
    using a by (auto simp: pick_victim_def Let_def length_remove1 rbind_eq_Inr
        split: scheduling_policy.splits if_splits option.splits)
qed

function alloc_or_preempt ::
  "string \<Rightarrow> nat \<Rightarrow> nat \<Rightarrow> step_acc \<Rightarrow> scheduler \<Rightarrow> (kv_cache_blocks option \<times> nat \<times> step_acc \<times> scheduler) res" where
  "alloc_or_preempt rid n idx acc s =
     (case get_request s rid of
        None \<Rightarrow> Inl KeyError
      | Some req \<Rightarrow>
          rbind (allocate_slots req (running_slot_args n s) (sc_kv s)) (\<lambda>(blks, km).
            let s0 = s\<lparr>sc_kv := km\<rparr>
            in case blks of
                 Some b \<Rightarrow> Inr (Some b, idx, acc, s0)
               | None \<Rightarrow>
                   rbind (pick_victim idx acc s0) (\<lambda>(v, idx1, acc1, s1).
                     case get_request s1 v of
                       None \<Rightarrow> Inl KeyError
                     | Some vreq \<Rightarrow>
                         rbind (preempt_request vreq s1) (\<lambda>s2.
                           let acc2 = acc1\<lparr>sa_preempted := sa_preempted acc1 @ [v]\<rparr>
                           in if v = rid then Inr (None, idx1, acc2, s2)
                              else alloc_or_preempt rid n idx1 acc2 s2))))"
  by pat_completeness auto
termination
  by (relation "measure (\<lambda>(_, _, _, _, s). length (running s))")
     (auto dest!: pick_victim_running preempt_request_running)

declare alloc_or_preempt.simps [simp del]

lemma alloc_or_preempt_cases [consumes 1, case_names fits victim]:
  assumes "alloc_or_preempt rid n idx acc s = Inr (b, idx', acc', s')"
  obtains req blks km where "get_request s rid = Some req"
      "allocate_slots req (running_slot_args n s) (sc_kv s) = Inr (Some blks, km)"
      "b = Some blks" "idx' = idx" "acc' = acc" "s' = s\<lparr>sc_kv := km\<rparr>"
  | req km v idx1 acc1 s1 vreq s2 where "get_request s rid = Some req"
      "allocate_slots req (running_slot_args n s) (sc_kv s) = Inr (None, km)"
      "pick_victim idx acc (s\<lparr>sc_kv := km\<rparr>) = Inr (v, idx1, acc1, s1)"
      "get_request s1 v = Some vreq" "preempt_request vreq s1 = Inr s2"
      "v = rid \<and> b = None \<and> idx' = idx1 \<and> acc' = acc1\<lparr>sa_preempted := sa_preempted acc1 @ [v]\<rparr> \<and> s' = s2 \<or>
       v \<noteq> rid \<and> alloc_or_preempt rid n idx1 (acc1\<lparr>sa_preempted := sa_preempted acc1 @ [v]\<rparr>) s2 =
         Inr (b, idx', acc', s')"
proof -
  note a = assms[unfolded alloc_or_preempt.simps[of rid n idx acc s]]
  obtain req where r: "get_request s rid = Some req" using a by (auto split: option.splits)
  obtain blks km where al: "allocate_slots req (running_slot_args n s) (sc_kv s) = Inr (blks, km)"
    using a r by (auto simp: rbind_eq_Inr)
  show thesis
  proof (cases blks)
    case (Some b')
    then show thesis using a r al by (intro that(1)[OF r, of b' km]) auto
  next
    case None
    obtain v idx1 acc1 s1 where pv: "pick_victim idx acc (s\<lparr>sc_kv := km\<rparr>) = Inr (v, idx1, acc1, s1)"
      using a r al None by (auto simp: rbind_eq_Inr)
    obtain vreq where vr: "get_request s1 v = Some vreq"
      using a r al None pv by (auto simp: rbind_eq_Inr split: option.splits)
    obtain s2 where s2: "preempt_request vreq s1 = Inr s2"
      using a r al None pv vr by (auto simp: rbind_eq_Inr)
    show thesis using a r al None pv vr s2
      by (intro that(2)[OF r _ pv vr s2]) (auto simp: Let_def split: if_splits)
  qed
qed

lemma alloc_or_preempt_running:
  "alloc_or_preempt rid n idx acc s = Inr (b, idx', acc', s') \<Longrightarrow>
     length (running s') - idx' \<le> length (running s) - idx"
proof (induction "length (running s)" arbitrary: idx acc s rule: less_induct)
  case less
  from less.prems show ?case
  proof (cases rule: alloc_or_preempt_cases)
    case (victim req km v idx1 acc1 s1 vreq s2)
    note pv = pick_victim_running[OF victim(3)] preempt_request_running[OF victim(5)]
    then show ?thesis using victim(6) less.hyps[of s2 idx1] by fastforce
  qed simp
qed
section \<open>Running requests\<close>

definition async_step_not_needed :: "request \<Rightarrow> bool" where
  "async_step_not_needed req \<longleftrightarrow>
     num_output_placeholders req > 0 \<and>
     int (num_computed_tokens req) + 2 - num_output_placeholders req
       \<ge> int (num_prompt_tokens req) + int (req_max_tokens req)"

definition cap_long_prefill :: "scheduler \<Rightarrow> int \<Rightarrow> int" where
  "cap_long_prefill s n =
     (if 0 < sc_long_prefill_token_threshold s \<and> int (sc_long_prefill_token_threshold s) < n
      then int (sc_long_prefill_token_threshold s) else n)"

definition running_new_tokens :: "scheduler \<Rightarrow> request \<Rightarrow> int \<Rightarrow> int" where
  "running_new_tokens s req budget =
     (let n = int (num_tokens_with_spec req) + num_output_placeholders req - int (num_computed_tokens req)
      in min (min (cap_long_prefill s n) budget)
           (int (sc_max_model_len s) - 1 - int (num_computed_tokens req)))"

text \<open>The encoder inputs for a number of tokens, and that number when the inputs do not all fit.\<close>

definition encoder_inputs_for ::
  "request \<Rightarrow> nat \<Rightarrow> int \<Rightarrow> step_acc \<Rightarrow> scheduler \<Rightarrow> (nat list \<times> int \<times> int \<times> scheduler) res" where
  "encoder_inputs_for req computed n acc s =
     (if has_encoder_inputs req
      then try_schedule_encoder_inputs req computed n (sa_encoder_budget acc) (if sc_use_eagle s then 1 else 0) s
      else Inr ([], n, sa_encoder_budget acc, s))"

definition align_mamba :: "request \<Rightarrow> int \<Rightarrow> nat \<Rightarrow> scheduler \<Rightarrow> int" where
  "align_mamba req n new_local s =
     (if sc_need_mamba_block_aligned_split s then mamba_block_aligned_split req n new_local 0 s else n)"

text \<open>The draft tokens of a scheduled request go into the output and are taken from the request.\<close>

definition take_spec_tokens :: "request \<Rightarrow> nat \<Rightarrow> step_acc \<times> scheduler \<Rightarrow> step_acc \<times> scheduler" where
  "take_spec_tokens req n st =
     (case st of (acc, s) \<Rightarrow>
       if spec_token_ids req = [] then (acc, s)
       else let k = int n + int (num_computed_tokens req) - int (num_tokens req) - num_output_placeholders req
            in ((if k > 0
                 then acc\<lparr>sa_spec := dict_set (request_id req) (take (nat k) (spec_token_ids req)) (sa_spec acc)\<rparr>
                 else acc),
                put_request (req\<lparr>spec_token_ids := []\<rparr>) s))"

text \<open>The tokens of a running request after the encoder inputs and the Mamba alignment.\<close>

definition running_tokens ::
  "request \<Rightarrow> step_acc \<Rightarrow> scheduler \<Rightarrow> (nat list \<times> int \<times> int \<times> scheduler) res" where
  "running_tokens req acc s =
     rbind (encoder_inputs_for req (num_computed_tokens req) (running_new_tokens s req (sa_budget acc)) acc s)
       (\<lambda>(inputs, n, enc_budget, s1). Inr (inputs, align_mamba req n 0 s1, enc_budget, s1))"

text \<open>
  One request of the running list: \<open>None\<close> ends the loop, a number is the next index.
\<close>

definition skip_running :: "scheduler \<Rightarrow> request \<Rightarrow> bool" where
  "skip_running s req \<longleftrightarrow>
     async_step_not_needed req \<or> current_step s < next_decode_eligible_step req \<or>
     req_power_smc_config req \<noteq> None \<and> power_smc_should_pause_at_group_boundary s req"

definition schedule_running ::
  "nat \<Rightarrow> step_acc \<Rightarrow> scheduler \<Rightarrow> (nat option \<times> step_acc \<times> scheduler) res" where
  "schedule_running idx acc s =
     (let rid = running s ! idx
      in case get_request s rid of
           None \<Rightarrow> Inl KeyError
         | Some req \<Rightarrow>
             if skip_running s req then Inr (Some (idx + 1), acc, s)
             else rbind (running_tokens req acc s) (\<lambda>(inputs, n, enc_budget, s1).
               if n = 0 then Inr (Some (idx + 1), acc, s1)
               else if n < 0 then Inl Unmodelled
               else rbind (alloc_or_preempt rid (nat n) idx acc s1) (\<lambda>(blks, idx1, acc1, s2).
                    case blks of
                      None \<Rightarrow> Inr (None, acc1, s2)
                    | Some b \<Rightarrow>
                        let acc2 = take_budget rid (nat n) b (acc1\<lparr>sa_running := sa_running acc1 @ [rid]\<rparr>);
                            st3 = take_spec_tokens req (nat n) (acc2, s2)
                        in rbind (schedule_encoder_inputs req inputs enc_budget st3) (\<lambda>(acc4, s4).
                           Inr (Some (idx1 + 1), acc4, s4)))))"

lemma allocate_encoder_inputs_running:
  "allocate_encoder_inputs req is s = Inr s' \<Longrightarrow> running s' = running s"
  by (induction "is" arbitrary: s) (auto simp: rbind_eq_Inr with_enc_Inr)

lemma schedule_encoder_inputs_running:
  "schedule_encoder_inputs req inputs b (acc, s) = Inr (acc', s') \<Longrightarrow> running s' = running s"
  by (auto simp: schedule_encoder_inputs_def rbind_eq_Inr dest!: allocate_encoder_inputs_running
      split: if_splits)

lemma try_schedule_encoder_inputs_frame:
  "try_schedule_encoder_inputs req computed n b shift s = Inr (inputs, n', b', s') \<Longrightarrow> \<exists>e. s' = s\<lparr>sc_enc := e\<rparr>"
  by (auto simp: try_schedule_encoder_inputs_def rbind_eq_Inr split: if_splits prod.splits
      intro: exI[of _ "sc_enc s"])

lemma take_spec_tokens_running [simp]: "running (snd (take_spec_tokens req n st)) = running (snd st)"
  by (simp add: take_spec_tokens_def Let_def split: prod.splits)

lemma encoder_inputs_for_frame:
  "encoder_inputs_for req c n acc s = Inr (inputs, n', eb, s') \<Longrightarrow> \<exists>e. s' = s\<lparr>sc_enc := e\<rparr>"
  by (auto simp: encoder_inputs_for_def split: if_splits dest: try_schedule_encoder_inputs_frame
      intro: exI[of _ "sc_enc s"])

lemma running_tokens_frame:
  "running_tokens req acc s = Inr (inputs, n, b, s') \<Longrightarrow> \<exists>e. s' = s\<lparr>sc_enc := e\<rparr>"
  by (auto simp: running_tokens_def elim!: rbind_InrE dest: encoder_inputs_for_frame)

lemma schedule_running_cases [consumes 1, case_names skip stop go]:
  assumes "schedule_running idx acc s = Inr (nxt, acc', s')"
  obtains e where "nxt = Some (idx + 1)" "acc' = acc" "s' = s\<lparr>sc_enc := e\<rparr>"
  | req inputs n eb e idx1 where "get_request s (running s ! idx) = Some req" "\<not> skip_running s req"
      "running_tokens req acc s = Inr (inputs, n, eb, s\<lparr>sc_enc := e\<rparr>)" "0 < n"
      "alloc_or_preempt (running s ! idx) (nat n) idx acc (s\<lparr>sc_enc := e\<rparr>) = Inr (None, idx1, acc', s')"
      "nxt = None"
  | req inputs n eb e blks idx1 acc1 s2 where "get_request s (running s ! idx) = Some req" "\<not> skip_running s req"
      "running_tokens req acc s = Inr (inputs, n, eb, s\<lparr>sc_enc := e\<rparr>)" "0 < n"
      "alloc_or_preempt (running s ! idx) (nat n) idx acc (s\<lparr>sc_enc := e\<rparr>) = Inr (Some blks, idx1, acc1, s2)"
      "schedule_encoder_inputs req inputs eb
         (take_spec_tokens req (nat n) (take_budget (running s ! idx) (nat n) blks
            (acc1\<lparr>sa_running := sa_running acc1 @ [running s ! idx]\<rparr>), s2)) = Inr (acc', s')"
      "nxt = Some (idx1 + 1)"
proof -
  note a = assms[unfolded schedule_running_def Let_def]
  obtain req where r: "get_request s (running s ! idx) = Some req" using a by (auto split: option.splits)
  show thesis
  proof (cases "skip_running s req")
    case True
    then show thesis using a r that(1)[of "sc_enc s"] by simp
  next
    case False
    obtain inputs n eb s1 where rt: "running_tokens req acc s = Inr (inputs, n, eb, s1)"
      using a r False by (auto simp: rbind_eq_Inr)
    obtain e where e: "s1 = s\<lparr>sc_enc := e\<rparr>" using running_tokens_frame[OF rt] by (elim exE)
    note rt = rt[unfolded e]
    consider "n = 0" | "0 < n" using a r False rt by (cases n "0 :: int" rule: linorder_cases) auto
    then show thesis
    proof cases
      case 1
      then show thesis using a r False rt e by (intro that(1)[of e]) auto
    next
      case 2
      obtain blks idx1 acc1 s2 where al:
        "alloc_or_preempt (running s ! idx) (nat n) idx acc (s\<lparr>sc_enc := e\<rparr>) = Inr (blks, idx1, acc1, s2)"
        using a r False rt 2 by (auto simp: rbind_eq_Inr)
      show thesis
      proof (cases blks)
        case None
        then show thesis using a r False rt 2 al by (intro that(2)[OF r False rt 2, of idx1]) auto
      next
        case (Some b)
        then show thesis using a r False rt 2 al
          by (intro that(3)[OF r False rt 2, of b idx1 acc1 s2]) (auto simp: rbind_eq_Inr)
      qed
    qed
  qed
qed

lemma schedule_running_running:
  assumes "schedule_running idx acc s = Inr (Some idx', acc', s')" "idx < length (running s)"
  shows "length (running s') - idx' < length (running s) - idx"
  using assms(1)
proof (cases rule: schedule_running_cases)
  case (go req inputs n eb e blks idx1 acc1 s2)
  have "running s' = running s2"
    using go(6) by (cases "take_spec_tokens req (nat n) (take_budget (running s ! idx) (nat n) blks
            (acc1\<lparr>sa_running := sa_running acc1 @ [running s ! idx]\<rparr>), s2)")
       (metis schedule_encoder_inputs_running snd_conv take_spec_tokens_running)
  then show ?thesis using alloc_or_preempt_running[OF go(5)] go(7) assms(2) by simp
qed (use assms(2) in simp_all)

function running_loop :: "nat \<Rightarrow> step_acc \<Rightarrow> scheduler \<Rightarrow> (step_acc \<times> scheduler) res" where
  "running_loop idx acc s =
     (if idx < length (running s) \<and> sa_budget acc > 0
      then rbind (schedule_running idx acc s) (\<lambda>(nxt, acc1, s1).
           case nxt of None \<Rightarrow> Inr (acc1, s1) | Some idx1 \<Rightarrow> running_loop idx1 acc1 s1)
      else Inr (acc, s))"
  by pat_completeness auto
termination
  by (relation "measure (\<lambda>(idx, _, s). length (running s) - idx)") (auto dest!: schedule_running_running)

declare running_loop.simps [simp del]
section \<open>Waiting requests\<close>

text \<open>\<^verbatim>\<open>_select_waiting_queue_for_scheduling\<close>: \<open>True\<close> selects the waiting queue, \<open>False\<close> the skipped one.\<close>

definition select_waiting_queue :: "scheduler \<Rightarrow> bool option" where
  "select_waiting_queue s =
     (case sc_policy s of
        FCFS \<Rightarrow> (if skipped_waiting s \<noteq> [] then Some False else if waiting s \<noteq> [] then Some True else None)
      | PRIORITY \<Rightarrow>
          if waiting s \<noteq> [] \<and> skipped_waiting s \<noteq> []
          then Some (queued_before s (hd (waiting s)) (hd (skipped_waiting s)))
          else if waiting s \<noteq> [] then Some True
          else if skipped_waiting s \<noteq> [] then Some False else None)"

definition selected_head :: "bool \<Rightarrow> scheduler \<Rightarrow> string" where
  "selected_head w s = hd (if w then waiting s else skipped_waiting s)"

definition pop_selected :: "bool \<Rightarrow> scheduler \<Rightarrow> scheduler" where
  "pop_selected w s =
     (if w then s\<lparr>waiting := tl (waiting s)\<rparr> else s\<lparr>skipped_waiting := tl (skipped_waiting s)\<rparr>)"

text \<open>
  \<^verbatim>\<open>_try_promote_blocked_waiting_request\<close>.  Without a connector a finished receive is an assertion
  failure.
\<close>

definition try_promote_blocked_waiting_request ::
  "grammar \<Rightarrow> request \<Rightarrow> scheduler \<Rightarrow> (bool \<times> scheduler) res" where
  "try_promote_blocked_waiting_request g req s =
     (case status req of
        WAITING_FOR_REMOTE_KVS \<Rightarrow>
          if request_id req \<notin> finished_recving_kv_req_ids s then Inr (False, s) else Inl AssertionError
      | WAITING_FOR_STRUCTURED_OUTPUT_GRAMMAR \<Rightarrow>
          if \<not> grammar_ready g req then Inr (False, s)
          else Inr (True, put_request (req\<lparr>status := WAITING\<rparr>) s)
      | WAITING_FOR_STREAMING_REQ \<Rightarrow>
          py_assert (case streaming_queue req of None \<Rightarrow> True | Some q \<Rightarrow> q = []) (Inr (False, s))
      | _ \<Rightarrow> Inl AssertionError)"

record waiting_acc =
  wa_acc :: step_acc
  wa_skipped :: "string list"
  wa_loras :: "int list"

definition skip_selected :: "bool \<Rightarrow> string \<Rightarrow> waiting_acc \<Rightarrow> scheduler \<Rightarrow> waiting_acc \<times> scheduler" where
  "skip_selected w rid wa s =
     (wa\<lparr>wa_skipped := queue_prepend s rid (wa_skipped wa)\<rparr>, pop_selected w s)"

definition exceeds_loras :: "request \<Rightarrow> waiting_acc \<Rightarrow> scheduler \<Rightarrow> bool" where
  "exceeds_loras req wa s =
     (case (sc_max_loras s, req_lora req) of
        (Some k, Some l) \<Rightarrow> length (remdups (wa_loras wa)) = k \<and> adapter_id l \<notin> set (wa_loras wa)
      | _ \<Rightarrow> False)"

text \<open>The cached prefix of a request that has nothing computed yet.\<close>

definition waiting_computed ::
  "request \<Rightarrow> scheduler \<Rightarrow> (kv_cache_blocks \<times> nat \<times> nat \<times> scheduler) res" where
  "waiting_computed req s =
     (if num_computed_tokens req = 0
      then rbind (get_computed_blocks req (sc_kv s)) (\<lambda>(blks, n, km).
           py_assert (n \<le> int (num_tokens req)) (Inr (blks, nat n, nat n, s\<lparr>sc_kv := km\<rparr>)))
      else Inr (empty_kv_cache_blocks (sc_kv s), 0, num_computed_tokens req, s))"

text \<open>The tokens of a waiting request; \<open>None\<close> ends the loop.\<close>

definition waiting_tokens ::
  "request \<Rightarrow> nat \<Rightarrow> nat \<Rightarrow> step_acc \<Rightarrow> scheduler \<Rightarrow> ((nat list \<times> int \<times> int) option \<times> scheduler) res" where
  "waiting_tokens req new_local computed acc s =
     (let n0 = cap_long_prefill s (int (num_tokens req) - int computed); n1 = min n0 (sa_budget acc)
      in if \<not> sc_enable_chunked_prefill s \<and> n0 > sa_budget acc then Inr (None, s)
         else py_assert (n1 > 0)
                (rbind (encoder_inputs_for req computed n1 acc s) (\<lambda>(inputs, n2, eb, s1).
                   Inr (if n2 = 0 \<or> align_mamba req n2 new_local s1 = 0 then None
                        else Some (inputs, align_mamba req n2 new_local s1, eb), s1))))"

definition waiting_slot_args ::
  "nat \<Rightarrow> nat \<Rightarrow> kv_cache_blocks \<Rightarrow> nat \<Rightarrow> scheduler \<Rightarrow> slot_args" where
  "waiting_slot_args n new_local blks enc_toks s =
     \<lparr>num_new_tokens = n, num_new_computed_tokens = new_local, new_computed_blocks = Some blks,
      num_lookahead_tokens = sc_num_lookahead_tokens s, num_external_computed_tokens = 0,
      delay_cache_blocks = False, num_encoder_tokens = enc_toks,
      full_sequence_must_fit = sc_reserve_full_isl s, reserved_blocks = 0\<rparr>"

text \<open>A request that got its blocks joins the running list.\<close>

definition admit_waiting ::
  "bool \<Rightarrow> string \<Rightarrow> request \<Rightarrow> nat \<Rightarrow> nat \<Rightarrow> nat list \<Rightarrow> int \<Rightarrow> waiting_acc \<Rightarrow> scheduler \<Rightarrow>
   (waiting_acc \<times> scheduler) res" where
  "admit_waiting w rid req computed n inputs eb wa s =
     (let s1 = pop_selected w s;
          s2 = s1\<lparr>running := running s1 @ [rid]\<rparr>;
          acc = wa_acc wa
      in rbind (case status req of
                  WAITING \<Rightarrow> Inr (acc\<lparr>sa_new := sa_new acc @ [rid]\<rparr>)
                | PREEMPTED \<Rightarrow> Inr (acc\<lparr>sa_resumed := sa_resumed acc @ [rid]\<rparr>)
                | _ \<Rightarrow> Inl RuntimeError) (\<lambda>acc1.
           let acc2 = take_budget rid n (km_get_blocks rid (sc_kv s2)) acc1;
               req1 = req\<lparr>status := RUNNING, num_computed_tokens := computed\<rparr>;
               s3 = put_request req1 s2;
               s4 = (if computed + n < num_tokens req
                     then s3\<lparr>inflight_prefills := insert rid (inflight_prefills s3)\<rparr> else s3)
           in rbind (schedule_encoder_inputs req1 inputs eb (acc2, s4)) (\<lambda>(acc3, s5).
                Inr (wa\<lparr>wa_acc := acc3,
                        wa_loras := (case (sc_max_loras s, req_lora req) of
                                       (Some _, Some l) \<Rightarrow> wa_loras wa @ [adapter_id l]
                                     | _ \<Rightarrow> wa_loras wa)\<rparr>, s5))))"

text \<open>The blocks of a waiting request, and its admission if there are enough.\<close>

definition place_waiting ::
  "bool \<Rightarrow> string \<Rightarrow> request \<Rightarrow> kv_cache_blocks \<Rightarrow> nat \<Rightarrow> nat \<Rightarrow> nat list \<Rightarrow> nat \<Rightarrow> int \<Rightarrow> waiting_acc \<Rightarrow> scheduler \<Rightarrow>
   (bool \<times> waiting_acc \<times> scheduler) res" where
  "place_waiting w rid req blks new_local computed inputs n eb wa s =
     rbind (if sc_is_encoder_decoder s \<and> has_encoder_inputs req \<and> inputs \<noteq> []
            then sum_embeds req inputs else Inr 0) (\<lambda>enc_toks.
     rbind (allocate_slots req (waiting_slot_args n new_local blks enc_toks s) (sc_kv s)) (\<lambda>(new, km).
       let s1 = s\<lparr>sc_kv := km\<rparr>
       in case new of
            None \<Rightarrow>
              rbind (if has_encoder_inputs req then with_enc (enc_free req) s1 else Inr s1)
                (\<lambda>s2. Inr (False, wa, s2))
          | Some _ \<Rightarrow>
              rbind (admit_waiting w rid req computed n inputs eb wa s1) (\<lambda>(wa1, s2). Inr (True, wa1, s2))))"

definition schedule_admissible ::
  "bool \<Rightarrow> string \<Rightarrow> request \<Rightarrow> waiting_acc \<Rightarrow> scheduler \<Rightarrow> (bool \<times> waiting_acc \<times> scheduler) res" where
  "schedule_admissible w rid req wa s =
     rbind (waiting_computed req s) (\<lambda>(blks, new_local, computed, s1).
     rbind (waiting_tokens req new_local computed (wa_acc wa) s1) (\<lambda>(toks, s2).
       case toks of
         None \<Rightarrow> Inr (False, wa, s2)
       | Some (inputs, n, eb) \<Rightarrow>
           if n < 0 then Inl Unmodelled
           else place_waiting w rid req blks new_local computed inputs (nat n) eb wa s2))"

definition promote_waiting :: "grammar \<Rightarrow> request \<Rightarrow> scheduler \<Rightarrow> (bool \<times> scheduler) res" where
  "promote_waiting g req s =
     (if is_blocked_waiting_status (status req) then try_promote_blocked_waiting_request g req s else Inr (True, s))"

text \<open>One waiting request; the flag says whether the loop goes on.\<close>

definition schedule_waiting ::
  "grammar \<Rightarrow> waiting_acc \<Rightarrow> scheduler \<Rightarrow> (bool \<times> waiting_acc \<times> scheduler) res" where
  "schedule_waiting g wa s =
     (case select_waiting_queue s of
        None \<Rightarrow> Inl AssertionError
      | Some w \<Rightarrow>
          (case get_request s (selected_head w s) of
             None \<Rightarrow> Inl KeyError
           | Some req0 \<Rightarrow>
               rbind (promote_waiting g req0 s) (\<lambda>(ready, s1).
                 case get_request s1 (selected_head w s) of
                   None \<Rightarrow> Inl KeyError
                 | Some req \<Rightarrow>
                     if \<not> ready \<or> exceeds_loras req wa s1
                     then Inr (True, skip_selected w (selected_head w s) wa s1)
                     else schedule_admissible w (selected_head w s) req wa s1)))"

text \<open>Every round of the loop that goes on takes one request from the queues.\<close>

definition total_waiting :: "scheduler \<Rightarrow> nat" where
  "total_waiting s = length (waiting s) + length (skipped_waiting s)"

lemma put_request_total_waiting [simp]: "total_waiting (put_request r s) = total_waiting s"
  by (simp add: total_waiting_def)

lemma total_waiting_updates [simp]:
  "total_waiting (s\<lparr>sc_kv := km\<rparr>) = total_waiting s" "total_waiting (s\<lparr>sc_enc := e\<rparr>) = total_waiting s"
  "total_waiting (s\<lparr>running := rs\<rparr>) = total_waiting s"
  "total_waiting (s\<lparr>inflight_prefills := ps\<rparr>) = total_waiting s"
  by (simp_all add: total_waiting_def)

lemma pop_selected_total: "select_waiting_queue s = Some w \<Longrightarrow> total_waiting (pop_selected w s) < total_waiting s"
  by (auto simp: select_waiting_queue_def pop_selected_def total_waiting_def
      split: scheduling_policy.splits if_splits)

lemma select_waiting_queue_frame:
  "waiting s' = waiting s \<Longrightarrow> skipped_waiting s' = skipped_waiting s \<Longrightarrow> total_waiting (pop_selected w s') =
     total_waiting (pop_selected w s)"
  by (simp add: pop_selected_def total_waiting_def)

lemma allocate_encoder_inputs_total:
  "allocate_encoder_inputs req is s = Inr s' \<Longrightarrow> total_waiting s' = total_waiting s"
  by (induction "is" arbitrary: s) (auto simp: rbind_eq_Inr with_enc_Inr)

lemma schedule_encoder_inputs_total:
  "schedule_encoder_inputs req inputs b (acc, s) = Inr (acc', s') \<Longrightarrow> total_waiting s' = total_waiting s"
  by (auto simp: schedule_encoder_inputs_def rbind_eq_Inr dest!: allocate_encoder_inputs_total
      split: if_splits)

lemma waiting_computed_frame:
  "waiting_computed req s = Inr (blks, l, c, s') \<Longrightarrow> \<exists>km. s' = s\<lparr>sc_kv := km\<rparr>"
  by (auto simp: waiting_computed_def rbind_eq_Inr py_assert_eq_Inr split: if_splits intro: exI[of _ "sc_kv s"])

lemma waiting_tokens_frame:
  "waiting_tokens req l c acc s = Inr (toks, s') \<Longrightarrow> \<exists>e. s' = s\<lparr>sc_enc := e\<rparr>"
  by (auto simp: waiting_tokens_def Let_def py_assert_eq_Inr split: if_splits
      dest: encoder_inputs_for_frame intro: exI[of _ "sc_enc s"] elim!: rbind_InrE)

lemma admit_waiting_total:
  "admit_waiting w rid req c n inputs eb wa s = Inr (wa', s') \<Longrightarrow> total_waiting s' = total_waiting (pop_selected w s)"
  by (auto simp: admit_waiting_def Let_def rbind_eq_Inr split: if_splits
      dest!: schedule_encoder_inputs_total)

lemma place_waiting_cases [consumes 1, case_names no_blocks admit]:
  assumes "place_waiting w rid req blks l c inputs n eb wa s = Inr (b, wa', s')"
  obtains enc_toks km e where
      "allocate_slots req (waiting_slot_args n l blks enc_toks s) (sc_kv s) = Inr (None, km)"
      "b = False" "wa' = wa" "s' = s\<lparr>sc_kv := km, sc_enc := e\<rparr>"
  | enc_toks new km where
      "allocate_slots req (waiting_slot_args n l blks enc_toks s) (sc_kv s) = Inr (Some new, km)"
      "admit_waiting w rid req c n inputs eb wa (s\<lparr>sc_kv := km\<rparr>) = Inr (wa', s')" "b = True"
proof -
  obtain enc_toks where a: "rbind (allocate_slots req (waiting_slot_args n l blks enc_toks s) (sc_kv s)) (\<lambda>(new, km).
       let s1 = s\<lparr>sc_kv := km\<rparr>
       in case new of
            None \<Rightarrow>
              rbind (if has_encoder_inputs req then with_enc (enc_free req) s1 else Inr s1)
                (\<lambda>s2. Inr (False, wa, s2))
          | Some _ \<Rightarrow>
              rbind (admit_waiting w rid req c n inputs eb wa s1) (\<lambda>(wa1, s2). Inr (True, wa1, s2))) =
      Inr (b, wa', s')"
    using assms[unfolded place_waiting_def] by (rule rbind_InrE) (rule that, assumption)
  then obtain x where x: "allocate_slots req (waiting_slot_args n l blks enc_toks s) (sc_kv s) = Inr x"
    by (elim rbind_InrE)
  obtain new km where xeq: "x = (new, km)" by (cases x)
  note al = x[unfolded xeq]
  note a = a[unfolded al rbind_simps prod.case Let_def]
  show thesis
  proof (cases new)
    case None
    then show thesis using a al
      by (auto simp: rbind_eq_Inr with_enc_Inr split: if_splits
          intro: that(1)[of enc_toks km "sc_enc s"] that(1)[of enc_toks km])
  next
    case (Some blks')
    then obtain y where y: "admit_waiting w rid req c n inputs eb wa (s\<lparr>sc_kv := km\<rparr>) = Inr y"
      using a by (auto elim: rbind_InrE)
    then show thesis using a al Some by (cases y) (auto intro: that(2))
  qed
qed

lemma schedule_admissible_cases [consumes 1, case_names no_tokens place]:
  assumes "schedule_admissible w rid req wa s = Inr (b, wa', s')"
  obtains blks l c km e where "waiting_computed req s = Inr (blks, l, c, s\<lparr>sc_kv := km\<rparr>)"
      "waiting_tokens req l c (wa_acc wa) (s\<lparr>sc_kv := km\<rparr>) = Inr (None, s\<lparr>sc_kv := km, sc_enc := e\<rparr>)"
      "b = False" "wa' = wa" "s' = s\<lparr>sc_kv := km, sc_enc := e\<rparr>"
  | blks l c km e inputs n eb where "waiting_computed req s = Inr (blks, l, c, s\<lparr>sc_kv := km\<rparr>)"
      "waiting_tokens req l c (wa_acc wa) (s\<lparr>sc_kv := km\<rparr>) =
         Inr (Some (inputs, n, eb), s\<lparr>sc_kv := km, sc_enc := e\<rparr>)" "0 \<le> n"
      "place_waiting w rid req blks l c inputs (nat n) eb wa (s\<lparr>sc_kv := km, sc_enc := e\<rparr>) = Inr (b, wa', s')"
proof -
  note a = assms[unfolded schedule_admissible_def]
  obtain x where x: "waiting_computed req s = Inr x" using a by (elim rbind_InrE)
  obtain blks l c s1 where xeq: "x = (blks, l, c, s1)" by (cases x)
  obtain km where km: "s1 = s\<lparr>sc_kv := km\<rparr>" using waiting_computed_frame[OF x[unfolded xeq]] by (elim exE)
  note w1 = x[unfolded xeq km]
  note a2 = a[unfolded w1 rbind_simps prod.case]
  obtain y where y: "waiting_tokens req l c (wa_acc wa) (s\<lparr>sc_kv := km\<rparr>) = Inr y" using a2 by (elim rbind_InrE)
  obtain toks s2 where yeq: "y = (toks, s2)" by (cases y)
  obtain e where e: "s2 = s\<lparr>sc_kv := km, sc_enc := e\<rparr>"
    using waiting_tokens_frame[OF y[unfolded yeq]] by (elim exE)
  note w2 = y[unfolded yeq e]
  note a3 = a2[unfolded w2 rbind_simps prod.case]
  show thesis
  proof (cases toks)
    case None
    then show thesis using a3 w2 by (intro that(1)[OF w1, of e]) simp_all
  next
    case (Some t)
    then obtain inputs n eb where t: "toks = Some (inputs, n, eb)" by (cases t) auto
    then show thesis using a3 w2
      by (intro that(2)[OF w1, of inputs n eb e]) (simp_all split: if_splits)
  qed
qed

lemma schedule_admissible_total:
  assumes "schedule_admissible w rid req wa s = Inr (True, wa', s')"
  shows "total_waiting s' = total_waiting (pop_selected w s)"
  using assms
proof (cases rule: schedule_admissible_cases)
  case (place blks l c km e inputs n eb)
  from place(4) show ?thesis
    by (cases rule: place_waiting_cases)
       (auto dest!: admit_waiting_total simp: pop_selected_def total_waiting_def)
qed simp

lemma try_promote_frame:
  "try_promote_blocked_waiting_request g req s = Inr (b, s') \<Longrightarrow> s' = s \<or> s' = put_request (req\<lparr>status := WAITING\<rparr>) s"
  by (cases "status req") (auto simp: try_promote_blocked_waiting_request_def py_assert_eq_Inr split: if_splits)

lemma promote_waiting_frame:
  "promote_waiting g req s = Inr (b, s') \<Longrightarrow> s' = s \<or> s' = put_request (req\<lparr>status := WAITING\<rparr>) s"
  using try_promote_frame[of g req s b s'] by (simp add: promote_waiting_def split: if_splits)

lemma schedule_waiting_cases [consumes 1, case_names skip admissible]:
  assumes "schedule_waiting g wa s = Inr (b, wa', s')"
  obtains w req0 ready s1 req where "select_waiting_queue s = Some w"
      "get_request s (selected_head w s) = Some req0" "promote_waiting g req0 s = Inr (ready, s1)"
      "get_request s1 (selected_head w s) = Some req" "b = True"
      "wa' = wa\<lparr>wa_skipped := queue_prepend s1 (selected_head w s) (wa_skipped wa)\<rparr>" "s' = pop_selected w s1"
  | w req0 s1 req where "select_waiting_queue s = Some w"
      "get_request s (selected_head w s) = Some req0" "promote_waiting g req0 s = Inr (True, s1)"
      "get_request s1 (selected_head w s) = Some req" "\<not> exceeds_loras req wa s1"
      "schedule_admissible w (selected_head w s) req wa s1 = Inr (b, wa', s')"
proof -
  note a = assms[unfolded schedule_waiting_def]
  obtain w where w: "select_waiting_queue s = Some w" using a by (cases "select_waiting_queue s") auto
  note a = a[unfolded w option.case]
  obtain req0 where r0: "get_request s (selected_head w s) = Some req0"
    using a by (cases "get_request s (selected_head w s)") auto
  note a = a[unfolded r0 option.case]
  obtain x where x: "promote_waiting g req0 s = Inr x" using a by (elim rbind_InrE)
  obtain ready s1 where xeq: "x = (ready, s1)" by (cases x)
  note p = x[unfolded xeq]
  note a = a[unfolded p rbind_simps prod.case]
  obtain req where r: "get_request s1 (selected_head w s) = Some req"
    using a by (cases "get_request s1 (selected_head w s)") auto
  note a = a[unfolded r option.case]
  show thesis
  proof (cases "\<not> ready \<or> exceeds_loras req wa s1")
    case True
    then show thesis using a by (intro that(1)[OF w r0 p r]) (simp_all add: skip_selected_def)
  next
    case False
    then show thesis using a p by (intro that(2)[OF w r0 _ r]) simp_all
  qed
qed

lemma schedule_waiting_total:
  assumes "schedule_waiting g wa s = Inr (True, wa', s')"
  shows "total_waiting s' < total_waiting s"
proof -
  have fr: "total_waiting (pop_selected w s1) < total_waiting s"
    if "select_waiting_queue s = Some w" "promote_waiting g req0 s = Inr (ready, s1)" for w req0 ready s1
  proof -
    have "waiting s1 = waiting s" "skipped_waiting s1 = skipped_waiting s"
      using promote_waiting_frame[OF that(2)] by auto
    then show ?thesis using pop_selected_total[OF that(1)] select_waiting_queue_frame[of s1 s w] by simp
  qed
  from assms show ?thesis
    by (cases rule: schedule_waiting_cases) (use fr schedule_admissible_total in force)+
qed

function waiting_loop :: "grammar \<Rightarrow> waiting_acc \<Rightarrow> scheduler \<Rightarrow> (waiting_acc \<times> scheduler) res" where
  "waiting_loop g wa s =
     (if (waiting s \<noteq> [] \<or> skipped_waiting s \<noteq> []) \<and> sa_budget (wa_acc wa) > 0 \<and>
         length (running s) \<noteq> sc_max_num_running_reqs s
      then rbind (schedule_waiting g wa s) (\<lambda>(go_on, wa1, s1).
           if go_on then waiting_loop g wa1 s1 else Inr (wa1, s1))
      else Inr (wa, s))"
  by pat_completeness auto
termination
  by (relation "measure (\<lambda>(_, _, s). total_waiting s)") (auto dest!: schedule_waiting_total)

declare waiting_loop.simps [simp del]

text \<open>The LoRA adapters of the running requests that were scheduled.\<close>

definition scheduled_loras :: "step_acc \<Rightarrow> scheduler \<Rightarrow> int list res" where
  "scheduled_loras acc s =
     (case sc_max_loras s of
        None \<Rightarrow> Inr []
      | Some k \<Rightarrow>
          let ids = remdups (filter (\<lambda>i. i > 0)
                      (concat (map (\<lambda>rid. case get_request s rid of
                                            Some r \<Rightarrow> (case req_lora r of Some l \<Rightarrow> [adapter_id l] | None \<Rightarrow> [])
                                          | None \<Rightarrow> []) (sa_running acc))))
          in py_assert (length ids \<le> k) (Inr ids))"

definition schedule_all_waiting :: "grammar \<Rightarrow> step_acc \<Rightarrow> scheduler \<Rightarrow> (step_acc \<times> scheduler) res" where
  "schedule_all_waiting g acc s =
     rbind (scheduled_loras acc s) (\<lambda>loras.
       if sa_preempted acc \<noteq> [] \<or> sc_pause_state s \<noteq> UNPAUSED then Inr (acc, s)
       else rbind (waiting_loop g \<lparr>wa_acc = acc, wa_skipped = [], wa_loras = loras\<rparr> s) (\<lambda>(wa, s1).
              Inr (wa_acc wa,
                   if wa_skipped wa = [] then s1
                   else s1\<lparr>skipped_waiting := queue_prepend_all s1 (wa_skipped wa) (skipped_waiting s1)\<rparr>)))"
section \<open>The output for the workers\<close>

definition new_request_data_of ::
  "(string \<times> kv_cache_blocks) list \<Rightarrow> scheduler \<Rightarrow> string \<Rightarrow> new_request_data res" where
  "new_request_data_of blocks s rid =
     (case (get_request s rid, map_of blocks rid) of
        (Some req, Some b) \<Rightarrow>
          Inr \<lparr>nrd_req_id = rid, nrd_prompt_token_ids = prompt_token_ids req,
               nrd_block_ids = map (map (\<lambda>x. block_id (heap (km_pool (sc_kv s)) x))) b,
               nrd_num_computed_tokens = num_computed_tokens req,
               nrd_prefill_token_ids = (if sc_use_v2_model_runner s then Some (all_token_ids req) else None)\<rparr>
      | _ \<Rightarrow> Inl KeyError)"

definition cached_request_step ::
  "step_acc \<Rightarrow> scheduler \<Rightarrow> bool \<Rightarrow> string \<Rightarrow> cached_request_data \<Rightarrow> cached_request_data res" where
  "cached_request_step acc s resumed rid d =
     (case (get_request s rid, map_of (sa_num_scheduled acc) rid, map_of (sa_new_blocks acc) rid) of
        (Some req, Some n, Some b) \<Rightarrow>
          let prev = rid \<in> prev_step_scheduled_req_ids s;
              spec = (case map_of (sa_spec acc) rid of None \<Rightarrow> [] | Some l \<Rightarrow> l);
              toks = take (n - length spec) (drop (num_computed_tokens req) (all_token_ids req))
          in py_assert (resumed \<longrightarrow> \<not> prev)
               (Inr (d\<lparr>crd_req_ids := crd_req_ids d @ [rid],
                       crd_resumed_req_ids := (if resumed then crd_resumed_req_ids d @ [rid]
                                               else crd_resumed_req_ids d),
                       crd_new_token_ids := (if sc_use_pp s \<and> \<not> sc_async_scheduling s
                                             then crd_new_token_ids d @ [toks] else crd_new_token_ids d),
                       crd_all_token_ids := (if prev then crd_all_token_ids d
                                             else dict_set rid (all_token_ids req) (crd_all_token_ids d)),
                       crd_new_block_ids := crd_new_block_ids d @ [kv_block_ids (km_pool (sc_kv s)) True b],
                       crd_num_computed_tokens := crd_num_computed_tokens d @ [num_computed_tokens req],
                       crd_num_output_tokens := crd_num_output_tokens d @
                         [int (num_output_tokens req) + num_output_placeholders req]\<rparr>))
      | _ \<Rightarrow> Inl KeyError)"

fun cached_request_loop ::
  "step_acc \<Rightarrow> scheduler \<Rightarrow> bool \<Rightarrow> string list \<Rightarrow> cached_request_data \<Rightarrow> cached_request_data res" where
  "cached_request_loop acc s resumed [] d = Inr d"
| "cached_request_loop acc s resumed (r # rs) d =
     rbind (cached_request_step acc s resumed r d) (cached_request_loop acc s resumed rs)"

definition make_cached_request_data ::
  "string list \<Rightarrow> string list \<Rightarrow> step_acc \<Rightarrow> scheduler \<Rightarrow> cached_request_data res" where
  "make_cached_request_data running_ids resumed_ids acc s =
     rbind (cached_request_loop acc s False running_ids
              \<lparr>crd_req_ids = [], crd_resumed_req_ids = [], crd_new_token_ids = [], crd_all_token_ids = [],
               crd_new_block_ids = [], crd_num_computed_tokens = [], crd_num_output_tokens = []\<rparr>)
       (cached_request_loop acc s True resumed_ids)"

section \<open>After scheduling\<close>

definition advance_one :: "string \<times> nat \<Rightarrow> bool \<times> scheduler \<Rightarrow> (bool \<times> scheduler) res" where
  "advance_one ent st =
     (case (ent, st) of ((rid, n), (so_flag, s)) \<Rightarrow>
       case get_request s rid of
         None \<Rightarrow> Inl KeyError
       | Some req \<Rightarrow>
           let computed = num_computed_tokens req + n;
               chunk = (int computed < int (num_tokens req) + num_output_placeholders req);
               s1 = put_request (req\<lparr>num_computed_tokens := computed, is_prefill_chunk := chunk\<rparr>) s
           in Inr (so_flag \<or> use_structured_output req \<and> \<not> chunk,
                   if chunk then s1 else s1\<lparr>inflight_prefills := inflight_prefills s1 - {rid}\<rparr>))"

fun advance_all :: "(string \<times> nat) list \<Rightarrow> bool \<times> scheduler \<Rightarrow> (bool \<times> scheduler) res" where
  "advance_all [] st = Inr st"
| "advance_all (e # es) st = rbind (advance_one e st) (advance_all es)"

definition update_after_schedule :: "scheduler_output \<Rightarrow> scheduler \<Rightarrow> (scheduler_output \<times> scheduler) res" where
  "update_after_schedule so s =
     rbind (advance_all (num_scheduled_tokens so) (has_structured_output_requests so, s)) (\<lambda>(so_flag, s1).
       Inr (so\<lparr>has_structured_output_requests := so_flag\<rparr>, s1\<lparr>finished_req_ids := {}\<rparr>))"

text \<open>The asynchronous scheduler also reserves placeholders for the tokens that are being sampled.\<close>

definition placeholder_one ::
  "(string \<times> int list) list \<Rightarrow> string \<times> nat \<Rightarrow> bool \<times> scheduler \<Rightarrow> (bool \<times> scheduler) res" where
  "placeholder_one spec ent st =
     (case (ent, st) of ((rid, n), (so_flag, s)) \<Rightarrow>
       case get_request s rid of
         None \<Rightarrow> Inl KeyError
       | Some req \<Rightarrow>
           if is_prefill_chunk req then Inr (so_flag, s)
           else let k = (case map_of spec rid of None \<Rightarrow> 0 | Some l \<Rightarrow> length l)
                in Inr (so_flag \<or> use_structured_output req \<and> num_output_placeholders req > 0,
                        put_request (req\<lparr>num_output_placeholders := num_output_placeholders req + 1 + int k,
                                         spec_token_ids := replicate (sc_num_spec_tokens s) (- 1),
                                         next_decode_eligible_step :=
                                           (if sc_use_v2_model_runner s then current_step s + sc_pp_size s
                                            else next_decode_eligible_step req)\<rparr>) s))"

fun placeholder_all ::
  "(string \<times> int list) list \<Rightarrow> (string \<times> nat) list \<Rightarrow> bool \<times> scheduler \<Rightarrow> (bool \<times> scheduler) res" where
  "placeholder_all spec [] st = Inr st"
| "placeholder_all spec (e # es) st = rbind (placeholder_one spec e st) (placeholder_all spec es)"

definition async_update_after_schedule :: "scheduler_output \<Rightarrow> scheduler \<Rightarrow> (scheduler_output \<times> scheduler) res" where
  "async_update_after_schedule so s =
     rbind (update_after_schedule so s) (\<lambda>(so1, s1).
     rbind (placeholder_all (scheduled_spec_decode_tokens so1) (num_scheduled_tokens so1)
              (pending_structured_output_tokens so1, s1)) (\<lambda>(so_flag, s2).
       Inr (so1\<lparr>pending_structured_output_tokens := so_flag\<rparr>, s2)))"

section \<open>The whole step\<close>

definition initial_acc :: "scheduler \<Rightarrow> step_acc" where
  "initial_acc s =
     \<lparr>sa_new = [], sa_resumed = [], sa_running = [], sa_preempted = [], sa_new_blocks = [],
      sa_num_scheduled = [],
      sa_budget = (if sc_pause_state s = PAUSED_ALL then 0 else int (sc_max_num_scheduled_tokens s)),
      sa_encoder_inputs = [], sa_encoder_budget = int (sc_max_num_encoder_input_tokens s), sa_spec = []\<rparr>"

definition check_constraints :: "step_acc \<Rightarrow> scheduler \<Rightarrow> bool" where
  "check_constraints acc s \<longleftrightarrow>
     sum_list (map snd (sa_num_scheduled acc)) \<le> sc_max_num_scheduled_tokens s \<and> 0 \<le> sa_budget acc \<and>
     length (running s) \<le> sc_max_num_running_reqs s \<and>
     length (sa_new acc) + length (sa_resumed acc) + length (sa_running acc) \<le> length (running s)"

definition common_prefix :: "scheduler \<Rightarrow> nat list \<times> scheduler" where
  "common_prefix s =
     (case running s of
        [] \<Rightarrow> (replicate (length (kv_cache_groups (co_config (km_coordinator (sc_kv s))))) 0, s)
      | r # _ \<Rightarrow> (case km_get_num_common_prefix_blocks r (sc_kv s) of (ns, km) \<Rightarrow> (ns, s\<lparr>sc_kv := km\<rparr>)))"

definition build_output :: "step_acc \<Rightarrow> scheduler \<Rightarrow> (scheduler_output \<times> scheduler) res" where
  "build_output acc s =
     (case common_prefix s of (prefix, s1) \<Rightarrow>
       let new_ids = (if sc_use_v2_model_runner s1 then sa_new acc @ sa_resumed acc else sa_new acc);
           resumed_ids = (if sc_use_v2_model_runner s1 then [] else sa_resumed acc)
       in rbind (rmapM (new_request_data_of (sa_new_blocks acc) s1) new_ids) (\<lambda>news.
          rbind (make_cached_request_data (sa_running acc) resumed_ids acc s1) (\<lambda>crd.
            let s2 = s1\<lparr>prev_step_scheduled_req_ids := set (map fst (sa_num_scheduled acc))\<rparr>
            in case (if sc_needs_kv_cache_zeroing s2
                     then (case km_take_new_block_ids (sc_kv s2) of
                             (ids, km) \<Rightarrow> (if ids = [] then None else Some ids, s2\<lparr>sc_kv := km\<rparr>))
                     else (None, s2)) of
                 (zero_ids, s3) \<Rightarrow>
                   (case enc_get_freed (sc_enc s3) of
                      (hashes, e) \<Rightarrow>
                        Inr (\<lparr>scheduled_new_reqs = news, scheduled_cached_reqs = crd,
                              num_scheduled_tokens = sa_num_scheduled acc,
                              total_num_scheduled_tokens = sum_list (map snd (sa_num_scheduled acc)),
                              scheduled_spec_decode_tokens = sa_spec acc,
                              scheduled_encoder_inputs = sa_encoder_inputs acc,
                              num_common_prefix_blocks = prefix, preempted_req_ids = sa_preempted acc,
                              so_finished_req_ids = finished_req_ids s3, free_encoder_mm_hashes = hashes,
                              new_block_ids_to_zero = zero_ids, has_structured_output_requests = False,
                              pending_structured_output_tokens = False\<rparr>,
                             s3\<lparr>sc_enc := e\<rparr>)))))"

definition schedule_step :: "grammar \<Rightarrow> scheduler \<Rightarrow> (scheduler_output \<times> scheduler) res" where
  "schedule_step g s0 =
     (let s = s0\<lparr>current_step := current_step s0 + 1, sc_kv := km_new_step_starts (sc_kv s0)\<rparr>
      in rbind (running_loop 0 (initial_acc s) s) (\<lambda>(acc1, s1).
         rbind (schedule_all_waiting g acc1 s1) (\<lambda>(acc2, s2).
           py_assert (check_constraints acc2 s2)
             (rbind (build_output acc2 s2) (\<lambda>(so, s3).
                if sc_async_scheduling s3 then async_update_after_schedule so s3
                else update_after_schedule so s3)))))"

end
