(* ===== verification/Sched_Queues.thy ===== *)
theory Sched_Queues
  imports Sched_Schedule
begin

text \<open>
  The requests of the scheduler and its three lists.  Every live request is in exactly one of the waiting,
  the skipped and the running list, with a status that fits, and the registry of Power-SMC children names
  live requests.  The operations of \<open>Sched_State\<close>, \<open>Sched_Smc\<close>, \<open>Sched_Update\<close> and \<open>Sched_Schedule\<close> keep this.
  Requests of streaming sessions are excluded: they leave and enter the lists in other ways.
\<close>

section \<open>Queues under both policies\<close>

interpretation sq: request_queue "queue_add s" "queue_prepend s" "queue_prepend_all s" "queue_remove_all s"
  for s :: scheduler
  by unfold_locales
     (simp_all add: queue_add_def queue_prepend_def queue_prepend_all_def queue_remove_all_def
        fcfs.mset_add fcfs.mset_prepend fcfs.mset_prepend_all fcfs.remove_requests
        prio.mset_add prio.mset_prepend prio.mset_prepend_all prio.remove_requests
        split: scheduling_policy.splits)

lemmas queue_facts = sq.set_queue sq.distinct_queue sq.length_queue

lemma remove_all_filter: "distinct xs \<Longrightarrow> finite R \<Longrightarrow> remove_all xs R = filter (\<lambda>x. x \<notin> R) xs"
proof -
  assume d: "distinct xs"
  have "remove1 a xs = filter (\<lambda>x. x \<noteq> a) xs" for a
    using d by (rule distinct_remove1_removeAll[of xs a, unfolded removeAll_filter_not_eq, simplified eq_commute])
  then show ?thesis
    unfolding remove_all_def by (auto simp: card_1_singleton_iff)
qed

section \<open>What the lists depend on\<close>

text \<open>The parts of a request that never change, and the view of a scheduler that the lists depend on.\<close>

definition core :: "request \<Rightarrow> string \<times> bool \<times> power_smc_child_request_info option \<times> mm_feature list" where
  "core r = (request_id r, resumable r, power_smc_child_info r, mm_features r)"

definition shape :: "scheduler \<Rightarrow> string \<Rightarrow>
    (request_status \<times> string \<times> bool \<times> power_smc_child_request_info option \<times> mm_feature list) option" where
  "shape s rid = map_option (\<lambda>r. (status r, core r)) (get_request s rid)"

definition same_lists :: "scheduler \<Rightarrow> scheduler \<Rightarrow> bool" where
  "same_lists s s' \<longleftrightarrow> waiting s' = waiting s \<and> skipped_waiting s' = skipped_waiting s \<and> running s' = running s \<and>
     sc_max_num_running_reqs s' = sc_max_num_running_reqs s \<and> sc_policy s' = sc_policy s"

definition same_view :: "scheduler \<Rightarrow> scheduler \<Rightarrow> bool" where
  "same_view s s' \<longleftrightarrow> same_lists s s' \<and> power_smc_group_children s' = power_smc_group_children s \<and>
     shape s' = shape s"

lemma same_lists_refl [simp]: "same_lists s s"
  by (simp add: same_lists_def)

lemma same_lists_trans: "same_lists s s' \<Longrightarrow> same_lists s' s'' \<Longrightarrow> same_lists s s''"
  by (simp add: same_lists_def)

lemma same_view_refl [simp]: "same_view s s"
  by (simp add: same_view_def)

lemma same_view_trans: "same_view s s' \<Longrightarrow> same_view s' s'' \<Longrightarrow> same_view s s''"
  by (simp add: same_view_def same_lists_def)

lemma get_request_frame [simp]:
  "get_request (s\<lparr>sc_kv := a\<rparr>) = get_request s" "get_request (s\<lparr>sc_enc := b\<rparr>) = get_request s"
  "get_request (s\<lparr>waiting := c\<rparr>) = get_request s" "get_request (s\<lparr>skipped_waiting := c\<rparr>) = get_request s"
  "get_request (s\<lparr>running := c\<rparr>) = get_request s" "get_request (s\<lparr>inflight_prefills := d\<rparr>) = get_request s"
  "get_request (s\<lparr>finished_req_ids := d\<rparr>) = get_request s" "get_request (s\<lparr>prev_step_scheduled_req_ids := d\<rparr>) = get_request s"
  "get_request (s\<lparr>current_step := n\<rparr>) = get_request s" "get_request (s\<lparr>last_power_smc_kv_event := ev\<rparr>) = get_request s"
  "get_request (s\<lparr>power_smc_group_managers := m\<rparr>) = get_request s"
  "get_request (s\<lparr>power_smc_group_children := ch\<rparr>) = get_request s"
  "get_request (s\<lparr>sc_num_system_rngs := n\<rparr>) = get_request s"
  "get_request (s\<lparr>num_waiting_for_streaming_input := z\<rparr>) = get_request s"
  "get_request (s\<lparr>finished_recving_kv_req_ids := d\<rparr>) = get_request s"
  "get_request (s\<lparr>failed_recving_kv_req_ids := d\<rparr>) = get_request s"
  by (simp_all add: get_request_def fun_eq_iff)

lemma dom_shape: "dom (shape s) = dom (get_request s)"
  by (auto simp: shape_def)

lemma shape_frame: "get_request s' = get_request s \<Longrightarrow> shape s' = shape s"
  by (simp add: shape_def fun_eq_iff)

lemma get_request_put:
  "get_request (put_request r s) = (if get_request s (request_id r) = None then get_request s
     else (get_request s)(request_id r \<mapsto> r))"
  by (simp add: put_request_def get_request_def fun_eq_iff)

lemma put_request_other [simp]:
  "power_smc_group_children (put_request r s) = power_smc_group_children s"
  "power_smc_group_managers (put_request r s) = power_smc_group_managers s"
  "sc_max_num_running_reqs (put_request r s) = sc_max_num_running_reqs s"
  "sc_kv (put_request r s) = sc_kv s" "sc_enc (put_request r s) = sc_enc s"
  by (simp_all add: put_request_def)

lemma same_lists_put [simp]: "same_lists s (put_request r s)"
  by (simp add: same_lists_def)

lemma shape_put:
  "get_request s (request_id r) \<noteq> None \<Longrightarrow> shape (put_request r s) = (shape s)(request_id r \<mapsto> (status r, core r))"
  by (auto simp: shape_def get_request_put fun_eq_iff)

lemma shape_put_None: "get_request s (request_id r) = None \<Longrightarrow> put_request r s = s"
  by (simp add: put_request_def)

lemma same_view_put:
  assumes "get_request s (request_id r) = Some old" "status r = status old" "core r = core old"
  shows "same_view s (put_request r s)"
proof -
  have "shape s (request_id r) = Some (status r, core r)" using assms by (simp add: shape_def)
  then have "shape (put_request r s) = shape s" using assms(1) by (simp add: shape_put fun_upd_idem)
  then show ?thesis by (simp add: same_view_def)
qed

lemma same_view_updates [simp]:
  "same_view s (s\<lparr>sc_kv := a\<rparr>)" "same_view s (s\<lparr>sc_enc := b\<rparr>)" "same_view s (s\<lparr>inflight_prefills := d\<rparr>)"
  "same_view s (s\<lparr>finished_req_ids := d\<rparr>)" "same_view s (s\<lparr>prev_step_scheduled_req_ids := d\<rparr>)"
  "same_view s (s\<lparr>current_step := n\<rparr>)" "same_view s (s\<lparr>last_power_smc_kv_event := ev\<rparr>)"
  "same_view s (s\<lparr>power_smc_group_managers := m\<rparr>)" "same_view s (s\<lparr>sc_num_system_rngs := n\<rparr>)"
  "same_view s (s\<lparr>num_waiting_for_streaming_input := z\<rparr>)" "same_view s (s\<lparr>finished_recving_kv_req_ids := d\<rparr>)"
  "same_view s (s\<lparr>failed_recving_kv_req_ids := d\<rparr>)"
  by (simp_all add: same_view_def same_lists_def shape_def fun_eq_iff)

lemma same_view_with_kv: "with_kv f s = Inr s' \<Longrightarrow> same_view s s'"
  by (auto simp: with_kv_Inr)

lemma same_view_with_enc: "with_enc f s = Inr s' \<Longrightarrow> same_view s s'"
  by (auto simp: with_enc_Inr)

section \<open>Well-formed schedulers\<close>

definition queued :: "scheduler \<Rightarrow> string list" where
  "queued s = waiting s @ skipped_waiting s @ running s"

definition fits :: "scheduler \<Rightarrow> string \<Rightarrow> request_status \<Rightarrow> bool" where
  "fits s rid st \<longleftrightarrow>
     (if rid \<in> set (running s) then st = RUNNING
      else st \<in> {WAITING, PREEMPTED, WAITING_FOR_STRUCTURED_OUTPUT_GRAMMAR})"

definition registered :: "scheduler \<Rightarrow> bool" where
  "registered s \<longleftrightarrow>
     (\<forall>pid ch idx rid. map_of (power_smc_group_children s) pid = Some ch \<longrightarrow> map_of ch idx = Some rid \<longrightarrow>
        (\<exists>r info. get_request s rid = Some r \<and> power_smc_child_info r = Some info \<and>
                  parent_id info = pid \<and> child_index info = idx))"

definition sched_wf :: "scheduler \<Rightarrow> bool" where
  "sched_wf s \<longleftrightarrow>
     distinct (queued s) \<and> set (queued s) = dom (get_request s) \<and>
     (\<forall>rid r. get_request s rid = Some r \<longrightarrow>
        request_id r = rid \<and> \<not> resumable r \<and> sorted (map mm_offset (mm_features r)) \<and> fits s rid (status r)) \<and>
     registered s \<and> length (running s) \<le> sc_max_num_running_reqs s"

text \<open>The same through the view.\<close>

definition registered_as :: "scheduler \<Rightarrow> string \<Rightarrow> string \<Rightarrow> nat \<Rightarrow> bool" where
  "registered_as s rid pid idx \<longleftrightarrow>
     (case shape s rid of
        Some (_, _, _, Some info, _) \<Rightarrow> parent_id info = pid \<and> child_index info = idx
      | _ \<Rightarrow> False)"

lemma registered_shape:
  "registered s \<longleftrightarrow>
     (\<forall>pid ch idx rid. map_of (power_smc_group_children s) pid = Some ch \<longrightarrow> map_of ch idx = Some rid \<longrightarrow>
        registered_as s rid pid idx)"
proof -
  have "(\<exists>r info. get_request s rid = Some r \<and> power_smc_child_info r = Some info \<and>
          parent_id info = pid \<and> child_index info = idx) \<longleftrightarrow> registered_as s rid pid idx" for rid pid idx
    by (cases "get_request s rid")
       (simp_all add: registered_as_def shape_def core_def split: option.splits)
  then show ?thesis unfolding registered_def by simp
qed

definition entry_ok :: "scheduler \<Rightarrow> string \<Rightarrow> bool" where
  "entry_ok s rid \<longleftrightarrow>
     (case shape s rid of
        None \<Rightarrow> True
      | Some (st, i, res, _, mm) \<Rightarrow> i = rid \<and> \<not> res \<and> sorted (map mm_offset mm) \<and> fits s rid st)"

lemma sched_wf_shape:
  "sched_wf s \<longleftrightarrow>
     distinct (queued s) \<and> set (queued s) = dom (shape s) \<and> (\<forall>rid. entry_ok s rid) \<and>
     registered s \<and> length (running s) \<le> sc_max_num_running_reqs s"
proof -
  have "entry_ok s rid \<longleftrightarrow>
      (\<forall>r. get_request s rid = Some r \<longrightarrow> request_id r = rid \<and> \<not> resumable r \<and>
         sorted (map mm_offset (mm_features r)) \<and> fits s rid (status r))" for rid
    by (cases "get_request s rid") (simp_all add: entry_ok_def shape_def core_def)
  then show ?thesis by (simp add: sched_wf_def dom_shape)
qed

lemma sched_wf_same_view: "sched_wf s \<Longrightarrow> same_view s s' \<Longrightarrow> sched_wf s'"
  unfolding same_view_def same_lists_def sched_wf_shape registered_shape registered_as_def queued_def entry_ok_def fits_def
  by (elim conjE) (simp only: simp_thms)

text \<open>A request that moves between the lists and changes its status.\<close>

lemma sched_wf_move:
  assumes wf: "sched_wf s" and q: "mset (queued s') = mset (queued s)"
    and r: "shape s rid = Some (st, c)" "shape s' = (shape s)(rid \<mapsto> (st', c))"
    and run: "set (running s') - {rid} = set (running s) - {rid}" and f: "fits s' rid st'"
    and fr: "power_smc_group_children s' = power_smc_group_children s"
    and len: "length (running s') \<le> sc_max_num_running_reqs s'"
  shows "sched_wf s'"
proof -
  have d: "dom (shape s') = dom (shape s)" using r by auto
  have "entry_ok s' x" for x
  proof (cases "x = rid")
    case True
    then show ?thesis using wf r f unfolding sched_wf_shape entry_ok_def
      by (auto dest: spec[of _ rid] split: prod.splits)
  next
    case False
    then have "fits s' x t = fits s x t" for t
      using run by (auto simp: fits_def)
    then have "entry_ok s' x = entry_ok s x"
      using r(2) False by (simp add: entry_ok_def split: option.split)
    then show ?thesis using wf by (simp add: sched_wf_shape)
  qed
  moreover have "registered_as s' x p i = registered_as s x p i" for x p i
    using r by (auto simp: registered_as_def split: prod.splits option.splits)
  then have "registered s'"
    using wf unfolding sched_wf_shape registered_shape fr by simp
  ultimately show ?thesis
    using wf len d mset_eq_imp_distinct_iff[OF q] mset_eq_setD[OF q]
    unfolding sched_wf_shape by blast
qed

lemma sched_wf_reorder:
  assumes "sched_wf s" "mset (queued s') = mset (queued s)" "shape s' = shape s" "running s' = running s"
    "power_smc_group_children s' = power_smc_group_children s"
    "sc_max_num_running_reqs s' = sc_max_num_running_reqs s"
  shows "sched_wf s'"
proof -
  have f: "fits s' = fits s" using assms(4) by (simp add: fits_def fun_eq_iff)
  have "entry_ok s' = entry_ok s" "registered_as s' = registered_as s"
    unfolding fun_eq_iff entry_ok_def registered_as_def f assms(3) by simp_all
  then show ?thesis
    using assms mset_eq_imp_distinct_iff[OF assms(2)] mset_eq_setD[OF assms(2)]
    by (simp add: sched_wf_shape registered_shape)
qed

lemma sched_wf_distinct: "sched_wf s \<Longrightarrow> distinct (queued s)" "sched_wf s \<Longrightarrow> distinct (running s)"
  unfolding sched_wf_def queued_def distinct_append by blast+

lemma sched_wf_parts:
  assumes "sched_wf s"
  shows "registered s" "length (running s) \<le> sc_max_num_running_reqs s" "set (queued s) = dom (get_request s)"
  using assms unfolding sched_wf_def by blast+

lemma sched_wf_request:
  assumes "sched_wf s" "get_request s rid = Some r"
  shows "request_id r = rid" "\<not> resumable r" "fits s rid (status r)" "rid \<in> set (queued s)" "\<not> is_finished r"
    "sorted (map mm_offset (mm_features r))"
proof -
  show "request_id r = rid" "\<not> resumable r" "fits s rid (status r)" "rid \<in> set (queued s)"
    "sorted (map mm_offset (mm_features r))"
    using assms by (auto simp: sched_wf_def)
  then show "\<not> is_finished r"
    by (auto simp: fits_def is_finished_def is_finished_status_def split: if_splits)
qed

section \<open>Preemption\<close>

lemma preempt_request_view:
  assumes "preempt_request req s = Inr s'" "get_request s (request_id req) = Some req"
  shows "mset (waiting s') = add_mset (request_id req) (mset (waiting s))" "skipped_waiting s' = skipped_waiting s"
    "running s' = running s" "shape s' = (shape s)(request_id req \<mapsto> (PREEMPTED, core req))"
    "power_smc_group_children s' = power_smc_group_children s"
    "sc_max_num_running_reqs s' = sc_max_num_running_reqs s" "sc_policy s' = sc_policy s"
proof -
  obtain km e where s': "s' = (let
      req1 = req\<lparr>status := PREEMPTED, num_computed_tokens := 0, spec_token_ids := [],
               num_preemptions := num_preemptions req + 1\<rparr>;
      s3 = put_request req1 (s\<lparr>sc_kv := km, sc_enc := e,
             inflight_prefills := inflight_prefills s - {request_id req}\<rparr>)
      in s3\<lparr>waiting := queue_prepend s3 (request_id req) (waiting s3)\<rparr>)"
    using assms(1) by (auto simp: preempt_request_def py_assert_eq_Inr rbind_eq_Inr with_kv_Inr with_enc_Inr Let_def)
  show "mset (waiting s') = add_mset (request_id req) (mset (waiting s))" "skipped_waiting s' = skipped_waiting s"
    "running s' = running s" "power_smc_group_children s' = power_smc_group_children s"
    "sc_max_num_running_reqs s' = sc_max_num_running_reqs s" "sc_policy s' = sc_policy s"
    by (simp_all add: s' Let_def sq.mset_prepend)
  show "shape s' = (shape s)(request_id req \<mapsto> (PREEMPTED, core req))"
    using assms(2) by (auto simp: s' Let_def shape_def get_request_put core_def fun_eq_iff)
qed

lemma pick_victim_view:
  assumes "pick_victim idx acc s = Inr (v, idx', acc', s')"
  shows "v \<in> set (running s)" "mset (running s) = add_mset v (mset (running s'))" "\<exists>rs. s' = s\<lparr>running := rs\<rparr>"
proof -
  have fold_in: "foldl (\<lambda>best r. if preempt_key_less s best r then r else best) x xs \<in> set (x # xs)" for x xs
    by (induction xs arbitrary: x) auto
  have lp: "rs \<noteq> [] \<Longrightarrow> lowest_priority s rs \<in> set rs" for rs
    using fold_in[of "hd rs" "tl rs"] by (cases rs) (simp_all add: lowest_priority_def)
  have bl: "rs \<noteq> [] \<Longrightarrow> mset rs = add_mset (last rs) (mset (butlast rs))" for rs :: "string list"
    by (induction rs) auto
  have "v \<in> set (running s) \<and> mset (running s) = add_mset v (mset (running s')) \<and> (\<exists>rs. s' = s\<lparr>running := rs\<rparr>)"
  proof (cases "sc_policy s")
    case FCFS
    then show ?thesis using assms bl[of "running s"] by (auto simp: pick_victim_def split: if_splits)
  next
    case PRIORITY
    then show ?thesis using assms lp[of "running s"]
      by (auto simp: pick_victim_def Let_def rbind_eq_Inr split: if_splits option.splits)
  qed
  then show "v \<in> set (running s)" "mset (running s) = add_mset v (mset (running s'))" "\<exists>rs. s' = s\<lparr>running := rs\<rparr>"
    by simp_all
qed

text \<open>A running request that was taken from the list and is preempted.\<close>

lemma preempt_listed_wf:
  assumes wf: "sched_wf s" and s1: "s1 = s\<lparr>running := rs\<rparr>" and m: "mset (running s) = add_mset v (mset rs)"
    and r: "get_request s1 v = Some vreq" and p: "preempt_request vreq s1 = Inr s2"
  shows "sched_wf s2" "set (running s2) = set (running s) - {v}" "dom (get_request s2) = dom (get_request s)"
    "x \<noteq> v \<Longrightarrow> shape s2 x = shape s x"
proof -
  have r0: "get_request s v = Some vreq" using r s1 by simp
  have id: "request_id vreq = v" using sched_wf_request(1)[OF wf r0] .
  have d: "distinct (v # rs)" using wf mset_eq_imp_distinct_iff[of "running s" "v # rs"] m
    by (simp add: sched_wf_def queued_def)
  have st: "set (running s) = insert v (set rs)" using mset_eq_setD[of "running s" "v # rs"] m by simp
  have "get_request s1 (request_id vreq) = Some vreq" using r id by simp
  note pv = preempt_request_view[OF p this, unfolded id]
  show "set (running s2) = set (running s) - {v}" using pv(3) s1 st d by auto
  have sh: "shape s1 = shape s" by (simp add: s1 shape_def fun_eq_iff)
  show "x \<noteq> v \<Longrightarrow> shape s2 x = shape s x" using pv(4) sh by simp
  show "dom (get_request s2) = dom (get_request s)"
  proof -
    have "dom (shape s2) = insert v (dom (shape s))" using pv(4) sh by simp
    then show ?thesis using r0 by (simp add: dom_shape insert_absorb domI)
  qed
  show "sched_wf s2"
  proof (rule sched_wf_move[OF wf])
    show "mset (queued s2) = mset (queued s)" using pv(1-3) s1 m by (simp add: queued_def)
    show "shape s v = Some (status vreq, core vreq)" using r0 by (simp add: shape_def)
    show "shape s2 = (shape s)(v \<mapsto> (PREEMPTED, core vreq))" using pv(4) sh by simp
    show "set (running s2) - {v} = set (running s) - {v}" using pv(3) s1 st by auto
    show "fits s2 v PREEMPTED" using pv(3) s1 d by (simp add: fits_def)
    show "power_smc_group_children s2 = power_smc_group_children s" using pv(5) s1 by simp
    have "size (mset (running s)) = Suc (length rs)" using m by simp
    then show "length (running s2) \<le> sc_max_num_running_reqs s2"
      using pv(3,6) s1 wf by (simp add: sched_wf_def)
  qed
qed

lemma preempt_victim_wf:
  assumes wf: "sched_wf s" and v: "pick_victim idx acc s = Inr (v, idx', acc', s1)"
    and r: "get_request s1 v = Some vreq" and p: "preempt_request vreq s1 = Inr s2"
  shows "sched_wf s2" "set (running s2) = set (running s) - {v}" "dom (get_request s2) = dom (get_request s)"
    "x \<noteq> v \<Longrightarrow> shape s2 x = shape s x"
proof -
  obtain rs where s1: "s1 = s\<lparr>running := rs\<rparr>" using pick_victim_view(3)[OF v] by (elim exE)
  have m: "mset (running s) = add_mset v (mset rs)" using pick_victim_view(2)[OF v] s1 by simp
  note l = preempt_listed_wf[OF wf s1 m r p]
  show "sched_wf s2" "set (running s2) = set (running s) - {v}" "dom (get_request s2) = dom (get_request s)"
    "x \<noteq> v \<Longrightarrow> shape s2 x = shape s x"
    using l by simp_all
qed

lemma alloc_or_preempt_wf:
  "alloc_or_preempt rid n idx acc s = Inr (b, idx', acc', s') \<Longrightarrow> sched_wf s \<Longrightarrow> rid \<in> set (running s) \<Longrightarrow>
     sched_wf s' \<and> set (running s') \<subseteq> set (running s) \<and> dom (get_request s') = dom (get_request s) \<and>
     (b \<noteq> None \<longrightarrow> rid \<in> set (running s') \<and> shape s' rid = shape s rid)"
proof (induction "length (running s)" arbitrary: idx acc s rule: less_induct)
  case less
  from less.prems(1) show ?case
  proof (cases rule: alloc_or_preempt_cases)
    case (fits req blks km)
    then show ?thesis using less.prems sched_wf_same_view[of s s'] by (simp add: shape_def)
  next
    case (victim req km v idx1 acc1 s1 vreq s2)
    have wf0: "sched_wf (s\<lparr>sc_kv := km\<rparr>)" using sched_wf_same_view[OF less.prems(2)] by simp
    note pr = preempt_victim_wf[OF wf0 victim(3-5)]
    have ln: "length (running s2) < length (running s)"
      using pick_victim_running[OF victim(3)] preempt_request_running[OF victim(5)] by simp
    from victim(6) show ?thesis
    proof (elim disjE conjE)
      assume "v \<noteq> rid"
        and rec: "alloc_or_preempt rid n idx1 (acc1\<lparr>sa_preempted := sa_preempted acc1 @ [v]\<rparr>) s2 = Inr (b, idx', acc', s')"
      then have "rid \<in> set (running s2)" "shape s2 rid = shape s rid"
        using pr(2) pr(4)[of rid] less.prems(3) by (simp_all add: shape_def)
      then show ?thesis using less.hyps[OF ln rec pr(1)] pr by auto
    qed (use pr in auto)
  qed
qed

section \<open>Scheduling\<close>

lemma same_view_allocate_encoder: "allocate_encoder_inputs req is s = Inr s' \<Longrightarrow> same_view s s'"
proof (induction "is" arbitrary: s)
  case (Cons i "is")
  then obtain s1 where "with_enc (enc_allocate req i) s = Inr s1" "allocate_encoder_inputs req is s1 = Inr s'"
    by (auto elim: rbind_InrE)
  then show ?case using Cons.IH same_view_with_enc same_view_trans by blast
qed simp

lemma same_view_schedule_encoder:
  "schedule_encoder_inputs req inputs b (acc, s) = Inr (acc', s') \<Longrightarrow> same_view s s'"
  by (auto simp: schedule_encoder_inputs_def rbind_eq_Inr dest!: same_view_allocate_encoder split: if_splits)

lemma same_view_take_spec:
  assumes "take_spec_tokens req n (acc, s) = (acc', s')" "shape s (request_id req) = Some (status req, core req)"
  shows "same_view s s'"
proof (cases "spec_token_ids req = []")
  case False
  obtain r0 where "get_request s (request_id req) = Some r0" "status r0 = status req" "core r0 = core req"
    using assms(2) by (auto simp: shape_def)
  then have "same_view s (put_request (req\<lparr>spec_token_ids := []\<rparr>) s)"
    using same_view_put[of s "req\<lparr>spec_token_ids := []\<rparr>" r0] by (simp add: core_def)
  then show ?thesis using assms(1) False by (auto simp: take_spec_tokens_def Let_def)
qed (use assms in \<open>simp add: take_spec_tokens_def\<close>)

lemma schedule_running_wf:
  assumes "schedule_running idx acc s = Inr (nxt, acc', s')" "sched_wf s" "idx < length (running s)"
  shows "sched_wf s' \<and> set (running s') \<subseteq> set (running s) \<and> dom (get_request s') = dom (get_request s)"
  using assms(1)
proof (cases rule: schedule_running_cases)
  case (skip e)
  then show ?thesis using sched_wf_same_view[OF assms(2)] by simp
next
  case (stop req inputs n eb e idx1)
  have "sched_wf (s\<lparr>sc_enc := e\<rparr>)" using sched_wf_same_view[OF assms(2)] by simp
  then show ?thesis using alloc_or_preempt_wf[OF stop(5)] assms(3) by simp
next
  case (go req inputs n eb e blks idx1 acc1 s2)
  have wf1: "sched_wf (s\<lparr>sc_enc := e\<rparr>)" using sched_wf_same_view[OF assms(2)] by simp
  then have al: "sched_wf s2" "set (running s2) \<subseteq> set (running s)" "dom (get_request s2) = dom (get_request s)"
      "shape s2 (running s ! idx) = shape s (running s ! idx)"
    using alloc_or_preempt_wf[OF go(5)] assms(3) by (simp_all add: shape_def)
  have id: "request_id req = running s ! idx" using sched_wf_request(1)[OF assms(2) go(1)] .
  obtain acc3 s3 where t: "take_spec_tokens req (nat n) (take_budget (running s ! idx) (nat n) blks
      (acc1\<lparr>sa_running := sa_running acc1 @ [running s ! idx]\<rparr>), s2) = (acc3, s3)" by (meson surj_pair)
  have "same_view s2 s3" using same_view_take_spec[OF t] al(4) go(1) id by (simp add: shape_def)
  moreover have "same_view s3 s'" using same_view_schedule_encoder[OF go(6)[unfolded t]] .
  ultimately have sv: "same_view s2 s'" by (rule same_view_trans)
  then have "dom (get_request s') = dom (get_request s2)" by (simp add: same_view_def flip: dom_shape)
  then show ?thesis using sched_wf_same_view[OF al(1) sv] al sv by (simp add: same_view_def same_lists_def)
qed

lemma running_loop_wf:
  "running_loop idx acc s = Inr (acc', s') \<Longrightarrow> sched_wf s \<Longrightarrow>
     sched_wf s' \<and> set (running s') \<subseteq> set (running s) \<and> dom (get_request s') = dom (get_request s)"
proof (induction "length (running s) - idx" arbitrary: idx acc s rule: less_induct)
  case less
  note a = less.prems(1)[unfolded running_loop.simps[of idx acc s]]
  show ?case
  proof (cases "idx < length (running s) \<and> sa_budget acc > 0")
    case True
    obtain nxt acc1 s1 where sr: "schedule_running idx acc s = Inr (nxt, acc1, s1)"
      using a True by (auto simp: rbind_eq_Inr)
    note w = schedule_running_wf[OF sr less.prems(2)]
    show ?thesis
    proof (cases nxt)
      case None
      then show ?thesis using a True sr w by simp
    next
      case (Some idx1)
      have "running_loop idx1 acc1 s1 = Inr (acc', s')" using a True sr Some by simp
      then show ?thesis using less.hyps[of s1 idx1 acc1] schedule_running_running[of idx acc s idx1 acc1 s1]
          sr Some True w by auto
    qed
  qed (use a less.prems(2) in auto)
qed

text \<open>In the loop over the waiting requests the requests skipped so far belong to the skipped list.\<close>

definition deferred :: "string list \<Rightarrow> scheduler \<Rightarrow> scheduler" where
  "deferred k s = s\<lparr>skipped_waiting := k @ skipped_waiting s\<rparr>"

lemma deferred_simps [simp]:
  "waiting (deferred k s) = waiting s" "skipped_waiting (deferred k s) = k @ skipped_waiting s"
  "running (deferred k s) = running s" "get_request (deferred k s) = get_request s"
  "power_smc_group_children (deferred k s) = power_smc_group_children s"
  "sc_max_num_running_reqs (deferred k s) = sc_max_num_running_reqs s" "sc_policy (deferred k s) = sc_policy s"
  by (simp_all add: deferred_def)

lemma shape_deferred [simp]: "shape (deferred k s) = shape s"
  by (simp add: shape_def fun_eq_iff)

lemma same_view_deferred: "same_view s s' \<Longrightarrow> same_view (deferred k s) (deferred k s')"
  by (simp add: same_view_def same_lists_def)

lemma pop_selected_view:
  assumes "select_waiting_queue s = Some w" "waiting s' = waiting s" "skipped_waiting s' = skipped_waiting s"
  shows "mset (waiting s) + mset (skipped_waiting s) =
      add_mset (selected_head w s) (mset (waiting (pop_selected w s')) + mset (skipped_waiting (pop_selected w s')))"
    "running (pop_selected w s') = running s'" "get_request (pop_selected w s') = get_request s'"
    "power_smc_group_children (pop_selected w s') = power_smc_group_children s'"
    "sc_max_num_running_reqs (pop_selected w s') = sc_max_num_running_reqs s'"
proof -
  have hd: "l \<noteq> [] \<Longrightarrow> mset l = add_mset (hd l) (mset (tl l))" for l :: "string list" by (cases l) auto
  have "(if w then waiting s else skipped_waiting s) \<noteq> []"
    using assms(1) by (auto simp: select_waiting_queue_def split: scheduling_policy.splits if_splits)
  then show "mset (waiting s) + mset (skipped_waiting s) =
      add_mset (selected_head w s) (mset (waiting (pop_selected w s')) + mset (skipped_waiting (pop_selected w s')))"
    using assms(2,3) hd[of "waiting s"] hd[of "skipped_waiting s"]
    by (cases w) (simp_all add: pop_selected_def selected_head_def)
qed (simp_all add: pop_selected_def)

lemma select_head_queued:
  assumes "select_waiting_queue s = Some w" "sched_wf (deferred k s)"
  shows "selected_head w s \<in> set (waiting s @ skipped_waiting s)" "selected_head w s \<notin> set (running s)"
proof -
  show a: "selected_head w s \<in> set (waiting s @ skipped_waiting s)"
    using assms(1) by (auto simp: select_waiting_queue_def selected_head_def split: scheduling_policy.splits if_splits)
  show "selected_head w s \<notin> set (running s)"
    using a assms(2) by (auto simp: sched_wf_def queued_def)
qed

lemma promote_waiting_wf:
  assumes "promote_waiting g req s = Inr (b, s')" "sched_wf (deferred k s)" "get_request s rid = Some req"
    "rid \<notin> set (running s)"
  shows "sched_wf (deferred k s') \<and> same_lists s s' \<and> dom (get_request s') = dom (get_request s)"
proof -
  have id: "request_id req = rid" using sched_wf_request(1)[OF assms(2), of rid req] assms(3) by simp
  from promote_waiting_frame[OF assms(1)] show ?thesis
  proof
    assume s': "s' = put_request (req\<lparr>status := WAITING\<rparr>) s"
    have sh: "shape s' = (shape s)(rid \<mapsto> (WAITING, core req))"
      using shape_put[of s "req\<lparr>status := WAITING\<rparr>"] assms(3) id s' by (simp add: core_def)
    have "sched_wf (deferred k s')"
      by (rule sched_wf_move[OF assms(2), of _ rid "status req" "core req" WAITING])
         (use assms(2-4) s' sh in \<open>simp_all add: queued_def shape_def fits_def sched_wf_def\<close>)
    then show ?thesis using s' assms(3) id by (auto simp: get_request_put)
  qed (use assms(2) in simp)
qed

lemma admit_waiting_cases:
  assumes "admit_waiting w rid req c n inputs eb wa s = Inr (wa', s')"
  obtains acc1 s4 acc3 loras where
    "status req = WAITING \<and> acc1 = (wa_acc wa)\<lparr>sa_new := sa_new (wa_acc wa) @ [rid]\<rparr> \<or>
     status req = PREEMPTED \<and> acc1 = (wa_acc wa)\<lparr>sa_resumed := sa_resumed (wa_acc wa) @ [rid]\<rparr>"
    "same_view (put_request (req\<lparr>status := RUNNING, num_computed_tokens := c\<rparr>)
       ((pop_selected w s)\<lparr>running := running s @ [rid]\<rparr>)) s4"
    "schedule_encoder_inputs (req\<lparr>status := RUNNING, num_computed_tokens := c\<rparr>) inputs eb
       (take_budget rid n (km_get_blocks rid (sc_kv s)) acc1, s4) = Inr (acc3, s')"
    "wa' = wa\<lparr>wa_acc := acc3, wa_loras := loras\<rparr>"
proof -
  have p: "running (pop_selected w s) = running s"
      "sc_kv ((pop_selected w s)\<lparr>running := running s @ [rid]\<rparr>) = sc_kv s"
    by (simp_all add: pop_selected_def)
  define s3 where "s3 = put_request (req\<lparr>status := RUNNING, num_computed_tokens := c\<rparr>)
       ((pop_selected w s)\<lparr>running := running s @ [rid]\<rparr>)"
  define s4 where "s4 = (if c + n < num_tokens req
      then s3\<lparr>inflight_prefills := insert rid (inflight_prefills s3)\<rparr> else s3)"
  have sv: "same_view s3 s4" by (simp add: s4_def)
  note a = assms[unfolded admit_waiting_def Let_def p, folded s3_def, folded s4_def]
  from a obtain acc1 where acc1: "(case status req of
                  WAITING \<Rightarrow> Inr ((wa_acc wa)\<lparr>sa_new := sa_new (wa_acc wa) @ [rid]\<rparr>)
                | PREEMPTED \<Rightarrow> Inr ((wa_acc wa)\<lparr>sa_resumed := sa_resumed (wa_acc wa) @ [rid]\<rparr>)
                | _ \<Rightarrow> Inl RuntimeError) = Inr acc1" by (elim rbind_InrE)
  note a = a[unfolded acc1 rbind_simps]
  from a obtain y where y: "schedule_encoder_inputs (req\<lparr>status := RUNNING, num_computed_tokens := c\<rparr>) inputs eb
       (take_budget rid n (km_get_blocks rid (sc_kv s)) acc1, s4) = Inr y" by (elim rbind_InrE)
  obtain acc3 s5 where y2: "y = (acc3, s5)" by (cases y)
  note a = a[unfolded y y2 rbind_simps prod.case]
  show thesis
    by (rule that[OF _ sv[unfolded s3_def], of acc1 acc3])
       (use acc1 a y y2 in \<open>auto split: request_status.splits\<close>)
qed

lemma admit_waiting_wf:
  assumes adm: "admit_waiting w rid req c n inputs eb wa s = Inr (wa', s')" and wf: "sched_wf (deferred k s)"
    and sel: "select_waiting_queue s0 = Some w" "rid = selected_head w s0" "same_lists s0 s" and r: "get_request s rid = Some req"
    and room: "length (running s) < sc_max_num_running_reqs s"
  shows "sched_wf (deferred k s') \<and> wa_skipped wa' = wa_skipped wa \<and> dom (get_request s') = dom (get_request s) \<and>
    running s' = running s @ [rid]"
proof -
  have id: "request_id req = rid" using sched_wf_request(1)[OF wf, of rid req] r by simp
  define s2 where "s2 = (pop_selected w s)\<lparr>running := running s @ [rid]\<rparr>"
  define req1 where "req1 = req\<lparr>status := RUNNING, num_computed_tokens := c\<rparr>"
  have ls: "waiting s = waiting s0" "skipped_waiting s = skipped_waiting s0" using sel(3) by (simp_all add: same_lists_def)
  note pv = pop_selected_view[OF sel(1) ls]
  obtain s4 acc2 acc3 where s4: "same_view (put_request req1 s2) s4"
      and en: "schedule_encoder_inputs req1 inputs eb (acc2, s4) = Inr (acc3, s')" "wa_skipped wa' = wa_skipped wa"
    using adm by (rule admit_waiting_cases) (simp add: s2_def req1_def)
  have sv: "same_view (put_request req1 s2) s'"
    using same_view_trans[OF s4 same_view_schedule_encoder[OF en(1)]] .
  have g2: "get_request s2 = get_request s" using pv(3) by (simp add: s2_def)
  then have sh2: "shape s2 = shape s" by (simp add: shape_def fun_eq_iff)
  have sh: "shape (put_request req1 s2) = (shape s)(rid \<mapsto> (RUNNING, core req))"
    using shape_put[of s2 req1] g2 sh2 r id by (simp add: req1_def core_def)
  have wf': "sched_wf (deferred k (put_request req1 s2))"
  proof (rule sched_wf_move[OF wf])
    show "mset (queued (deferred k (put_request req1 s2))) = mset (queued (deferred k s))"
      using pv(1) sel(2) ls by (simp add: queued_def s2_def)
    show "shape (deferred k s) rid = Some (status req, core req)" using r by (simp add: shape_def)
  qed (use sh pv(4,5) room in \<open>simp_all add: s2_def fits_def\<close>)
  have "dom (shape s') = dom (shape s)" using sv sh r by (auto simp: same_view_def shape_def)
  then show ?thesis
    using sched_wf_same_view[OF wf' same_view_deferred[OF sv]] sv en(2)
    by (simp add: dom_shape same_view_def same_lists_def s2_def)
qed

lemma schedule_waiting_wf:
  assumes sw: "schedule_waiting g wa s = Inr (b, wa', s')" and wf: "sched_wf (deferred (wa_skipped wa) s)"
    and room: "length (running s) < sc_max_num_running_reqs s"
  shows "sched_wf (deferred (wa_skipped wa') s') \<and> dom (get_request s') = dom (get_request s)"
  using sw
proof (cases rule: schedule_waiting_cases)
  case (skip w req0 ready s1 req)
  have pr: "sched_wf (deferred (wa_skipped wa) s1)" "same_lists s s1" "dom (get_request s1) = dom (get_request s)"
    using promote_waiting_wf[OF skip(3) wf skip(2)] select_head_queued[OF skip(1) wf] by simp_all
  note pv = pop_selected_view[OF skip(1), of s1]
  let ?s' = "deferred (wa_skipped wa') s'"
  have "sched_wf ?s'"
  proof (rule sched_wf_move[OF pr(1), of _ "selected_head w s" "status req" "core req" "status req"])
    show "mset (queued ?s') = mset (queued (deferred (wa_skipped wa) s1))"
      using pr(2) pv(1,2) skip(6,7) by (simp add: queued_def same_lists_def sq.mset_prepend)
    show "shape (deferred (wa_skipped wa) s1) (selected_head w s) = Some (status req, core req)"
      using skip(4) by (simp add: shape_def)
    then show "shape ?s' = (shape (deferred (wa_skipped wa) s1))(selected_head w s \<mapsto> (status req, core req))"
      using pr(2) pv(3) skip(7) by (auto simp: shape_def same_lists_def fun_eq_iff)
    show "fits ?s' (selected_head w s) (status req)"
      using sched_wf_request(3)[OF pr(1), of "selected_head w s" req] skip(4,7) pr(2) pv(2)
      by (simp add: fits_def same_lists_def)
  qed (use pr(1,2) pv skip(7) in \<open>simp_all add: same_lists_def sched_wf_def\<close>)
  then show ?thesis using pr pv(3) skip(7) by (simp add: same_lists_def)
next
  case (admissible w req0 s1 req)
  have pr: "sched_wf (deferred (wa_skipped wa) s1)" "same_lists s s1" "dom (get_request s1) = dom (get_request s)"
    using promote_waiting_wf[OF admissible(3) wf admissible(2)] select_head_queued[OF admissible(1) wf] by simp_all
  have kv_enc: "sched_wf (deferred (wa_skipped wa) (s1\<lparr>sc_kv := km, sc_enc := e\<rparr>))" for km e
    using sched_wf_same_view[OF pr(1) same_view_deferred, OF same_view_trans[OF same_view_updates(1) same_view_updates(2)]] .
  from admissible(6) show ?thesis
  proof (cases rule: schedule_admissible_cases)
    case (no_tokens blks l c km e)
    then show ?thesis using kv_enc pr(3) by simp
  next
    case (place blks l c km e inputs n eb)
    from place(4) show ?thesis
    proof (cases rule: place_waiting_cases)
      case (no_blocks enc_toks km' e')
      then show ?thesis using kv_enc[where km = km' and e = e'] pr(3) by simp
    next
      case (admit enc_toks new km')
      have "same_lists s (s1\<lparr>sc_kv := km', sc_enc := e\<rparr>)" using pr(2) by (simp add: same_lists_def)
      moreover have "get_request (s1\<lparr>sc_kv := km', sc_enc := e\<rparr>) (selected_head w s) = Some req" using admissible(4) by simp
      moreover have "length (running s1) < sc_max_num_running_reqs s1" using room pr(2) by (simp add: same_lists_def)
      moreover have "s1\<lparr>sc_kv := km, sc_enc := e, sc_kv := km'\<rparr> = s1\<lparr>sc_kv := km', sc_enc := e\<rparr>" by simp
      then have "admit_waiting w (selected_head w s) req c (nat n) inputs eb wa (s1\<lparr>sc_kv := km', sc_enc := e\<rparr>) = Inr (wa', s')"
        using admit(2) by (simp only:)
      ultimately show ?thesis
        using admit_waiting_wf[OF _ kv_enc[where km = km' and e = e] admissible(1) refl] pr(3) by simp
    qed
  qed
qed

lemma waiting_loop_wf:
  "waiting_loop g wa s = Inr (wa', s') \<Longrightarrow> sched_wf (deferred (wa_skipped wa) s) \<Longrightarrow>
     sched_wf (deferred (wa_skipped wa') s') \<and> dom (get_request s') = dom (get_request s)"
proof (induction "total_waiting s" arbitrary: wa s rule: less_induct)
  case less
  note a = less.prems(1)[unfolded waiting_loop.simps[of g wa s]]
  show ?case
  proof (cases "(waiting s \<noteq> [] \<or> skipped_waiting s \<noteq> []) \<and> sa_budget (wa_acc wa) > 0 \<and>
         length (running s) \<noteq> sc_max_num_running_reqs s")
    case True
    obtain go_on wa1 s1 where sw: "schedule_waiting g wa s = Inr (go_on, wa1, s1)"
      using a True by (auto simp: rbind_eq_Inr)
    have "length (running s) < sc_max_num_running_reqs s"
      using less.prems(2) True by (simp add: sched_wf_def)
    note w = schedule_waiting_wf[OF sw less.prems(2) this]
    show ?thesis
    proof (cases go_on)
      case False
      then show ?thesis using a True sw w by simp
    next
      case go: True
      then show ?thesis using a True sw w less.hyps[of s1 wa1] schedule_waiting_total[of g wa s wa1 s1] by auto
    qed
  qed (use a less.prems(2) in auto)
qed

lemma schedule_all_waiting_wf:
  assumes "schedule_all_waiting g acc s = Inr (acc', s')" "sched_wf s"
  shows "sched_wf s' \<and> dom (get_request s') = dom (get_request s)"
proof (cases "sa_preempted acc \<noteq> [] \<or> sc_pause_state s \<noteq> UNPAUSED")
  case True
  then show ?thesis using assms by (auto simp: schedule_all_waiting_def elim!: rbind_InrE)
next
  case False
  obtain loras wa s1 where wl: "waiting_loop g \<lparr>wa_acc = acc, wa_skipped = [], wa_loras = loras\<rparr> s = Inr (wa, s1)"
      and s': "s' = (if wa_skipped wa = [] then s1
               else s1\<lparr>skipped_waiting := queue_prepend_all s1 (wa_skipped wa) (skipped_waiting s1)\<rparr>)"
    using assms(1) False by (auto simp: schedule_all_waiting_def elim!: rbind_InrE)
  have d0: "deferred [] s = s" by (simp add: deferred_def)
  have w: "sched_wf (deferred (wa_skipped wa) s1)" "dom (get_request s1) = dom (get_request s)"
    using waiting_loop_wf[OF wl] assms(2) d0 by simp_all
  have "mset (queued s') = mset (queued (deferred (wa_skipped wa) s1))" "shape s' = shape s1"
    "running s' = running s1" "power_smc_group_children s' = power_smc_group_children s1"
    "sc_max_num_running_reqs s' = sc_max_num_running_reqs s1"
    by (simp_all add: s' queued_def sq.mset_prepend_all shape_def fun_eq_iff)
  moreover have "sched_wf s'"
    using sched_wf_reorder[OF w(1)] calculation by simp
  ultimately show ?thesis using w(2) by (metis dom_shape)
qed

lemma same_view_common_prefix: "common_prefix s = (ns, s') \<Longrightarrow> same_view s s'"
  by (auto simp: common_prefix_def split: list.splits prod.splits)

lemma same_view_build_output:
  assumes "build_output acc s = Inr (so, s')"
  shows "same_view s s' \<and> num_scheduled_tokens so = sa_num_scheduled acc"
proof -
  obtain ns s1 where cp: "common_prefix s = (ns, s1)" by (meson surj_pair)
  define s2 where "s2 = s1\<lparr>prev_step_scheduled_req_ids := set (map fst (sa_num_scheduled acc))\<rparr>"
  obtain z s3 where z: "(if sc_needs_kv_cache_zeroing s2
                     then (case km_take_new_block_ids (sc_kv s2) of
                             (ids, km) \<Rightarrow> (if ids = [] then None else Some ids, s2\<lparr>sc_kv := km\<rparr>))
                     else (None, s2)) = (z, s3)" by (meson surj_pair)
  obtain hs e where e: "enc_get_freed (sc_enc s3) = (hs, e)" by (meson surj_pair)
  note a = assms[unfolded build_output_def cp prod.case Let_def, folded s2_def, unfolded z prod.case e]
  have "same_view s2 s3" using z by (auto split: if_splits prod.splits)
  moreover have "same_view s1 s2" by (simp add: s2_def)
  ultimately have "same_view s (s3\<lparr>sc_enc := e\<rparr>)"
    using same_view_common_prefix[OF cp] same_view_updates(2) same_view_trans by blast
  moreover have "s' = s3\<lparr>sc_enc := e\<rparr>" "num_scheduled_tokens so = sa_num_scheduled acc"
    using a by (auto elim!: rbind_InrE)
  ultimately show ?thesis by simp
qed

lemma same_view_advance_all:
  "advance_all es (fl, s) = Inr (fl', s') \<Longrightarrow> sched_wf s \<Longrightarrow> same_view s s'"
proof (induction es arbitrary: fl s)
  case (Cons e es)
  obtain rid n where e: "e = (rid, n)" by (cases e)
  obtain fl1 s1 where a: "advance_one e (fl, s) = Inr (fl1, s1)" "advance_all es (fl1, s1) = Inr (fl', s')"
    using Cons.prems(1) by (auto elim!: rbind_InrE)
  obtain req where r: "get_request s rid = Some req"
    using a(1) by (auto simp: advance_one_def e split: option.splits)
  define req1 where "req1 = req\<lparr>num_computed_tokens := num_computed_tokens req + n, is_prefill_chunk :=
    int (num_computed_tokens req + n) < int (num_tokens req) + num_output_placeholders req\<rparr>"
  have "same_view s (put_request req1 s)"
    by (rule same_view_put[where old = req])
       (use r sched_wf_request(1)[OF Cons.prems(2) r] in \<open>simp_all add: req1_def core_def\<close>)
  moreover have "same_view (put_request req1 s) s1"
  proof -
    have "s1 = put_request req1 s \<or>
        s1 = (put_request req1 s)\<lparr>inflight_prefills := inflight_prefills (put_request req1 s) - {rid}\<rparr>"
      using a(1) r unfolding advance_one_def e Let_def req1_def
      by (simp only: prod.case option.case sum.inject prod.inject if_split_mem1 split: if_splits) blast+
    then show ?thesis by auto
  qed
  ultimately have "same_view s s1" by (rule same_view_trans)
  then show ?case using Cons.IH[OF a(2)] sched_wf_same_view[OF Cons.prems(2)] same_view_trans by blast
qed simp

lemma same_view_placeholder_all:
  "placeholder_all sp es (fl, s) = Inr (fl', s') \<Longrightarrow> sched_wf s \<Longrightarrow> same_view s s'"
proof (induction es arbitrary: fl s)
  case (Cons e es)
  obtain rid n where e: "e = (rid, n)" by (cases e)
  obtain fl1 s1 where a: "placeholder_one sp e (fl, s) = Inr (fl1, s1)" "placeholder_all sp es (fl1, s1) = Inr (fl', s')"
    using Cons.prems(1) by (auto elim!: rbind_InrE)
  obtain req where r: "get_request s rid = Some req"
    using a(1) by (auto simp: placeholder_one_def e split: option.splits)
  have sv: "same_view s (put_request r' s)" if "status r' = status req" "core r' = core req" for r'
    by (rule same_view_put[where old = req])
       (use r sched_wf_request(1)[OF Cons.prems(2) r] that in \<open>simp_all add: core_def\<close>)
  have "s1 = s \<or> (\<exists>p ts k. s1 = put_request (req\<lparr>num_output_placeholders := p, spec_token_ids := ts,
      next_decode_eligible_step := k\<rparr>) s)"
    using a(1) r unfolding placeholder_one_def e Let_def
    by (simp only: prod.case option.case sum.inject prod.inject split: if_splits) blast+
  then have "same_view s s1" by (auto intro!: sv simp: core_def)
  then show ?case using Cons.IH[OF a(2)] sched_wf_same_view[OF Cons.prems(2)] same_view_trans by blast
qed simp

lemma same_view_update_after:
  assumes "update_after_schedule so s = Inr (so', s')" "sched_wf s"
  shows "same_view s s' \<and> num_scheduled_tokens so' = num_scheduled_tokens so"
proof -
  obtain fl s1 where a: "advance_all (num_scheduled_tokens so) (has_structured_output_requests so, s) = Inr (fl, s1)"
      "so' = so\<lparr>has_structured_output_requests := fl\<rparr>" "s' = s1\<lparr>finished_req_ids := {}\<rparr>"
    using assms(1) by (auto simp: update_after_schedule_def elim!: rbind_InrE)
  then show ?thesis
    using same_view_trans[OF same_view_advance_all[OF a(1) assms(2)] same_view_updates(4)] by simp
qed

lemma same_view_async_update_after:
  assumes "async_update_after_schedule so s = Inr (so', s')" "sched_wf s"
  shows "same_view s s' \<and> num_scheduled_tokens so' = num_scheduled_tokens so"
proof -
  obtain so1 s1 fl where a: "update_after_schedule so s = Inr (so1, s1)"
      "placeholder_all (scheduled_spec_decode_tokens so1) (num_scheduled_tokens so1)
         (pending_structured_output_tokens so1, s1) = Inr (fl, s')"
      "so' = so1\<lparr>pending_structured_output_tokens := fl\<rparr>"
    using assms(1) by (auto simp: async_update_after_schedule_def elim!: rbind_InrE)
  have u: "same_view s s1" "num_scheduled_tokens so1 = num_scheduled_tokens so"
    using same_view_update_after[OF a(1) assms(2)] by simp_all
  then show ?thesis
    using same_view_placeholder_all[OF a(2) sched_wf_same_view[OF assms(2)]] same_view_trans[of s s1 s'] a(3) by simp
qed

lemma schedule_step_cases:
  assumes "schedule_step g s0 = Inr (so, s')"
  obtains s acc1 s1 acc2 s2 so1 s3 where
    "s = s0\<lparr>current_step := current_step s0 + 1, sc_kv := km_new_step_starts (sc_kv s0)\<rparr>"
    "running_loop 0 (initial_acc s) s = Inr (acc1, s1)" "schedule_all_waiting g acc1 s1 = Inr (acc2, s2)"
    "check_constraints acc2 s2" "build_output acc2 s2 = Inr (so1, s3)"
    "async_update_after_schedule so1 s3 = Inr (so, s') \<or> update_after_schedule so1 s3 = Inr (so, s')"
proof -
  define s where "s = s0\<lparr>current_step := current_step s0 + 1, sc_kv := km_new_step_starts (sc_kv s0)\<rparr>"
  note a = assms[unfolded schedule_step_def Let_def, folded s_def]
  obtain x where x: "running_loop 0 (initial_acc s) s = Inr x" using a by (elim rbind_InrE)
  obtain acc1 s1 where xe: "x = (acc1, s1)" by (cases x)
  note a = a[unfolded x xe rbind_simps prod.case]
  obtain y where y: "schedule_all_waiting g acc1 s1 = Inr y" using a by (elim rbind_InrE)
  obtain acc2 s2 where ye: "y = (acc2, s2)" by (cases y)
  note a = a[unfolded y ye rbind_simps prod.case py_assert_eq_Inr]
  obtain z where z: "build_output acc2 s2 = Inr z" using a by (elim conjE rbind_InrE)
  obtain so1 s3 where ze: "z = (so1, s3)" by (cases z)
  note a = a[unfolded z ze rbind_simps prod.case]
  show thesis
    by (rule that[OF s_def x[unfolded xe] y[unfolded ye] _ z[unfolded ze]]) (use a in \<open>auto split: if_splits\<close>)
qed

lemma schedule_step_wf:
  assumes "schedule_step g s0 = Inr (so, s')" "sched_wf s0"
  shows "sched_wf s' \<and> dom (get_request s') = dom (get_request s0)"
  using assms(1)
proof (rule schedule_step_cases)
  fix s acc1 s1 acc2 s2 so1 s3
  assume s: "s = s0\<lparr>current_step := current_step s0 + 1, sc_kv := km_new_step_starts (sc_kv s0)\<rparr>"
    and rl: "running_loop 0 (initial_acc s) s = Inr (acc1, s1)" and sw: "schedule_all_waiting g acc1 s1 = Inr (acc2, s2)"
    and bo: "build_output acc2 s2 = Inr (so1, s3)"
    and up: "async_update_after_schedule so1 s3 = Inr (so, s') \<or> update_after_schedule so1 s3 = Inr (so, s')"
  have "same_view s0 s" unfolding s by (rule same_view_trans[OF same_view_updates(6) same_view_updates(1)])
  then have w: "sched_wf s" by (rule sched_wf_same_view[OF assms(2)])
  have w1: "sched_wf s1" "dom (get_request s1) = dom (get_request s0)" using running_loop_wf[OF rl w] s by simp_all
  have w2: "sched_wf s2" "dom (get_request s2) = dom (get_request s0)"
    using schedule_all_waiting_wf[OF sw w1(1)] w1(2) by simp_all
  have sv: "same_view s2 s3" using same_view_build_output[OF bo] by simp
  then have w3: "sched_wf s3" by (rule sched_wf_same_view[OF w2(1)])
  have sv': "same_view s3 s'"
    using up same_view_async_update_after[OF _ w3] same_view_update_after[OF _ w3] by blast
  then show ?thesis
    using sched_wf_same_view[OF w3 sv'] w2(2) sv by (simp add: same_view_def flip: dom_shape)
qed

end
