(* ===== verification/Sched_Invariant.thy ===== *)
theory Sched_Invariant
  imports Sched_Queues
begin

text \<open>
  The invariant of \<open>Sched_Queues\<close> through the operations that release requests or resample Power-SMC groups:
  arrival, completion, the reset of the prefix cache and the update from the output of a step.  Inside
  these operations some requests are already released but still listed, some are taken from the lists but
  not yet released, and some wait to be put back; \<open>wf_mid\<close> names these three groups.
\<close>

section \<open>The registry of Power-SMC children\<close>

definition regs :: "scheduler \<Rightarrow> (string \<times> nat \<times> string) set" where
  "regs s = {(pid, idx, rid). \<exists>ch. map_of (power_smc_group_children s) pid = Some ch \<and> map_of ch idx = Some rid}"

definition child_key :: "scheduler \<Rightarrow> string \<Rightarrow> (string \<times> nat) option" where
  "child_key s rid =
     (case shape s rid of
        Some (_, _, _, Some info, _) \<Rightarrow> Some (parent_id info, child_index info)
      | _ \<Rightarrow> None)"

lemma registered_regs: "registered s \<longleftrightarrow> (\<forall>(pid, idx, rid) \<in> regs s. child_key s rid = Some (pid, idx))"
proof -
  have "registered_as s rid pid idx \<longleftrightarrow> child_key s rid = Some (pid, idx)" for rid pid idx
    by (auto simp: registered_as_def child_key_def split: option.splits)
  then show ?thesis unfolding registered_shape regs_def by auto
qed

section \<open>Inside an operation\<close>

text \<open>
  \<open>L\<close> are requests taken from the lists and about to be released, \<open>D\<close> released requests that are still
  listed, and \<open>P\<close> requests that were reset to be scheduled again.
\<close>

definition mid_entry :: "string set \<Rightarrow> string set \<Rightarrow> scheduler \<Rightarrow> string \<Rightarrow> bool" where
  "mid_entry L P s rid \<longleftrightarrow>
     (case shape s rid of
        None \<Rightarrow> True
      | Some (st, i, res, _, mm) \<Rightarrow>
          i = rid \<and> \<not> res \<and> sorted (map mm_offset mm) \<and>
          (if rid \<in> L then st \<noteq> WAITING_FOR_REMOTE_KVS \<and> \<not> is_finished_status st
           else if rid \<in> P then st = PREEMPTED else fits s rid st))"

definition wf_mid :: "string set \<Rightarrow> string set \<Rightarrow> string set \<Rightarrow> scheduler \<Rightarrow> bool" where
  "wf_mid L D P s \<longleftrightarrow>
     distinct (queued s) \<and> L \<inter> set (queued s) = {} \<and> D \<subseteq> set (queued s) \<and> D \<inter> dom (shape s) = {} \<and>
     set (queued s) - D = dom (shape s) - L \<and> P \<subseteq> dom (shape s) \<and> (\<forall>rid. mid_entry L P s rid) \<and>
     registered s \<and> length (running s) \<le> sc_max_num_running_reqs s"

lemma wf_mid_start: "sched_wf s \<longleftrightarrow> wf_mid {} {} {} s"
proof -
  have "mid_entry {} {} s = entry_ok s" 
    unfolding fun_eq_iff mid_entry_def entry_ok_def empty_iff if_False by simp
  then show ?thesis by (auto simp: wf_mid_def sched_wf_shape)
qed

lemma wf_mid_same_view: "wf_mid L D P s \<Longrightarrow> same_view s s' \<Longrightarrow> wf_mid L D P s'"
  unfolding same_view_def same_lists_def wf_mid_def registered_shape registered_as_def queued_def mid_entry_def fits_def
  by (elim conjE) (simp only: simp_thms)

lemma wf_mid_request:
  assumes "wf_mid L D P s" "get_request s rid = Some r"
  shows "request_id r = rid" "\<not> resumable r" "rid \<notin> L \<Longrightarrow> rid \<in> set (queued s)" "rid \<notin> D" "\<not> is_finished r"
    "rid \<notin> L \<Longrightarrow> rid \<notin> P \<Longrightarrow> fits s rid (status r)" "status r \<noteq> WAITING_FOR_REMOTE_KVS"
proof -
  have e: "mid_entry L P s rid" and d: "rid \<in> dom (shape s)"
    using assms by (auto simp: wf_mid_def shape_def)
  show "request_id r = rid" "\<not> resumable r" "rid \<notin> L \<Longrightarrow> rid \<notin> P \<Longrightarrow> fits s rid (status r)"
    using e assms(2) by (auto simp: mid_entry_def shape_def core_def)
  show "rid \<notin> L \<Longrightarrow> rid \<in> set (queued s)" "rid \<notin> D" using d assms(1) by (auto simp: wf_mid_def)
  show "\<not> is_finished r" "status r \<noteq> WAITING_FOR_REMOTE_KVS"
    using e assms(2) by (auto simp: mid_entry_def shape_def core_def fits_def is_finished_def is_finished_status_def split: if_splits)
qed

text \<open>A request leaves the dictionary.\<close>

lemma wf_mid_release:
  assumes wf: "wf_mid L D P s" and d: "rid \<in> dom (shape s)" and ls: "same_lists s s'"
    and sh: "shape s' = (shape s)(rid := None)" and rg: "regs s' \<subseteq> {x \<in> regs s. child_key s rid \<noteq> Some (fst x, fst (snd x))}"
  shows "wf_mid (L - {rid}) (if rid \<in> L then D else insert rid D) (P - {rid}) s'"
proof -
  have q: "queued s' = queued s" "running s' = running s" "sc_max_num_running_reqs s' = sc_max_num_running_reqs s"
    using ls by (simp_all add: same_lists_def queued_def)
  have f: "fits s' = fits s" using q by (simp add: fits_def fun_eq_iff)
  have "mid_entry (L - {rid}) (P - {rid}) s' x" for x
  proof (cases "x = rid")
    case False
    then have "mid_entry (L - {rid}) (P - {rid}) s' x = mid_entry L P s x"
      unfolding mid_entry_def sh f by (simp split: option.split)
    then show ?thesis using wf by (simp add: wf_mid_def)
  qed (simp add: mid_entry_def sh)
  moreover have "registered s'"
    unfolding registered_regs
  proof clarify
    fix pid idx x assume "(pid, idx, x) \<in> regs s'"
    then have "(pid, idx, x) \<in> regs s" "child_key s rid \<noteq> Some (pid, idx)" using rg by auto
    moreover then have ck: "child_key s x = Some (pid, idx)" using wf unfolding wf_mid_def registered_regs by blast
    ultimately have "x \<noteq> rid" by auto
    then show "child_key s' x = Some (pid, idx)" using ck sh by (simp add: child_key_def)
  qed
  moreover have dm: "dom (shape s') = dom (shape s) - {rid}" using sh by auto
  have sets: "(L - {rid}) \<inter> set (queued s) = {}" "(if rid \<in> L then D else insert rid D) \<subseteq> set (queued s)"
    "(if rid \<in> L then D else insert rid D) \<inter> (dom (shape s) - {rid}) = {}"
    "set (queued s) - (if rid \<in> L then D else insert rid D) = dom (shape s) - {rid} - (L - {rid})"
    "P - {rid} \<subseteq> dom (shape s) - {rid}"
    using wf d unfolding wf_mid_def by (auto simp del: dom_eq_empty_conv split: if_splits)
  ultimately show ?thesis
    using wf sets unfolding wf_mid_def q dm by blast
qed

section \<open>Releasing a request\<close>

lemma forget_smc_child_view:
  "same_lists s (forget_smc_child req s)" "get_request (forget_smc_child req s) = get_request s"
  "sc_kv (forget_smc_child req s) = sc_kv s"
  by (simp_all add: forget_smc_child_def same_lists_def Let_def split: option.splits)

lemma forget_smc_child_regs:
  assumes "power_smc_child_info req = Some info"
  shows "regs (forget_smc_child req s) = {x \<in> regs s. (fst x, fst (snd x)) \<noteq> (parent_id info, child_index info)}"
proof (cases "map_of (power_smc_group_children s) (parent_id info)")
  case None
  then show ?thesis using assms by (auto simp: regs_def forget_smc_child_def)
next
  case (Some ch)
  have m: "map_of (dict_del (child_index info) ch) = (map_of ch)(child_index info := None)" by simp
  show ?thesis
  proof (cases "dict_del (child_index info) ch = []")
    case True
    then have "(map_of ch)(child_index info := None) = Map.empty" using m by simp
    then show ?thesis using assms Some True
      by (auto simp: regs_def forget_smc_child_def fun_upd_def fun_eq_iff split: if_splits) (metis option.distinct(1))+
  next
    case False
    then show ?thesis using assms Some
      by (auto simp: regs_def forget_smc_child_def Let_def split: if_splits)
  qed
qed

lemma sched_free_blocks_view:
  assumes "sched_free_blocks req s = Inr s'" "shape s (request_id req) = Some (st, core req)"
  shows "same_lists s s'" "shape s' = (shape s)(request_id req := None)"
    "regs s' \<subseteq> {x \<in> regs s. child_key s (request_id req) \<noteq> Some (fst x, fst (snd x))}"
proof -
  obtain km where s': "s' = (let s2 = forget_smc_child req (s\<lparr>sc_kv := km\<rparr>)
      in s2\<lparr>sc_requests := dict_del (request_id req) (sc_requests s2)\<rparr>)"
    using assms(1) by (auto simp: sched_free_blocks_def py_assert_eq_Inr Let_def with_kv_Inr
        elim!: rbind_InrE split: if_splits)
  note fv = forget_smc_child_view[where s = "s\<lparr>sc_kv := km\<rparr>" and req = req]
  show "same_lists s s'" using fv(1) by (simp add: s' Let_def same_lists_def)
  have "get_request s' = (get_request s)(request_id req := None)"
    using fv(2) by (simp add: s' Let_def get_request_def fun_eq_iff)
  then show "shape s' = (shape s)(request_id req := None)" by (simp add: shape_def fun_eq_iff)
  have rg: "regs s' = regs (forget_smc_child req (s\<lparr>sc_kv := km\<rparr>))" by (simp add: s' Let_def regs_def)
  show "regs s' \<subseteq> {x \<in> regs s. child_key s (request_id req) \<noteq> Some (fst x, fst (snd x))}"
  proof (cases "power_smc_child_info req")
    case None
    then show ?thesis using assms(2) rg
      by (simp add: child_key_def core_def forget_smc_child_def) (auto simp: regs_def)
  next
    case (Some info)
    have "regs (s\<lparr>sc_kv := km\<rparr>) = regs s" by (simp add: regs_def)
    then show ?thesis using assms(2) Some rg forget_smc_child_regs[OF Some, of "s\<lparr>sc_kv := km\<rparr>"]
      by (auto simp: child_key_def core_def)
  qed
qed

lemma sched_free_request_view:
  assumes "sched_free_request req False s = Inr s'" "shape s (request_id req) = Some (st, core req)"
  shows "same_lists s s'" "shape s' = (shape s)(request_id req := None)"
    "regs s' \<subseteq> {x \<in> regs s. child_key s (request_id req) \<noteq> Some (fst x, fst (snd x))}"
proof -
  obtain e where b: "sched_free_blocks req (s\<lparr>inflight_prefills := inflight_prefills s - {request_id req}, sc_enc := e,
      finished_req_ids := insert (request_id req) (finished_req_ids s)\<rparr>) = Inr s'" (is "sched_free_blocks req ?s = _")
    using assms(1) by (auto simp: sched_free_request_def py_assert_eq_Inr Let_def with_enc_Inr elim!: rbind_InrE)
  have sv: "shape ?s = shape s" "regs ?s = regs s" by (simp_all add: shape_def fun_eq_iff regs_def)
  then have ck: "child_key ?s = child_key s" by (simp add: child_key_def fun_eq_iff)
  note v = sched_free_blocks_view[OF b, unfolded sv ck, OF assms(2)]
  show "same_lists s s'" using v(1) by (simp add: same_lists_def)
  show "shape s' = (shape s)(request_id req := None)"
    "regs s' \<subseteq> {x \<in> regs s. child_key s (request_id req) \<noteq> Some (fst x, fst (snd x))}"
    using v(2,3) by simp_all
qed

text \<open>The status is final before the release, which the lists do not depend on.\<close>

lemma wf_mid_free:
  assumes wf: "wf_mid L D P s" and r: "get_request s rid = Some r0"
    and s1: "same_lists s s1" "power_smc_group_children s1 = power_smc_group_children s"
      "shape s1 = (shape s)(rid \<mapsto> (st, core req))"
    and req: "core req = core r0" and fr: "sched_free_request req False s1 = Inr s'"
  shows "wf_mid (L - {rid}) (if rid \<in> L then D else insert rid D) (P - {rid}) s'" "same_lists s s'"
    "shape s' = (shape s)(rid := None)"
proof -
  have id: "request_id req = rid" using wf_mid_request(1)[OF wf r] req by (simp add: core_def)
  have v: "same_lists s1 s'" "shape s' = (shape s1)(rid := None)"
      "regs s' \<subseteq> {x \<in> regs s1. child_key s1 rid \<noteq> Some (fst x, fst (snd x))}"
    using sched_free_request_view[OF fr, of st] s1(3) id by simp_all
  have sh: "shape s rid = Some (status r0, core r0)" using r by (simp add: shape_def)
  have ck: "child_key s1 rid = child_key s rid" "regs s1 = regs s"
    using s1 sh req by (simp_all add: child_key_def regs_def)
  show ls: "same_lists s s'" using s1(1) v(1) by (rule same_lists_trans)
  show sn: "shape s' = (shape s)(rid := None)" using v(2) s1(3) by simp
  show "wf_mid (L - {rid}) (if rid \<in> L then D else insert rid D) (P - {rid}) s'"
  proof (rule wf_mid_release[OF wf _ ls sn])
    show "rid \<in> dom (shape s)" using sh by blast
    show "regs s' \<subseteq> {x \<in> regs s. child_key s rid \<noteq> Some (fst x, fst (snd x))}" using v(3) ck by simp
  qed
qed

section \<open>Completion from outside\<close>

lemma wf_mid_drop:
  assumes "wf_mid L D P s" "rid \<notin> dom (shape s)"
  shows "wf_mid (L - {rid}) D P s"
proof -
  have "mid_entry (L - {rid}) P s x \<longleftrightarrow> mid_entry L P s x" for x
    using assms(2) by (cases "x = rid") (auto simp: mid_entry_def split: option.splits)
  then show ?thesis using assms unfolding wf_mid_def by blast
qed

lemma finish_each_wf:
  "finish_each st rids s = Inr s' \<Longrightarrow> wf_mid L {} {} s \<Longrightarrow> set rids \<inter> set (queued s) = {} \<Longrightarrow>
     wf_mid (L - set rids) {} {} s' \<and> dom (shape s') = dom (shape s) - set rids"
proof (induction rids arbitrary: s L)
  case (Cons rid rids)
  show ?case
  proof (cases "get_request s rid")
    case None
    then have n: "rid \<notin> dom (shape s)" by (simp add: shape_def domIff)
    have "finish_each st rids s = Inr s'" using Cons.prems(1) None by simp
    from Cons.IH[OF this wf_mid_drop[OF Cons.prems(2) n]] Cons.prems(3) n
    show ?thesis by (auto simp: Diff_insert2[symmetric] insert_commute)
  next
    case (Some req)
    note wr = wf_mid_request[OF Cons.prems(2) Some]
    let ?r = "req\<lparr>status := st\<rparr>"
    obtain s1 where fr: "sched_free_request ?r False (put_request ?r s) = Inr s1" and re: "finish_each st rids s1 = Inr s'"
      using Cons.prems(1) Some wr(7) by (auto simp: Let_def elim: rbind_InrE)
    have L: "rid \<in> L" using wr(3) Cons.prems(3) by auto
    have "shape (put_request ?r s) = (shape s)(rid \<mapsto> (st, core ?r))" using shape_put[of s ?r] Some wr(1) by simp
    note f = wf_mid_free[OF Cons.prems(2) Some _ _ this _ fr]
    have "wf_mid (L - {rid}) {} {} s1" "queued s1 = queued s" "dom (shape s1) = dom (shape s) - {rid}"
      using f L by (auto simp: core_def same_lists_def queued_def)
    then show ?thesis using Cons.IH[OF re, of "L - {rid}"] Cons.prems(3)
      by (auto simp: Diff_insert2[symmetric] insert_commute)
  qed
qed simp


lemma finish_requests_cases:
  assumes "finish_requests ids st s = Inr (rids, s')" "distinct (running s)"
  obtains s3 where "\<forall>r \<in> set rids. live_request s r" "finish_each st rids s3 = Inr s'"
    "running s3 = filter (\<lambda>r. \<not> (r \<in> set rids \<and> status_of s r = Some RUNNING)) (running s)"
    "waiting s3 = filter (\<lambda>r. \<not> (r \<in> set rids \<and> status_of s r \<noteq> Some RUNNING)) (waiting s)"
    "skipped_waiting s3 = filter (\<lambda>r. \<not> (r \<in> set rids \<and> status_of s r \<noteq> Some RUNNING)) (skipped_waiting s)"
    "get_request s3 = get_request s" "power_smc_group_children s3 = power_smc_group_children s"
    "sc_max_num_running_reqs s3 = sc_max_num_running_reqs s"
    "rids = filter (live_request s) (case ids of None \<Rightarrow> map fst (sc_requests s) | Some l \<Rightarrow> remdups l)"
proof -
  define ids' where "ids' = filter (live_request s) (case ids of None \<Rightarrow> map fst (sc_requests s) | Some l \<Rightarrow> remdups l)"
  define run where "run = filter (\<lambda>r. status_of s r = Some RUNNING) ids'"
  define wait where "wait = filter (\<lambda>r. status_of s r \<noteq> Some RUNNING) ids'"
  define s1 where "s1 = s\<lparr>num_waiting_for_streaming_input := num_waiting_for_streaming_input s -
      int (length (filter (\<lambda>r. status_of s r = Some WAITING_FOR_STREAMING_REQ) ids'))\<rparr>"
  define s2 where "s2 = (if run = [] then s1 else s1\<lparr>running := remove_all (running s1) (set run)\<rparr>)"
  define s3 where "s3 = (if wait = [] then s2
                  else s2\<lparr>waiting := queue_remove_all s2 (set wait) (waiting s2),
                          skipped_waiting := queue_remove_all s2 (set wait) (skipped_waiting s2)\<rparr>)"
  note a = assms(1)[unfolded finish_requests_def Let_def, folded ids'_def, folded run_def wait_def s1_def,
      folded s2_def, folded s3_def, unfolded py_assert_eq_Inr]
  have r: "rids = ids'" and f: "finish_each st ids' s3 = Inr s'" using a by (auto elim: rbind_InrE)
  have s1: "running s1 = running s" "waiting s1 = waiting s" "skipped_waiting s1 = skipped_waiting s"
      "get_request s1 = get_request s" "power_smc_group_children s1 = power_smc_group_children s"
      "sc_max_num_running_reqs s1 = sc_max_num_running_reqs s"
    by (simp_all add: s1_def)
  have s2: "running s2 = filter (\<lambda>r. r \<notin> set run) (running s)" "waiting s2 = waiting s"
      "skipped_waiting s2 = skipped_waiting s" "get_request s2 = get_request s"
      "power_smc_group_children s2 = power_smc_group_children s"
      "sc_max_num_running_reqs s2 = sc_max_num_running_reqs s"
    using s1 assms(2) by (simp_all add: s2_def remove_all_filter)
  have s3: "running s3 = filter (\<lambda>r. r \<notin> set run) (running s)"
      "waiting s3 = filter (\<lambda>r. r \<notin> set wait) (waiting s)"
      "skipped_waiting s3 = filter (\<lambda>r. r \<notin> set wait) (skipped_waiting s)" "get_request s3 = get_request s"
      "power_smc_group_children s3 = power_smc_group_children s"
      "sc_max_num_running_reqs s3 = sc_max_num_running_reqs s"
    using s2 by (simp_all add: s3_def sq.remove_requests)
  have mem: "x \<in> set run \<longleftrightarrow> x \<in> set rids \<and> status_of s x = Some RUNNING"
      "x \<in> set wait \<longleftrightarrow> x \<in> set rids \<and> status_of s x \<noteq> Some RUNNING" for x
    by (auto simp: run_def wait_def r)
  have live: "\<forall>x \<in> set rids. live_request s x" by (simp add: r ids'_def)
  show thesis
    by (rule that[OF live f[folded r] s3(1-3)[unfolded mem] s3(4-6) r[unfolded ids'_def]])
qed

lemma finish_requests_wf:
  assumes "finish_requests ids st s = Inr (rids, s')" "sched_wf s"
  shows "sched_wf s'" "dom (get_request s') = dom (get_request s) - set rids"
proof -
  note d = sched_wf_distinct(2)[OF assms(2)]
  obtain s3 where live: "\<forall>r \<in> set rids. live_request s r" and f: "finish_each st rids s3 = Inr s'"
    and s3: "running s3 = filter (\<lambda>r. \<not> (r \<in> set rids \<and> status_of s r = Some RUNNING)) (running s)"
    "waiting s3 = filter (\<lambda>r. \<not> (r \<in> set rids \<and> status_of s r \<noteq> Some RUNNING)) (waiting s)"
    "skipped_waiting s3 = filter (\<lambda>r. \<not> (r \<in> set rids \<and> status_of s r \<noteq> Some RUNNING)) (skipped_waiting s)"
    "get_request s3 = get_request s" "power_smc_group_children s3 = power_smc_group_children s"
    "sc_max_num_running_reqs s3 = sc_max_num_running_reqs s"
    "rids = filter (live_request s) (case ids of None \<Rightarrow> map fst (sc_requests s) | Some l \<Rightarrow> remdups l)"
    by (rule finish_requests_cases[OF assms(1) d])
  have st: "status_of s r = Some RUNNING \<longleftrightarrow> r \<in> set (running s)" if mem: "r \<in> set (queued s)" for r
  proof -
    obtain q where q: "get_request s r = Some q" using mem sched_wf_parts(3)[OF assms(2)] by auto
    show ?thesis using sched_wf_request(3)[OF assms(2) q] q by (auto simp: status_of_def fits_def split: if_splits)
  qed
  note dq = sched_wf_distinct(1)[OF assms(2)]
  have run: "status_of s r = Some RUNNING" if "r \<in> set (running s)" for r
    using st[of r] that by (simp add: queued_def)
  have wait: "status_of s r \<noteq> Some RUNNING" if "r \<in> set (waiting s) \<union> set (skipped_waiting s)" for r
    using st[of r] that dq by (auto simp: queued_def)
  have sq: "set (queued s3) = set (queued s) - set rids"
    unfolding queued_def s3(1-3) set_append set_filter using run wait by blast
  have dq3: "distinct (queued s3)" using dq by (auto simp: queued_def s3(1-3))
  have sh: "shape s3 = shape s" using s3(4) by (simp add: shape_def fun_eq_iff)
  have "mid_entry (set rids) {} s3 x" for x
  proof (cases "get_request s x")
    case None
    then show ?thesis using sh by (simp add: mid_entry_def shape_def)
  next
    case (Some q)
    note w = sched_wf_request[OF assms(2) Some]
    have e: "mid_entry (set rids) {} s3 x \<longleftrightarrow>
        (if x \<in> set rids then status q \<noteq> WAITING_FOR_REMOTE_KVS \<and> \<not> is_finished_status (status q)
         else fits s3 x (status q))"
      using w(1,2,6) sh Some by (simp add: mid_entry_def shape_def core_def)
    have "status q \<noteq> WAITING_FOR_REMOTE_KVS" using w(3) by (auto simp: fits_def split: if_splits)
    moreover have "fits s3 x (status q)" if "x \<notin> set rids" using w(3) that by (simp add: fits_def s3(1))
    ultimately show ?thesis using e w(5) by (simp add: is_finished_def)
  qed
  moreover have "registered s3" using sched_wf_parts(1)[OF assms(2)] s3(4,5) by (simp add: registered_def)
  moreover have "length (running s3) \<le> sc_max_num_running_reqs s3"
    using sched_wf_parts(2)[OF assms(2)] s3(1,6) order_trans[OF length_filter_le] by simp
  ultimately have "wf_mid (set rids) {} {} s3"
    using assms(2) sq dq3 unfolding wf_mid_def sh sched_wf_shape by blast
  from finish_each_wf[OF f this] sq have "wf_mid {} {} {} s'" "dom (shape s') = dom (shape s) - set rids"
    using sh by auto
  then show "sched_wf s'" "dom (get_request s') = dom (get_request s) - set rids"
    by (simp_all add: wf_mid_start dom_shape)
qed

section \<open>Arrival\<close>

text \<open>A request as it arrives: it is not part of a streaming session and its multi-modal inputs are in order.\<close>

definition arrives :: "request \<Rightarrow> bool" where
  "arrives r \<longleftrightarrow> \<not> resumable r \<and> status r \<in> {WAITING, WAITING_FOR_STRUCTURED_OUTPUT_GRAMMAR} \<and>
     sorted (map mm_offset (mm_features r))"

lemma add_request_wf:
  assumes "add_request req s = Inr s'" "sched_wf s" "arrives req"
  shows "sched_wf s'" "dom (get_request s') = insert (request_id req) (dom (get_request s))"
proof -
  have goal: "sched_wf s' \<and> dom (get_request s') = insert (request_id req) (dom (get_request s))"
  proof (cases "get_request s (request_id req)")
    case (Some old)
    note w = sched_wf_request[OF assms(2) Some]
    have "status old \<noteq> WAITING_FOR_STREAMING_REQ" using w(3) by (auto simp: fits_def split: if_splits)
    then obtain q where s': "s' = put_request (old\<lparr>streaming_queue := Some (q @ [None])\<rparr>) s"
      using assms(1,3) Some
      by (auto simp: add_request_def arrives_def streaming_update_from_request_def split: option.splits)
    have "same_view s s'"
      unfolding s' by (rule same_view_put[where old = old]) (use w(1) Some in \<open>simp_all add: core_def\<close>)
    moreover have "dom (shape s') = dom (shape s)" using calculation by (simp add: same_view_def)
    ultimately show ?thesis using sched_wf_same_view[OF assms(2)] Some by (auto simp: dom_shape)
  next
    case None
    define s1 where "s1 = s\<lparr>sc_requests := dict_set (request_id req) req (sc_requests s)\<rparr>"
    have s': "s' = enqueue_waiting_request req s1"
      using assms(1,3) None by (simp add: add_request_def arrives_def s1_def)
    have g: "get_request s' = (get_request s)(request_id req \<mapsto> req)"
      by (simp add: s' s1_def enqueue_waiting_request_def get_request_def fun_eq_iff)
    then have sh: "shape s' = (shape s)(request_id req \<mapsto> (status req, core req))"
      by (simp add: shape_def fun_eq_iff)
    have q: "mset (queued s') = add_mset (request_id req) (mset (queued s))" "running s' = running s"
      "power_smc_group_children s' = power_smc_group_children s"
      "sc_max_num_running_reqs s' = sc_max_num_running_reqs s"
      by (simp_all add: s' s1_def enqueue_waiting_request_def queued_def sq.mset_add)
    have new: "request_id req \<notin> set (queued s)" using sched_wf_parts(3)[OF assms(2)] None by auto
    have dq: "distinct (queued s')" "set (queued s') = insert (request_id req) (set (queued s))"
      using new sched_wf_distinct(1)[OF assms(2)] mset_eq_imp_distinct_iff[of "queued s'" "request_id req # queued s"]
        mset_eq_setD[of "queued s'" "request_id req # queued s"] q(1) by simp_all
    have "entry_ok s' x" for x
    proof (cases "x = request_id req")
      case True
      then show ?thesis using sh new assms(3) q(2)
        by (auto simp: entry_ok_def core_def arrives_def fits_def queued_def)
    next
      case False
      then have "entry_ok s' x = entry_ok s x"
        using sh q(2) by (simp add: entry_ok_def fits_def split: option.split)
      then show ?thesis using assms(2) by (simp add: sched_wf_shape)
    qed
    moreover have "registered s'"
      using sched_wf_parts(1)[OF assms(2)] g None q(3) unfolding registered_def by (metis fun_upd_other option.distinct(1))
    ultimately have "sched_wf s'"
      using assms(2) dq q(2,4) unfolding sched_wf_shape sh dom_fun_upd option.distinct if_False by auto
    then show ?thesis using g by simp
  qed
  show "sched_wf s'" "dom (get_request s') = insert (request_id req) (dom (get_request s))" using goal by simp_all
qed

end
