(* ===== verification/Sched_Preserve.thy ===== *)
theory Sched_Preserve
  imports Sched_Invariant
begin

text \<open>
  The update of the scheduler from the output of a step keeps the invariant of \<open>Sched_Queues\<close>, if no request
  of the step is in the skipped list, and so do whole runs in which every step is scheduled and then
  updated.  A request of the step that has been moved to the skipped list meanwhile stays listed after its
  release.
\<close>

section \<open>The tokens of a request\<close>

lemma update_block_hashes_frame: "update_block_hashes r = Inr r' \<Longrightarrow> core r' = core r \<and> status r' = status r"
  by (auto simp: update_block_hashes_def core_def elim!: rbind_InrE split: option.splits)

lemma append_output_frame: "append_output_token_ids r ts = Inr r' \<Longrightarrow> core r' = core r \<and> status r' = status r"
  by (auto simp: append_output_token_ids_def core_def dest!: update_block_hashes_frame)

lemma reset_output_frame: "reset_output_token_ids r ts = Inr r' \<Longrightarrow> core r' = core r \<and> status r' = status r"
  by (auto simp: reset_output_token_ids_def core_def dest!: update_block_hashes_frame)

lemma check_stop_frame:
  assumes "check_stop r n = Inr (b, r')"
  shows "core r' = core r" "b \<Longrightarrow> is_finished r'" "\<not> b \<Longrightarrow> r' = r"
proof -
  obtain sp where sp: "req_sampling_params r = Some sp"
    using assms by (auto simp: check_stop_def py_assert_eq_Inr split: option.splits)
  let ?ok = "core r' = core r \<and> (b \<longrightarrow> is_finished r') \<and> (\<not> b \<longrightarrow> r' = r)"
  note a = assms[unfolded check_stop_def sp option.case py_assert_eq_Inr Let_def, THEN conjunct2]
  have cases: "(b, r') = (False, r) \<or> (b, r') = (True, r\<lparr>status := FINISHED_STOPPED\<rparr>) \<or>
      (b, r') = (True, r\<lparr>status := FINISHED_STOPPED, req_stop_reason := Some (StopToken (last (output_token_ids r)))\<rparr>) \<or>
      (b, r') = (True, r\<lparr>status := FINISHED_LENGTH_CAPPED\<rparr>) \<or>
      (b, r') = (True, r\<lparr>status := FINISHED_REPETITION, req_stop_reason := Some (StopString ''repetition_detected'')\<rparr>)"
  proof (cases "repetition_detection sp")
    case None
    show ?thesis using a[unfolded None option.case] by (simp only: sum.inject sum.distinct split: if_splits) blast+
  next
    case (Some rp)
    show ?thesis
    proof (cases "check_sequence_repetition (output_token_ids r) rp")
      case (Inl e)
      show ?thesis using a[unfolded Some option.case Inl rbind_simps]
        by (simp only: sum.inject sum.distinct split: if_splits) blast+
    next
      case (Inr x)
      show ?thesis using a[unfolded Some option.case Inr rbind_simps]
        by (simp only: sum.inject sum.distinct split: if_splits) blast+
    qed
  qed
  then have ?ok by (elim disjE) (simp_all add: core_def is_finished_def is_finished_status_def)
  then show "core r' = core r" "b \<Longrightarrow> is_finished r'" "\<not> b \<Longrightarrow> r' = r" by simp_all
qed

lemma append_until_stop_frame:
  "append_until_stop n r ts = Inr (kept, b, r') \<Longrightarrow>
     core r' = core r \<and> (b \<longrightarrow> is_finished r') \<and> (\<not> b \<longrightarrow> status r' = status r)"
proof (induction ts arbitrary: r kept)
  case (Cons t ts)
  obtain r1 where r1: "append_output_token_ids r [t] = Inr r1" using Cons.prems by (auto elim: rbind_InrE)
  obtain st r2 where r2: "check_stop r1 n = Inr (st, r2)" using Cons.prems r1 by (auto elim: rbind_InrE)
  note f = append_output_frame[OF r1] check_stop_frame[OF r2]
  show ?case
  proof (cases st)
    case True
    then show ?thesis using Cons.prems r1 r2 f by simp
  next
    case False
    obtain k' where "append_until_stop n r2 ts = Inr (k', b, r')"
      using Cons.prems r1 r2 False by (auto elim: rbind_InrE)
    from Cons.IH[OF this] show ?thesis using f False by simp
  qed
qed simp

text \<open>What a step writes to its request: the scheduler changes at that request only.\<close>

definition writes :: "request \<Rightarrow> scheduler \<Rightarrow> scheduler \<Rightarrow> bool" where
  "writes r s s' \<longleftrightarrow> same_lists s s' \<and> power_smc_group_children s' = power_smc_group_children s \<and>
     shape s' = (shape s)(request_id r \<mapsto> (status r, core r))"

lemma writes_put: "get_request s (request_id r) \<noteq> None \<Longrightarrow> writes r s (put_request r s)"
  by (simp add: writes_def shape_put)

lemma writes_put_put:
  "writes r s s' \<Longrightarrow> request_id r' = request_id r \<Longrightarrow> writes r' s (put_request r' s')"
proof -
  assume w: "writes r s s'" and id: "request_id r' = request_id r"
  have "shape s' (request_id r') = Some (status r, core r)" using w id by (simp add: writes_def)
  then have "get_request s' (request_id r') \<noteq> None" by (auto simp: shape_def)
  then show ?thesis using w id same_lists_trans[OF _ same_lists_put, of s s' r']
    by (simp add: writes_def shape_put)
qed

lemma writes_view: "writes r s s' \<Longrightarrow> same_view s' s'' \<Longrightarrow> writes r s s''"
  using same_lists_trans[of s s' s''] by (simp add: writes_def same_view_def)

lemma view_writes: "same_view s s' \<Longrightarrow> writes r s' s'' \<Longrightarrow> writes r s s''"
  using same_lists_trans[of s s' s''] by (simp add: writes_def same_view_def)

lemma update_request_frame:
  assumes "update_request_with_output req toks s = Inr (kept, b, r, s')" "get_request s (request_id req) \<noteq> None"
  shows "writes r s s'" "core r = core req" "b \<Longrightarrow> is_finished r" "\<not> b \<Longrightarrow> status r = status req"
proof -
  have a: "append_until_stop (sc_max_model_len s) req toks = Inr (kept, b, r)" "s' = put_request r s"
    using assms(1) by (auto simp: update_request_with_output_def elim!: rbind_InrE)
  note f = append_until_stop_frame[OF a(1)]
  then show "core r = core req" "b \<Longrightarrow> is_finished r" "\<not> b \<Longrightarrow> status r = status req" by simp_all
  then show "writes r s s'" using writes_put[of s r] a(2) assms(2) by (simp add: core_def)
qed

lemma async_update_request_frame:
  assumes "async_update_request_with_output req toks s = Inr (kept, b, r, s')" "get_request s (request_id req) \<noteq> None"
  shows "writes r s s'" "core r = core req" "b \<Longrightarrow> is_finished r" "\<not> b \<Longrightarrow> status r = status req"
proof -
  have "writes r s s' \<and> core r = core req \<and> (b \<longrightarrow> is_finished r) \<and> (\<not> b \<longrightarrow> status r = status req)"
  proof (cases "async_tokens_to_discard req > 0")
    case True
    then have "r = req\<lparr>async_tokens_to_discard := async_tokens_to_discard req - 1\<rparr>" "s' = put_request r s" "\<not> b"
      using assms(1) by (auto simp: async_update_request_with_output_def Let_def)
    then show ?thesis using writes_put[of s r] assms(2) by (simp add: core_def)
  next
    case False
    note e = assms(1)[unfolded async_update_request_with_output_def if_not_P[OF False]]
    obtain x where x: "update_request_with_output req toks s = Inr x" using e by (rule rbind_InrE) (rule that)
    obtain kept0 b0 r0 s1 where xe: "x = (kept0, b0, r0, s1)" by (cases x)
    note u = x[unfolded xe]
    define r1 where "r1 = r0\<lparr>num_output_placeholders := num_output_placeholders r0 - int (length kept0)\<rparr>"
    note e = e[unfolded u rbind_simps prod.case Let_def, folded r1_def, unfolded py_assert_eq_Inr, THEN conjunct2]
    have a: "r = r1 \<and> b = b0 \<and> same_view (put_request r1 s1) s'"
    proof (cases "status req = RUNNING")
      case True
      note e = e[unfolded if_P[OF True]]
      have n: "\<not> int (num_computed_tokens r1) - num_output_placeholders r1 < 0" by (rule notI) (use e in simp)
      note e = e[unfolded if_not_P[OF n]]
      obtain s3 where s3: "with_kv (km_cache_blocks r1 (nat (int (num_computed_tokens r1) - num_output_placeholders r1)))
          (put_request r1 s1) = Inr s3" using e by (rule rbind_InrE) (rule that)
      show ?thesis using e[unfolded s3 rbind_simps] same_view_with_kv[OF s3] by simp
    next
      case False
      show ?thesis using e[unfolded if_not_P[OF False] sum.inject prod.inject] by (metis same_view_refl)
    qed
    note f = update_request_frame[OF u assms(2)]
    have "writes r1 s (put_request r1 s1)" by (rule writes_put_put[OF f(1)]) (simp add: r1_def)
    then have "writes r1 s s'" using a by (blast intro: writes_view)
    then show ?thesis using a f(2-4) by (simp add: r1_def core_def is_finished_def)
  qed
  then show "writes r s s'" "core r = core req" "b \<Longrightarrow> is_finished r" "\<not> b \<Longrightarrow> status r = status req" by simp_all
qed

lemma step_tokens_frame:
  assumes "step_tokens g req generated pooled s = Inr (toks, b, r, s')"
    "shape s (request_id req) = Some (status req, core req)" "\<not> resumable req"
  shows "writes r s s'" "core r = core req" "b \<Longrightarrow> is_finished r" "\<not> b \<Longrightarrow> status r = status req"
proof -
  have g: "get_request s (request_id req) \<noteq> None" using assms(2) by (auto simp: shape_def)
  define res where "res = (if generated \<noteq> []
            then (if sc_async_scheduling s then async_update_request_with_output req generated s
                  else update_request_with_output req generated s)
            else if is_pooling req \<and> pooled
            then (let r = req\<lparr>status := FINISHED_STOPPED\<rparr> in Inr ([], True, r, put_request r s))
            else Inr ([], False, req, s))"
  note a = assms(1)[unfolded step_tokens_def, folded res_def]
  obtain x where x: "res = Inr x" using a by (rule rbind_InrE) (rule that)
  obtain toks0 b0 r0 s1 where xe: "x = (toks0, b0, r0, s1)" by (cases x)
  note u = x[unfolded xe res_def]
  have id: "writes req s s" using assms(2) by (simp add: writes_def fun_upd_idem)
  have w: "writes r0 s s1 \<and> core r0 = core req \<and> (b0 \<longrightarrow> is_finished r0) \<and> (\<not> b0 \<longrightarrow> status r0 = status req)"
  proof (cases "generated \<noteq> []")
    case True
    show ?thesis
    proof (cases "sc_async_scheduling s")
      case async: True
      show ?thesis using async_update_request_frame[OF u[unfolded if_P[OF True] if_P[OF async]] g] by simp
    next
      case sync: False
      show ?thesis using update_request_frame[OF u[unfolded if_P[OF True] if_not_P[OF sync]] g] by simp
    qed
  next
    case False
    then show ?thesis using u id writes_put[of s "req\<lparr>status := FINISHED_STOPPED\<rparr>"] g
      by (auto simp: Let_def core_def is_finished_def is_finished_status_def split: if_splits)
  qed
  note a = a[unfolded x xe rbind_simps prod.case Let_def]
  have "writes r s s' \<and> core r = core req \<and> (b \<longrightarrow> is_finished r) \<and> (\<not> b \<longrightarrow> status r = status req)"
  proof (cases "toks0 \<noteq> [] \<and> should_advance g r0 \<and> \<not> accept_tokens g (request_id r0) toks0")
    case True
    have "writes (r0\<lparr>status := FINISHED_ERROR, resumable := False\<rparr>) s
        (put_request (r0\<lparr>status := FINISHED_ERROR, resumable := False\<rparr>) s1)"
      by (rule writes_put_put) (use w in simp_all)
    then show ?thesis using a True w assms(3)
      by (auto simp: core_def is_finished_def is_finished_status_def)
  next
    case False
    then show ?thesis using a w by auto
  qed
  then show "writes r s s'" "core r = core req" "b \<Longrightarrow> is_finished r" "\<not> b \<Longrightarrow> status r = status req" by simp_all
qed

section \<open>The registry\<close>

text \<open>An operation that only registers children under their own key.\<close>

definition registers :: "scheduler \<Rightarrow> scheduler \<Rightarrow> bool" where
  "registers s s' \<longleftrightarrow> same_lists s s' \<and> shape s' = shape s \<and>
     (\<forall>(pid, idx, rid) \<in> regs s'. (pid, idx, rid) \<in> regs s \<or> child_key s rid = Some (pid, idx))"

lemma registers_view: "same_view s s' \<Longrightarrow> registers s s'"
  by (auto simp: registers_def same_view_def regs_def)

lemma registers_trans: "registers s s' \<Longrightarrow> registers s' s'' \<Longrightarrow> registers s s''"
proof -
  assume a: "registers s s'" "registers s' s''"
  then have "child_key s' = child_key s" by (simp add: registers_def child_key_def fun_eq_iff)
  then show ?thesis using a same_lists_trans[of s s' s''] unfolding registers_def by fastforce
qed

lemma wf_mid_registers:
  assumes "wf_mid L D P s" "registers s s'"
  shows "wf_mid L D P s'"
proof -
  have ck: "child_key s' = child_key s" using assms(2) by (simp add: registers_def child_key_def fun_eq_iff)
  have ls: "queued s' = queued s" "running s' = running s" "sc_max_num_running_reqs s' = sc_max_num_running_reqs s"
      "shape s' = shape s"
    using assms(2) by (simp_all add: registers_def same_lists_def queued_def)
  have f: "mid_entry L P s' = mid_entry L P s" unfolding mid_entry_def fits_def fun_eq_iff ls by simp
  have "registered s'"
    using assms unfolding wf_mid_def registered_regs ck registers_def by fastforce
  then show ?thesis using assms(1) unfolding wf_mid_def ls f by blast
qed

lemma get_group_manager_registers:
  assumes "get_power_smc_group_manager req s = Inr (gi, s')" "shape s (request_id req) = Some (st, core req)"
  shows "registers s s'"
proof (cases "req_power_smc_config req = None \<or> power_smc_child_info req = None")
  case True
  then have "s' = s" using assms(1) by (auto simp: get_power_smc_group_manager_def split: option.splits)
  then show ?thesis by (simp add: registers_view)
next
  case False
  then obtain c info where c: "req_power_smc_config req = Some c" "power_smc_child_info req = Some info" by auto
  define pid where "pid = parent_id info"
  define mk where "mk = (case map_of (power_smc_group_managers s) pid of
                           Some m \<Rightarrow> Inr (m, s)
                         | None \<Rightarrow>
                             (case group_rng req info s of
                                (g, s0) \<Rightarrow>
                                  rbind (init_group_manager c g) (\<lambda>m.
                                    Inr (m, s0\<lparr>power_smc_group_managers := dict_set pid m (power_smc_group_managers s0),
                                               power_smc_group_children := dict_set pid [] (power_smc_group_children s0)\<rparr>))))"
  have np: "\<not> particle_idx info \<ge> particles_cfg c"
    by (rule notI) (use assms(1) c in \<open>simp add: get_power_smc_group_manager_def\<close>)
  note a = assms(1)[unfolded get_power_smc_group_manager_def c prod.case option.case if_not_P[OF np] Let_def,
      folded pid_def, folded mk_def]
  obtain x where x: "mk = Inr x" using a by (rule rbind_InrE) (rule that)
  obtain m s1 where xe: "x = (m, s1)" by (cases x)
  note a = a[unfolded x xe rbind_simps prod.case]
  obtain ch where ch: "map_of (power_smc_group_children s1) pid = Some ch"
    using a by (cases "map_of (power_smc_group_children s1) pid") auto
  have s': "s' = s1\<lparr>power_smc_group_children :=
      dict_set pid (dict_set (child_index info) (request_id req) ch) (power_smc_group_children s1)\<rparr>"
    using a[unfolded ch option.case] by simp
  have s1: "registers s s1"
  proof (cases "map_of (power_smc_group_managers s) pid")
    case None
    obtain g s0 where g: "group_rng req info s = (g, s0)" by (cases "group_rng req info s")
    then have s0: "same_view s s0" "power_smc_group_children s0 = power_smc_group_children s"
      by (auto simp: group_rng_def split: option.splits)
    obtain m' where m': "init_group_manager c g = Inr m'"
      using x[unfolded mk_def None g option.case prod.case] by (rule rbind_InrE) (rule that)
    note s1 = x[unfolded mk_def None g m' xe option.case prod.case rbind_simps sum.inject prod.inject,
        THEN conjunct2, symmetric]
    have "same_lists s0 s1" "shape s1 = shape s0" "regs s1 \<subseteq> regs s0"
      by (auto simp: s1 same_lists_def shape_def fun_eq_iff regs_def split: if_splits)
    then have "registers s0 s1" by (auto simp: registers_def)
    then show ?thesis using registers_trans registers_view[OF s0(1)] by blast
  next
    case (Some m')
    then have "s1 = s" using x by (simp add: mk_def xe)
    then show ?thesis by (simp add: registers_view)
  qed
  have ck: "child_key s1 (request_id req) = Some (pid, child_index info)"
    using assms(2) s1 c(2) by (simp add: child_key_def registers_def core_def pid_def)
  have "regs s' \<subseteq> insert (pid, child_index info, request_id req) (regs s1)"
    using ch by (auto simp: regs_def s' split: if_splits)
  then have "registers s1 s'"
    using ck by (auto simp: registers_def s' same_lists_def shape_def fun_eq_iff)
  with s1 show ?thesis by (rule registers_trans)
qed

lemma observe_registers:
  assumes "observe_power_smc_request_output req toks lp fr sr s = Inr (p, s')"
    "shape s (request_id req) = Some (st, core req)"
  shows "registers s s'"
proof (cases "toks = []")
  case True
  then show ?thesis using assms(1) by (simp add: observe_power_smc_request_output_def registers_view)
next
  case False
  note a = assms(1)[unfolded observe_power_smc_request_output_def if_not_P[OF False]]
  obtain x where x: "get_power_smc_group_manager req s = Inr x" using a by (rule rbind_InrE) (rule that)
  obtain gi s1 where xe: "x = (gi, s1)" by (cases x)
  note r = get_group_manager_registers[OF x[unfolded xe] assms(2)]
  have "same_view s1 s'"
    using a[unfolded x xe rbind_simps prod.case]
    by (auto simp: set_group_manager_def elim!: rbind_InrE split: option.splits prod.splits if_splits)
  then show ?thesis using registers_trans[OF r registers_view] by blast
qed

section \<open>One entry of the output\<close>

text \<open>
  The requests that stopped are released but still listed: in the running list if they were running, in the
  waiting queue if they had been preempted since they were scheduled.
\<close>

definition upd_ok :: "update_state \<Rightarrow> scheduler \<Rightarrow> bool" where
  "upd_ok us s \<longleftrightarrow>
     wf_mid {} (set (us_stopped_running us) \<union> set (us_stopped_preempted us)) {} s \<and>
     set (us_stopped_running us) \<subseteq> set (running s) \<and> set (us_stopped_preempted us) \<subseteq> set (waiting s) \<and>
     distinct (us_parents us)"

lemma reject_drafts_frame: "reject_drafts d g r = Inr r' \<Longrightarrow> core r' = core r \<and> status r' = status r"
  by (auto simp: reject_drafts_def Let_def core_def split: if_splits)

lemma free_encoder_inputs_loop_view: "free_encoder_inputs_loop req is s = Inr s' \<Longrightarrow> same_view s s'"
proof (induction "is" arbitrary: s)
  case (Cons i "is")
  obtain f where f: "list_get (mm_features req) i = Inr f"
    using Cons.prems[unfolded free_encoder_inputs_loop.simps] by (rule rbind_InrE) (rule that)
  note a = Cons.prems[unfolded free_encoder_inputs_loop.simps f rbind_simps]
  obtain s1 where s1: "(if sc_is_encoder_decoder s \<and> num_computed_tokens req > 0 \<or>
               mm_offset f + mm_length f \<le> num_computed_tokens req
            then with_enc (enc_free_input req i) s else Inr s) = Inr s1" and e: "free_encoder_inputs_loop req is s1 = Inr s'"
    using a by (rule rbind_InrE) (rule that)
  have "same_view s s1" using s1 by (auto intro: same_view_with_enc split: if_splits)
  then show ?case using Cons.IH[OF e] same_view_trans by blast
qed simp

lemma step_stopped_frame:
  assumes "step_stopped before r us s = Inr (fr, r', us', s')" "\<not> resumable r"
  shows "r' = r" "sched_free_request r False s = Inr s'"
    "us' = (if before = RUNNING then us\<lparr>us_stopped_running := request_id r # us_stopped_running us\<rparr>
            else us\<lparr>us_stopped_preempted := request_id r # us_stopped_preempted us\<rparr>)"
proof -
  note a = assms(1)[unfolded step_stopped_def handle_stopped_request_def if_P[OF assms(2)] rbind_simps prod.case if_P[OF TrueI]]
  obtain s1 where s1: "sched_free_request r False s = Inr s1" using a by (rule rbind_InrE) (rule that)
  note a = a[unfolded s1 rbind_simps sum.inject prod.inject]
  show "r' = r" "sched_free_request r False s = Inr s'"
    "us' = (if before = RUNNING then us\<lparr>us_stopped_running := request_id r # us_stopped_running us\<rparr>
            else us\<lparr>us_stopped_preempted := request_id r # us_stopped_preempted us\<rparr>)"
    using a s1 by simp_all
qed

lemma step_power_smc_frame:
  assumes "step_power_smc r toks stopped i lps us s = Inr (lp, pid, us', s')"
  shows "stopped \<Longrightarrow> s' = s" "shape s (request_id r) = Some (st, core r) \<Longrightarrow> registers s s'"
    "us_stopped_running us' = us_stopped_running us" "us_stopped_preempted us' = us_stopped_preempted us"
    "distinct (us_parents us) \<Longrightarrow> distinct (us_parents us')"
proof -
  define lres where "lres = (case lps of None \<Rightarrow> Inr None
                  | Some l \<Rightarrow> rbind (list_get l i) (\<lambda>x. Inr (Some x)))"
  have "(us' = us \<and> s' = s) \<or>
    (\<not> stopped \<and> (\<exists>lp. observe_power_smc_request_output r toks lp None (req_stop_reason r) s = Inr (pid, s') \<and>
      us' = (case pid of None \<Rightarrow> us | Some p \<Rightarrow> if p \<in> set (us_parents us) then us
                                  else us\<lparr>us_parents := us_parents us @ [p]\<rparr>)))"
  proof (cases "req_power_smc_config r = None \<or> toks = []")
    case True
    then show ?thesis using assms by (simp add: step_power_smc_def)
  next
    case False
    note a = assms[unfolded step_power_smc_def if_not_P[OF False], folded lres_def]
    obtain l where l: "lres = Inr l" using a by (rule rbind_InrE) (rule that)
    note a = a[unfolded l rbind_simps]
    show ?thesis
    proof (cases stopped)
      case True
      then show ?thesis using a by simp
    next
      case False
      note a = a[unfolded if_not_P[OF False]]
      obtain x where x: "observe_power_smc_request_output r toks l None (req_stop_reason r) s = Inr x"
        using a by (rule rbind_InrE) (rule that)
      obtain p s1 where xe: "x = (p, s1)" by (cases x)
      note a = a[unfolded x xe rbind_simps prod.case sum.inject prod.inject]
      show ?thesis using False a x xe by blast
    qed
  qed
  then show "stopped \<Longrightarrow> s' = s" "shape s (request_id r) = Some (st, core r) \<Longrightarrow> registers s s'"
    "us_stopped_running us' = us_stopped_running us" "us_stopped_preempted us' = us_stopped_preempted us"
    "distinct (us_parents us) \<Longrightarrow> distinct (us_parents us')"
    by (auto simp: registers_view intro: observe_registers split: option.splits if_splits)
qed

lemma update_one_cases:
  assumes "update_one g so mo (rid, n) (us, s) = Inr (us', s')" "get_request s rid = Some req0" "\<not> is_finished req0"
  obtains generated pooled i drafts req s1 toks stopped r1 s2 fr r2 us2 s3 lp pid us3 where
    "reject_drafts drafts generated req0 = Inr req" "same_view (put_request req s) s1"
    "step_tokens g req generated pooled s1 = Inr (toks, stopped, r1, s2)"
    "(if stopped then step_stopped (status req) r1 us s2 else Inr (None, r1, us, s2)) = Inr (fr, r2, us2, s3)"
    "step_power_smc r2 toks stopped i (mro_power_smc_logprobs mo) us2 s3 = Inr (lp, pid, us3, s')"
    "us_stopped_running us' = us_stopped_running us3" "us_stopped_preempted us' = us_stopped_preempted us3"
    "us_parents us' = us_parents us3"
proof -
  note a = assms(1)[unfolded update_one_def prod.case assms(2) option.case if_not_P[OF assms(3)] py_assert_eq_Inr,
      THEN conjunct2]
  obtain i where i: "map_of (req_id_to_index mo) rid = Some i" using a by (cases "map_of (req_id_to_index mo) rid") auto
  note a = a[unfolded i option.case Let_def]
  obtain gen where gen: "(if sampled_token_ids mo = [] then Inr [] else list_get (sampled_token_ids mo) i) = Inr gen"
    using a by (rule rbind_InrE) (rule that)
  note a = a[unfolded gen rbind_simps]
  obtain pooled where pooled: "(if pooler_output mo = [] then Inr False else list_get (pooler_output mo) i) = Inr pooled"
    using a by (rule rbind_InrE) (rule that)
  note a = a[unfolded pooled rbind_simps]
  obtain req where req: "reject_drafts (case map_of (scheduled_spec_decode_tokens so) rid of None \<Rightarrow> [] | Some d \<Rightarrow> d)
      gen req0 = Inr req" using a by (rule rbind_InrE) (rule that)
  note a = a[unfolded req rbind_simps]
  obtain s1 where s1: "(if has_encoder_inputs req then free_encoder_inputs req (put_request req s)
      else Inr (put_request req s)) = Inr s1" using a by (rule rbind_InrE) (rule that)
  note a = a[unfolded s1 rbind_simps]
  obtain x where x: "step_tokens g req gen pooled s1 = Inr x" using a by (rule rbind_InrE) (rule that)
  obtain toks stopped r1 s2 where xe: "x = (toks, stopped, r1, s2)" by (cases x)
  note a = a[unfolded x xe rbind_simps prod.case]
  obtain y where y: "(if stopped then step_stopped (status req) r1 us s2 else Inr (None, r1, us, s2)) = Inr y"
    using a by (rule rbind_InrE) (rule that)
  obtain fr r2 us2 s3 where ye: "y = (fr, r2, us2, s3)" by (cases y)
  note a = a[unfolded y ye rbind_simps prod.case]
  obtain z where z: "step_power_smc r2 toks stopped i (mro_power_smc_logprobs mo) us2 s3 = Inr z"
    using a by (rule rbind_InrE) (rule that)
  obtain lp pid us3 s4 where ze: "z = (lp, pid, us3, s4)" by (cases z)
  note a = a[unfolded z ze rbind_simps prod.case]
  have v: "same_view (put_request req s) s1"
    using s1 free_encoder_inputs_loop_view by (auto simp: free_encoder_inputs_def split: if_splits)
  have e: "s4 = s'" "us_stopped_running us' = us_stopped_running us3"
      "us_stopped_preempted us' = us_stopped_preempted us3" "us_parents us' = us_parents us3"
    using a by (auto split: if_splits)
  show thesis by (rule that[OF req v x[unfolded xe] y[unfolded ye] z[unfolded ze e(1)] e(2-4)])
qed

lemma update_one_ok:
  assumes "update_one g so mo (rid, n) (us, s) = Inr (us', s')" "upd_ok us s" "rid \<notin> set (skipped_waiting s)"
  shows "upd_ok us' s'" "same_lists s s'"
proof -
  let ?D = "set (us_stopped_running us) \<union> set (us_stopped_preempted us)"
  have wf: "wf_mid {} ?D {} s" using assms(2) by (simp add: upd_ok_def)
  have "upd_ok us' s' \<and> same_lists s s'"
  proof (cases "get_request s rid")
    case None
    then show ?thesis using assms(1,2) by (simp add: update_one_def py_assert_eq_Inr)
  next
    case (Some req0)
    note w = wf_mid_request[OF wf Some]
    obtain generated pooled i drafts req s1 toks stopped r1 s2 fr r2 us2 s3 lp pid us3 where
      rq: "reject_drafts drafts generated req0 = Inr req" and v1: "same_view (put_request req s) s1"
      and st: "step_tokens g req generated pooled s1 = Inr (toks, stopped, r1, s2)"
      and sp: "(if stopped then step_stopped (status req) r1 us s2 else Inr (None, r1, us, s2)) = Inr (fr, r2, us2, s3)"
      and pw: "step_power_smc r2 toks stopped i (mro_power_smc_logprobs mo) us2 s3 = Inr (lp, pid, us3, s')"
      and us': "us_stopped_running us' = us_stopped_running us3" "us_stopped_preempted us' = us_stopped_preempted us3"
        "us_parents us' = us_parents us3"
      by (rule update_one_cases[OF assms(1) Some w(5)])
    have rf: "core req = core req0" "status req = status req0" "request_id req = rid" "\<not> resumable req"
      using reject_drafts_frame[OF rq] w(1,2) by (simp_all add: core_def)
    have "same_view s (put_request req s)" by (rule same_view_put[of s req req0]) (use rf Some in simp_all)
    then have v: "same_view s s1" using v1 by (rule same_view_trans)
    have sh: "shape s1 (request_id req) = Some (status req, core req)"
      using v rf Some by (simp add: same_view_def shape_def)
    note sf = step_tokens_frame[OF st sh rf(4)]
    have r1: "request_id r1 = rid" "\<not> resumable r1" using sf(2) rf by (simp_all add: core_def)
    have wr: "writes r1 s s2" using v sf(1) by (rule view_writes)
    note pf = step_power_smc_frame[OF pw]
    show ?thesis
    proof (cases stopped)
      case True
      note ss = step_stopped_frame[OF sp[unfolded if_P[OF True]] r1(2)]
      have "wf_mid {} (insert rid ?D) {} s3 \<and> same_lists s s3"
        using wf_mid_free[OF wf Some, of s2 "status r1" r1 s3] wr ss(2) sf(2) rf(1) r1(1)
        by (simp add: writes_def)
      moreover have "s' = s3" using pf(1) True by simp
      moreover have "rid \<in> set (if status req = RUNNING then running s else waiting s)"
        using w(3,6) assms(3) rf(2) by (auto simp: fits_def queued_def split: if_splits)
      ultimately show ?thesis using assms(2) ss(3) r1(1) us' pf(3-5)
        by (cases "status req = RUNNING") (auto simp: upd_ok_def same_lists_def)
    next
      case False
      have e: "r2 = r1" "us2 = us" "s3 = s2" using sp False by auto
      have "shape s2 = shape s"
        using wr sf(2) sf(4)[OF False] rf(1-3) r1(1) Some by (auto simp: writes_def shape_def fun_eq_iff)
      then have v2: "same_view s s2" using wr by (simp add: writes_def same_view_def)
      have "shape s3 (request_id r2) = Some (status r1, core r2)" using wr e by (simp add: writes_def)
      from registers_trans[OF registers_view[OF v2] pf(2)[OF this, unfolded e(3)]] have rs: "registers s s'" .
      then have "wf_mid {} ?D {} s'" "same_lists s s'" using wf_mid_registers[OF wf] by (simp_all add: registers_def)
      then show ?thesis using assms(2) us' pf(3-5) e(2) by (simp add: upd_ok_def same_lists_def)
    qed
  qed
  then show "upd_ok us' s'" "same_lists s s'" by simp_all
qed

lemma update_each_ok:
  "update_each g so mo es (us, s) = Inr (us', s') \<Longrightarrow> upd_ok us s \<Longrightarrow> set (map fst es) \<inter> set (skipped_waiting s) = {} \<Longrightarrow>
     upd_ok us' s' \<and> same_lists s s'"
proof (induction es arbitrary: us s)
  case (Cons e es)
  obtain rid n where e: "e = (rid, n)" by (cases e)
  obtain x where x: "update_one g so mo e (us, s) = Inr x" and r: "update_each g so mo es x = Inr (us', s')"
    using Cons.prems(1)[unfolded update_each.simps] by (rule rbind_InrE) (rule that)
  obtain us1 s1 where xe: "x = (us1, s1)" by (cases x)
  have n: "rid \<notin> set (skipped_waiting s)" using Cons.prems(3) e by simp
  note o = update_one_ok[OF x[unfolded e xe] Cons.prems(2) n]
  have "set (map fst es) \<inter> set (skipped_waiting s1) = {}" using o(2) Cons.prems(3) by (auto simp: same_lists_def)
  from Cons.IH[OF r[unfolded xe] o(1) this] o(2) same_lists_trans show ?case by blast
qed simp

section \<open>Resampling\<close>

lemma wf_mid_preempt:
  assumes wf: "wf_mid {} D P s" and r: "get_request s rid = Some r" and w: "writes r' s s'"
    and r': "core r' = core r" "status r' = PREEMPTED"
  shows "wf_mid {} D (insert rid P) s'" "child_key s' = child_key s"
proof -
  have id: "request_id r' = rid" using wf_mid_request(1)[OF wf r] r'(1) by (simp add: core_def)
  have sh: "shape s' = (shape s)(rid \<mapsto> (PREEMPTED, core r))" "shape s rid = Some (status r, core r)"
    using w r r' id by (simp_all add: writes_def shape_def)
  have ls: "queued s' = queued s" "running s' = running s" "sc_max_num_running_reqs s' = sc_max_num_running_reqs s"
      "power_smc_group_children s' = power_smc_group_children s"
    using w by (simp_all add: writes_def same_lists_def queued_def)
  show ck: "child_key s' = child_key s" using sh by (simp add: child_key_def fun_eq_iff)
  have "mid_entry {} (insert rid P) s' x" for x
  proof (cases "x = rid")
    case True
    have "mid_entry {} P s rid" using wf by (simp add: wf_mid_def)
    then show ?thesis using sh True by (auto simp: mid_entry_def core_def)
  next
    case False
    then have "mid_entry {} (insert rid P) s' x = mid_entry {} P s x"
      unfolding mid_entry_def fits_def sh(1) ls by (simp split: option.split)
    then show ?thesis using wf by (simp add: wf_mid_def)
  qed
  moreover have "dom (shape s') = dom (shape s)" using sh by auto
  moreover have "registered s'" using wf unfolding wf_mid_def registered_regs ck regs_def ls by blast
  ultimately show "wf_mid {} D (insert rid P) s'"
    using wf sh(2) unfolding wf_mid_def ls by auto
qed

lemma alias_child_view: "alias_child snaps a toks req cnt s = Inr (n, cnt', s') \<Longrightarrow> same_view s s'"
  by (auto simp: alias_child_def Let_def elim!: rbind_InrE split: option.splits prod.splits if_splits)

lemma resample_child_writes:
  assumes "resample_child snaps a toks req cnt s = Inr (cnt', s')" "get_request s (request_id req) \<noteq> None"
  obtains r' where "writes r' s s'" "core r' = core req" "status r' = PREEMPTED"
proof -
  note e = assms(1)[unfolded resample_child_def]
  obtain x where x: "alias_child snaps a toks req cnt s = Inr x" using e by (rule rbind_InrE) (rule that)
  obtain n cnt1 s1 where xe: "x = (n, cnt1, s1)" by (cases x)
  note e = e[unfolded x xe rbind_simps prod.case]
  obtain s2 where s2: "(if n = 0 then with_kv (km_free req) s1 else Inr s1) = Inr s2"
    using e by (rule rbind_InrE) (rule that)
  note e = e[unfolded s2 rbind_simps]
  obtain s3 where s3: "with_enc (enc_free req) s2 = Inr s3" using e by (rule rbind_InrE) (rule that)
  note e = e[unfolded s3 rbind_simps]
  obtain r1 where r1: "reset_child toks n req = Inr r1" using e by (rule rbind_InrE) (rule that)
  note e = e[unfolded r1 rbind_simps sum.inject prod.inject, THEN conjunct2, symmetric]
  have "same_view s1 s2" using s2 by (auto intro: same_view_with_kv split: if_splits)
  then have "same_view s s3"
    using alias_child_view[OF x[unfolded xe]] same_view_with_enc[OF s3] same_view_trans by blast
  then have v: "same_view s (s3\<lparr>inflight_prefills := inflight_prefills s3 - {request_id req}\<rparr>)" (is "same_view s ?s")
    using same_view_trans same_view_updates(3) by blast
  have r: "core r1 = core req" "status r1 = PREEMPTED"
    using r1 reset_output_frame by (auto simp: reset_child_def core_def elim!: rbind_InrE)
  have "shape ?s (request_id r1) \<noteq> None" using v r(1) assms(2) by (simp add: same_view_def shape_def core_def)
  then have "get_request ?s (request_id r1) \<noteq> None" by (auto simp: shape_def)
  from view_writes[OF v writes_put[OF this]] r show thesis by (intro that[of r1]) (simp_all add: e)
qed

lemma resample_children_wf:
  "resample_children snaps plan noop es done_ids cnt s = Inr (rids, cnt', s') \<Longrightarrow> wf_mid {} D P s \<Longrightarrow>
     \<exists>new. rids = done_ids @ new \<and> new = map (snd \<circ> snd) (filter (\<lambda>e. fst e \<notin> set noop) es) \<and>
       wf_mid {} D (P \<union> set new) s' \<and> same_lists s s' \<and> child_key s' = child_key s \<and>
       power_smc_group_children s' = power_smc_group_children s"
proof (induction es arbitrary: done_ids cnt s P)
  case (Cons e es)
  obtain idx toks rid where e: "e = (idx, toks, rid)" by (cases e)
  show ?case
  proof (cases "idx \<in> set noop")
    case True
    obtain cnt1 where "resample_children snaps plan noop es done_ids cnt1 s = Inr (rids, cnt', s')"
      using Cons.prems(1) e True by (auto simp: Let_def)
    from Cons.IH[OF this Cons.prems(2)] show ?thesis using e True by simp
  next
    case False
    note a = Cons.prems(1)[unfolded e resample_children.simps Let_def if_not_P[OF False]]
    obtain anc where anc: "list_get (ancestors plan) idx = Inr anc" using a by (rule rbind_InrE) (rule that)
    note a = a[unfolded anc rbind_simps]
    obtain req where req: "get_request s rid = Some req" using a by (cases "get_request s rid") auto
    note a = a[unfolded req option.case]
    obtain x where x: "resample_child snaps anc toks req (cnt\<lparr>cnt_child := cnt_child cnt + 1\<rparr>) s = Inr x"
      using a by (rule rbind_InrE) (rule that)
    obtain cnt2 s1 where xe: "x = (cnt2, s1)" by (cases x)
    note a = a[unfolded x xe rbind_simps prod.case]
    have g: "get_request s (request_id req) \<noteq> None" using wf_mid_request(1)[OF Cons.prems(2) req] req by simp
    obtain r' where w: "writes r' s s1" "core r' = core req" "status r' = PREEMPTED"
      by (rule resample_child_writes[OF x[unfolded xe] g])
    note p = wf_mid_preempt[OF Cons.prems(2) req w]
    obtain new where n: "rids = (done_ids @ [rid]) @ new" "new = map (snd \<circ> snd) (filter (\<lambda>e. fst e \<notin> set noop) es)"
      "wf_mid {} D (insert rid P \<union> set new) s'" "same_lists s1 s'" "child_key s' = child_key s1"
      "power_smc_group_children s' = power_smc_group_children s1"
      using Cons.IH[OF a p(1)] by (elim exE conjE) (rule that)
    have ls: "same_lists s s'" "power_smc_group_children s' = power_smc_group_children s"
      using w(1) n(4,6) same_lists_trans[of s s1 s'] by (simp_all add: writes_def)
    show ?thesis
      by (rule exI[of _ "rid # new"]) (use n ls p(2) e False in simp)
  qed
qed auto

text \<open>The children that the first pass finds are registered under their index.\<close>

lemma scan_child_active:
  assumes "scan_child s plan ch ca (idx, toks) acc = Inr sc"
  shows "scan_active sc = scan_active acc \<or>
    (\<exists>rid. map_of ch idx = Some rid \<and> scan_active sc = scan_active acc @ [(idx, toks, rid)])"
  using assms by (auto simp: scan_child_def Let_def elim!: rbind_InrE split: option.splits if_splits)

lemma scan_children_active:
  "scan_children s plan ch ca es acc = Inr sc \<Longrightarrow> distinct (map fst es) \<Longrightarrow>
     \<exists>l. scan_active sc = scan_active acc @ l \<and> (\<forall>(i, t, r) \<in> set l. map_of ch i = Some r) \<and>
         distinct (map fst l) \<and> set (map fst l) \<subseteq> set (map fst es)"
proof (induction es arbitrary: acc)
  case (Cons e es)
  obtain idx toks where e: "e = (idx, toks)" by (cases e)
  obtain acc1 where a: "scan_child s plan ch ca e acc = Inr acc1" and r: "scan_children s plan ch ca es acc1 = Inr sc"
    using Cons.prems(1)[unfolded scan_children.simps] by (rule rbind_InrE) (rule that)
  obtain l where l: "scan_active sc = scan_active acc1 @ l" "\<forall>(i, t, r) \<in> set l. map_of ch i = Some r"
    "distinct (map fst l)" "set (map fst l) \<subseteq> set (map fst es)"
    using Cons.IH[OF r] Cons.prems(2) by auto
  from scan_child_active[OF a[unfolded e]] show ?case
  proof
    assume "scan_active acc1 = scan_active acc"
    then show ?thesis using l by auto
  next
    assume "\<exists>rid. map_of ch idx = Some rid \<and> scan_active acc1 = scan_active acc @ [(idx, toks, rid)]"
    then obtain rid where "map_of ch idx = Some rid" "scan_active acc1 = scan_active acc @ [(idx, toks, rid)]" by blast
    then show ?thesis using l Cons.prems(2) e by (intro exI[of _ "(idx, toks, rid) # l"]) auto
  qed
qed simp

lemma active_distinct:
  assumes "\<forall>(i, t, r) \<in> set l. k r = Some (p, i)" "distinct (map fst l)"
  shows "distinct (map (snd \<circ> snd) (filter Q l))"
  using assms by (induction l) (auto simp: image_iff, fastforce)

lemma publish_kv_event_view: "same_view s (publish_kv_event pid m ev s)"
  using same_view_trans[OF same_view_updates(7) same_view_updates(8)]
  by (simp add: publish_kv_event_def set_group_manager_def Let_def)

lemma apply_plan_wf:
  assumes "apply_power_smc_resample_plan pid m s = Inr (rids, s')" "wf_mid {} D P s"
  shows "wf_mid {} D (P \<union> set rids) s'" "same_lists s s'" "child_key s' = child_key s"
    "distinct rids" "\<forall>r \<in> set rids. \<exists>i. child_key s r = Some (pid, i)"
proof -
  have view: "wf_mid {} D (P \<union> set rids) s' \<and> same_lists s s' \<and> child_key s' = child_key s \<and>
      distinct rids \<and> (\<forall>r \<in> set rids. \<exists>i. child_key s r = Some (pid, i))" if "rids = []" "same_view s s'"
    using that wf_mid_same_view[OF assms(2) that(2)] by (simp add: same_view_def child_key_def fun_eq_iff)
  have "wf_mid {} D (P \<union> set rids) s' \<and> same_lists s s' \<and> child_key s' = child_key s \<and>
      distinct rids \<and> (\<forall>r \<in> set rids. \<exists>i. child_key s r = Some (pid, i))"
  proof (cases "last_resample_plan m")
    case None
    then show ?thesis using assms(1) by (intro view) (simp_all add: apply_power_smc_resample_plan_def)
  next
    case (Some plan)
    define ch where "ch = (case map_of (power_smc_group_children s) pid of None \<Rightarrow> [] | Some c \<Rightarrow> c)"
    define ca where "ca = (kv_cow (config m) \<and> power_smc_kv_alias_supported s)"
    define es where "es = zip [0..<length (particle_token_ids plan)] (particle_token_ids plan)"
    note a = assms(1)[unfolded apply_power_smc_resample_plan_def Some option.case Let_def, folded ch_def es_def, folded ca_def]
    obtain sc where sc: "scan_children s plan ch ca es
        \<lparr>scan_active = [], scan_noop = [], scan_needed = [], scan_all_noop = True\<rparr> = Inr sc"
      using a by (rule rbind_InrE) (rule that)
    note a = a[unfolded sc rbind_simps]
    show ?thesis
    proof (cases "scan_all_noop sc")
      case True
      then show ?thesis using a by (intro view) (auto simp: publish_kv_event_view)
    next
      case False
      note a = a[unfolded if_not_P[OF False]]
      obtain x where x: "resample_children (if ca then take_snapshots (scan_needed sc) (sc_kv s) else [])
          plan (scan_noop sc) (scan_active sc) [] no_counts s = Inr x" using a by (rule rbind_InrE) (rule that)
      obtain new cnt s1 where xe: "x = (new, cnt, s1)" by (cases x)
      note a = a[unfolded x xe rbind_simps prod.case]
      have n: "new = map (snd \<circ> snd) (filter (\<lambda>e. fst e \<notin> set (scan_noop sc)) (scan_active sc))"
          "wf_mid {} D (P \<union> set new) s1" "same_lists s s1" "child_key s1 = child_key s"
        using resample_children_wf[OF x[unfolded xe] assms(2)] by auto
      have s': "rids = new" "same_view s1 s'" using a publish_kv_event_view by (auto split: if_splits)
      have "distinct (map fst es)" by (simp add: es_def)
      from scan_children_active[OF sc this] have act: "\<forall>(i, t, r) \<in> set (scan_active sc). map_of ch i = Some r"
          "distinct (map fst (scan_active sc))" by auto
      have "child_key s r = Some (pid, i)" if "map_of ch i = Some r" for i r
        using that assms(2) unfolding wf_mid_def registered_regs
        by (auto simp: ch_def regs_def split: option.splits)
      then have k: "\<forall>(i, t, r) \<in> set (scan_active sc). child_key s r = Some (pid, i)" using act(1) by fastforce
      have "distinct rids" unfolding s'(1) n(1) by (rule active_distinct[OF k act(2)])
      moreover have "\<forall>r \<in> set rids. \<exists>i. child_key s r = Some (pid, i)" using k unfolding s'(1) n(1) by fastforce
      moreover have "child_key s' = child_key s1" using s'(2) by (simp add: same_view_def child_key_def fun_eq_iff)
      ultimately show ?thesis
        using n wf_mid_same_view[OF n(2) s'(2)] s' same_lists_trans[OF n(3)] by (simp add: same_view_def)
    qed
  qed
  then show "wf_mid {} D (P \<union> set rids) s'" "same_lists s s'" "child_key s' = child_key s"
    "distinct rids" "\<forall>r \<in> set rids. \<exists>i. child_key s r = Some (pid, i)" by simp_all
qed

lemma maybe_resample_parent_wf:
  assumes "maybe_resample_power_smc_parent pid s = Inr (rids, s')" "wf_mid {} D P s"
  shows "wf_mid {} D (P \<union> set rids) s'" "same_lists s s'" "child_key s' = child_key s"
    "distinct rids" "\<forall>r \<in> set rids. \<exists>i. child_key s r = Some (pid, i)"
proof -
  have "wf_mid {} D (P \<union> set rids) s' \<and> same_lists s s' \<and> child_key s' = child_key s \<and>
      distinct rids \<and> (\<forall>r \<in> set rids. \<exists>i. child_key s r = Some (pid, i))"
  proof (cases "map_of (power_smc_group_managers s) pid")
    case None
    then show ?thesis using assms by (simp add: maybe_resample_power_smc_parent_def)
  next
    case (Some m)
    note a = assms(1)[unfolded maybe_resample_power_smc_parent_def Some option.case]
    obtain x where x: "maybe_resample m = Inr x" using a by (rule rbind_InrE) (rule that)
    obtain b m' where xe: "x = (b, m')" by (cases x)
    note a = a[unfolded x xe rbind_simps prod.case Let_def]
    have v: "same_view s (set_group_manager pid m' s)" by (simp add: set_group_manager_def)
    then have ck: "child_key (set_group_manager pid m' s) = child_key s" by (simp add: same_view_def child_key_def fun_eq_iff)
    note w = wf_mid_same_view[OF assms(2) v]
    show ?thesis
    proof (cases b)
      case True
      note p = apply_plan_wf[OF a[unfolded if_P[OF True]] w]
      show ?thesis using p ck same_lists_trans[OF _ p(2)] v by (simp add: same_view_def)
    next
      case False
      then show ?thesis using a w v ck by (auto simp: same_view_def)
    qed
  qed
  then show "wf_mid {} D (P \<union> set rids) s'" "same_lists s s'" "child_key s' = child_key s"
    "distinct rids" "\<forall>r \<in> set rids. \<exists>i. child_key s r = Some (pid, i)" by simp_all
qed

lemma resample_parents_wf:
  "resample_parents pids bp rids0 outs0 s = Inr (rids, outs, s') \<Longrightarrow> wf_mid {} D (set rids0) s \<Longrightarrow> distinct pids \<Longrightarrow>
   distinct rids0 \<Longrightarrow> \<forall>r \<in> set rids0. \<exists>p i. child_key s r = Some (p, i) \<and> p \<notin> set pids \<Longrightarrow>
     wf_mid {} D (set rids) s' \<and> same_lists s s' \<and> distinct rids"
proof (induction pids arbitrary: rids0 outs0 s)
  case (Cons pid pids)
  let ?s = "s\<lparr>last_power_smc_kv_event := None\<rparr>"
  obtain x where x: "maybe_resample_power_smc_parent pid ?s = Inr x"
    using Cons.prems(1)[unfolded resample_parents.simps] by (rule rbind_InrE) (rule that)
  obtain new s1 where xe: "x = (new, s1)" by (cases x)
  note a = Cons.prems(1)[unfolded resample_parents.simps x xe rbind_simps prod.case]
  let ?t = "s1\<lparr>last_power_smc_kv_event := None\<rparr>"
  have v: "same_view s ?s" "same_view s1 ?t" by simp_all
  have ck: "child_key ?s = child_key s" "child_key ?t = child_key s1"
    using v by (simp_all add: same_view_def child_key_def fun_eq_iff)
  note p = maybe_resample_parent_wf[OF x[unfolded xe] wf_mid_same_view[OF Cons.prems(2) v(1)], unfolded ck]
  have w: "wf_mid {} D (set (rids0 @ new)) ?t" using wf_mid_same_view[OF p(1) v(2)] by simp
  have ls: "same_lists s ?t" using v p(2) same_lists_trans by (auto simp: same_view_def)
  have d: "distinct (rids0 @ new)" using Cons.prems(4,5) p(4,5) by fastforce
  have k: "\<forall>r \<in> set (rids0 @ new). \<exists>p i. child_key ?t r = Some (p, i) \<and> p \<notin> set pids"
    using Cons.prems(3,5) p(5) by (auto simp: ck(2) p(3))
  show ?case using Cons.IH[OF a w _ d k] Cons.prems(3) ls same_lists_trans by auto
qed simp

section \<open>The end of the update\<close>

lemma remove_stopped_wf:
  assumes "upd_ok us s0" "same_lists s0 s" "wf_mid {} (set (us_stopped_running us) \<union> set (us_stopped_preempted us)) P s"
  shows "wf_mid {} {} P (remove_stopped us s)" "get_request (remove_stopped us s) = get_request s"
    "skipped_waiting (remove_stopped us s) = skipped_waiting s"
proof -
  let ?R = "set (us_stopped_running us)" and ?W = "set (us_stopped_preempted us)"
  have dq: "distinct (queued s)" using assms(3) by (simp add: wf_mid_def)
  have ls: "running (remove_stopped us s) = filter (\<lambda>x. x \<notin> ?R) (running s)"
      "waiting (remove_stopped us s) = filter (\<lambda>x. x \<notin> ?W) (waiting s)"
    using dq by (simp_all add: remove_stopped_def Let_def remove_all_filter queued_def sq.remove_requests)
  show g: "get_request (remove_stopped us s) = get_request s"
    "skipped_waiting (remove_stopped us s) = skipped_waiting s"
    by (simp_all add: remove_stopped_def Let_def)
  have o: "sc_max_num_running_reqs (remove_stopped us s) = sc_max_num_running_reqs s"
      "power_smc_group_children (remove_stopped us s) = power_smc_group_children s"
    by (simp_all add: remove_stopped_def Let_def)
  have sh: "shape (remove_stopped us s) = shape s" using g by (simp add: shape_def fun_eq_iff)
  have sub: "?R \<subseteq> set (running s)" "?W \<subseteq> set (waiting s)" using assms(1,2) by (simp_all add: upd_ok_def same_lists_def)
  have sets: "set (queued (remove_stopped us s)) = set (queued s) - (?R \<union> ?W)" "distinct (queued (remove_stopped us s))"
    using sub dq by (auto simp: queued_def ls g)
  have dm: "(?R \<union> ?W) \<inter> dom (shape s) = {}" using assms(3) by (simp add: wf_mid_def)
  have "mid_entry {} P (remove_stopped us s) x" for x
  proof (cases "x \<in> ?R \<union> ?W")
    case True
    then have "shape s x = None" using dm by blast
    then show ?thesis by (simp add: mid_entry_def sh)
  next
    case False
    then have "mid_entry {} P (remove_stopped us s) x = mid_entry {} P s x"
      unfolding mid_entry_def fits_def sh ls by (simp split: option.split)
    then show ?thesis using assms(3) by (simp add: wf_mid_def)
  qed
  moreover have "registered (remove_stopped us s)"
    using assms(3) unfolding wf_mid_def registered_shape registered_as_def sh o by blast
  moreover have "length (running (remove_stopped us s)) \<le> sc_max_num_running_reqs s"
    using assms(3) unfolding wf_mid_def ls by (blast intro: order_trans[OF length_filter_le])
  ultimately show "wf_mid {} {} P (remove_stopped us s)"
    using assms(3) sets unfolding wf_mid_def sh o by blast
qed

lemma requeue_fold:
  "\<forall>r \<in> set rids. live_request s r \<Longrightarrow>
     mset (waiting (fold requeue_one rids s)) = mset rids + mset (waiting s) \<and>
     running (fold requeue_one rids s) = running s \<and> skipped_waiting (fold requeue_one rids s) = skipped_waiting s \<and>
     get_request (fold requeue_one rids s) = get_request s \<and>
     power_smc_group_children (fold requeue_one rids s) = power_smc_group_children s \<and>
     sc_max_num_running_reqs (fold requeue_one rids s) = sc_max_num_running_reqs s"
proof (induction rids arbitrary: s)
  case (Cons r rids)
  have l: "live_request (s\<lparr>prev_step_scheduled_req_ids := x\<rparr>) r" for x using Cons.prems by (simp add: live_request_def)
  have one: "mset (waiting (requeue_one r s)) = add_mset r (mset (waiting s))" "running (requeue_one r s) = running s"
      "skipped_waiting (requeue_one r s) = skipped_waiting s" "get_request (requeue_one r s) = get_request s"
      "power_smc_group_children (requeue_one r s) = power_smc_group_children s"
      "sc_max_num_running_reqs (requeue_one r s) = sc_max_num_running_reqs s"
    using l by (simp_all add: requeue_one_def Let_def sq.mset_prepend)
  have "\<forall>x \<in> set rids. live_request (requeue_one r s) x" using Cons.prems one(4) by (simp add: live_request_def)
  from Cons.IH[OF this] one show ?case by simp
qed simp

lemma requeue_resampled_wf:
  assumes "wf_mid {} {} (set rids) s" "distinct rids"
  shows "sched_wf (requeue_resampled rids s)"
proof (cases "rids = []")
  case True
  then show ?thesis using assms by (simp add: requeue_resampled_def wf_mid_start)
next
  case False
  define s1 where "s1 = s\<lparr>running := remove_all (running s) (set rids),
                waiting := queue_remove_all s (set rids) (waiting s),
                skipped_waiting := queue_remove_all s (set rids) (skipped_waiting s)\<rparr>"
  define s2 where "s2 = fold requeue_one (rev rids) s1"
  have dq: "distinct (queued s)" and P: "set rids \<subseteq> dom (shape s)" using assms(1) by (simp_all add: wf_mid_def)
  have g1: "get_request s1 = get_request s" by (simp add: s1_def)
  have "live_request s1 r" if "r \<in> set rids" for r
    using that P wf_mid_request(5)[OF assms(1)] g1 by (fastforce simp: live_request_def dom_shape split: option.splits)
  then have f: "mset (waiting s2) = mset rids + mset (waiting s1)" "running s2 = running s1"
      "skipped_waiting s2 = skipped_waiting s1" "get_request s2 = get_request s1"
      "power_smc_group_children s2 = power_smc_group_children s1"
      "sc_max_num_running_reqs s2 = sc_max_num_running_reqs s1"
    using requeue_fold[of "rev rids" s1] unfolding s2_def by simp_all
  have ls: "running s1 = filter (\<lambda>x. x \<notin> set rids) (running s)" "waiting s1 = filter (\<lambda>x. x \<notin> set rids) (waiting s)"
      "skipped_waiting s1 = filter (\<lambda>x. x \<notin> set rids) (skipped_waiting s)"
    using dq by (simp_all add: s1_def remove_all_filter queued_def sq.remove_requests)
  have q: "mset (queued s2) = mset (rids @ filter (\<lambda>x. x \<notin> set rids) (queued s))"
    by (simp add: queued_def f(1-3) ls)
  have sets: "distinct (queued s2)" "set (queued s2) = set rids \<union> set (queued s)"
    using mset_eq_imp_distinct_iff[OF q] mset_eq_setD[OF q] dq assms(2) by auto
  have sh: "shape s2 = shape s" using f(4) g1 by (simp add: shape_def fun_eq_iff)
  have o: "power_smc_group_children s2 = power_smc_group_children s" "sc_max_num_running_reqs s2 = sc_max_num_running_reqs s"
    using f(5,6) by (simp_all add: s1_def)
  have "entry_ok s2 x" for x
  proof -
    have "mid_entry {} (set rids) s x" using assms(1) by (simp add: wf_mid_def)
    then show ?thesis
      unfolding mid_entry_def entry_ok_def sh by (auto simp: fits_def f(2) ls split: option.splits if_splits)
  qed
  moreover have "registered s2"
    using assms(1) unfolding wf_mid_def registered_shape registered_as_def sh o by blast
  moreover have "length (running s2) \<le> sc_max_num_running_reqs s2"
    using assms(1) unfolding wf_mid_def f(2) ls o by (blast intro: order_trans[OF length_filter_le])
  ultimately have "sched_wf s2"
    using assms(1) sets P unfolding sched_wf_shape wf_mid_def sh by blast
  then show ?thesis using False by (simp add: requeue_resampled_def s2_def s1_def)
qed

lemma update_from_output_wf:
  assumes "update_from_output g so mo s = Inr (outs, evs, s')" "sched_wf s"
    "set (map fst (num_scheduled_tokens so)) \<inter> set (skipped_waiting s) = {}"
  shows "sched_wf s'"
proof -
  let ?us = "\<lparr>us_outputs = [], us_stopped_running = [], us_stopped_preempted = [], us_parents = [],
                us_output_by_parent = []\<rparr>"
  note a = assms(1)[unfolded update_from_output_def]
  obtain x where x: "update_each g so mo (num_scheduled_tokens so) (?us, s) = Inr x" using a by (rule rbind_InrE) (rule that)
  obtain us s1 where xe: "x = (us, s1)" by (cases x)
  note a = a[unfolded x xe rbind_simps prod.case]
  obtain y where y: "resample_parents (us_parents us) (us_output_by_parent us) [] (us_outputs us) s1 = Inr y"
    using a by (rule rbind_InrE) (rule that)
  obtain rids outs1 s2 where ye: "y = (rids, outs1, s2)" by (cases y)
  define s3 where "s3 = requeue_resampled rids (remove_stopped us s2)"
  note a = a[unfolded y ye rbind_simps prod.case Let_def, folded s3_def]
  have "upd_ok ?us s" using assms(2) by (simp add: upd_ok_def wf_mid_start)
  note u = update_each_ok[OF x[unfolded xe] this assms(3)]
  have p: "wf_mid {} (set (us_stopped_running us) \<union> set (us_stopped_preempted us)) (set rids) s2 \<and>
      same_lists s1 s2 \<and> distinct rids"
    by (rule resample_parents_wf[OF y[unfolded ye]]) (use u in \<open>simp_all add: upd_ok_def\<close>)
  have "wf_mid {} {} (set rids) (remove_stopped us s2)" by (rule remove_stopped_wf(1)[of us s1]) (use u p in simp_all)
  then have "sched_wf s3" unfolding s3_def by (rule requeue_resampled_wf) (use p in simp)
  moreover have "same_view s3 s'" using a by (auto split: prod.splits)
  ultimately show ?thesis by (rule sched_wf_same_view)
qed

end
