(* ===== verification/Sched_Budget.thy ===== *)
theory Sched_Budget
  imports Sched_Queues
begin

text \<open>
  What a scheduling step hands out: the requests it schedules are running and distinct, every one of them
  gets at least one token, and the tokens add up to what is missing from the budget.  The window of
  multi-modal inputs is the one that a search of the whole list would find.
\<close>

section \<open>The window of multi-modal inputs\<close>

lemma bisect_left_correct:
  assumes "sorted (map key xs)" "hi \<le> length xs" "lo \<le> hi"
  shows "lo \<le> bisect_left xs x key lo hi \<and> bisect_left xs x key lo hi \<le> hi \<and>
    (\<forall>i. lo \<le> i \<and> i < bisect_left xs x key lo hi \<longrightarrow> key (xs ! i) < x) \<and>
    (\<forall>i. bisect_left xs x key lo hi \<le> i \<and> i < hi \<longrightarrow> x \<le> key (xs ! i))"
  using assms(2,3)
proof (induction "hi - lo" arbitrary: lo hi rule: less_induct)
  case less
  define mid where "mid = (lo + hi) div 2"
  note eq = bisect_left.simps[of xs x key lo hi, unfolded Let_def, folded mid_def]
  have mono: "key (xs ! i) \<le> key (xs ! j)" if "i \<le> j" "j < length xs" for i j
    using sorted_nth_mono[OF assms(1), of i j] that by simp
  show ?case
  proof (cases "lo < hi")
    case True
    then have m: "lo \<le> mid" "mid < hi" by (simp_all add: mid_def)
    show ?thesis
    proof (cases "key (xs ! mid) < x")
      case less_x: True
      have "key (xs ! i) < x" if "i \<le> mid" for i
        using mono[OF that] m(2) less.prems(1) less_x by (meson le_less_trans less_le_trans)
      moreover have "hi - Suc mid < hi - lo" "Suc mid \<le> hi" using m by simp_all
      note ih = less.hyps[OF this(1) less.prems(1) this(2)]
      have "lo \<le> bisect_left xs x key (Suc mid) hi" using ih m(1) by linarith
      ultimately show ?thesis using ih less_x True by (simp add: eq) (metis not_less_eq_eq)
    next
      case False
      have "x \<le> key (xs ! i)" if "mid \<le> i" "i < hi" for i
        using mono[OF that(1)] that(2) less.prems(1) False by (meson less_le_trans not_less order_trans)
      moreover have "mid - lo < hi - lo" "mid \<le> length xs" using m less.prems(1) by simp_all
      note ih = less.hyps[OF this m(1)]
      have "bisect_left xs x key lo mid \<le> hi" using ih m(2) by linarith
      ultimately show ?thesis using ih False True by (simp add: eq) (metis not_less)
    qed
  qed (use eq less.prems in simp)
qed

lemmas bisect_left_full = bisect_left_correct[where lo = 0 and hi = "length xs" for xs, OF _ order_refl le0]

lemma window_end:
  assumes "sorted (map mm_offset fs)" "get_mm_features_in_window fs a b = (lo, hi)"
  shows "hi \<le> length fs" "\<forall>i < hi. int (mm_offset (fs ! i)) < b"
proof -
  have "sorted (map (\<lambda>f. int (mm_offset f)) fs)" using assms(1) by (simp add: sorted_map_same sorted_wrt_map)
  from bisect_left_full[OF this, of b] assms(2) show "hi \<le> length fs" "\<forall>i < hi. int (mm_offset (fs ! i)) < b"
    by (auto simp: get_mm_features_in_window_def)
qed

section \<open>The tokens of a request\<close>

lemma encoder_inputs_loop_tokens:
  "encoder_inputs_loop s req computed shift is c = Inr c' \<Longrightarrow>
   \<forall>i \<in> set is. int (mm_offset (mm_features req ! i)) < int computed + N + int shift \<Longrightarrow> 0 \<le> N \<Longrightarrow> ec_new_tokens c \<le> N \<Longrightarrow>
     ec_new_tokens c' \<le> N"
proof (induction "is" arbitrary: c)
  case (Cons i "is")
  obtain f where f: "list_get (mm_features req) i = Inr f"
    using Cons.prems(1)[unfolded encoder_inputs_loop.simps] by (rule rbind_InrE) (rule that)
  have fi: "f = mm_features req ! i" using f by (auto simp: list_get_def split: if_splits)
  have pos: "int (mm_offset f) - (int computed + int shift) \<le> N" using Cons.prems(2) by (simp add: fi)
  note a = Cons.prems(1)[unfolded encoder_inputs_loop.simps f rbind_simps Let_def]
  have rest: "ec_new_tokens c' \<le> N" if "encoder_inputs_loop s req computed shift is d = Inr c'" "ec_new_tokens d \<le> N" for d
    using Cons.IH[OF that(1) _ Cons.prems(3) that(2)] Cons.prems(2) by simp
  show ?case
  proof (cases "sc_is_encoder_decoder s \<and> computed > 0 \<or> \<not> sc_is_encoder_decoder s \<and> mm_identifier f \<in> set (ec_hashes c)")
    case True
    then have "encoder_inputs_loop s req computed shift is c = Inr c'" using a by (auto simp: py_assert_eq_Inr split: if_splits)
    then show ?thesis using rest Cons.prems(4) by blast
  next
    case False
    then have n: "\<not> (sc_is_encoder_decoder s \<and> computed > 0)" "\<not> (\<not> sc_is_encoder_decoder s \<and> mm_identifier f \<in> set (ec_hashes c))"
      by blast+
    note a = a[unfolded if_not_P[OF n(1)] if_not_P[OF n(2)]]
    obtain x where x: "(if sc_is_encoder_decoder s then Inr (False, ec_cache c)
                      else enc_check_and_update req i (ec_cache c)) = Inr x" using a by (rule rbind_InrE) (rule that)
    obtain hit e1 where xe: "x = (hit, e1)" by (cases x)
    note a = a[unfolded x xe rbind_simps prod.case]
    show ?thesis
    proof (cases "hit \<or> sc_disable_chunked_mm_input s \<and> int computed < int (mm_offset f) \<and>
                       int computed + ec_new_tokens c < int (mm_offset f) + int (mm_length f)")
      case True
      then have "encoder_inputs_loop s req computed shift is (c\<lparr>ec_cache := e1\<rparr>) = Inr c' \<or>
          ec_new_tokens c' = max 0 (int (mm_offset f) - (int computed + int shift))"
        using a by (auto split: if_splits)
      then show ?thesis using rest[of "c\<lparr>ec_cache := e1\<rparr>"] Cons.prems(3,4) pos by auto
    next
      case False
      then have m: "\<not> hit" "\<not> (sc_disable_chunked_mm_input s \<and> int computed < int (mm_offset f) \<and>
                       int computed + ec_new_tokens c < int (mm_offset f) + int (mm_length f))" by blast+
      note a = a[unfolded if_not_P[OF m(1)] if_not_P[OF m(2)]]
      obtain y where y: "enc_can_allocate req i (ec_budget (c\<lparr>ec_cache := e1\<rparr>)) (ec_embeds (c\<lparr>ec_cache := e1\<rparr>)) e1 = Inr y"
        using a by (rule rbind_InrE) (rule that)
      obtain fits e2 where ye: "y = (fits, e2)" by (cases y)
      note a = a[unfolded y ye rbind_simps prod.case]
      show ?thesis
      proof (cases fits)
        case False
        then have "ec_new_tokens c' = (if int computed + int shift < int (mm_offset f)
            then int (mm_offset f) - (int computed + int shift) else 0)" using a by auto
        then show ?thesis using pos Cons.prems(3) by simp
      next
        case True
        then obtain z where "get_embeds_indices_in_range f (max 0 (int computed - int (mm_offset f)))
            (min (int (mm_length f)) (int computed + ec_new_tokens c - int (mm_offset f))) = Inr z"
          using a by (auto elim: rbind_InrE)
        then show ?thesis using a True rest Cons.prems(4) by (cases z) (auto split: if_splits)
      qed
    qed
  qed
qed simp

lemma encoder_inputs_for_tokens:
  assumes "encoder_inputs_for req computed n acc s = Inr (inputs, n', eb, s')" "sorted (map mm_offset (mm_features req))"
  shows "n' \<le> max 0 n"
proof (cases "n = 0 \<or> \<not> has_encoder_inputs req")
  case True
  then show ?thesis using assms(1) by (auto simp: encoder_inputs_for_def try_schedule_encoder_inputs_def split: if_splits)
next
  case False
  let ?sh = "if sc_use_eagle s then 1 else 0 :: nat"
  obtain lo hi where w: "get_mm_features_in_window (mm_features req) (int computed) (int computed + n + int ?sh) = (lo, hi)"
    by (cases "get_mm_features_in_window (mm_features req) (int computed) (int computed + n + int ?sh)")
  obtain c where c: "encoder_inputs_loop s req computed ?sh [(if sc_is_encoder_decoder s then 0 else lo)..<hi]
      \<lparr>ec_inputs = [], ec_new_tokens = n, ec_budget = sa_encoder_budget acc, ec_hashes = [], ec_embeds = 0,
       ec_cache = sc_enc s\<rparr> = Inr c" "n' = ec_new_tokens c"
    using assms(1) False w by (auto simp: encoder_inputs_for_def try_schedule_encoder_inputs_def elim!: rbind_InrE)
  have "\<forall>i < hi. int (mm_offset (mm_features req ! i)) < int computed + max 0 n + int ?sh"
    using window_end(2)[OF assms(2) w] by (auto intro: less_le_trans)
  then show ?thesis unfolding c(2) by (intro encoder_inputs_loop_tokens[OF c(1)]) auto
qed

lemma div_times_le: "(n :: int) div int b * int b \<le> max 0 n"
proof (cases "b = 0")
  case False
  have "n div int b * int b = n - n mod int b" by (simp add: minus_mod_eq_div_mult)
  then show ?thesis using False pos_mod_sign[of "int b" n] by linarith
qed simp

lemma align_mamba_tokens: "align_mamba req n l s \<le> max 0 n"
proof -
  have "mamba_block_aligned_split req n l 0 s \<in> {n div int (sc_cache_block_size s) * int (sc_cache_block_size s), n} \<or>
      mamba_block_aligned_split req n l 0 s < n"
    unfolding mamba_block_aligned_split_def Let_def by (auto split: if_splits)
  then show ?thesis using div_times_le[of n "sc_cache_block_size s"] by (auto simp: align_mamba_def)
qed

lemma running_tokens_budget:
  assumes "running_tokens req acc s = Inr (inputs, n, eb, s')" "sorted (map mm_offset (mm_features req))" "0 < n"
  shows "n \<le> sa_budget acc"
proof -
  obtain n0 s1 where e: "encoder_inputs_for req (num_computed_tokens req) (running_new_tokens s req (sa_budget acc)) acc s =
      Inr (inputs, n0, eb, s1)" "n = align_mamba req n0 0 s1"
    using assms(1) by (auto simp: running_tokens_def elim!: rbind_InrE)
  have "running_new_tokens s req (sa_budget acc) \<le> sa_budget acc" by (simp add: running_new_tokens_def Let_def)
  then show ?thesis
    using encoder_inputs_for_tokens[OF e(1) assms(2)] align_mamba_tokens[of req n0 0 s1] assms(3) e(2) by linarith
qed

lemma waiting_tokens_budget:
  assumes "waiting_tokens req l c acc s = Inr (Some (inputs, n, eb), s')" "sorted (map mm_offset (mm_features req))" "0 \<le> n"
  shows "0 < n \<and> n \<le> sa_budget acc"
proof -
  define n1 where "n1 = min (cap_long_prefill s (int (num_tokens req) - int c)) (sa_budget acc)"
  obtain n2 s1 where e: "encoder_inputs_for req c n1 acc s = Inr (inputs, n2, eb, s1)" "n = align_mamba req n2 l s1" "n \<noteq> 0" "0 < n1"
    using assms(1) by (auto simp: waiting_tokens_def Let_def py_assert_eq_Inr n1_def elim!: rbind_InrE split: if_splits)
  have "n1 \<le> sa_budget acc" by (simp add: n1_def)
  then show ?thesis
    using encoder_inputs_for_tokens[OF e(1) assms(2)] align_mamba_tokens[of req n2 l s1] assms(3) e(2-4) by linarith
qed

section \<open>What a step has handed out\<close>

definition scheduled_ids :: "step_acc \<Rightarrow> string list" where
  "scheduled_ids acc = sa_new acc @ sa_resumed acc @ sa_running acc"

definition handed_out :: "step_acc \<Rightarrow> nat" where
  "handed_out acc = sum_list (map snd (sa_num_scheduled acc))"

definition acc_ok :: "nat \<Rightarrow> step_acc \<Rightarrow> bool" where
  "acc_ok M acc \<longleftrightarrow>
     distinct (scheduled_ids acc) \<and> distinct (map fst (sa_num_scheduled acc)) \<and>
     fst ` set (sa_num_scheduled acc) = set (scheduled_ids acc) \<and> (\<forall>n \<in> snd ` set (sa_num_scheduled acc). 0 < n) \<and>
     int (handed_out acc) + sa_budget acc = int M \<and> 0 \<le> sa_budget acc"

lemma acc_ok_cong:
  "acc_ok M acc \<Longrightarrow> scheduled_ids acc' = scheduled_ids acc \<Longrightarrow> sa_num_scheduled acc' = sa_num_scheduled acc \<Longrightarrow>
     sa_budget acc' = sa_budget acc \<Longrightarrow> acc_ok M acc'"
  by (simp add: acc_ok_def handed_out_def)

lemma acc_ok_take:
  assumes "acc_ok M acc" "rid \<notin> set (scheduled_ids acc)" "0 < n" "int n \<le> sa_budget acc"
    "mset (scheduled_ids acc') = add_mset rid (mset (scheduled_ids acc))"
    "sa_num_scheduled acc' = dict_set rid n (sa_num_scheduled acc)" "sa_budget acc' = sa_budget acc - int n"
  shows "acc_ok M acc'"
proof -
  have k: "rid \<notin> fst ` set (sa_num_scheduled acc)" using assms(1,2) by (simp add: acc_ok_def)
  then have d: "sa_num_scheduled acc' = sa_num_scheduled acc @ [(rid, n)]"
    using assms(6) by (simp add: dict_set_def map_of_eq_None_iff)
  have "distinct (scheduled_ids acc')" "set (scheduled_ids acc') = insert rid (set (scheduled_ids acc))"
    using assms(1,2,5) mset_eq_imp_distinct_iff[of "scheduled_ids acc'" "rid # scheduled_ids acc"]
      mset_eq_setD[of "scheduled_ids acc'" "rid # scheduled_ids acc"] by (simp_all add: acc_ok_def)
  then show ?thesis using assms(1-4,7) k d by (auto simp: acc_ok_def handed_out_def)
qed

lemma sum_dict_del:
  "distinct (map fst d) \<Longrightarrow> map_of d k = Some (n :: nat) \<Longrightarrow> sum_list (map snd (dict_del k d)) + n = sum_list (map snd d)"
proof (induction d)
  case (Cons e d)
  obtain a b where e: "e = (a, b)" by (cases e)
  show ?case
  proof (cases "a = k")
    case True
    then have "k \<notin> fst ` set d" "b = n" using Cons.prems e by auto
    then have "dict_del k (e # d) = d" using e True by (force simp: dict_del_def filter_id_conv)
    then show ?thesis using e \<open>b = n\<close> by simp
  next
    case False
    then have "sum_list (map snd (dict_del k d)) + n = sum_list (map snd d)" using Cons.IH Cons.prems e by simp
    moreover have "dict_del k (e # d) = e # dict_del k d" using e False by (simp add: dict_del_def)
    ultimately show ?thesis using e by simp
  qed
qed simp

lemma keys_dict_del: "fst ` set (dict_del k d) = fst ` set d - {k}"
  by (force simp: dict_del_def)

lemma acc_ok_unschedule:
  assumes "unschedule req acc = Inr acc'" "acc_ok M acc" "request_id req \<in> set (sa_running acc)"
  shows "acc_ok M acc'" "sa_running acc' = remove1 (request_id req) (sa_running acc)"
    "sa_new acc' = sa_new acc" "sa_resumed acc' = sa_resumed acc"
proof -
  let ?rid = "request_id req"
  obtain n where n: "map_of (sa_num_scheduled acc) ?rid = Some n"
    using assms(1) by (auto simp: unschedule_def Let_def split: option.splits)
  note a = assms(1)[unfolded unschedule_def Let_def n option.case]
  obtain k where k: "sum_embeds req (case map_of (sa_encoder_inputs acc) ?rid of None \<Rightarrow> [] | Some l \<Rightarrow> l) = Inr k"
    using a by (rule rbind_InrE) (rule that)
  note a = a[unfolded k rbind_simps]
  have m: "map_of (sa_new_blocks acc) ?rid \<noteq> None" using a by (auto split: if_splits)
  have e: "acc' = acc\<lparr>sa_running := remove1 ?rid (sa_running acc), sa_budget := sa_budget acc + int n,
                             sa_num_scheduled := dict_del ?rid (sa_num_scheduled acc),
                             sa_new_blocks := dict_del ?rid (sa_new_blocks acc),
                             sa_spec := dict_del ?rid (sa_spec acc),
                             sa_encoder_inputs := dict_del ?rid (sa_encoder_inputs acc),
                             sa_encoder_budget := sa_encoder_budget acc + int k\<rparr>"
    using a[unfolded if_not_P[OF m] sum.inject] by (rule sym)
  show "sa_running acc' = remove1 ?rid (sa_running acc)" "sa_new acc' = sa_new acc" "sa_resumed acc' = sa_resumed acc"
    by (simp_all add: e)
  have "handed_out acc' + n = handed_out acc"
    using sum_dict_del[OF _ n] assms(2) by (simp add: acc_ok_def handed_out_def e)
  moreover have "distinct (map fst (sa_num_scheduled acc'))" "fst ` set (sa_num_scheduled acc') = fst ` set (sa_num_scheduled acc) - {?rid}"
      "set (sa_num_scheduled acc') \<subseteq> set (sa_num_scheduled acc)"
    using assms(2) by (simp_all add: acc_ok_def e keys_dict_del distinct_dict_del) (auto simp: dict_del_def)
  moreover have "distinct (scheduled_ids acc')" "set (scheduled_ids acc') = set (scheduled_ids acc) - {?rid}"
    using assms(2,3) by (auto simp: acc_ok_def scheduled_ids_def e)
  moreover have "sa_budget acc' = sa_budget acc + int n" by (simp add: e)
  ultimately show "acc_ok M acc'" using assms(2) by (auto simp: acc_ok_def)
qed

section \<open>The running requests\<close>

text \<open>
  While blocks are sought for a running request, the requests scheduled before it stand before it in the
  running list, at an index that is never greater than the one of the loop.
\<close>

definition placed :: "nat \<Rightarrow> string \<Rightarrow> nat \<Rightarrow> step_acc \<Rightarrow> scheduler \<Rightarrow> bool" where
  "placed M rid idx acc s \<longleftrightarrow>
     acc_ok M acc \<and> sa_new acc = [] \<and> sa_resumed acc = [] \<and> rid \<notin> set (sa_running acc) \<and>
     (\<exists>xs ys. running s = xs @ rid # ys \<and> length xs \<le> idx \<and> set (sa_running acc) \<subseteq> set xs)"

lemma preempt_request_limit: "preempt_request req s = Inr s' \<Longrightarrow> sc_max_num_scheduled_tokens s' = sc_max_num_scheduled_tokens s"
  by (auto simp: preempt_request_def py_assert_eq_Inr with_kv_Inr with_enc_Inr Let_def put_request_def elim!: rbind_InrE)

lemma placed_victim:
  assumes "pick_victim idx acc s = Inr (v, idx', acc', s')" "placed M rid idx acc s" "sched_wf s"
  shows "v \<noteq> rid \<Longrightarrow> placed M rid idx' acc' s'" "v = rid \<Longrightarrow> acc' = acc \<and> set (sa_running acc) \<subseteq> set (running s')"
    "sc_max_num_scheduled_tokens s' = sc_max_num_scheduled_tokens s"
proof -
  obtain xs ys where sp: "running s = xs @ rid # ys" "length xs \<le> idx" "set (sa_running acc) \<subseteq> set xs"
    and ok: "acc_ok M acc" "sa_new acc = []" "sa_resumed acc = []" "rid \<notin> set (sa_running acc)"
    using assms(2) unfolding placed_def by blast
  have d: "distinct (xs @ rid # ys)" using sched_wf_distinct(2)[OF assms(3)] sp(1) by simp
  show "sc_max_num_scheduled_tokens s' = sc_max_num_scheduled_tokens s"
    using pick_victim_view(3)[OF assms(1)] by auto
  have goal: "(v \<noteq> rid \<longrightarrow> placed M rid idx' acc' s') \<and> (v = rid \<longrightarrow> acc' = acc \<and> set (sa_running acc) \<subseteq> set (running s'))"
  proof (cases "sc_policy s")
    case FCFS
    then have e: "v = last (running s)" "idx' = idx" "acc' = acc" "running s' = butlast (running s)"
      using assms(1) by (auto simp: pick_victim_def split: if_splits)
    show ?thesis
    proof (cases "ys = []")
      case True
      then show ?thesis using e sp by simp
    next
      case False
      then have "v \<noteq> rid" "running s' = xs @ rid # butlast ys" using e sp(1) d by (auto simp: butlast_append)
      then show ?thesis using sp ok e unfolding placed_def by blast
    qed
  next
    case PRIORITY
    have v: "v \<in> set (running s)" "running s' = remove1 v (running s)"
      using pick_victim_view(1)[OF assms(1)] assms(1) PRIORITY
      by (auto simp: pick_victim_def Let_def elim!: rbind_InrE split: if_splits option.splits)
    show ?thesis
    proof (cases "v \<in> set (sa_running acc)")
      case True
      then obtain req where req: "get_request s v = Some req" "unschedule req acc = Inr acc'" "idx' = idx - 1"
        using assms(1) PRIORITY by (auto simp: pick_victim_def Let_def elim!: rbind_InrE split: if_splits option.splits)
      have id: "request_id req = v" using sched_wf_request(1)[OF assms(3) req(1)] .
      have u: "acc_ok M acc'" "sa_running acc' = remove1 v (sa_running acc)" "sa_new acc' = []" "sa_resumed acc' = []"
        using acc_ok_unschedule[OF req(2) ok(1)] id True ok(2,3) by simp_all
      have vx: "v \<in> set xs" "v \<noteq> rid" using True sp(3) ok(4) by auto
      have "set (sa_running acc') = set (sa_running acc) - {v}" "rid \<notin> set (sa_running acc')"
        using u(2) ok(1,4) by (auto simp: acc_ok_def scheduled_ids_def dest: notin_set_remove1)
      moreover have "running s' = remove1 v xs @ rid # ys" "length (remove1 v xs) \<le> idx'"
        using v(2) sp(1,2) vx req(3) by (simp_all add: remove1_append length_remove1)
      moreover have "set (remove1 v xs) = set xs - {v}" using d by simp
      ultimately show ?thesis using u vx sp(3) unfolding placed_def by blast
    next
      case False
      then have e: "idx' = idx" "acc' = acc"
        using assms(1) PRIORITY
        by (auto simp: pick_victim_def Let_def elim!: rbind_InrE split: if_splits option.splits)
      show ?thesis
      proof (cases "v \<in> set xs")
        case True
        then have "running s' = remove1 v xs @ rid # ys" "length (remove1 v xs) \<le> idx" "set (remove1 v xs) = set xs - {v}"
          using v(2) sp(1,2) d by (simp_all add: remove1_append length_remove1)
        moreover have "v \<noteq> rid" using True d by auto
        ultimately show ?thesis using e ok sp(3) False unfolding placed_def by blast
      next
        case nx: False
        show ?thesis
        proof (cases "v = rid")
          case True
          then show ?thesis using v(2) sp nx e by (auto simp: remove1_append)
        next
          case ne: False
          then have "running s' = xs @ rid # remove1 v ys" using v(2) sp(1) nx by (simp add: remove1_append)
          then show ?thesis using e ok sp(2,3) ne unfolding placed_def by blast
        qed
      qed
    qed
  qed
  then show "v \<noteq> rid \<Longrightarrow> placed M rid idx' acc' s'" "v = rid \<Longrightarrow> acc' = acc \<and> set (sa_running acc) \<subseteq> set (running s')"
    by blast+
qed

lemma placed_cong:
  "placed M rid idx acc s \<Longrightarrow> running s' = running s \<Longrightarrow> sa_new acc' = sa_new acc \<Longrightarrow> sa_resumed acc' = sa_resumed acc \<Longrightarrow>
   sa_running acc' = sa_running acc \<Longrightarrow> sa_num_scheduled acc' = sa_num_scheduled acc \<Longrightarrow> sa_budget acc' = sa_budget acc \<Longrightarrow>
     placed M rid idx acc' s'"
  unfolding placed_def by (simp add: acc_ok_def handed_out_def scheduled_ids_def)

text \<open>The requests scheduled so far, when the loop is at an index.\<close>

definition run_ok :: "nat \<Rightarrow> nat \<Rightarrow> step_acc \<Rightarrow> scheduler \<Rightarrow> bool" where
  "run_ok M idx acc s \<longleftrightarrow>
     acc_ok M acc \<and> sa_new acc = [] \<and> sa_resumed acc = [] \<and> set (sa_running acc) \<subseteq> set (take idx (running s))"

lemma run_ok_subset: "run_ok M idx acc s \<Longrightarrow> set (scheduled_ids acc) \<subseteq> set (running s)"
  using set_take_subset[of idx "running s"] by (auto simp: run_ok_def scheduled_ids_def)

lemma pick_victim_budget: "pick_victim idx acc s = Inr (v, idx', acc', s') \<Longrightarrow> sa_budget acc \<le> sa_budget acc'"
  by (auto simp: pick_victim_def unschedule_def Let_def elim!: rbind_InrE
      split: scheduling_policy.splits if_splits option.splits)

lemma alloc_or_preempt_placed:
  "alloc_or_preempt rid n idx acc s = Inr (b, idx', acc', s') \<Longrightarrow> placed M rid idx acc s \<Longrightarrow> sched_wf s \<Longrightarrow>
     sc_max_num_scheduled_tokens s' = sc_max_num_scheduled_tokens s \<and> sa_budget acc \<le> sa_budget acc' \<and>
     (if b = None then run_ok M (length (running s')) acc' s' else placed M rid idx' acc' s')"
proof (induction "length (running s)" arbitrary: idx acc s rule: less_induct)
  case less
  from less.prems(1) show ?case
  proof (cases rule: alloc_or_preempt_cases)
    case (fits req blks km)
    then show ?thesis using less.prems placed_cong[OF less.prems(2), of s' acc'] by simp
  next
    case (victim req km v idx1 acc1 s1 vreq s2)
    let ?s = "s\<lparr>sc_kv := km\<rparr>" and ?acc2 = "acc1\<lparr>sa_preempted := sa_preempted acc1 @ [v]\<rparr>"
    have wf0: "sched_wf ?s" using sched_wf_same_view[OF less.prems(3)] by simp
    have p0: "placed M rid idx acc ?s" by (rule placed_cong[OF less.prems(2)]) simp_all
    note pv = placed_victim[OF victim(3) p0 wf0]
    note run = preempt_request_running[OF victim(5)]
    have lim: "sc_max_num_scheduled_tokens s2 = sc_max_num_scheduled_tokens s"
      using pv(3) preempt_request_limit[OF victim(5)] by simp
    have ln: "length (running s2) < length (running s)"
      using pick_victim_running[OF victim(3)] run by simp
    have bud: "sa_budget acc \<le> sa_budget acc1" by (rule pick_victim_budget[OF victim(3)])
    from victim(6) show ?thesis
    proof (elim disjE conjE)
      assume e: "v = rid" "b = None" "acc' = ?acc2" "s' = s2"
      have "acc1 = acc" "set (sa_running acc) \<subseteq> set (running s')" using pv(2)[OF e(1)] run e(4) by simp_all
      moreover have "acc_ok M acc" "sa_new acc = []" "sa_resumed acc = []" using p0 by (simp_all add: placed_def)
      ultimately have "run_ok M (length (running s')) acc' s'"
        using e(3) by (simp add: run_ok_def acc_ok_def handed_out_def scheduled_ids_def)
      then show ?thesis using e(2,3,4) lim \<open>acc1 = acc\<close> by simp
    next
      assume ne: "v \<noteq> rid" and rec: "alloc_or_preempt rid n idx1 ?acc2 s2 = Inr (b, idx', acc', s')"
      have "placed M rid idx1 ?acc2 s2" by (rule placed_cong[OF pv(1)[OF ne]]) (simp_all add: run)
      from less.hyps[OF ln rec this preempt_victim_wf(1)[OF wf0 victim(3-5)]] lim bud show ?thesis by simp
    qed
  qed
qed

lemma schedule_encoder_acc:
  assumes "schedule_encoder_inputs req inputs eb (acc, s) = Inr (acc', s')"
  shows "scheduled_ids acc' = scheduled_ids acc" "sa_new acc' = sa_new acc" "sa_resumed acc' = sa_resumed acc"
    "sa_num_scheduled acc' = sa_num_scheduled acc" "sa_budget acc' = sa_budget acc" "sa_running acc' = sa_running acc"
    "sc_max_num_scheduled_tokens s' = sc_max_num_scheduled_tokens s"
proof -
  have al: "allocate_encoder_inputs req is t = Inr t' \<Longrightarrow> sc_max_num_scheduled_tokens t' = sc_max_num_scheduled_tokens t" for "is" t t'
    by (induction "is" arbitrary: t) (auto simp: with_enc_Inr elim!: rbind_InrE)
  show "scheduled_ids acc' = scheduled_ids acc" "sa_new acc' = sa_new acc" "sa_resumed acc' = sa_resumed acc"
    "sa_num_scheduled acc' = sa_num_scheduled acc" "sa_budget acc' = sa_budget acc" "sa_running acc' = sa_running acc"
    "sc_max_num_scheduled_tokens s' = sc_max_num_scheduled_tokens s"
    using assms al by (auto simp: schedule_encoder_inputs_def scheduled_ids_def elim!: rbind_InrE split: if_splits)
qed

lemma take_spec_acc:
  assumes "take_spec_tokens req n (acc, s) = (acc', s')"
  shows "scheduled_ids acc' = scheduled_ids acc" "sa_new acc' = sa_new acc" "sa_resumed acc' = sa_resumed acc"
    "sa_num_scheduled acc' = sa_num_scheduled acc" "sa_budget acc' = sa_budget acc" "sa_running acc' = sa_running acc"
    "sc_max_num_scheduled_tokens s' = sc_max_num_scheduled_tokens s"
  using assms by (auto simp: take_spec_tokens_def scheduled_ids_def Let_def put_request_def split: if_splits)

lemma schedule_running_ok:
  assumes sr: "schedule_running idx acc s = Inr (nxt, acc', s')" and ok: "run_ok M idx acc s" and wf: "sched_wf s"
    and idx: "idx < length (running s)"
  shows "sc_max_num_scheduled_tokens s' = sc_max_num_scheduled_tokens s \<and>
    run_ok M (case nxt of None \<Rightarrow> length (running s') | Some i \<Rightarrow> i) acc' s'"
proof -
  let ?rid = "running s ! idx"
  have d: "distinct (running s)" using sched_wf_distinct(2)[OF wf] .
  have sp: "running s = take idx (running s) @ ?rid # drop (Suc idx) (running s)" using idx by (rule id_take_nth_drop)
  then have nt: "?rid \<notin> set (take idx (running s))" using d by (metis distinct.simps(2) distinct_append disjoint_iff list.set_intros(1))
  have p: "placed M ?rid idx acc (s\<lparr>sc_enc := e\<rparr>)" for e
  proof -
    have "\<exists>xs ys. running (s\<lparr>sc_enc := e\<rparr>) = xs @ ?rid # ys \<and> length xs \<le> idx \<and> set (sa_running acc) \<subseteq> set xs"
      by (rule exI[of _ "take idx (running s)"], rule exI[of _ "drop (Suc idx) (running s)"])
         (use ok sp in \<open>simp add: run_ok_def\<close>)
    then show ?thesis unfolding placed_def using ok nt by (auto simp: run_ok_def)
  qed
  have wfe: "sched_wf (s\<lparr>sc_enc := e\<rparr>)" for e using sched_wf_same_view[OF wf] by simp
  from sr show ?thesis
  proof (cases rule: schedule_running_cases)
    case (skip e)
    have "set (take idx (running s)) \<subseteq> set (take (Suc idx) (running s))" by (simp add: set_take_subset_set_take)
    then show ?thesis using skip ok by (auto simp: run_ok_def)
  next
    case (stop req inputs n eb e idx1)
    then show ?thesis using alloc_or_preempt_placed[OF stop(5) p wfe] by simp
  next
    case (go req inputs n eb e blks idx1 acc1 s2)
    have a: "sc_max_num_scheduled_tokens s2 = sc_max_num_scheduled_tokens s" "sa_budget acc \<le> sa_budget acc1"
        "placed M ?rid idx1 acc1 s2"
      using alloc_or_preempt_placed[OF go(5) p wfe] by simp_all
    have n: "n \<le> sa_budget acc"
      by (rule running_tokens_budget[OF go(3) sched_wf_request(6)[OF wf go(1)] go(4)])
    define acc2 where "acc2 = take_budget ?rid (nat n) blks (acc1\<lparr>sa_running := sa_running acc1 @ [?rid]\<rparr>)"
    obtain acc3 s3 where t: "take_spec_tokens req (nat n) (acc2, s2) = (acc3, s3)" by (meson surj_pair)
    note g = go(6)[folded acc2_def, unfolded t]
    have run: "running s' = running s2"
      using schedule_encoder_inputs_running[OF g] take_spec_tokens_running[of req "nat n" "(acc2, s2)"] t by simp
    have "acc_ok M acc2"
      by (rule acc_ok_take[of M acc1 ?rid "nat n"])
         (use a(2,3) n go(4) in \<open>auto simp: placed_def scheduled_ids_def acc2_def take_budget_def\<close>)
    then have "acc_ok M acc'"
      by (rule acc_ok_cong) (simp_all add: schedule_encoder_acc[OF g] take_spec_acc[OF t])
    moreover obtain xs ys where xy: "running s2 = xs @ ?rid # ys" "length xs \<le> idx1" "set (sa_running acc1) \<subseteq> set xs"
      "sa_new acc1 = []" "sa_resumed acc1 = []"
      using a(3) unfolding placed_def by blast
    moreover have "set (xs @ [?rid]) \<subseteq> set (take (Suc idx1) (running s2))"
    proof -
      have "xs @ [?rid] = take (Suc (length xs)) (running s2)" using xy(1) by simp
      then show ?thesis using xy(2) set_take_subset_set_take[of "Suc (length xs)" "Suc idx1" "running s2"] by simp
    qed
    ultimately show ?thesis
      using go(7) a(1) run by (auto simp: run_ok_def schedule_encoder_acc[OF g] take_spec_acc[OF t] acc2_def take_budget_def)
  qed
qed

lemma running_loop_ok:
  "running_loop idx acc s = Inr (acc', s') \<Longrightarrow> run_ok M idx acc s \<Longrightarrow> sched_wf s \<Longrightarrow>
     sc_max_num_scheduled_tokens s' = sc_max_num_scheduled_tokens s \<and> acc_ok M acc' \<and>
     set (scheduled_ids acc') \<subseteq> set (running s')"
proof (induction "length (running s) - idx" arbitrary: idx acc s rule: less_induct)
  case less
  note a = less.prems(1)[unfolded running_loop.simps[of idx acc s]]
  show ?case
  proof (cases "idx < length (running s) \<and> sa_budget acc > 0")
    case True
    obtain nxt acc1 s1 where sr: "schedule_running idx acc s = Inr (nxt, acc1, s1)"
      using a True by (auto simp: rbind_eq_Inr)
    note o = schedule_running_ok[OF sr less.prems(2,3)] and w = schedule_running_wf[OF sr less.prems(3)]
    show ?thesis
    proof (cases nxt)
      case None
      then show ?thesis using a True sr o by (auto simp: run_ok_def scheduled_ids_def)
    next
      case (Some idx1)
      have "running_loop idx1 acc1 s1 = Inr (acc', s')" using a True sr Some by simp
      from less.hyps[OF _ this] schedule_running_running[of idx acc s idx1 acc1 s1] sr Some True o w show ?thesis by simp
    qed
  next
    case False
    then show ?thesis using a less.prems(2) run_ok_subset[OF less.prems(2)] by (auto simp: run_ok_def)
  qed
qed

section \<open>The waiting requests\<close>

lemma admit_waiting_ok:
  assumes adm: "admit_waiting w rid req c n inputs eb wa s = Inr (wa', s')" and ok: "acc_ok M (wa_acc wa)"
    and sub: "set (scheduled_ids (wa_acc wa)) \<subseteq> set (running s)" "rid \<notin> set (running s)"
    and n: "0 < n" "int n \<le> sa_budget (wa_acc wa)"
  shows "acc_ok M (wa_acc wa')" "set (scheduled_ids (wa_acc wa')) \<subseteq> insert rid (set (running s))"
proof -
  obtain acc1 s4 acc3 loras where
    acc1: "status req = WAITING \<and> acc1 = (wa_acc wa)\<lparr>sa_new := sa_new (wa_acc wa) @ [rid]\<rparr> \<or>
     status req = PREEMPTED \<and> acc1 = (wa_acc wa)\<lparr>sa_resumed := sa_resumed (wa_acc wa) @ [rid]\<rparr>"
    and en: "schedule_encoder_inputs (req\<lparr>status := RUNNING, num_computed_tokens := c\<rparr>) inputs eb
       (take_budget rid n (km_get_blocks rid (sc_kv s)) acc1, s4) = Inr (acc3, s')"
    and wa': "wa' = wa\<lparr>wa_acc := acc3, wa_loras := loras\<rparr>"
    using adm by (rule admit_waiting_cases)
  let ?acc2 = "take_budget rid n (km_get_blocks rid (sc_kv s)) acc1"
  have m: "mset (scheduled_ids ?acc2) = add_mset rid (mset (scheduled_ids (wa_acc wa)))"
      "sa_num_scheduled ?acc2 = dict_set rid n (sa_num_scheduled (wa_acc wa))"
      "sa_budget ?acc2 = sa_budget (wa_acc wa) - int n"
    using acc1 by (auto simp: take_budget_def scheduled_ids_def)
  have "acc_ok M ?acc2" by (rule acc_ok_take[OF ok _ n m]) (use sub in blast)
  then show "acc_ok M (wa_acc wa')"
    unfolding wa' by (rule acc_ok_cong) (simp_all add: schedule_encoder_acc[OF en])
  have "set (scheduled_ids ?acc2) = insert rid (set (scheduled_ids (wa_acc wa)))"
    using mset_eq_setD[of "scheduled_ids ?acc2" "rid # scheduled_ids (wa_acc wa)"] m(1) by simp
  then show "set (scheduled_ids (wa_acc wa')) \<subseteq> insert rid (set (running s))"
    using sub(1) by (auto simp: wa' schedule_encoder_acc[OF en])
qed

lemma admit_running:
  "admit_waiting w rid req c n inputs eb wa s = Inr (wa', s') \<Longrightarrow> running s' = running s @ [rid]"
  by (rule admit_waiting_cases, assumption)
     (auto dest!: same_view_schedule_encoder simp: same_view_def same_lists_def)

lemma admit_waiting_limit:
  "admit_waiting w rid req c n inputs eb wa s = Inr (wa', s') \<Longrightarrow>
     sc_max_num_scheduled_tokens s' = sc_max_num_scheduled_tokens s"
  by (auto simp: admit_waiting_def Let_def pop_selected_def put_request_def dest!: schedule_encoder_acc(7)
      elim!: rbind_InrE split: if_splits)

lemma schedule_waiting_ok:
  assumes sw: "schedule_waiting g wa s = Inr (b, wa', s')" and wf: "sched_wf (deferred (wa_skipped wa) s)"
    and room: "length (running s) < sc_max_num_running_reqs s" and ok: "acc_ok M (wa_acc wa)"
    and sub: "set (scheduled_ids (wa_acc wa)) \<subseteq> set (running s)"
  shows "sc_max_num_scheduled_tokens s' = sc_max_num_scheduled_tokens s \<and> acc_ok M (wa_acc wa') \<and>
    set (scheduled_ids (wa_acc wa')) \<subseteq> set (running s')"
proof -
  have lim: "sc_max_num_scheduled_tokens s1 = sc_max_num_scheduled_tokens s" if "promote_waiting g req0 s = Inr (r, s1)" for req0 r s1
    using promote_waiting_frame[OF that] by (auto simp: put_request_def)
  from sw show ?thesis
  proof (cases rule: schedule_waiting_cases)
    case (skip w req0 ready s1 req)
    have "same_lists s s1"
      using promote_waiting_wf[OF skip(3) wf skip(2)] select_head_queued[OF skip(1) wf] by simp
    then show ?thesis using lim[OF skip(3)] skip(6,7) ok sub by (simp add: pop_selected_def same_lists_def)
  next
    case (admissible w req0 s1 req)
    let ?rid = "selected_head w s"
    have pr: "sched_wf (deferred (wa_skipped wa) s1)" "same_lists s s1"
      using promote_waiting_wf[OF admissible(3) wf admissible(2)] select_head_queued[OF admissible(1) wf] by simp_all
    have run: "running s1 = running s" using pr(2) by (simp add: same_lists_def)
    have so: "sorted (map mm_offset (mm_features req))"
      using sched_wf_request(6)[OF pr(1), of ?rid req] admissible(4) by simp
    note l1 = lim[OF admissible(3)]
    from admissible(6) show ?thesis
    proof (cases rule: schedule_admissible_cases)
      case (no_tokens blks l c km e)
      then show ?thesis using l1 run ok sub by simp
    next
      case (place blks l c km e inputs n eb)
      have n: "0 < n \<and> n \<le> sa_budget (wa_acc wa)" by (rule waiting_tokens_budget[OF place(2) so place(3)])
      from place(4) show ?thesis
      proof (cases rule: place_waiting_cases)
        case (no_blocks enc_toks km' e')
        then show ?thesis using l1 run ok sub by simp
      next
        case (admit enc_toks new km')
        let ?s = "s1\<lparr>sc_kv := km, sc_enc := e, sc_kv := km'\<rparr>"
        have "set (scheduled_ids (wa_acc wa)) \<subseteq> set (running ?s)" "?rid \<notin> set (running ?s)" "0 < nat n"
            "int (nat n) \<le> sa_budget (wa_acc wa)"
          using sub run n select_head_queued(2)[OF admissible(1) wf] by simp_all
        note a = admit_waiting_ok[OF admit(2) ok this]
        have "running s' = running s @ [?rid]"
          using admit_running[OF admit(2)] run by simp
        then show ?thesis using a admit_waiting_limit[OF admit(2)] l1 run by auto
      qed
    qed
  qed
qed

lemma waiting_loop_ok:
  "waiting_loop g wa s = Inr (wa', s') \<Longrightarrow> sched_wf (deferred (wa_skipped wa) s) \<Longrightarrow> acc_ok M (wa_acc wa) \<Longrightarrow>
   set (scheduled_ids (wa_acc wa)) \<subseteq> set (running s) \<Longrightarrow>
     sc_max_num_scheduled_tokens s' = sc_max_num_scheduled_tokens s \<and> acc_ok M (wa_acc wa') \<and>
     set (scheduled_ids (wa_acc wa')) \<subseteq> set (running s')"
proof (induction "total_waiting s" arbitrary: wa s rule: less_induct)
  case less
  note a = less.prems(1)[unfolded waiting_loop.simps[of g wa s]]
  show ?case
  proof (cases "(waiting s \<noteq> [] \<or> skipped_waiting s \<noteq> []) \<and> sa_budget (wa_acc wa) > 0 \<and>
         length (running s) \<noteq> sc_max_num_running_reqs s")
    case True
    note a = a[unfolded if_P[OF True]]
    obtain x where x: "schedule_waiting g wa s = Inr x" using a by (rule rbind_InrE) (rule that)
    obtain go_on wa1 s1 where xe: "x = (go_on, wa1, s1)" by (cases x)
    note sw = x[unfolded xe] and a = a[unfolded x xe rbind_simps prod.case]
    have room: "length (running s) < sc_max_num_running_reqs s"
      using sched_wf_parts(2)[OF less.prems(2)] True by simp
    note w = schedule_waiting_wf[OF sw less.prems(2) room] and o = schedule_waiting_ok[OF sw less.prems(2) room less.prems(3,4)]
    show ?thesis
    proof (cases go_on)
      case False
      then show ?thesis using a o by simp
    next
      case go: True
      have "total_waiting s1 < total_waiting s" using schedule_waiting_total[OF sw[unfolded eqTrueI[OF go]]] .
      from less.hyps[OF this a[unfolded if_P[OF go]]] w o show ?thesis by simp
    qed
  next
    case False
    then show ?thesis using a less.prems by auto
  qed
qed

lemma schedule_all_waiting_ok:
  assumes "schedule_all_waiting g acc s = Inr (acc', s')" "sched_wf s" "acc_ok M acc" "set (scheduled_ids acc) \<subseteq> set (running s)"
  shows "sc_max_num_scheduled_tokens s' = sc_max_num_scheduled_tokens s \<and> acc_ok M acc' \<and>
    set (scheduled_ids acc') \<subseteq> set (running s')"
proof (cases "sa_preempted acc \<noteq> [] \<or> sc_pause_state s \<noteq> UNPAUSED")
  case True
  then show ?thesis using assms by (auto simp: schedule_all_waiting_def elim!: rbind_InrE)
next
  case False
  obtain loras wa s1 where wl: "waiting_loop g \<lparr>wa_acc = acc, wa_skipped = [], wa_loras = loras\<rparr> s = Inr (wa, s1)"
      and s': "s' = (if wa_skipped wa = [] then s1
               else s1\<lparr>skipped_waiting := queue_prepend_all s1 (wa_skipped wa) (skipped_waiting s1)\<rparr>)" "acc' = wa_acc wa"
    using assms(1) False by (auto simp: schedule_all_waiting_def elim!: rbind_InrE)
  have "deferred [] s = s" by (simp add: deferred_def)
  then show ?thesis using waiting_loop_ok[OF wl] assms(2-4) s' by simp
qed

section \<open>A whole step\<close>

lemma initial_acc_ok:
  "run_ok (if sc_pause_state s = PAUSED_ALL then 0 else sc_max_num_scheduled_tokens s) 0 (initial_acc s) s"
  by (simp add: run_ok_def initial_acc_def acc_ok_def handed_out_def scheduled_ids_def)

lemma step_handed_out:
  assumes "sched_wf s" "running_loop 0 (initial_acc s) s = Inr (acc1, s1)" "schedule_all_waiting g acc1 s1 = Inr (acc2, s2)"
  shows "acc_ok (if sc_pause_state s = PAUSED_ALL then 0 else sc_max_num_scheduled_tokens s) acc2"
    "set (scheduled_ids acc2) \<subseteq> set (running s2)" "sc_max_num_scheduled_tokens s2 = sc_max_num_scheduled_tokens s" "sched_wf s2"
proof -
  have w1: "sched_wf s1" using running_loop_wf[OF assms(2,1)] by simp
  note r = running_loop_ok[OF assms(2) initial_acc_ok assms(1)]
  note w = schedule_all_waiting_ok[OF assms(3) w1, of "if sc_pause_state s = PAUSED_ALL then 0 else sc_max_num_scheduled_tokens s"]
  show "acc_ok (if sc_pause_state s = PAUSED_ALL then 0 else sc_max_num_scheduled_tokens s) acc2"
    "set (scheduled_ids acc2) \<subseteq> set (running s2)" "sc_max_num_scheduled_tokens s2 = sc_max_num_scheduled_tokens s"
    using r w by simp_all
  show "sched_wf s2" using schedule_all_waiting_wf[OF assms(3) w1] by simp
qed

lemma step_constraints:
  assumes "sched_wf s" "running_loop 0 (initial_acc s) s = Inr (acc1, s1)" "schedule_all_waiting g acc1 s1 = Inr (acc2, s2)"
  shows "check_constraints acc2 s2"
proof -
  note h = step_handed_out[OF assms]
  have ok: "int (handed_out acc2) + sa_budget acc2 \<le> int (sc_max_num_scheduled_tokens s2)" "0 \<le> sa_budget acc2"
      "distinct (scheduled_ids acc2)"
    using h(1,3) by (simp_all add: acc_ok_def split: if_splits)
  have "length (scheduled_ids acc2) \<le> length (running s2)"
    using card_mono[OF finite_set h(2)] distinct_card[OF ok(3)] card_length[of "running s2"] by linarith
  then show ?thesis
    using ok sched_wf_parts(2)[OF h(4)] unfolding check_constraints_def handed_out_def[symmetric]
    by (simp add: scheduled_ids_def)
qed

end
