(* ===== verification/Engine_Core.thy ===== *)
theory Engine_Core
  imports Sched_Schedule
begin

text \<open>
  The class \<^verbatim>\<open>EngineCore\<close> of \<^verbatim>\<open>src/vllm/vllm/v1/engine/core.py\<close>: the loop body that schedules, runs the model,
  handles aborts and updates the scheduler, in its direct form and with a queue of batches, together with
  arrival, abort, pause and reset.  The executor that runs the model is an argument.  The engine process
  around it, its sockets and its data-parallel variants are not modelled.
\<close>

section \<open>Scheduler methods the engine uses\<close>

text \<open>The fields of a scheduler that its constructor fills; the configuration and the caches are given.\<close>

definition start_scheduler :: "scheduler \<Rightarrow> scheduler" where
  "start_scheduler cfg =
     cfg\<lparr>sc_requests := [], waiting := [], skipped_waiting := [], running := [], finished_req_ids := {},
         prev_step_scheduled_req_ids := {}, num_waiting_for_streaming_input := 0,
         finished_recving_kv_req_ids := {}, failed_recving_kv_req_ids := {}, sc_pause_state := UNPAUSED,
         inflight_prefills := {}, current_step := 0, power_smc_group_managers := [],
         power_smc_group_children := [], last_power_smc_kv_event := None\<rparr>"

definition set_pause_state :: "pause_state \<Rightarrow> scheduler \<Rightarrow> scheduler" where
  "set_pause_state ps s = s\<lparr>sc_pause_state := ps\<rparr>"

definition has_unfinished_requests :: "scheduler \<Rightarrow> bool" where
  "has_unfinished_requests s \<longleftrightarrow> get_num_unfinished_requests s > 0"

definition has_requests :: "scheduler \<Rightarrow> bool" where
  "has_requests s \<longleftrightarrow> has_unfinished_requests s \<or> has_finished_requests s"

text \<open>
  The rows of the grammar bitmask: the scheduled requests with structured output that are past their
  prompt.  The bitmask itself is the business of the grammar backend.
\<close>

definition get_grammar_bitmask :: "scheduler_output \<Rightarrow> scheduler \<Rightarrow> string list option" where
  "get_grammar_bitmask so s =
     (if \<not> has_structured_output_requests so then None
      else let ids = filter (\<lambda>rid. case get_request s rid of
                                      None \<Rightarrow> False
                                    | Some r \<Rightarrow> use_structured_output r \<and> \<not> is_prefill_chunk r)
                       (map fst (num_scheduled_tokens so))
           in if ids = [] then None else Some ids)"

text \<open>Draft tokens of a speculative model; \<open>validate\<close> is the grammar's check of a draft.\<close>

type_synonym draft_token_ids = "(string \<times> int list) list"

definition update_draft_one ::
  "grammar \<Rightarrow> (string \<Rightarrow> int list \<Rightarrow> int list) \<Rightarrow> string \<times> int list \<Rightarrow> scheduler \<Rightarrow> scheduler" where
  "update_draft_one g validate ent s =
     (case ent of (rid, toks) \<Rightarrow>
       case get_request s rid of
         None \<Rightarrow> s
       | Some r \<Rightarrow>
           if is_finished r then s
           else if is_prefill_chunk r
           then (if spec_token_ids r = [] then s else put_request (r\<lparr>spec_token_ids := []\<rparr>) s)
           else put_request (r\<lparr>spec_token_ids := (if should_advance g r then validate rid toks else toks)\<rparr>) s)"

definition update_draft_token_ids ::
  "grammar \<Rightarrow> (string \<Rightarrow> int list \<Rightarrow> int list) \<Rightarrow> draft_token_ids \<Rightarrow> scheduler \<Rightarrow> scheduler" where
  "update_draft_token_ids g validate drafts s = fold (update_draft_one g validate) drafts s"

text \<open>The drafts of a batch that is already scheduled, trimmed, checked and padded to their number.\<close>

definition draft_in_output_one ::
  "grammar \<Rightarrow> (string \<Rightarrow> int list \<Rightarrow> int list) \<Rightarrow> scheduler \<Rightarrow> string \<times> int list \<Rightarrow>
   (string \<times> int list) list \<times> (string \<times> nat) list \<Rightarrow> (string \<times> int list) list \<times> (string \<times> nat) list" where
  "draft_in_output_one g validate s ent st =
     (case (ent, st) of ((rid, toks), (spec, invalid)) \<Rightarrow>
       case get_request s rid of
         None \<Rightarrow> (spec, invalid)
       | Some r \<Rightarrow>
           if is_finished r then (spec, invalid)
           else case map_of spec rid of
                  None \<Rightarrow> (spec, invalid)
                | Some old \<Rightarrow>
                    if old = [] then (spec, invalid)
                    else let trimmed = take (length old) toks;
                             checked = (if should_advance g r then validate rid trimmed else trimmed);
                             missing = length old - length checked
                         in (dict_set rid (checked @ replicate missing (- 1)) spec,
                             if missing = 0 then invalid else dict_set rid missing invalid))"

definition update_draft_token_ids_in_output ::
  "grammar \<Rightarrow> (string \<Rightarrow> int list \<Rightarrow> int list) \<Rightarrow> draft_token_ids \<Rightarrow> scheduler \<Rightarrow> scheduler_output \<Rightarrow>
   scheduler_output \<times> (string \<times> nat) list" where
  "update_draft_token_ids_in_output g validate drafts s so =
     (case fold (draft_in_output_one g validate s) drafts (scheduled_spec_decode_tokens so, []) of
        (spec, invalid) \<Rightarrow> (so\<lparr>scheduled_spec_decode_tokens := spec\<rparr>, invalid))"

section \<open>The engine\<close>

text \<open>
  What the engine asks of the executor: the output of a batch for the rows of the grammar, and the drafts
  of the last batch.
\<close>

record executor =
  run_batch :: "scheduler_output \<Rightarrow> string list option \<Rightarrow> model_runner_output"
  take_draft_token_ids :: "draft_token_ids option"
  validate_tokens :: "string \<Rightarrow> int list \<Rightarrow> int list"
  supports_pooling :: "request \<Rightarrow> bool"

text \<open>
  A batch in the queue with the rows its sampling was started with, newest first.  Without a batch queue
  \<open>ec_batch_queue\<close> stays empty.
\<close>

record engine_core =
  ec_scheduler :: scheduler
  ec_aborts_queue :: "string list list"
  ec_batch_queue :: "(scheduler_output \<times> string list option) list"
  ec_batch_queue_size :: nat
  ec_use_spec_decode :: bool
  ec_async_scheduling :: bool
  ec_is_ec_consumer :: bool
  ec_is_pooling_model :: bool

definition with_scheduler :: "(scheduler \<Rightarrow> scheduler res) \<Rightarrow> engine_core \<Rightarrow> engine_core res" where
  "with_scheduler f e = rbind (f (ec_scheduler e)) (\<lambda>s. Inr (e\<lparr>ec_scheduler := s\<rparr>))"

definition engine_abort_requests :: "string list \<Rightarrow> engine_core \<Rightarrow> engine_core res" where
  "engine_abort_requests ids e =
     with_scheduler (\<lambda>s. rbind (finish_requests (Some ids) FINISHED_ABORTED s) (\<lambda>(_, s1). Inr s1)) e"

definition engine_add_request :: "executor \<Rightarrow> request \<Rightarrow> engine_core \<Rightarrow> engine_core res" where
  "engine_add_request ex req e =
     (if is_pooling req \<and> \<not> supports_pooling ex req then Inl ValueError
      else rbind (with_scheduler (add_request req) e) (\<lambda>e1.
           if abort_immediately req then engine_abort_requests [request_id req] e1 else Inr e1))"

definition process_aborts_queue :: "engine_core \<Rightarrow> engine_core res" where
  "process_aborts_queue e =
     (if ec_aborts_queue e = [] then Inr e
      else engine_abort_requests (concat (ec_aborts_queue e)) (e\<lparr>ec_aborts_queue := []\<rparr>))"

type_synonym step_outputs = "engine_core_output list \<times> (kv_cache_event \<times> (string \<times> nat option) option) list"

definition engine_update ::
  "grammar \<Rightarrow> scheduler_output \<Rightarrow> model_runner_output \<Rightarrow> engine_core \<Rightarrow> (step_outputs \<times> engine_core) res" where
  "engine_update g so mo e =
     rbind (process_aborts_queue e) (\<lambda>e1.
     rbind (update_from_output g so mo (ec_scheduler e1)) (\<lambda>(outs, evs, s).
       Inr ((outs, evs), e1\<lparr>ec_scheduler := s\<rparr>)))"

definition engine_step ::
  "grammar \<Rightarrow> executor \<Rightarrow> engine_core \<Rightarrow> (step_outputs \<times> bool \<times> engine_core) res" where
  "engine_step g ex e =
     (if \<not> has_requests (ec_scheduler e) then Inr (([], []), False, e)
      else rbind (schedule_step g (ec_scheduler e)) (\<lambda>(so, s1).
           rbind (engine_update g so (run_batch ex so (get_grammar_bitmask so s1)) (e\<lparr>ec_scheduler := s1\<rparr>))
             (\<lambda>(outs, e1). Inr (outs, total_num_scheduled_tokens so > 0, e1))))"

definition engine_post_step :: "grammar \<Rightarrow> executor \<Rightarrow> bool \<Rightarrow> engine_core \<Rightarrow> engine_core" where
  "engine_post_step g ex model_executed e =
     (if \<not> ec_async_scheduling e \<and> ec_use_spec_decode e \<and> model_executed
      then (case take_draft_token_ids ex of
              None \<Rightarrow> e
            | Some drafts \<Rightarrow>
                e\<lparr>ec_scheduler := update_draft_token_ids g (validate_tokens ex) drafts (ec_scheduler e)\<rparr>)
      else e)"

section \<open>The step with a batch queue\<close>

text \<open>
  The first half schedules a batch and starts it.  A batch that must wait for the tokens of the one before
  it is returned as deferred; the flag says that the step ends without an output.
\<close>

definition queue_batch ::
  "grammar \<Rightarrow> engine_core \<Rightarrow> (bool \<times> bool \<times> scheduler_output option \<times> engine_core) res" where
  "queue_batch g e =
     (if has_requests (ec_scheduler e)
      then rbind (schedule_step g (ec_scheduler e)) (\<lambda>(so, s1).
           let executed = (ec_is_ec_consumer e \<and> total_num_scheduled_tokens so > 0);
               e1 = e\<lparr>ec_scheduler := s1\<rparr>
           in if \<not> ec_is_pooling_model e \<and> executed \<and> pending_structured_output_tokens so
              then Inr (False, executed, Some so, e1)
              else let rows = (if ec_is_pooling_model e \<or> \<not> executed then None else get_grammar_bitmask so s1);
                       e2 = e1\<lparr>ec_batch_queue := (so, rows) # ec_batch_queue e1\<rparr>
                   in Inr (length (ec_batch_queue e2) < ec_batch_queue_size e2 \<and> (executed \<or> has_requests s1),
                           executed, None, e2))
      else Inr (ec_batch_queue e = [], False, None, e))"

text \<open>The deferred batch joins the queue once the drafts and the rows of its grammar are known.\<close>

definition queue_deferred ::
  "grammar \<Rightarrow> executor \<Rightarrow> scheduler_output option \<Rightarrow> engine_core \<Rightarrow> engine_core res" where
  "queue_deferred g ex deferred_so e =
     (case deferred_so of
        None \<Rightarrow> Inr e
      | Some so \<Rightarrow>
          rbind (if ec_use_spec_decode e
                 then (case take_draft_token_ids ex of
                         None \<Rightarrow> Inl AssertionError
                       | Some drafts \<Rightarrow>
                           Inr (fst (update_draft_token_ids_in_output g (validate_tokens ex) drafts (ec_scheduler e) so)))
                 else Inr so) (\<lambda>so1.
            Inr (e\<lparr>ec_batch_queue := (so1, get_grammar_bitmask so1 (ec_scheduler e)) # ec_batch_queue e\<rparr>)))"

definition engine_step_with_batch_queue ::
  "grammar \<Rightarrow> executor \<Rightarrow> engine_core \<Rightarrow> (step_outputs option \<times> bool \<times> engine_core) res" where
  "engine_step_with_batch_queue g ex e =
     py_assert (length (ec_batch_queue e) < ec_batch_queue_size e)
       (rbind (queue_batch g e) (\<lambda>(done_now, executed, deferred_so, e1).
          if done_now then Inr (None, executed, e1)
          else if ec_batch_queue e1 = [] then Inl IndexError
          else case last (ec_batch_queue e1) of
                 (so, rows) \<Rightarrow>
                   rbind (engine_update g so (run_batch ex so rows)
                            (e1\<lparr>ec_batch_queue := butlast (ec_batch_queue e1)\<rparr>)) (\<lambda>(outs, e2).
                   rbind (queue_deferred g ex deferred_so e2) (\<lambda>e3. Inr (Some outs, executed, e3)))))"

section \<open>Pausing and resetting\<close>

datatype pause_mode = PauseAbort | PauseWait | PauseKeep

definition engine_reset_prefix_cache :: "bool \<Rightarrow> engine_core \<Rightarrow> (bool \<times> engine_core) res" where
  "engine_reset_prefix_cache reset_running e =
     rbind (sched_reset_prefix_cache reset_running (ec_scheduler e)) (\<lambda>(ok, s). Inr (ok, e\<lparr>ec_scheduler := s\<rparr>))"

definition engine_reset_encoder_cache :: "engine_core \<Rightarrow> engine_core" where
  "engine_reset_encoder_cache e = e\<lparr>ec_scheduler := sched_reset_encoder_cache (ec_scheduler e)\<rparr>"

definition engine_reset_caches :: "engine_core \<Rightarrow> engine_core res" where
  "engine_reset_caches e =
     rbind (engine_reset_prefix_cache True e) (\<lambda>(_, e1). Inr (engine_reset_encoder_cache e1))"

definition engine_pause_scheduler :: "pause_mode \<Rightarrow> bool \<Rightarrow> engine_core \<Rightarrow> engine_core res" where
  "engine_pause_scheduler mode clear_cache e =
     (if mode = PauseWait then Inl ValueError
      else rbind (if mode = PauseAbort
                  then with_scheduler (\<lambda>s. rbind (finish_requests None FINISHED_ABORTED s) (\<lambda>(_, s1). Inr s1)) e
                  else Inr e) (\<lambda>e1.
           let e2 = e1\<lparr>ec_scheduler := set_pause_state (if mode = PauseKeep then PAUSED_ALL else PAUSED_NEW)
                                        (ec_scheduler e1)\<rparr>
           in if clear_cache then engine_reset_caches e2 else Inr e2))"

definition engine_resume_scheduler :: "engine_core \<Rightarrow> engine_core" where
  "engine_resume_scheduler e = e\<lparr>ec_scheduler := set_pause_state UNPAUSED (ec_scheduler e)\<rparr>"

end
