(* ===== verification/Engine_Reach.thy ===== *)
theory Engine_Reach
  imports Sched_Preserve Sched_Budget Engine_Core
begin

text \<open>
  The engine as a transition system.  Every scheduler that arrivals, aborts, pauses, resets and steps of the
  engine can reach satisfies the invariant of \<open>Sched_Queues\<close>, and the tokens that a step of such a scheduler
  hands out stay within its limits.
\<close>

section \<open>The remaining operations keep the invariant\<close>

lemma preempt_all_wf:
  "preempt_all rids s = Inr s' \<Longrightarrow> sched_wf s \<Longrightarrow> rids = rev (running s) \<Longrightarrow> sched_wf s'"
proof (induction rids arbitrary: s)
  case (Cons rid rids)
  have rn: "running s = rev rids @ [rid]" using arg_cong[OF Cons.prems(3), of rev] by simp
  obtain req where req: "get_request s rid = Some req" using Cons.prems(1) by (cases "get_request s rid") auto
  let ?s = "s\<lparr>running := rev rids\<rparr>"
  note a = Cons.prems(1)[unfolded preempt_all.simps req option.case rn butlast_snoc]
  obtain s1 where s1: "preempt_request req ?s = Inr s1" using a by (rule rbind_InrE) (rule that)
  note a = a[unfolded s1 rbind_simps]
  obtain req1 where req1: "get_request s1 rid = Some req1" using a by (cases "get_request s1 rid") auto
  have w1: "sched_wf s1"
    by (rule preempt_listed_wf(1)[OF Cons.prems(2) refl _ _ s1, of rid]) (use rn req in simp_all)
  let ?r = "req1\<lparr>async_tokens_to_discard := num_output_placeholders req1, num_output_placeholders := 0\<rparr>"
  have "same_view s1 (put_request ?r s1)"
    by (rule same_view_put[of s1 ?r req1]) (use req1 sched_wf_request(1)[OF w1 req1] in \<open>simp_all add: core_def\<close>)
  then have "sched_wf (put_request ?r s1)" by (rule sched_wf_same_view[OF w1])
  moreover have "rids = rev (running (put_request ?r s1))" using preempt_request_running[OF s1] by simp
  ultimately show ?case using Cons.IH a[unfolded req1 option.case] by blast
qed simp

lemma reset_prefix_cache_wf:
  assumes "sched_reset_prefix_cache b s = Inr (ok, s')" "sched_wf s"
  shows "sched_wf s'"
proof -
  obtain s1 where s1: "(if b then rbind (preempt_all (rev (running s)) s) (\<lambda>s1. Inr (s1\<lparr>prev_step_scheduled_req_ids := {}\<rparr>))
      else Inr s) = Inr s1"
    using assms(1)[unfolded sched_reset_prefix_cache_def] by (rule rbind_InrE) (rule that)
  have "sched_wf s1"
  proof (cases b)
    case True
    obtain t where "preempt_all (rev (running s)) s = Inr t" "s1 = t\<lparr>prev_step_scheduled_req_ids := {}\<rparr>"
      using s1 True by (auto elim: rbind_InrE)
    then show ?thesis using preempt_all_wf[OF _ assms(2) refl] sched_wf_same_view by auto
  qed (use s1 assms(2) in simp)
  moreover have "same_view s1 s'"
    using assms(1)[unfolded sched_reset_prefix_cache_def s1 rbind_simps] by (auto split: prod.splits if_splits)
  ultimately show ?thesis by (rule sched_wf_same_view)
qed

lemma update_draft_wf: "sched_wf s \<Longrightarrow> sched_wf (update_draft_token_ids g validate drafts s)"
proof (induction drafts arbitrary: s)
  case (Cons d drafts)
  obtain rid toks where d: "d = (rid, toks)" by (cases d)
  have "same_view s (update_draft_one g validate d s)"
  proof (cases "get_request s rid")
    case (Some r)
    have p: "same_view s (put_request (r\<lparr>spec_token_ids := ts\<rparr>) s)" for ts
      by (rule same_view_put[of s "r\<lparr>spec_token_ids := ts\<rparr>" r])
         (use Some sched_wf_request(1)[OF Cons.prems Some] in \<open>simp_all add: core_def\<close>)
    show ?thesis
      unfolding update_draft_one_def d prod.case Some option.case by (auto intro: p)
  qed (simp add: update_draft_one_def d)
  from Cons.IH[OF sched_wf_same_view[OF Cons.prems this]] show ?case by (simp add: update_draft_token_ids_def)
qed (simp add: update_draft_token_ids_def)

lemma free_request_skipped: "sched_free_request req dl s = Inr s' \<Longrightarrow> skipped_waiting s' = skipped_waiting s"
  by (auto simp: sched_free_request_def sched_free_blocks_def forget_smc_child_def py_assert_eq_Inr Let_def
      with_enc_Inr with_kv_Inr elim!: rbind_InrE split: if_splits option.splits)

lemma finish_each_skipped: "finish_each st rids s = Inr s' \<Longrightarrow> skipped_waiting s' = skipped_waiting s"
proof (induction rids arbitrary: s)
  case (Cons rid rids)
  show ?case
  proof (cases "get_request s rid")
    case None
    then show ?thesis using Cons by simp
  next
    case (Some req)
    note a = Cons.prems[unfolded finish_each.simps Some option.case Let_def]
    from a obtain s1 where s1: "finish_each st rids s1 = Inr s'" "skipped_waiting s1 = skipped_waiting s"
      by (rule rbind_InrE) (rule that, assumption, drule free_request_skipped, simp)
    then show ?thesis using Cons.IH[OF s1(1)] by simp
  qed
qed simp

lemma finish_requests_skipped:
  assumes "finish_requests ids st s = Inr (rids, s')" "sched_wf s"
  shows "set (skipped_waiting s') \<subseteq> set (skipped_waiting s)"
  by (rule finish_requests_cases[OF assms(1) sched_wf_distinct(2)[OF assms(2)]])
     (auto dest: finish_each_skipped)
section \<open>Steps of the engine\<close>

lemma schedule_step_scheduled:
  assumes "schedule_step g s0 = Inr (so, s')" "sched_wf s0"
  shows "sched_wf s'" "fst ` set (num_scheduled_tokens so) \<subseteq> set (running s')"
    "distinct (map fst (num_scheduled_tokens so))" "\<forall>n \<in> snd ` set (num_scheduled_tokens so). 0 < n"
    "sum_list (map snd (num_scheduled_tokens so)) \<le> (if sc_pause_state s0 = PAUSED_ALL then 0 else sc_max_num_scheduled_tokens s0)"
proof -
  show "sched_wf s'" using schedule_step_wf[OF assms] by simp
  have "fst ` set (num_scheduled_tokens so) \<subseteq> set (running s') \<and> distinct (map fst (num_scheduled_tokens so)) \<and>
      (\<forall>n \<in> snd ` set (num_scheduled_tokens so). 0 < n) \<and>
      sum_list (map snd (num_scheduled_tokens so)) \<le> (if sc_pause_state s0 = PAUSED_ALL then 0 else sc_max_num_scheduled_tokens s0)"
    using assms(1)
  proof (rule schedule_step_cases)
    fix s acc1 s1 acc2 s2 so1 s3
    assume s: "s = s0\<lparr>current_step := current_step s0 + 1, sc_kv := km_new_step_starts (sc_kv s0)\<rparr>"
      and rl: "running_loop 0 (initial_acc s) s = Inr (acc1, s1)" and sw: "schedule_all_waiting g acc1 s1 = Inr (acc2, s2)"
      and bo: "build_output acc2 s2 = Inr (so1, s3)"
      and up: "async_update_after_schedule so1 s3 = Inr (so, s') \<or> update_after_schedule so1 s3 = Inr (so, s')"
    have "same_view s0 s" unfolding s by (rule same_view_trans[OF same_view_updates(6) same_view_updates(1)])
    then have w: "sched_wf s" by (rule sched_wf_same_view[OF assms(2)])
    note h = step_handed_out[OF w rl sw]
    have b: "same_view s2 s3" "num_scheduled_tokens so1 = sa_num_scheduled acc2" using same_view_build_output[OF bo] by simp_all
    have w3: "sched_wf s3" by (rule sched_wf_same_view[OF h(4) b(1)])
    have u: "same_view s3 s'" "num_scheduled_tokens so = sa_num_scheduled acc2"
      using up same_view_async_update_after[OF _ w3] same_view_update_after[OF _ w3] b(2) by auto
    have "running s' = running s2" using b(1) u(1) by (simp add: same_view_def same_lists_def)
    moreover have "handed_out acc2 \<le> (if sc_pause_state s0 = PAUSED_ALL then 0 else sc_max_num_scheduled_tokens s0)"
      using h(1) unfolding acc_ok_def s by (auto split: if_splits)
    moreover have "distinct (map fst (sa_num_scheduled acc2))" "fst ` set (sa_num_scheduled acc2) = set (scheduled_ids acc2)"
        "\<forall>n \<in> snd ` set (sa_num_scheduled acc2). 0 < n"
      using h(1) unfolding acc_ok_def by simp_all
    ultimately show ?thesis using h(2) unfolding u(2) handed_out_def by simp
  qed
  then show "fst ` set (num_scheduled_tokens so) \<subseteq> set (running s')" "distinct (map fst (num_scheduled_tokens so))"
    "\<forall>n \<in> snd ` set (num_scheduled_tokens so). 0 < n"
    "sum_list (map snd (num_scheduled_tokens so)) \<le> (if sc_pause_state s0 = PAUSED_ALL then 0 else sc_max_num_scheduled_tokens s0)"
    by simp_all
qed

lemma with_scheduler_Inr:
  "with_scheduler f e = Inr e' \<longleftrightarrow> (\<exists>s. f (ec_scheduler e) = Inr s \<and> e' = e\<lparr>ec_scheduler := s\<rparr>)"
  by (auto simp: with_scheduler_def rbind_eq_Inr)

lemma finish_only_wf:
  assumes "rbind (finish_requests ids st s) (\<lambda>(_, s1). Inr s1) = Inr s'" "sched_wf s"
  shows "sched_wf s'" "set (skipped_waiting s') \<subseteq> set (skipped_waiting s)"
proof -
  obtain x where x: "finish_requests ids st s = Inr x" using assms(1) by (rule rbind_InrE) (rule that)
  obtain rids where xe: "x = (rids, s')" using assms(1) x by (cases x) simp
  show "sched_wf s'" "set (skipped_waiting s') \<subseteq> set (skipped_waiting s)"
    using finish_requests_wf(1)[OF x[unfolded xe] assms(2)] finish_requests_skipped[OF x[unfolded xe] assms(2)] by simp_all
qed

lemma abort_requests_wf:
  assumes "engine_abort_requests ids e = Inr e'" "sched_wf (ec_scheduler e)"
  shows "sched_wf (ec_scheduler e')" "set (skipped_waiting (ec_scheduler e')) \<subseteq> set (skipped_waiting (ec_scheduler e))"
proof -
  obtain s where s: "rbind (finish_requests (Some ids) FINISHED_ABORTED (ec_scheduler e)) (\<lambda>(_, s1). Inr s1) = Inr s"
      "e' = e\<lparr>ec_scheduler := s\<rparr>"
    using assms(1) unfolding engine_abort_requests_def with_scheduler_Inr by (elim exE conjE)
  show "sched_wf (ec_scheduler e')" "set (skipped_waiting (ec_scheduler e')) \<subseteq> set (skipped_waiting (ec_scheduler e))"
    using finish_only_wf[OF s(1) assms(2)] s(2) by simp_all
qed

lemma process_aborts_wf:
  assumes "process_aborts_queue e = Inr e'" "sched_wf (ec_scheduler e)"
  shows "sched_wf (ec_scheduler e')" "set (skipped_waiting (ec_scheduler e')) \<subseteq> set (skipped_waiting (ec_scheduler e))"
  using assms(1) abort_requests_wf[of "concat (ec_aborts_queue e)" "e\<lparr>ec_aborts_queue := []\<rparr>" e'] assms(2)
  by (simp_all add: process_aborts_queue_def split: if_splits)

lemma add_engine_wf:
  assumes "engine_add_request ex req e = Inr e'" "sched_wf (ec_scheduler e)" "arrives req"
  shows "sched_wf (ec_scheduler e')"
proof -
  have n: "\<not> (is_pooling req \<and> \<not> supports_pooling ex req)"
    by (rule notI) (use assms(1) in \<open>simp add: engine_add_request_def\<close>)
  note a = assms(1)[unfolded engine_add_request_def if_not_P[OF n]]
  obtain e1 where e1: "with_scheduler (add_request req) e = Inr e1" using a by (rule rbind_InrE) (rule that)
  have w: "sched_wf (ec_scheduler e1)"
    using e1 add_request_wf(1)[OF _ assms(2,3)] by (auto simp: with_scheduler_Inr)
  show ?thesis using a[unfolded e1 rbind_simps] w abort_requests_wf(1)[OF _ w] by (auto split: if_splits)
qed

lemma engine_update_wf:
  assumes "engine_update g so mo e = Inr (outs, e')" "sched_wf (ec_scheduler e)"
    "fst ` set (num_scheduled_tokens so) \<inter> set (skipped_waiting (ec_scheduler e)) = {}"
  shows "sched_wf (ec_scheduler e')"
proof -
  note a = assms(1)[unfolded engine_update_def]
  obtain e1 where e1: "process_aborts_queue e = Inr e1" using a by (rule rbind_InrE) (rule that)
  note a = a[unfolded e1 rbind_simps]
  obtain x where x: "update_from_output g so mo (ec_scheduler e1) = Inr x" using a by (rule rbind_InrE) (rule that)
  obtain os evs s where xe: "x = (os, evs, s)" by (cases x)
  note p = process_aborts_wf[OF e1 assms(2)]
  have "sched_wf s" by (rule update_from_output_wf[OF x[unfolded xe] p(1)]) (use p(2) assms(3) in auto)
  then show ?thesis using a[unfolded x xe rbind_simps] by auto
qed

lemma engine_step_wf:
  assumes "engine_step g ex e = Inr (outs, b, e')" "sched_wf (ec_scheduler e)"
  shows "sched_wf (ec_scheduler e')"
proof (cases "has_requests (ec_scheduler e)")
  case True
  then have n: "\<not> \<not> has_requests (ec_scheduler e)" by simp
  note a = assms(1)[unfolded engine_step_def if_not_P[OF n]]
  obtain x where x: "schedule_step g (ec_scheduler e) = Inr x" using a by (rule rbind_InrE) (rule that)
  obtain so s1 where xe: "x = (so, s1)" by (cases x)
  note a = a[unfolded x xe rbind_simps prod.case]
  let ?e = "e\<lparr>ec_scheduler := s1\<rparr>"
  obtain y where y: "engine_update g so (run_batch ex so (get_grammar_bitmask so s1)) ?e = Inr y"
    using a by (rule rbind_InrE) (rule that)
  obtain os where ye: "y = (os, e')" using a[unfolded y rbind_simps] by (cases y) auto
  note sc = schedule_step_scheduled[OF x[unfolded xe] assms(2)]
  have "set (running s1) \<inter> set (skipped_waiting s1) = {}" using sched_wf_distinct(1)[OF sc(1)] by (auto simp: queued_def)
  then have "fst ` set (num_scheduled_tokens so) \<inter> set (skipped_waiting (ec_scheduler ?e)) = {}" using sc(2) by auto
  then show ?thesis using engine_update_wf[OF y[unfolded ye]] sc(1) by simp
qed (use assms in \<open>simp add: engine_step_def\<close>)

lemma reset_caches_wf:
  assumes "engine_reset_caches e = Inr e'" "sched_wf (ec_scheduler e)"
  shows "sched_wf (ec_scheduler e')"
proof -
  obtain ok s where s: "sched_reset_prefix_cache True (ec_scheduler e) = Inr (ok, s)"
      "e' = e\<lparr>ec_scheduler := sched_reset_encoder_cache s\<rparr>"
    using assms(1) by (auto simp: engine_reset_caches_def engine_reset_prefix_cache_def engine_reset_encoder_cache_def
        elim!: rbind_InrE)
  have "same_view s (sched_reset_encoder_cache s)" by (simp add: sched_reset_encoder_cache_def)
  then show ?thesis using sched_wf_same_view[OF reset_prefix_cache_wf[OF s(1) assms(2)]] s(2) by simp
qed

lemma pause_state_wf: "sched_wf s \<Longrightarrow> sched_wf (set_pause_state ps s)"
  by (erule sched_wf_same_view) (simp add: set_pause_state_def same_view_def same_lists_def shape_def get_request_def fun_eq_iff)

lemma pause_scheduler_wf:
  assumes "engine_pause_scheduler mode clear e = Inr e'" "sched_wf (ec_scheduler e)"
  shows "sched_wf (ec_scheduler e')"
proof -
  have n: "mode \<noteq> PauseWait" by (rule notI) (use assms(1) in \<open>simp add: engine_pause_scheduler_def\<close>)
  note a = assms(1)[unfolded engine_pause_scheduler_def if_not_P[OF n]]
  obtain e1 where e1: "(if mode = PauseAbort
      then with_scheduler (\<lambda>s. rbind (finish_requests None FINISHED_ABORTED s) (\<lambda>(_, s1). Inr s1)) e else Inr e) = Inr e1"
    using a by (rule rbind_InrE) (rule that)
  have w1: "sched_wf (ec_scheduler e1)"
    using e1 assms(2) finish_only_wf(1)[OF _ assms(2)] by (auto simp: with_scheduler_Inr split: if_splits)
  define e2 where "e2 = e1\<lparr>ec_scheduler := set_pause_state (if mode = PauseKeep then PAUSED_ALL else PAUSED_NEW) (ec_scheduler e1)\<rparr>"
  note a = a[unfolded e1 rbind_simps Let_def, folded e2_def]
  have w2: "sched_wf (ec_scheduler e2)" using pause_state_wf[OF w1] by (simp add: e2_def)
  show ?thesis using a reset_caches_wf[OF _ w2] w2 by (auto split: if_splits)
qed

section \<open>Reachable engines\<close>

text \<open>
  An engine starts with an empty scheduler.  Requests arrive, abort requests are queued or carried out, the
  engine steps and takes drafts, and is paused, resumed and reset.
\<close>

inductive engine_reach :: "engine_core \<Rightarrow> bool" where
  start: "engine_reach (e\<lparr>ec_scheduler := start_scheduler (ec_scheduler e), ec_aborts_queue := [], ec_batch_queue := []\<rparr>)"
| add: "engine_reach e \<Longrightarrow> arrives req \<Longrightarrow> engine_add_request ex req e = Inr e' \<Longrightarrow> engine_reach e'"
| abort: "engine_reach e \<Longrightarrow> engine_abort_requests ids e = Inr e' \<Longrightarrow> engine_reach e'"
| queue_abort: "engine_reach e \<Longrightarrow> engine_reach (e\<lparr>ec_aborts_queue := ec_aborts_queue e @ [ids]\<rparr>)"
| step: "engine_reach e \<Longrightarrow> engine_step g ex e = Inr (outs, b, e') \<Longrightarrow> engine_reach (engine_post_step g ex b e')"
| reset_prefix: "engine_reach e \<Longrightarrow> engine_reset_prefix_cache rr e = Inr (ok, e') \<Longrightarrow> engine_reach e'"
| reset_encoder: "engine_reach e \<Longrightarrow> engine_reach (engine_reset_encoder_cache e)"
| pause: "engine_reach e \<Longrightarrow> engine_pause_scheduler mode clear e = Inr e' \<Longrightarrow> engine_reach e'"
| resume: "engine_reach e \<Longrightarrow> engine_reach (engine_resume_scheduler e)"

lemma start_scheduler_wf: "sched_wf (start_scheduler cfg)"
  by (simp add: sched_wf_def start_scheduler_def queued_def get_request_def registered_def dom_def)

lemma engine_reach_wf: "engine_reach e \<Longrightarrow> sched_wf (ec_scheduler e)"
proof (induction rule: engine_reach.induct)
  case (step e g ex outs b e')
  have "sched_wf (ec_scheduler e')" by (rule engine_step_wf[OF step.hyps(2) step.IH])
  then show ?case by (auto simp: engine_post_step_def update_draft_wf split: option.splits)
next
  case (reset_prefix e rr ok e')
  then show ?case
    by (auto simp: engine_reset_prefix_cache_def elim!: rbind_InrE dest: reset_prefix_cache_wf)
next
  case (reset_encoder e)
  have "same_view (ec_scheduler e) (sched_reset_encoder_cache (ec_scheduler e))" by (simp add: sched_reset_encoder_cache_def)
  then show ?case using sched_wf_same_view[OF reset_encoder.IH] by (simp add: engine_reset_encoder_cache_def)
next
  case (start e)
  show ?case using start_scheduler_wf by simp
next
  case (add e req ex e')
  show ?case by (rule add_engine_wf[OF add.hyps(3) add.IH add.hyps(2)])
next
  case (abort e ids e')
  show ?case by (rule abort_requests_wf(1)[OF abort.hyps(2) abort.IH])
next
  case (queue_abort e ids)
  then show ?case by simp
next
  case (pause e mode clear e')
  show ?case by (rule pause_scheduler_wf[OF pause.hyps(2) pause.IH])
next
  case (resume e)
  show ?case using pause_state_wf[OF resume.IH] by (simp add: engine_resume_scheduler_def)
qed

end
