(* ===== verification/Engine_Example.thy ===== *)
theory Engine_Example
  imports Engine_Reach
begin

text \<open>
  A small engine for a model without KV-cache groups, one request, and what its first step does.  The
  properties that speak of reachable engines are applied to it.
\<close>

definition example_config :: kv_cache_config where
  "example_config = \<lparr>cfg_num_blocks = 4, kv_cache_tensors = [], kv_cache_groups = []\<rparr>"

definition example_coordinator :: coordinator where
  "example_coordinator =
     \<lparr>co_kind = NoPrefixCache, co_config = example_config, co_max_model_len = 16, co_enable_caching = False,
      co_scheduler_block_size = 2, co_hash_block_size = 2, co_dcp_world_size = 1, co_pcp_world_size = 1,
      co_pool = projr (init_block_pool 4 False 2 False False), eagle_group_ids = [], single_type_managers = [],
      retention_interval = None, attention_groups = []\<rparr>"

definition example_kv :: kv_cache_manager where
  "example_kv = \<lparr>km_max_model_len = 16, km_enable_caching = False, prefix_stats = None,
     km_coordinator = example_coordinator, kv_cache_event_metadata = []\<rparr>"

lemma example_kv_init:
  "init_kv_cache_manager the_registry None example_config 16 2 2 None False False False False False 1 1 = Inr example_kv"
proof -
  obtain p where "init_block_pool 4 False 2 False False = Inr p"
    using init_block_pool_ok[of 4 False 2 False False] by auto
  then show ?thesis
    by (simp add: init_kv_cache_manager_def get_kv_cache_coordinator_def init_base_coordinator_def example_config_def
        example_kv_def example_coordinator_def validate_prefix_cache_retention_interval_def init_eagle_group_ids_def)
qed

lemma example_free: "0 \<le> get_num_free_blocks (co_pool example_coordinator)"
proof -
  obtain p where p: "init_block_pool 4 False 2 False False = Inr p" "pool_ok p (map Blk [1..<4])"
    using init_block_pool_ok[of 4 False 2 False False] by auto
  then show ?thesis using pool_ok_free_list(2)[OF p(2)] by (simp add: example_coordinator_def get_num_free_blocks_def)
qed

text \<open>Without groups every allocation succeeds and takes no blocks.\<close>

lemma example_managers [simp]: "single_type_managers example_coordinator = []" "km_coordinator example_kv = example_coordinator"
  "km_enable_caching example_kv = False" "co_config example_coordinator = example_config" "kv_cache_groups example_config = []"
  "km_max_model_len example_kv = 16" "attention_groups example_coordinator = []"
  by (simp_all add: example_coordinator_def example_kv_def example_config_def)

lemma example_allocate:
  "num_new_tokens a \<noteq> 0 \<Longrightarrow> \<not> full_sequence_must_fit a \<Longrightarrow> reserved_blocks a = 0 \<Longrightarrow> new_computed_blocks a \<in> {None, Some []} \<Longrightarrow>
   num_external_computed_tokens a = 0 \<Longrightarrow> allocate_slots req a example_kv = Inr (Some [], example_kv)"
  using example_free
  by (auto simp: allocate_slots_def full_sequence_fits_def Let_def co_remove_skipped_blocks_def on_managers_def
      co_get_num_blocks_to_allocate_def allocate_and_cache_def computed_block_list_def empty_kv_cache_blocks_def
      co_allocate_new_blocks_def create_kv_cache_blocks_def with_coordinator_def not_less)

definition example_scheduler :: scheduler where
  "example_scheduler =
     \<lparr>sc_policy = FCFS, sc_block_size = 2, sc_cache_block_size = 2, sc_max_model_len = 16, sc_max_num_running_reqs = 2,
      sc_max_num_scheduled_tokens = 4, sc_long_prefill_token_threshold = 0, sc_enable_chunked_prefill = True,
      sc_disable_chunked_mm_input = False, sc_max_num_encoder_input_tokens = 0, sc_num_spec_tokens = 0,
      sc_num_lookahead_tokens = 0, sc_use_eagle = False, sc_is_encoder_decoder = False,
      sc_need_mamba_block_aligned_split = False, sc_needs_kv_cache_zeroing = False, sc_reserve_full_isl = False,
      sc_use_pp = False, sc_pp_size = 1, sc_async_scheduling = False, sc_use_v2_model_runner = False,
      sc_max_loras = None, sc_seeded_rng = (\<lambda>k. \<lparr>draws = (\<lambda>_. 0), drawn = 0\<rparr>),
      sc_system_rng = (\<lambda>k. \<lparr>draws = (\<lambda>_. 0), drawn = 0\<rparr>), sc_num_system_rngs = 0,
      sc_kv = example_kv, sc_enc = EncCache (init_encoder_cache 0), sc_requests = [], waiting = [], skipped_waiting = [],
      running = [], finished_req_ids = {}, prev_step_scheduled_req_ids = {}, num_waiting_for_streaming_input = 0,
      finished_recving_kv_req_ids = {}, failed_recving_kv_req_ids = {}, sc_pause_state = UNPAUSED,
      inflight_prefills = {}, current_step = 0, power_smc_group_managers = [], power_smc_group_children = [],
      last_power_smc_kv_event = None\<rparr>"

definition example_params :: sampling_params where
  "example_params =
     \<lparr>sp_n = 1, presence_penalty = Fin 0, frequency_penalty = Fin 0, repetition_penalty = Fin 1, temperature = Fin 1,
      top_p = Fin 1, top_k = 0, min_p = Fin 0, seed = None, max_tokens = Some 16, structured_outputs = None, logit_bias = None,
      allowed_token_ids = None, extra_args = None, bad_words = None, skip_reading_prefix_cache = None, min_tokens = 0,
      eos_token_id = Some 0, stop_token_ids = None, repetition_detection = None\<rparr>"

definition example_request :: "string \<Rightarrow> int list \<Rightarrow> request" where
  "example_request rid toks = (plain_request toks [] (unary_hasher 2))\<lparr>request_id := rid, req_sampling_params := Some example_params,
     req_block_hasher := None\<rparr>"

definition example_grammar :: grammar where
  "example_grammar = \<lparr>grammar_ready = (\<lambda>_. True), should_advance = (\<lambda>_. False), accept_tokens = (\<lambda>_ _. True)\<rparr>"

definition two_waiting :: scheduler where
  "two_waiting = example_scheduler\<lparr>sc_requests := [(''a'', example_request ''a'' [1, 2, 3]), (''b'', example_request ''b'' [4, 5, 6])],
     waiting := [''a'', ''b'']\<rparr>"

definition example_engine :: engine_core where
  "example_engine =
     \<lparr>ec_scheduler = two_waiting, ec_aborts_queue = [], ec_batch_queue = [], ec_batch_queue_size = 1, ec_use_spec_decode = False,
      ec_async_scheduling = False, ec_is_ec_consumer = True, ec_is_pooling_model = False\<rparr>"

text \<open>The model samples a token for the request that has computed its whole prompt.\<close>

definition example_executor :: executor where
  "example_executor =
     \<lparr>run_batch = (\<lambda>_ _. \<lparr>req_id_to_index = [(''a'', 0), (''b'', 1)], sampled_token_ids = [[7], []],
        mro_power_smc_logprobs = None, pooler_output = []\<rparr>),
      take_draft_token_ids = None, validate_tokens = (\<lambda>_ ts. ts), supports_pooling = (\<lambda>_. False)\<rparr>"

lemma two_waiting_added:
  "rbind (add_request (example_request ''a'' [1, 2, 3]) (start_scheduler example_scheduler))
     (add_request (example_request ''b'' [4, 5, 6])) = Inr two_waiting"
  by (simp add: add_request_def start_scheduler_def example_scheduler_def example_request_def plain_request_def two_waiting_def
      get_request_def dict_set_def enqueue_waiting_request_def queue_add_def fcfs_add_def)

lemmas schedule_defs = schedule_all_waiting_def scheduled_loras_def initial_acc_def schedule_waiting_def select_waiting_queue_def
  selected_head_def promote_waiting_def exceeds_loras_def schedule_admissible_def waiting_computed_def get_computed_blocks_def
  waiting_tokens_def encoder_inputs_for_def has_encoder_inputs_def align_mamba_def cap_long_prefill_def place_waiting_def
  admit_waiting_def schedule_encoder_inputs_def take_budget_def put_request_def pop_selected_def waiting_slot_args_def
  empty_kv_cache_blocks_def km_get_blocks_def co_get_blocks_def get_request_def dict_set_def num_tokens_def

lemma two_waiting_scheduled:
  "\<exists>acc s. schedule_all_waiting example_grammar (initial_acc two_waiting) two_waiting = Inr (acc, s) \<and>
     sa_num_scheduled acc = [(''a'', 3), (''b'', 1)] \<and> running s = [''a'', ''b'']"
  by (simp add: schedule_defs waiting_loop.simps two_waiting_def example_scheduler_def example_request_def plain_request_def
      example_allocate)
lemma example_new_step: "km_new_step_starts example_kv = example_kv"
  by (simp add: km_new_step_starts_def co_new_step_starts_def with_coordinator_def example_kv_def example_coordinator_def)

lemma example_common_prefix: "km_get_num_common_prefix_blocks r example_kv = ([], example_kv)"
  by (simp add: km_get_num_common_prefix_blocks_def co_get_num_common_prefix_blocks_def with_coordinator_def example_kv_def
      example_coordinator_def)

lemmas output_defs = check_constraints_def build_output_def common_prefix_def new_request_data_of_def make_cached_request_data_def
  update_after_schedule_def advance_one_def enc_get_freed.simps get_freed_mm_hashes_def init_encoder_cache_def

lemma two_waiting_step:
  "\<exists>so s. schedule_step example_grammar two_waiting = Inr (so, s) \<and> num_scheduled_tokens so = [(''a'', 3), (''b'', 1)] \<and>
     running s = [''a'', ''b''] \<and> waiting s = []"
  by (simp add: schedule_step_def running_loop.simps[of 0] schedule_defs output_defs waiting_loop.simps two_waiting_def example_scheduler_def
      example_request_def plain_request_def example_allocate example_new_step example_common_prefix)

lemmas update_defs = update_from_output_def update_one_def reject_drafts_def step_tokens_def update_request_with_output_def
  append_output_token_ids_def update_block_hashes_def check_stop_def step_power_smc_def requeue_resampled_def remove_stopped_def
  km_take_events_def take_events_def

lemma two_waiting_engine_step:
  "\<exists>os evs e. engine_step example_grammar example_executor example_engine = Inr ((os, evs), True, e) \<and>
     map (\<lambda>x. (eco_request_id x, eco_new_token_ids x)) os = [(''a'', [7])] \<and>
     running (ec_scheduler e) = [''a'', ''b''] \<and>
     map_option output_token_ids (get_request (ec_scheduler e) ''a'') = Some [7] \<and>
     map_option num_computed_tokens (get_request (ec_scheduler e) ''b'') = Some 1"
  by (simp add: engine_step_def engine_update_def process_aborts_queue_def example_engine_def has_requests_def has_unfinished_requests_def
      get_num_unfinished_requests_def schedule_step_def running_loop.simps[of 0] schedule_defs output_defs waiting_loop.simps two_waiting_def
      example_scheduler_def example_request_def plain_request_def example_allocate example_new_step example_common_prefix
      example_executor_def get_grammar_bitmask_def update_defs example_grammar_def is_finished_def is_finished_status_def
      list_get_def example_params_def num_output_tokens_def km_free_def)

end
