(* ===== verification/Sched_Progress.thy ===== *)
theory Sched_Progress
  imports Sched_Budget
begin

text \<open>
  Who is preempted under the policy FCFS.  Victims are taken from the end of the running list and put before
  the waiting queue, so the order of arrival is kept, and the oldest running request is served in every step
  unless its blocks do not fit even when it is alone.
\<close>

section \<open>One search for blocks\<close>

lemma preempt_request_fcfs:
  "preempt_request req s = Inr s' \<Longrightarrow> sc_policy s = FCFS \<Longrightarrow>
     waiting s' = request_id req # waiting s \<and> sc_policy s' = FCFS \<and> running s' = running s \<and> skipped_waiting s' = skipped_waiting s"
  by (auto simp: preempt_request_def py_assert_eq_Inr with_kv_Inr with_enc_Inr Let_def queue_prepend_def fcfs_prepend_def
      elim!: rbind_InrE)

text \<open>
  The states in which blocks for \<open>n\<close> tokens of a request are asked for: the first one, and after every answer
  that there are none the one in which the last running request is preempted.
\<close>

inductive asks_again :: "string \<Rightarrow> nat \<Rightarrow> scheduler \<Rightarrow> scheduler \<Rightarrow> bool" for rid n where
  first: "asks_again rid n s s"
| preempted: "get_request s rid = Some req \<Longrightarrow>
    allocate_slots req (running_slot_args n s) (sc_kv s) = Inr (None, km) \<Longrightarrow>
    running s = vs @ [v] \<Longrightarrow> v \<noteq> rid \<Longrightarrow> get_request s v = Some vreq \<Longrightarrow>
    preempt_request vreq (s\<lparr>sc_kv := km, running := vs\<rparr>) = Inr s1 \<Longrightarrow>
    asks_again rid n s1 t \<Longrightarrow> asks_again rid n s t"

text \<open>In the last of these states the request is the last one running, and there are no blocks for it.\<close>

definition lacks_blocks :: "scheduler \<Rightarrow> string list \<Rightarrow> string \<Rightarrow> nat \<Rightarrow> bool" where
  "lacks_blocks s xs rid n \<longleftrightarrow>
     (\<exists>t req km. asks_again rid n s t \<and> running t = xs @ [rid] \<and> get_request t rid = Some req \<and>
        allocate_slots req (running_slot_args n t) (sc_kv t) = Inr (None, km))"

text \<open>
  The victims are the end of the running list, last first; either the request keeps its place and everything
  before it stays, or it is the last victim itself.
\<close>

lemma fcfs_alloc_or_preempt:
  "alloc_or_preempt rid n idx acc s = Inr (b, idx', acc', s') \<Longrightarrow> sc_policy s = FCFS \<Longrightarrow> sched_wf s \<Longrightarrow>
   running s = xs @ rid # ys \<Longrightarrow>
     sc_policy s' = FCFS \<and> idx' = idx \<and> running s' @ waiting s' = running s @ waiting s \<and>
     (\<exists>vs. acc' = acc\<lparr>sa_preempted := sa_preempted acc @ rev vs\<rparr> \<and> waiting s' = vs @ waiting s) \<and>
     (if b = None then running s' = xs \<and> lacks_blocks s xs rid n else \<exists>zs. running s' = xs @ rid # zs)"
proof (induction ys arbitrary: acc s rule: rev_induct)
  case Nil
  from Nil.prems(1) show ?case
  proof (cases rule: alloc_or_preempt_cases)
    case (fits req blks km)
    then show ?thesis using Nil.prems by (auto intro: exI[of _ "[]"])
  next
    case (victim req km v idx1 acc1 s1 vreq s2)
    have e: "v = rid" "idx1 = idx" "acc1 = acc" "s1 = s\<lparr>sc_kv := km, running := xs\<rparr>"
      using victim(3) Nil.prems(2,4) by (auto simp: pick_victim_def)
    have id: "request_id vreq = rid" using sched_wf_request(1)[OF Nil.prems(3), of rid vreq] victim(4) e(1,4) by simp
    note p = preempt_request_fcfs[OF victim(5)]
    have "asks_again rid n s s \<and> running s = xs @ [rid] \<and> get_request s rid = Some req \<and>
        allocate_slots req (running_slot_args n s) (sc_kv s) = Inr (None, km)"
      using victim(1,2) Nil.prems(4) by (simp add: asks_again.first)
    then have "lacks_blocks s xs rid n" unfolding lacks_blocks_def by blast
    then show ?thesis using victim(6) e p id Nil.prems(2,4) by (auto intro!: exI[of _ "[rid]"])
  qed
next
  case (snoc y ys)
  from snoc.prems(1) show ?case
  proof (cases rule: alloc_or_preempt_cases)
    case (fits req blks km)
    then show ?thesis using snoc.prems by (auto intro: exI[of _ "[]"])
  next
    case (victim req km v idx1 acc1 s1 vreq s2)
    let ?s = "s\<lparr>sc_kv := km\<rparr>" and ?acc = "acc\<lparr>sa_preempted := sa_preempted acc @ [y]\<rparr>"
    have e: "v = y" "idx1 = idx" "acc1 = acc" "s1 = s\<lparr>sc_kv := km, running := xs @ rid # ys\<rparr>"
      using victim(3) snoc.prems(2,4) by (auto simp: pick_victim_def butlast_append)
    have d: "distinct (xs @ rid # ys @ [y])" using sched_wf_distinct(2)[OF snoc.prems(3)] snoc.prems(4) by simp
    have id: "request_id vreq = y" using sched_wf_request(1)[OF snoc.prems(3), of y vreq] victim(4) e(1,4) by simp
    have p: "waiting s2 = y # waiting s" "sc_policy s2 = FCFS" "running s2 = xs @ rid # ys"
      using preempt_request_fcfs[OF victim(5)] id e(4) snoc.prems(2) by simp_all
    have wf0: "sched_wf ?s" using sched_wf_same_view[OF snoc.prems(3)] by simp
    have w2: "sched_wf s2" by (rule preempt_victim_wf(1)[OF wf0 victim(3-5)])
    have "alloc_or_preempt rid n idx ?acc s2 = Inr (b, idx', acc', s')" using victim(6) e d by auto
    note ih = snoc.IH[OF this p(2) w2 p(3)]
    obtain vs where vs: "acc' = ?acc\<lparr>sa_preempted := sa_preempted ?acc @ rev vs\<rparr>" "waiting s' = vs @ waiting s2"
      using ih by blast
    have "acc' = acc\<lparr>sa_preempted := sa_preempted acc @ rev (vs @ [y])\<rparr>" "waiting s' = (vs @ [y]) @ waiting s"
      using vs p(1) by simp_all
    then have "\<exists>vs. acc' = acc\<lparr>sa_preempted := sa_preempted acc @ rev vs\<rparr> \<and> waiting s' = vs @ waiting s" by blast
    moreover have "lacks_blocks s xs rid n" if "lacks_blocks s2 xs rid n"
    proof -
      have v: "running s = (xs @ rid # ys) @ [y]" "y \<noteq> rid" using snoc.prems(4) d by auto
      have g: "get_request s y = Some vreq" using victim(4) e(1,4) by simp
      note again = asks_again.preempted[OF victim(1,2) v g victim(5)[unfolded e(4)]]
      show ?thesis using that again unfolding lacks_blocks_def by blast
    qed
    ultimately show ?thesis using ih p(1,3) snoc.prems(4) by simp
  qed
qed

section \<open>The loop over the running requests\<close>

lemma allocate_encoder_policy: "allocate_encoder_inputs req is s = Inr s' \<Longrightarrow> waiting s' = waiting s \<and> sc_policy s' = sc_policy s"
  using same_view_allocate_encoder[of req "is" s s'] by (simp add: same_view_def same_lists_def)

lemma fcfs_schedule_running:
  assumes sr: "schedule_running idx acc s = Inr (nxt, acc', s')" and po: "sc_policy s = FCFS" and wf: "sched_wf s"
    and idx: "idx < length (running s)"
  shows "sc_policy s' = FCFS" "running s' @ waiting s' = running s @ waiting s"
    "nxt = None \<Longrightarrow> running s' = take idx (running s) \<and> sa_num_scheduled acc' = sa_num_scheduled acc"
    "nxt = Some i \<Longrightarrow> i = Suc idx \<and> take (Suc idx) (running s') = take (Suc idx) (running s) \<and>
       (sa_num_scheduled acc' = sa_num_scheduled acc \<or>
        (\<exists>n. sa_num_scheduled acc' = dict_set (running s ! idx) n (sa_num_scheduled acc)))"
proof -
  let ?rid = "running s ! idx"
  have sp: "running s = take idx (running s) @ ?rid # drop (Suc idx) (running s)" using idx by (rule id_take_nth_drop)
  have wfe: "sched_wf (s\<lparr>sc_enc := e\<rparr>)" for e using sched_wf_same_view[OF wf] by simp
  have "sc_policy s' = FCFS \<and> running s' @ waiting s' = running s @ waiting s \<and>
    (case nxt of
       None \<Rightarrow> running s' = take idx (running s) \<and> sa_num_scheduled acc' = sa_num_scheduled acc
     | Some i \<Rightarrow> i = Suc idx \<and> take (Suc idx) (running s') = take (Suc idx) (running s) \<and>
       (sa_num_scheduled acc' = sa_num_scheduled acc \<or>
        (\<exists>n. sa_num_scheduled acc' = dict_set ?rid n (sa_num_scheduled acc))))"
    using sr
  proof (cases rule: schedule_running_cases)
    case (skip e)
    then show ?thesis using po by simp
  next
    case (stop req inputs n eb e idx1)
    have rn: "running (s\<lparr>sc_enc := e\<rparr>) = take idx (running s) @ ?rid # drop (Suc idx) (running s)" using sp by simp
    have po': "sc_policy (s\<lparr>sc_enc := e\<rparr>) = FCFS" using po by simp
    note a = fcfs_alloc_or_preempt[OF stop(5) po' wfe rn]
    have "sc_policy s' = FCFS \<and> running s' @ waiting s' = running s @ waiting s" using a[simplified] by blast
    moreover have "running s' = take idx (running s)" using a by simp
    moreover have "sa_num_scheduled acc' = sa_num_scheduled acc"
    proof -
      obtain vs where "acc' = acc\<lparr>sa_preempted := sa_preempted acc @ rev vs\<rparr>" using a by blast
      then show ?thesis by simp
    qed
    ultimately show ?thesis using stop(6) by force
  next
    case (go req inputs n eb e blks idx1 acc1 s2)
    have rn: "running (s\<lparr>sc_enc := e\<rparr>) = take idx (running s) @ ?rid # drop (Suc idx) (running s)" using sp by simp
    have po': "sc_policy (s\<lparr>sc_enc := e\<rparr>) = FCFS" using po by simp
    note a = fcfs_alloc_or_preempt[OF go(5) po' wfe rn]
    obtain vs where acc1: "acc1 = acc\<lparr>sa_preempted := sa_preempted acc @ rev vs\<rparr>" using a by blast
    obtain zs where zs: "running s2 = take idx (running s) @ ?rid # zs" using a by auto
    define acc2 where "acc2 = take_budget ?rid (nat n) blks (acc1\<lparr>sa_running := sa_running acc1 @ [?rid]\<rparr>)"
    obtain acc3 s3 where t: "take_spec_tokens req (nat n) (acc2, s2) = (acc3, s3)" by (meson surj_pair)
    note g = go(6)[folded acc2_def, unfolded t]
    have s3: "running s3 = running s2" "waiting s3 = waiting s2" "sc_policy s3 = sc_policy s2"
      using t by (auto simp: take_spec_tokens_def Let_def split: if_splits)
    have s': "running s' = running s2" "waiting s' = waiting s2" "sc_policy s' = sc_policy s2"
      using same_view_schedule_encoder[OF g] s3 by (simp_all add: same_view_def same_lists_def)
    have "take (Suc idx) (running s2) = take (Suc idx) (running s)"
      using zs idx by (simp add: take_Suc_conv_app_nth)
    moreover have "sa_num_scheduled acc' = dict_set ?rid (nat n) (sa_num_scheduled acc)"
      using schedule_encoder_acc(4)[OF g] take_spec_acc(4)[OF t] acc1 by (simp add: acc2_def take_budget_def)
    moreover have "sc_policy s2 = FCFS" "running s2 @ waiting s2 = running s @ waiting s" "idx1 = idx" using a by simp_all
    ultimately show ?thesis using s' go(7) by auto
  qed
  then show "sc_policy s' = FCFS" "running s' @ waiting s' = running s @ waiting s"
    "nxt = None \<Longrightarrow> running s' = take idx (running s) \<and> sa_num_scheduled acc' = sa_num_scheduled acc"
    "nxt = Some i \<Longrightarrow> i = Suc idx \<and> take (Suc idx) (running s') = take (Suc idx) (running s) \<and>
       (sa_num_scheduled acc' = sa_num_scheduled acc \<or>
        (\<exists>n. sa_num_scheduled acc' = dict_set (running s ! idx) n (sa_num_scheduled acc)))"
    by (simp_all split: option.splits)
qed

lemma fcfs_running_loop:
  "running_loop idx acc s = Inr (acc', s') \<Longrightarrow> sc_policy s = FCFS \<Longrightarrow> sched_wf s \<Longrightarrow>
     running s' @ waiting s' = running s @ waiting s \<and> take idx (running s') = take idx (running s) \<and>
     (\<forall>r \<in> set (take idx (running s)). map_of (sa_num_scheduled acc') r = map_of (sa_num_scheduled acc) r)"
proof (induction "length (running s) - idx" arbitrary: idx acc s rule: less_induct)
  case less
  note a = less.prems(1)[unfolded running_loop.simps[of idx acc s]]
  show ?case
  proof (cases "idx < length (running s) \<and> sa_budget acc > 0")
    case True
    note a = a[unfolded if_P[OF True]]
    obtain x where x: "schedule_running idx acc s = Inr x" using a by (rule rbind_InrE) (rule that)
    obtain nxt acc1 s1 where xe: "x = (nxt, acc1, s1)" by (cases x)
    note sr = x[unfolded xe] and a = a[unfolded x xe rbind_simps prod.case]
    have idx: "idx < length (running s)" using True by simp
    note f = fcfs_schedule_running[OF sr less.prems(2,3) idx]
    have w1: "sched_wf s1" using schedule_running_wf[OF sr less.prems(3) idx] by simp
    show ?thesis
    proof (cases nxt)
      case None
      then show ?thesis using a f(2,3) by simp
    next
      case (Some i)
      note g = f(4)[OF Some]
      have i: "i = Suc idx" using g by simp
      have lt: "length (running s1) - Suc idx < length (running s) - idx"
        using schedule_running_running[OF sr[unfolded Some i] idx] .
      have "running_loop (Suc idx) acc1 s1 = Inr (acc', s')" using a Some i by simp
      note ih = less.hyps[OF lt this f(1) w1]
      have tk: "take (Suc idx) (running s') = take (Suc idx) (running s)" using ih g by simp
      then have "take idx (running s') = take idx (running s)" by (metis min.absorb1 lessI less_imp_le take_take)
      moreover have "map_of (sa_num_scheduled acc1) r = map_of (sa_num_scheduled acc) r" if "r \<in> set (take idx (running s))" for r
      proof -
        have "r \<noteq> running s ! idx"
          using that sched_wf_distinct(2)[OF less.prems(3)] idx by (auto simp: in_set_conv_nth nth_eq_iff_index_eq)
        then show ?thesis using g by auto
      qed
      moreover have "set (take idx (running s)) \<subseteq> set (take (Suc idx) (running s1))"
        using g set_take_subset_set_take[of idx "Suc idx" "running s"] by simp
      ultimately show ?thesis using ih f(2) by auto
    qed
  qed (use a in auto)
qed

lemma fcfs_first_served:
  assumes po: "sc_policy s = FCFS" and wf: "sched_wf s" and r: "running s = r # rs" "get_request s r = Some req"
    and sk: "\<not> skip_running s req" and tk: "running_tokens req (initial_acc s) s = Inr (inputs, n, eb, s1)" "0 < n"
    and rl: "running_loop 0 (initial_acc s) s = Inr (acc', s')"
  shows "(\<exists>zs. running s' = r # zs \<and> map_of (sa_num_scheduled acc') r = Some (nat n)) \<or>
    (running s' = [] \<and> waiting s' = running s @ waiting s \<and> lacks_blocks s1 [] r (nat n))"
proof -
  have b: "0 < sa_budget (initial_acc s)"
    using running_tokens_budget[OF tk(1) sched_wf_request(6)[OF wf r(2)] tk(2)] tk(2) by simp
  obtain e where e: "s1 = s\<lparr>sc_enc := e\<rparr>" using running_tokens_frame[OF tk(1)] by (elim exE)
  have c: "0 < length (running s) \<and> 0 < sa_budget (initial_acc s)" using r(1) b by simp
  note a = rl[unfolded running_loop.simps[of 0] if_P[OF c]]
  obtain x where x: "schedule_running 0 (initial_acc s) s = Inr x" using a by (rule rbind_InrE) (rule that)
  obtain nxt acc1 s2 where xe: "x = (nxt, acc1, s2)" by (cases x)
  note sr = x[unfolded xe] and a = a[unfolded x xe rbind_simps prod.case]
  have idx: "0 < length (running s)" using r(1) by simp
  note f = fcfs_schedule_running[OF sr po wf idx]
  have w2: "sched_wf s2" using schedule_running_wf[OF sr wf idx] by simp
  have n: "n \<noteq> 0" "\<not> n < 0" and hd: "running s ! 0 = r" using r(1) tk(2) by simp_all
  note u = sr[unfolded schedule_running_def Let_def hd r(2) option.case if_not_P[OF sk] tk(1) rbind_simps prod.case
      if_not_P[OF n(1)] if_not_P[OF n(2)]]
  obtain y where y: "alloc_or_preempt r (nat n) 0 (initial_acc s) s1 = Inr y" using u by (rule rbind_InrE) (rule that)
  obtain bl idx1 acc2 s3 where ye: "y = (bl, idx1, acc2, s3)" by (cases y)
  note u = u[unfolded y ye rbind_simps prod.case]
  have rn: "running s1 = [] @ r # rs" and po': "sc_policy s1 = FCFS" and wfe: "sched_wf s1"
    using r(1) po e sched_wf_same_view[OF wf] by simp_all
  note al = fcfs_alloc_or_preempt[OF y[unfolded ye] po' wfe rn]
  show ?thesis
  proof (cases bl)
    case None
    have q: "nxt = None" "s2 = s3" using u[unfolded None option.case] by simp_all
    have "lacks_blocks s1 [] r (nat n)" "running s2 = []" using al None q(2) by simp_all
    moreover have "s' = s2" using a q(1) by simp
    ultimately show ?thesis using f(2) by simp
  next
    case (Some bk)
    define acc3 where "acc3 = take_budget r (nat n) bk (acc2\<lparr>sa_running := sa_running acc2 @ [r]\<rparr>)"
    note u = u[unfolded Some option.case, folded acc3_def]
    obtain acc4 s4 where t: "take_spec_tokens req (nat n) (acc3, s3) = (acc4, s4)" by (meson surj_pair)
    obtain z where z: "schedule_encoder_inputs req inputs eb (acc4, s4) = Inr z"
      using u unfolding t by (rule rbind_InrE) (rule that)
    obtain acc5 s5 where ze: "z = (acc5, s5)" by (cases z)
    have q: "nxt = Some (idx1 + 1)" "acc1 = acc5" using u[unfolded t z ze rbind_simps prod.case] by simp_all
    obtain vs where acc2: "acc2 = (initial_acc s)\<lparr>sa_preempted := sa_preempted (initial_acc s) @ rev vs\<rparr>" using al by blast
    have m: "map_of (sa_num_scheduled acc1) r = Some (nat n)"
      using schedule_encoder_acc(4)[OF z[unfolded ze]] take_spec_acc(4)[OF t] q(2) by (simp add: acc3_def take_budget_def)
    have i: "take 1 (running s2) = [r]" "idx1 = 0" using f(4)[OF q(1)] r(1) by simp_all
    have "running_loop 1 acc1 s2 = Inr (acc', s')" using a q(1) i(2) by simp
    note l = fcfs_running_loop[OF this f(1) w2, unfolded i(1)]
    have "map_of (sa_num_scheduled acc') r = Some (nat n)" using l m by simp
    moreover have "\<exists>zs. running s' = r # zs" using l by (cases "running s'") simp_all
    ultimately show ?thesis by blast
  qed
qed

end
