(* ===== verification/Engine_Properties.thy ===== *)
theory Engine_Properties
  imports Engine_Example Sched_Progress
begin

text \<open>
  The properties of the scheduler and the engine, each with an application to the engine of
  \<open>Engine_Example\<close>.
\<close>

section \<open>Reachable engines\<close>

lemma example_reach: "engine_reach example_engine"
proof -
  let ?ex = "example_executor"
  let ?a = "example_request ''a'' [1, 2, 3]" and ?b = "example_request ''b'' [4, 5, 6]"
  define e0 where "e0 = example_engine\<lparr>ec_scheduler := start_scheduler (example_scheduler), ec_aborts_queue := [], ec_batch_queue := []\<rparr>"
  have arr: "arrives ?a" "arrives ?b" by (simp_all add: arrives_def example_request_def plain_request_def)
  have "engine_reach e0"
    using engine_reach.start[of "example_engine\<lparr>ec_scheduler := example_scheduler\<rparr>"] by (simp add: e0_def)
  moreover obtain s1 where s1: "add_request ?a (start_scheduler example_scheduler) = Inr s1" "add_request ?b s1 = Inr two_waiting"
    using two_waiting_added by (rule rbind_InrE) (rule that)
  have p: "\<not> is_pooling ?a" "\<not> is_pooling ?b" "\<not> abort_immediately ?a" "\<not> abort_immediately ?b"
    by (simp_all add: example_request_def plain_request_def)
  have "engine_add_request ?ex ?a e0 = Inr (e0\<lparr>ec_scheduler := s1\<rparr>)"
    using s1(1) p by (simp add: engine_add_request_def with_scheduler_def e0_def)
  moreover have "engine_add_request ?ex ?b (e0\<lparr>ec_scheduler := s1\<rparr>) = Inr example_engine"
    using s1(2) p by (simp add: engine_add_request_def with_scheduler_def e0_def example_engine_def)
  ultimately show ?thesis using engine_reach.add arr by blast
qed



text \<open>
  C15. The limits of a step.  When both loops of a step on a reachable scheduler return, the assertions that
  follow them hold: the budget was not exceeded, no more requests run than allowed, and every scheduled
  request is running.
\<close>

theorem step_assertions_hold:
  assumes "engine_reach e" "s = (ec_scheduler e)\<lparr>current_step := k, sc_kv := km\<rparr>"
    "running_loop 0 (initial_acc s) s = Inr (acc1, s1)" "schedule_all_waiting g acc1 s1 = Inr (acc2, s2)"
  shows "check_constraints acc2 s2"
proof (rule step_constraints[OF _ assms(3,4)])
  show "sched_wf s"
    unfolding assms(2)
    by (rule sched_wf_same_view[OF engine_reach_wf[OF assms(1)] same_view_trans[OF same_view_updates(6) same_view_updates(1)]])
qed

theorem step_assertions_hold_witness:
  "\<exists>acc s2. schedule_all_waiting example_grammar (initial_acc two_waiting) two_waiting = Inr (acc, s2) \<and>
     sa_num_scheduled acc = [(''a'', 3), (''b'', 1)] \<and> check_constraints acc s2"
proof -
  obtain acc s2 where a: "schedule_all_waiting example_grammar (initial_acc two_waiting) two_waiting = Inr (acc, s2)"
      "sa_num_scheduled acc = [(''a'', 3), (''b'', 1)]"
    using two_waiting_scheduled by blast
  have "two_waiting = (ec_scheduler example_engine)\<lparr>current_step := 0, sc_kv := example_kv\<rparr>"
    by (simp add: example_engine_def two_waiting_def example_scheduler_def)
  moreover have "running_loop 0 (initial_acc two_waiting) two_waiting = Inr (initial_acc two_waiting, two_waiting)"
    by (simp add: running_loop.simps two_waiting_def example_scheduler_def)
  ultimately show ?thesis using step_assertions_hold[OF example_reach _ _ a(1)] a by blast
qed



section \<open>Progress and order\<close>

text \<open>Two running requests: the first has sampled a token, the second still has two tokens of its prompt to compute.\<close>

definition two_running :: scheduler where
  "two_running = example_scheduler\<lparr>
     sc_requests := [(''a'', (example_request ''a'' [1, 2, 3])\<lparr>status := RUNNING, num_computed_tokens := 3,
                               output_token_ids := [7], all_token_ids := [1, 2, 3, 7]\<rparr>),
                     (''b'', (example_request ''b'' [4, 5, 6])\<lparr>status := RUNNING, num_computed_tokens := 1\<rparr>)],
     running := [''a'', ''b'']\<rparr>"

lemma two_running_wf: "sched_wf two_running"
  by (auto simp: sched_wf_def two_running_def example_scheduler_def queued_def get_request_def registered_def fits_def
      example_request_def plain_request_def split: if_splits)

lemmas running_defs = two_running_def example_scheduler_def example_request_def plain_request_def get_request_def
  skip_running_def async_step_not_needed_def running_tokens_def encoder_inputs_for_def has_encoder_inputs_def
  running_new_tokens_def num_tokens_with_spec_def cap_long_prefill_def align_mamba_def initial_acc_def

lemma two_running_loop:
  "\<exists>acc s. running_loop 0 (initial_acc two_running) two_running = Inr (acc, s) \<and>
     sa_num_scheduled acc = [(''a'', 1), (''b'', 2)] \<and> running s = [''a'', ''b''] \<and> waiting s = []"
  by (simp add: running_loop.simps schedule_running_def alloc_or_preempt.simps running_slot_args_def example_allocate
      running_defs take_budget_def take_spec_tokens_def schedule_encoder_inputs_def dict_set_def Let_def)

text \<open>
  C16. Progress of the oldest request.  Under FCFS, if the first running request is due for tokens, a step
  gives it exactly those tokens and keeps it first, unless all running requests were preempted, in their
  order and before the waiting ones, because after all the others were preempted there still were no blocks
  for the first one.
\<close>

theorem oldest_request_served:
  assumes "sc_policy s = FCFS" "sched_wf s" "running s = r # rs" "get_request s r = Some req"
    "\<not> skip_running s req" "running_tokens req (initial_acc s) s = Inr (inputs, n, eb, s1)" "0 < n"
    "running_loop 0 (initial_acc s) s = Inr (acc', s')"
  shows "(\<exists>zs. running s' = r # zs \<and> map_of (sa_num_scheduled acc') r = Some (nat n)) \<or>
    (running s' = [] \<and> waiting s' = running s @ waiting s \<and> lacks_blocks s1 [] r (nat n))"
  by (rule fcfs_first_served[OF assms])

theorem oldest_request_served_witness:
  "\<exists>acc s. running_loop 0 (initial_acc two_running) two_running = Inr (acc, s) \<and>
     (\<exists>zs. running s = ''a'' # zs \<and> map_of (sa_num_scheduled acc) ''a'' = Some (nat 1))"
proof -
  obtain acc s where l: "running_loop 0 (initial_acc two_running) two_running = Inr (acc, s)"
      "running s = [''a'', ''b'']"
    using two_running_loop by blast
  have p: "sc_policy two_running = FCFS" "running two_running = ''a'' # [''b'']"
    by (simp_all add: two_running_def example_scheduler_def)
  obtain req where r: "get_request two_running ''a'' = Some req" "\<not> skip_running two_running req"
      "\<exists>inputs eb s1. running_tokens req (initial_acc two_running) two_running = Inr (inputs, 1, eb, s1)"
    by (simp add: running_defs)
  then obtain inputs eb s1 where t: "running_tokens req (initial_acc two_running) two_running = Inr (inputs, 1, eb, s1)" by blast
  show ?thesis
    using oldest_request_served[OF p(1) two_running_wf p(2) r(1,2) t _ l(1)] l by (intro exI[of _ acc] exI[of _ s]) simp
qed

text \<open>
  C17. Preemption keeps the order.  Under FCFS the running requests followed by the waiting ones are the same
  sequence before and after the loop over the running requests.
\<close>

theorem preemption_keeps_order:
  assumes "running_loop idx acc s = Inr (acc', s')" "sc_policy s = FCFS" "sched_wf s"
  shows "running s' @ waiting s' = running s @ waiting s"
  using fcfs_running_loop[OF assms] by simp

theorem preemption_keeps_order_witness:
  "\<exists>acc s. running_loop 0 (initial_acc two_running) two_running = Inr (acc, s) \<and>
     running s @ waiting s = running two_running @ waiting two_running"
proof -
  obtain acc s where l: "running_loop 0 (initial_acc two_running) two_running = Inr (acc, s)"
    using two_running_loop by blast
  have "sc_policy two_running = FCFS" by (simp add: two_running_def example_scheduler_def)
  from preemption_keeps_order[OF l this two_running_wf] l show ?thesis by blast
qed

end
