(* ===== verification/Manager_Ledger.thy ===== *)
theory Manager_Ledger
  imports Single_Type_Manager
begin

text \<open>
  Block ownership under the operations of a KV-cache manager.  The ledger maps a group id and a request id
  to the block table of the request; the lemmas say that an operation of the manager returns, changes the
  row of its own request only, and keeps the ledger in agreement with the reference counts of the
  pool.  They rest on the facts of the interface \<open>ref_counted_pool\<close> for the pool (\<open>bp\<close>).
\<close>

section \<open>The ledger of a system of managers\<close>

type_synonym owner = "nat \<times> string"

definition ledger :: "block_pool \<Rightarrow> (owner \<Rightarrow> bref list) \<Rightarrow> bool" where
  "ledger p own \<longleftrightarrow> pool_good p \<and> ledger_ok (usable p) (null_block p) (refs p) own"

definition pool_frame :: "block_pool \<Rightarrow> block_pool \<Rightarrow> bool" where
  "pool_frame p p' \<longleftrightarrow> usable p' = usable p \<and> null_block p' = null_block p"

definition table_of :: "kv_manager \<Rightarrow> (owner \<Rightarrow> bref list) \<Rightarrow> bool" where
  "table_of m own \<longleftrightarrow> (\<forall>r. own (kv_cache_group_id m, r) = blocks_of m r)"

definition same_manager :: "string \<Rightarrow> kv_manager \<Rightarrow> kv_manager \<Rightarrow> bool" where
  "same_manager r m m' \<longleftrightarrow>
     mgr_class m' = mgr_class m \<and> mgr_spec m' = mgr_spec m \<and> mgr_block_size m' = mgr_block_size m \<and>
     kv_cache_group_id m' = kv_cache_group_id m \<and> mgr_enable_caching m' = mgr_enable_caching m \<and>
     scheduler_block_size m' = scheduler_block_size m \<and>
     (\<forall>s. s \<noteq> r \<longrightarrow> blocks_of m' s = blocks_of m s \<and> num_cached_block m' s = num_cached_block m s)"

abbreviation row :: "(owner \<Rightarrow> bref list) \<Rightarrow> kv_manager \<Rightarrow> string \<Rightarrow> bref list \<Rightarrow> owner \<Rightarrow> bref list" where
  "row own m r bs \<equiv> own((kv_cache_group_id m, r) := bs)"

lemma pool_frame_trans: "pool_frame p p' \<Longrightarrow> pool_frame p' p'' \<Longrightarrow> pool_frame p p''"
  by (simp add: pool_frame_def)

lemma pool_frame_refl [simp]: "pool_frame p p"
  by (simp add: pool_frame_def)

lemma same_manager_refl [simp]: "same_manager r m m"
  by (simp add: same_manager_def)

lemma same_manager_trans: "same_manager r m m' \<Longrightarrow> same_manager r m' m'' \<Longrightarrow> same_manager r m m''"
  by (simp add: same_manager_def)

lemma table_of_row:
  "table_of m own \<Longrightarrow> same_manager r m m' \<Longrightarrow> table_of m' (row own m r (blocks_of m' r))"
  by (simp add: table_of_def same_manager_def)

lemma table_of_other:
  "table_of m own \<Longrightarrow> kv_cache_group_id m \<noteq> g \<Longrightarrow> table_of m (own((g, r) := bs))"
  by (simp add: table_of_def)

lemma row_same: "table_of m own \<Longrightarrow> row own m r (blocks_of m r) = own"
  by (simp add: table_of_def fun_upd_idem)

lemma pool_good_is_null: "pool_good p \<Longrightarrow> is_null (heap p b) \<longleftrightarrow> b = null_block p"
  by (auto simp: pool_good_def pool_ok_def pool_inv_def)

lemma ledger_holding: "ledger p own \<Longrightarrow> holding_ok (usable p) (null_block p) (own x)"
  by (cases x) (simp add: ledger_def ledger_ok_def)

lemma blocks_of_simps [simp]:
  "blocks_of (set_blocks r bs m) s = (if s = r then bs else blocks_of m s)"
  "blocks_of (entry r m) s = blocks_of m s"
  "blocks_of (drop_request r m) s = (if s = r then [] else blocks_of m s)"
  "blocks_of (record_new_ids ns p m) s = blocks_of m s"
  "blocks_of (m\<lparr>num_cached_block := f\<rparr>) s = blocks_of m s"
  "blocks_of (m\<lparr>allocated_block_reqs := f2\<rparr>) s = blocks_of m s"
  "blocks_of (m\<lparr>last_state_block_idx := f3\<rparr>) s = blocks_of m s"
  "blocks_of (m\<lparr>cached_blocks_this_step := f4\<rparr>) s = blocks_of m s"
  by (auto simp: blocks_of_def set_blocks_def entry_def drop_request_def record_new_ids_def)

lemma same_manager_updates [simp]:
  "same_manager r m (set_blocks r bs m') = same_manager r m m'"
  "same_manager r m (entry r m') = same_manager r m m'"
  "same_manager r m (drop_request r m') = same_manager r m m'"
  "same_manager r m (record_new_ids ns p m') = same_manager r m m'"
  "same_manager r m (m'\<lparr>allocated_block_reqs := f2\<rparr>) = same_manager r m m'"
  "same_manager r m (m'\<lparr>last_state_block_idx := f3\<rparr>) = same_manager r m m'"
  "same_manager r m (m'\<lparr>cached_blocks_this_step := f4\<rparr>) = same_manager r m m'"
  "same_manager r m (m'\<lparr>num_cached_block := (num_cached_block m')(r := k)\<rparr>) = same_manager r m m'"
  by (auto simp: same_manager_def set_blocks_def entry_def drop_request_def record_new_ids_def
        blocks_of_def split: if_splits)

lemma count_list_rev [simp]: "count_list (rev xs) x = count_list xs x"
  by (induction xs) auto

lemma count_list_filter: "count_list (filter P xs) x = (if P x then count_list xs x else 0)"
  by (induction xs) auto

lemma holding_ok_rev [simp]: "holding_ok okb nul (rev l) = holding_ok okb nul l"
  by (rule holding_ok_mset) simp

lemma holding_ok_filter: "holding_ok okb nul l \<Longrightarrow> holding_ok okb nul (filter P l)"
  using distinct_filter[of "filter (\<lambda>b. b \<noteq> nul) l" P]
  by (auto simp: holding_ok_def conj_commute)

section \<open>Releasing\<close>

text \<open>Giving back a part of a request's table.\<close>

lemma release_part:
  assumes led: "ledger p own" and l: "holding_ok (usable p) (null_block p) l"
    and bs: "holding_ok (usable p) (null_block p) bs"
    and cnt: "\<forall>b. usable p b \<longrightarrow> count_list (own x) b = count_list l b + count_list bs b"
  shows "\<exists>p'. free_blocks bs front p = Inr p' \<and> ledger p' (own(x := l)) \<and> pool_frame p p' \<and>
    num_free_blocks p \<le> num_free_blocks p' \<and> (\<forall>b. refs p' b = refs p b - int (count_list bs b))"
proof -
  have good: "pool_good p" and lo: "ledger_ok (usable p) (null_block p) (refs p) own"
    using led by (simp_all add: ledger_def)
  have "\<exists>p'. free_blocks bs front p = Inr p' \<and> pool_good p' \<and> usable p' = usable p \<and>
    null_block p' = null_block p \<and> ledger_ok (usable p') (null_block p') (refs p') (own(x := l)) \<and>
    num_free_blocks p \<le> num_free_blocks p' \<and> (\<forall>b. refs p' b = refs p b - int (count_list bs b))"
    by (rule bp.ledger_release[OF good lo l bs]) (simp add: cnt)
  then obtain p' where
    "free_blocks bs front p = Inr p'" "pool_good p'" "usable p' = usable p" "null_block p' = null_block p"
    "ledger_ok (usable p') (null_block p') (refs p') (own(x := l))" "num_free_blocks p \<le> num_free_blocks p'"
    "\<forall>b. refs p' b = refs p b - int (count_list bs b)" by (elim exE conjE)
  then show ?thesis by (intro exI[of _ p']) (simp add: ledger_def pool_frame_def)
qed

lemma release_all:
  assumes led: "ledger p own" and m: "mset bs = mset (own x)"
  shows "\<exists>p'. free_blocks bs front p = Inr p' \<and> ledger p' (own(x := [])) \<and> pool_frame p p' \<and>
    num_free_blocks p \<le> num_free_blocks p' \<and> (\<forall>b. refs p' b = refs p b - int (count_list bs b))"
proof (rule release_part[OF led])
  show "holding_ok (usable p) (null_block p) bs"
    using ledger_holding[OF led, of x] holding_ok_mset[OF m] by simp
  show "\<forall>b. usable p b \<longrightarrow> count_list (own x) b = count_list [] b + count_list bs b"
    using m by (metis add_0 count_list.simps(1) count_mset)
qed simp

lemma free_request_ledger:
  assumes led: "ledger p own" and tab: "table_of m own"
  shows "\<exists>m' p'. free_request r (m, p) = Inr (m', p') \<and> same_manager r m m' \<and> pool_frame p p' \<and>
    blocks_of m' r = [] \<and> num_cached_block m' r = None \<and> req_to_blocks m' r = None \<and>
    ledger p' (row own m r []) \<and> num_free_blocks p \<le> num_free_blocks p'"
proof -
  let ?x = "(kv_cache_group_id m, r)"
  have own: "own ?x = blocks_of m r" using tab by (simp add: table_of_def)
  obtain p1 where p1: "free_blocks (rev (blocks_of m r)) False p = Inr p1" "ledger p1 (row own m r [])"
    "pool_frame p p1" "num_free_blocks p \<le> num_free_blocks p1"
    using release_all[OF led, of "rev (blocks_of m r)" ?x False] own by (auto elim: exE)
  show ?thesis
  proof (cases "mgr_class m = SlidingWindowManager")
    case False
    then show ?thesis using p1
      by (cases "mgr_class m") (simp_all add: free_request_def Let_def drop_request_def same_manager_def blocks_of_def)
  next
    case True
    let ?bs = "rev (blocks_of m r)"
    let ?c = "filter (\<lambda>b. block_hash (heap p b) \<noteq> None) ?bs"
    let ?u = "filter (\<lambda>b. block_hash (heap p b) = None) ?bs"
    have h: "holding_ok (usable p) (null_block p) ?bs" using ledger_holding[OF led, of ?x] own by simp
    have cnt: "\<forall>b. usable p b \<longrightarrow> count_list (own ?x) b = count_list ?u b + count_list ?c b"
      unfolding own count_list_filter by simp
    from release_part[OF led holding_ok_filter[OF h] holding_ok_filter[OF h] cnt, of False]
    obtain q1 where q1: "free_blocks ?c False p = Inr q1" "ledger q1 (row own m r ?u)" "pool_frame p q1"
      "num_free_blocks p \<le> num_free_blocks q1" by (elim exE conjE)
    obtain q2 where q2: "free_blocks ?u True q1 = Inr q2" "ledger q2 ((row own m r ?u)(?x := []))"
      "pool_frame q1 q2" "num_free_blocks q1 \<le> num_free_blocks q2"
      using release_all[OF q1(2), of ?u ?x True] by auto
    have "pool_frame p q2" "num_free_blocks p \<le> num_free_blocks q2"
      using pool_frame_trans[OF q1(3) q2(3)] q1(4) q2(4) by simp_all
    moreover have "ledger q2 (row own m r [])" using q2(2) by simp
    moreover have "row own m r [] = own" if "blocks_of m r = []" using own that by (metis fun_upd_triv)
    ultimately show ?thesis using True led q1(1) q2(1)
      by (cases "blocks_of m r = []")
         (simp_all add: free_request_def Let_def drop_request_def same_manager_def blocks_of_def)
  qed
qed
section \<open>Sharing and allocating\<close>

lemma share_part:
  assumes led: "ledger p own" and bs: "\<forall>b \<in> set bs. b = null_block p \<or> usable p b"
    and l: "holding_ok (usable p) (null_block p) l"
    and cnt: "\<forall>b. usable p b \<longrightarrow> count_list l b = count_list (own x) b + count_list bs b"
  shows "\<exists>p'. touch bs p = Inr p' \<and> ledger p' (own(x := l)) \<and> pool_frame p p' \<and>
    num_free_blocks p - int (length (filter (\<lambda>b. usable p b \<and> refs p b = 0) bs)) \<le> num_free_blocks p' \<and>
    (\<forall>b. refs p b \<le> refs p' b)"
proof -
  have good: "pool_good p" and lo: "ledger_ok (usable p) (null_block p) (refs p) own"
    using led by (simp_all add: ledger_def)
  have "\<exists>p'. touch bs p = Inr p' \<and> pool_good p' \<and> usable p' = usable p \<and> null_block p' = null_block p \<and>
    num_free_blocks p - int (length (filter (\<lambda>b. usable p b \<and> refs p b = 0) bs)) \<le> num_free_blocks p' \<and>
    (\<forall>b. refs p b \<le> refs p' b) \<and> ledger_ok (usable p') (null_block p') (refs p') (own(x := l))"
    by (rule bp.ledger_share[OF good lo bs l]) (simp add: cnt)
  then obtain p' where "touch bs p = Inr p'" "pool_good p'" "usable p' = usable p"
    "null_block p' = null_block p"
    "num_free_blocks p - int (length (filter (\<lambda>b. usable p b \<and> refs p b = 0) bs)) \<le> num_free_blocks p'"
    "\<forall>b. refs p b \<le> refs p' b" "ledger_ok (usable p') (null_block p') (refs p') (own(x := l))"
    by (elim exE conjE)
  then show ?thesis by (intro exI[of _ p']) (simp add: ledger_def pool_frame_def)
qed

lemma alloc_part:
  assumes led: "ledger p own" and n: "int n \<le> num_free_blocks p"
  shows "\<exists>bs p'. get_new_blocks (int n) p = Inr (bs, p') \<and> ledger p' (own(x := own x @ bs)) \<and>
    pool_frame p p' \<and> length bs = n \<and> distinct bs \<and> (\<forall>b \<in> set bs. usable p b \<and> (\<forall>y. b \<notin> set (own y))) \<and>
    num_free_blocks p' = num_free_blocks p - int n \<and> (\<forall>b. refs p b \<le> refs p' b)"
proof -
  have good: "pool_good p" and lo: "ledger_ok (usable p) (null_block p) (refs p) own"
    using led by (simp_all add: ledger_def)
  from bp.ledger_alloc[OF good lo n, of x] obtain bs p' where "get_new_blocks (int n) p = Inr (bs, p')"
    "pool_good p'" "usable p' = usable p" "null_block p' = null_block p" "length bs = n" "distinct bs"
    "\<forall>b \<in> set bs. usable p b \<and> (\<forall>y. b \<notin> set (own y))" "num_free_blocks p' = num_free_blocks p - int n"
    "\<forall>b. refs p b \<le> refs p' b" "ledger_ok (usable p') (null_block p') (refs p') (own(x := own x @ bs))"
    by (elim exE conjE)
  then show ?thesis by (intro exI[of _ bs] exI[of _ p']) (simp add: ledger_def pool_frame_def)
qed

text \<open>
  Making a request share a prefix of a table that was read before: the request's own blocks are
  given back first, and the prefix is taken even if that has put its blocks into the free list.
\<close>

lemma alias_snapshot_ledger:
  assumes led: "ledger p own" and tab: "table_of m own"
    and src: "holding_ok (usable p) (null_block p) src" and n: "n \<le> length src"
  shows "\<exists>m' p'. alias_request_blocks_from_snapshot dst src c (int n) (m, p) = Inr (m', p') \<and>
    same_manager dst m m' \<and> pool_frame p p' \<and> req_to_blocks m' dst = Some (take n src) \<and>
    num_cached_block m' dst = Some (min c n) \<and> ledger p' (row own m dst (take n src))"
proof -
  let ?x = "(kv_cache_group_id m, dst)"
  have own: "own ?x = blocks_of m dst" using tab by (simp add: table_of_def)
  obtain p1 where p1: "(if blocks_of m dst = [] then Inr p else free_blocks (rev (blocks_of m dst)) False p) = Inr p1"
    "ledger p1 (own(?x := []))" "pool_frame p p1"
  proof (cases "blocks_of m dst = []")
    case True
    then show thesis using that[of p] led own by (metis fun_upd_triv pool_frame_refl)
  next
    case False
    from release_all[OF led, of "rev (blocks_of m dst)" ?x False] show thesis
      using that False own by auto
  qed
  let ?al = "take n src"
  let ?bs = "filter (\<lambda>b. \<not> is_null (heap p1 b)) ?al"
  have fr: "usable p1 = usable p" "null_block p1 = null_block p" using p1(3) by (simp_all add: pool_frame_def)
  have nul: "is_null (heap p1 b) \<longleftrightarrow> b = null_block p1" for b
    using p1(2) pool_good_is_null by (simp add: ledger_def)
  have hold: "holding_ok (usable p1) (null_block p1) ?al" unfolding fr by (rule holding_ok_take[OF src])
  have sub: "\<forall>b \<in> set ?bs. b = null_block p1 \<or> usable p1 b" using hold by (auto simp: holding_ok_def)
  have nu: "\<not> usable p1 (null_block p1)" using p1(2) pool_good_null by (simp add: ledger_def)
  have "\<forall>b. usable p1 b \<longrightarrow> count_list ?al b = count_list ((own(?x := [])) ?x) b + count_list ?bs b"
    using nu by (auto simp: count_list_filter nul)
  from share_part[OF p1(2) sub hold this] obtain p2 where p2: "touch ?bs p1 = Inr p2"
    "ledger p2 ((own(?x := []))(?x := ?al))" "pool_frame p1 p2" by (elim exE conjE)
  then show ?thesis using p1(1) n pool_frame_trans[OF p1(3) p2(3)]
    by (simp add: alias_request_blocks_from_snapshot_def Let_def set_blocks_def same_manager_def blocks_of_def)
qed

section \<open>Skipped blocks\<close>

lemma skip_loop_shape:
  assumes "skip_loop n bs p = (c, u, bs')" "n \<le> length bs"
  shows "length bs' = length bs \<and> null_block p \<notin> set c \<union> set u \<and>
    (\<forall>i. n \<le> i \<longrightarrow> i < length bs \<longrightarrow> bs' ! i = bs ! i) \<and>
    (\<forall>b. b \<noteq> null_block p \<longrightarrow> count_list bs b = count_list bs' b + count_list c b + count_list u b)"
  using assms
proof (induction n arbitrary: bs c u bs')
  case (Suc n)
  show ?case
  proof (cases "bs ! n = null_block p")
    case True
    then show ?thesis using Suc.prems by simp
  next
    case False
    let ?bs = "bs[n := null_block p]"
    obtain c1 u1 bs1 where sk: "skip_loop n ?bs p = (c1, u1, bs1)" by (cases "skip_loop n ?bs p")
    have IH: "length bs1 = length bs" "null_block p \<notin> set c1 \<union> set u1"
      "\<forall>i. n \<le> i \<longrightarrow> i < length bs \<longrightarrow> bs1 ! i = ?bs ! i"
      "\<forall>b. b \<noteq> null_block p \<longrightarrow> count_list ?bs b = count_list bs1 b + count_list c1 b + count_list u1 b"
      using Suc.IH[OF sk] Suc.prems(2) by auto
    have cnt: "count_list bs b = count_list ?bs b + (if b = bs ! n then 1 else 0)" if "b \<noteq> null_block p" for b
    proof -
      have n: "n < length bs" using Suc.prems(2) by simp
      have "bs = take n bs @ bs ! n # drop (Suc n) bs" using n by (rule id_take_nth_drop)
      then have "count_list bs b = count_list (take n bs @ bs ! n # drop (Suc n) bs) b" by simp
      moreover have "?bs = take n bs @ null_block p # drop (Suc n) bs"
        using n by (simp add: upd_conv_take_nth_drop)
      ultimately show ?thesis using that by simp
    qed
    have r: "bs' = bs1 \<and> (c, u) = (if block_hash (heap p (bs ! n)) = None then (c1, bs ! n # u1) else (bs ! n # c1, u1))"
      using Suc.prems(1) False sk by (auto split: if_splits)
    show ?thesis using r IH False cnt by (auto split: if_splits)
  qed
qed auto

lemma remove_skipped_ledger:
  assumes led: "ledger p own" and tab: "table_of m own"
  shows "\<exists>m' p'. base_remove_skipped_blocks r t (m, p) = Inr (m', p') \<and> same_manager r m m' \<and>
    pool_frame p p' \<and> ledger p' (row own m r (blocks_of m' r)) \<and>
    length (blocks_of m' r) = length (blocks_of m r) \<and> num_cached_block m' = num_cached_block m \<and>
    num_free_blocks p \<le> num_free_blocks p' \<and> (\<forall>b. refs p' b \<le> refs p b)"
proof (cases "get_num_skipped_tokens m (int t) \<le> 0")
  case True
  then show ?thesis using led row_same[OF tab] by (simp add: base_remove_skipped_blocks_def)
next
  case False
  let ?x = "(kv_cache_group_id m, r)"
  let ?bs = "blocks_of m r"
  let ?n = "min (nat (get_num_skipped_tokens m (int t) div int (mgr_block_size m))) (length ?bs)"
  have own: "own ?x = ?bs" using tab by (simp add: table_of_def)
  obtain c u bs' where sk: "skip_loop ?n ?bs p = (c, u, bs')" by (cases "skip_loop ?n ?bs p")
  note sh = skip_loop_shape[OF sk]
  have h: "holding_ok (usable p) (null_block p) ?bs" using ledger_holding[OF led, of ?x] own by simp
  have cnt: "count_list ?bs b = count_list bs' b + count_list c b + count_list u b" if "b \<noteq> null_block p" for b
    using sh that by simp
  have hc: "holding_ok (usable p) (null_block p) c" "holding_ok (usable p) (null_block p) u"
    "holding_ok (usable p) (null_block p) bs'" "holding_ok (usable p) (null_block p) (u @ bs')"
    by (rule holding_ok_le[OF h], simp add: cnt)+
  have nu: "\<not> usable p (null_block p)" using led pool_good_null by (simp add: ledger_def)
  have c1: "\<forall>b. usable p b \<longrightarrow> count_list (own ?x) b = count_list (u @ bs') b + count_list c b"
  proof (intro allI impI)
    fix b assume "usable p b"
    then have "b \<noteq> null_block p" using nu by auto
    then show "count_list (own ?x) b = count_list (u @ bs') b + count_list c b" using cnt by (simp add: own)
  qed
  from release_part[OF led hc(4) hc(1) c1, of False] obtain p1 where p1: "free_blocks c False p = Inr p1"
    "ledger p1 (own(?x := u @ bs'))" "pool_frame p p1" "num_free_blocks p \<le> num_free_blocks p1"
    "\<forall>b. refs p1 b = refs p b - int (count_list c b)" by (elim exE conjE)
  have fr: "usable p1 = usable p" "null_block p1 = null_block p" using p1(3) by (simp_all add: pool_frame_def)
  have "\<forall>b. usable p1 b \<longrightarrow> count_list ((own(?x := u @ bs')) ?x) b = count_list bs' b + count_list u b" by simp
  from release_part[OF p1(2) hc(3)[folded fr] hc(2)[folded fr] this, of True] obtain p2 where
    p2: "free_blocks u True p1 = Inr p2" "ledger p2 ((own(?x := u @ bs'))(?x := bs'))" "pool_frame p1 p2"
    "num_free_blocks p1 \<le> num_free_blocks p2" "\<forall>b. refs p2 b = refs p1 b - int (count_list u b)"
    by (elim exE conjE)
  have "base_remove_skipped_blocks r t (m, p) = Inr (set_blocks r bs' m, p2)"
    using False p1(1) p2(1) sk by (simp add: base_remove_skipped_blocks_def Let_def)
  moreover have "length bs' = length ?bs" using sh by simp
  moreover have "num_cached_block (set_blocks r bs' m) = num_cached_block m" by (simp add: set_blocks_def)
  ultimately show ?thesis
    using p1(4,5) p2(2,4,5) pool_frame_trans[OF p1(3) p2(3)] by simp
qed
section \<open>Allocation, as predicted\<close>

text \<open>What the arithmetic of a manager relies on in its configuration.\<close>

definition mgr_wf :: "kv_manager \<Rightarrow> bool" where
  "mgr_wf m \<longleftrightarrow>
     0 < mgr_block_size m \<and>
     (mgr_class m = SlidingWindowManager \<longrightarrow> 0 < sliding_window m) \<and>
     (mgr_class m = ChunkedLocalAttentionManager \<longrightarrow> 0 < attention_chunk_size m)"

lemma skipped_le: "mgr_wf m \<Longrightarrow> get_num_skipped_tokens m (int n) \<le> int n"
  by (cases "mgr_class m")
     (auto simp: mgr_wf_def get_num_skipped_tokens_def zdiv_int[symmetric] simp flip: of_nat_mult)

lemma skipped_blocks_le:
  assumes "mgr_wf m"
  shows "get_num_skipped_tokens m (int n) div int (mgr_block_size m) \<le> int (cdiv n (mgr_block_size m))"
proof -
  have bs: "0 < mgr_block_size m" using assms by (simp add: mgr_wf_def)
  have "get_num_skipped_tokens m (int n) div int (mgr_block_size m) \<le> int n div int (mgr_block_size m)"
    using bs by (intro zdiv_mono1 skipped_le[OF assms]) simp
  also have "\<dots> = int (n div mgr_block_size m)" by (simp add: zdiv_int)
  also have "\<dots> \<le> int (cdiv n (mgr_block_size m))" using div_le_cdiv[OF bs] by simp
  finally show ?thesis .
qed

lemma evictable_le:
  assumes "pool_good p"
  shows "int (length (filter (\<lambda>b. usable p b \<and> refs p b = 0) bs)) \<le> int (get_num_evictable_blocks bs p)"
proof -
  have "\<not> is_null (heap p b)" if "usable p b" for b
    using that pool_good_is_null[OF assms, of b] pool_good_null[OF assms] by auto
  then have "length (filter (\<lambda>b. usable p b \<and> refs p b = 0) bs) \<le> get_num_evictable_blocks bs p"
    unfolding get_num_evictable_blocks_def refs_def
    by (induction bs) auto
  then show ?thesis by simp
qed

lemma evictable_mono:
  assumes "pool_frame p p'" "pool_good p" "pool_good p'" "\<forall>b. refs p b \<le> refs p' b"
    "\<forall>b \<in> set bs. b = null_block p \<or> (usable p b \<and> 0 \<le> refs p b)"
  shows "get_num_evictable_blocks bs p' \<le> get_num_evictable_blocks bs p"
proof -
  have "ref_cnt (heap p b) = 0 \<and> \<not> is_null (heap p b)"
    if "b \<in> set bs" "ref_cnt (heap p' b) = 0" "\<not> is_null (heap p' b)" for b
  proof -
    have "b \<noteq> null_block p" using that(3) pool_good_is_null[OF assms(3), of b] assms(1) by (auto simp: pool_frame_def)
    then have "0 \<le> refs p b" "\<not> is_null (heap p b)"
      using assms(5) that(1) pool_good_is_null[OF assms(2), of b] by auto
    then show ?thesis using assms(4)[rule_format, of b] that(2) by (simp add: refs_def)
  qed
  then show ?thesis unfolding get_num_evictable_blocks_def by (induction bs) auto
qed

text \<open>The number of blocks that a lookup result occupies in the table, the skipped ones included.\<close>

definition hit_len :: "kv_manager \<Rightarrow> bref list \<Rightarrow> nat \<Rightarrow> nat" where
  "hit_len m ncb tot =
     max (nat (get_num_skipped_tokens m (int tot) div int (mgr_block_size m))) (length ncb)"

definition kept_hits :: "kv_manager \<Rightarrow> bref list \<Rightarrow> nat \<Rightarrow> bref list" where
  "kept_hits m ncb tot =
     drop (nat (get_num_skipped_tokens m (int tot) div int (mgr_block_size m))) ncb"

definition extends_external :: "kv_manager \<Rightarrow> nat \<Rightarrow> nat \<Rightarrow> bool" where
  "extends_external m num_local num_ext \<longleftrightarrow>
     (let tot = num_local + num_ext; sk = get_num_skipped_tokens m (int tot)
      in (if sk div int (mgr_block_size m) > 0 then min (int tot - sk) (int num_ext) else int num_ext) > 0)"

definition computed_len :: "kv_manager \<Rightarrow> bref list \<Rightarrow> nat \<Rightarrow> nat \<Rightarrow> nat" where
  "computed_len m ncb num_local num_ext =
     (if extends_external m num_local num_ext
      then max (hit_len m ncb (num_local + num_ext)) (cdiv (num_local + num_ext) (mgr_block_size m))
      else hit_len m ncb (num_local + num_ext))"

lemma computed_ledger:
  assumes led: "ledger p own" and tab: "table_of m own" and wf: "mgr_wf m"
    and cls: "mgr_class m \<noteq> CrossAttentionManager"
    and fresh: "num_cached_block m r = None" "blocks_of m r = []"
    and hits: "holding_ok (usable p) (null_block p) ncb" and caching: "ncb \<noteq> [] \<longrightarrow> mgr_enable_caching m"
    and fit: "length ncb \<le> cdiv (num_local + num_ext) (mgr_block_size m)"
    and free: "int (computed_len m ncb num_local num_ext) - int (hit_len m ncb (num_local + num_ext)) +
      int (get_num_evictable_blocks (kept_hits m ncb (num_local + num_ext)) p) \<le> num_free_blocks p"
  shows "\<exists>m' p'. allocate_new_computed_blocks r ncb num_local num_ext (m, p) = Inr (m', p') \<and>
    same_manager r m m' \<and> pool_frame p p' \<and> ledger p' (row own m r (blocks_of m' r)) \<and>
    length (blocks_of m' r) = computed_len m ncb num_local num_ext \<and>
    num_cached_block m' r = Some (hit_len m ncb (num_local + num_ext)) \<and>
    num_free_blocks p - int (get_num_evictable_blocks (kept_hits m ncb (num_local + num_ext)) p) -
      (int (computed_len m ncb num_local num_ext) - int (hit_len m ncb (num_local + num_ext)))
      \<le> num_free_blocks p' \<and> (\<forall>b. refs p b \<le> refs p' b)"
proof -
  let ?x = "(kv_cache_group_id m, r)"
  define tot where "tot = num_local + num_ext"
  define sk where "sk = get_num_skipped_tokens m (int tot) div int (mgr_block_size m)"
  define ncb' where "ncb' = drop (nat sk) ncb"
  have kept: "kept_hits m ncb (num_local + num_ext) = ncb'"
    by (simp add: kept_hits_def ncb'_def sk_def tot_def)
  define reqb where "reqb = replicate (nat sk) (null_block p) @ ncb'"
  have lr: "length reqb = hit_len m ncb tot"
    by (simp add: reqb_def ncb'_def hit_len_def sk_def max_def)
  have own: "own ?x = []" using tab fresh(2) by (simp add: table_of_def)
  have good: "pool_good p" using led by (simp add: ledger_def)
  have nu: "\<not> usable p (null_block p)" by (rule pool_good_null[OF good])
  have hb: "holding_ok (usable p) (null_block p) ncb'" unfolding ncb'_def by (rule holding_ok_drop[OF hits])
  have hr: "holding_ok (usable p) (null_block p) reqb"
    using hb by (auto simp: reqb_def holding_ok_def)
  have sub: "\<forall>b \<in> set ncb'. b = null_block p \<or> usable p b" using hb by (simp add: holding_ok_def)
  have "\<forall>b. usable p b \<longrightarrow> count_list reqb b = count_list (own ?x) b + count_list ncb' b"
    using nu by (auto simp: reqb_def own count_list_0_iff)
  from share_part[OF led sub hr this] obtain p1 where p1: "touch ncb' p = Inr p1" "ledger p1 (own(?x := reqb))"
    "pool_frame p p1"
    "num_free_blocks p - int (length (filter (\<lambda>b. usable p b \<and> refs p b = 0) ncb')) \<le> num_free_blocks p1"
    "\<forall>b. refs p b \<le> refs p1 b" by (elim exE conjE)
  have av: "num_free_blocks p - int (get_num_evictable_blocks ncb' p) \<le> num_free_blocks p1"
    using p1(4) evictable_le[OF good, of ncb'] by simp
  have t: "(if mgr_enable_caching m then touch ncb' p else py_assert (ncb' = []) (Inr p)) = Inr p1"
    using p1(1) caching by (cases "ncb = []") (auto simp: ncb'_def)
  have ncb_if: "(if sk > 0 then drop (nat sk) ncb else ncb) = ncb'" by (simp add: ncb'_def)
  define m1 where "m1 = (set_blocks r reqb m)\<lparr>num_cached_block := (num_cached_block m)(r \<mapsto> length reqb)\<rparr>"
  have unf: "allocate_new_computed_blocks r ncb num_local num_ext (m, p) =
     (if extends_external m num_local num_ext
      then rbind (get_new_blocks (int (cdiv tot (mgr_block_size m)) - int (length reqb)) p1)
             (\<lambda>(new, p2). Inr (record_new_ids new p2 (set_blocks r (reqb @ new) m1), p2))
      else Inr (m1, p1))"
  proof -
    have g: "(mgr_class m = CrossAttentionManager) = False" "(num_cached_block m r \<noteq> None) = False"
      "(blocks_of m r = []) = True" using cls fresh by simp_all
    show ?thesis
      unfolding allocate_new_computed_blocks_def extends_external_def prod.case Let_def g if_False
        py_assert_simps tot_def[symmetric] sk_def[symmetric] ncb_if t rbind_simps reqb_def[symmetric]
        m1_def[symmetric] by (rule refl)
  qed
  have sm: "same_manager r m m1" and bl: "blocks_of m1 r = reqb" and nc: "num_cached_block m1 r = Some (length reqb)"
    by (auto simp: m1_def same_manager_def set_blocks_def blocks_of_def)
  have le: "length reqb \<le> cdiv tot (mgr_block_size m)"
    unfolding lr hit_len_def using fit skipped_blocks_le[OF wf, of tot] by (simp add: tot_def)
  show ?thesis
  proof (cases "extends_external m num_local num_ext")
    case False
    then have "computed_len m ncb num_local num_ext = hit_len m ncb (num_local + num_ext)"
      by (simp add: computed_len_def)
    then show ?thesis
      using False unf sm bl nc p1(2,3,5) av lr kept by (intro exI[of _ m1] exI[of _ p1]) (simp add: tot_def)
  next
    case True
    define n where "n = cdiv tot (mgr_block_size m) - length reqb"
    have cl: "computed_len m ncb num_local num_ext = length reqb + n"
      using True le lr by (simp add: computed_len_def tot_def n_def)
    have hl: "hit_len m ncb (num_local + num_ext) = length reqb" using lr by (simp add: tot_def)
    have n: "int (cdiv tot (mgr_block_size m)) - int (length reqb) = int n" using le by (simp add: n_def)
    have "int n \<le> num_free_blocks p1" using free av unfolding cl hl kept by simp
    from alloc_part[OF p1(2) this, of ?x] obtain new p2 where new: "get_new_blocks (int n) p1 = Inr (new, p2)"
      "ledger p2 (own(?x := reqb @ new))" "pool_frame p1 p2" "length new = n"
      "num_free_blocks p2 = num_free_blocks p1 - int n" "\<forall>b. refs p1 b \<le> refs p2 b" by auto
    let ?m = "record_new_ids new p2 (set_blocks r (reqb @ new) m1)"
    have "num_cached_block ?m r = Some (length reqb)" using nc by (simp add: record_new_ids_def set_blocks_def)
    moreover have "\<forall>b. refs p b \<le> refs p2 b" using p1(5) new(6) by (meson order_trans)
    moreover have "same_manager r m ?m" using sm by simp
    moreover have "blocks_of ?m r = reqb @ new" by simp
    ultimately show ?thesis
      using True unf n new(1,2,4,5) pool_frame_trans[OF p1(3) new(3)] av cl hl kept
      by (intro exI[of _ ?m] exI[of _ p2]) simp
  qed
qed

lemma base_allocate_ledger:
  assumes led: "ledger p own" and tab: "table_of m own"
    and free: "max 0 (int (cdiv n (mgr_block_size m)) - int (length (blocks_of m r))) \<le> num_free_blocks p"
  shows "\<exists>new m' p'. base_allocate_new_blocks r n (m, p) = Inr (new, m', p') \<and>
    same_manager r m m' \<and> pool_frame p p' \<and> blocks_of m' r = blocks_of m r @ new \<and>
    ledger p' (row own m r (blocks_of m' r)) \<and> num_cached_block m' = num_cached_block m \<and>
    length (blocks_of m' r) = max (length (blocks_of m r)) (cdiv n (mgr_block_size m)) \<and>
    (\<forall>b \<in> set new. usable p b \<and> (\<forall>y. b \<notin> set (own y))) \<and>
    num_free_blocks p' = num_free_blocks p - max 0 (int (cdiv n (mgr_block_size m)) - int (length (blocks_of m r))) \<and>
    (\<forall>b. refs p b \<le> refs p' b)"
proof (cases "cdiv n (mgr_block_size m) \<le> length (blocks_of m r)")
  case True
  have "num_cached_block (entry r m) = num_cached_block m" by (simp add: entry_def set_blocks_def)
  then show ?thesis
    using True led row_same[OF tab] by (simp add: base_allocate_new_blocks_def Let_def max_def)
next
  case False
  let ?x = "(kv_cache_group_id m, r)"
  define k where "k = cdiv n (mgr_block_size m) - length (blocks_of m r)"
  have k: "int (cdiv n (mgr_block_size m)) - int (length (blocks_of m r)) = int k" "0 < k"
    using False by (simp_all add: k_def)
  have own: "own ?x = blocks_of m r" using tab by (simp add: table_of_def)
  have "int k \<le> num_free_blocks p" using free k by simp
  from alloc_part[OF led this, of ?x] obtain new p' where new: "get_new_blocks (int k) p = Inr (new, p')"
    "ledger p' (own(?x := blocks_of m r @ new))" "pool_frame p p'" "length new = k"
    "\<forall>b \<in> set new. usable p b \<and> (\<forall>y. b \<notin> set (own y))"
    "num_free_blocks p' = num_free_blocks p - int k" "\<forall>b. refs p b \<le> refs p' b" unfolding own by auto
  let ?m = "record_new_ids new p' (set_blocks r (blocks_of m r @ new) m)"
  have "num_cached_block ?m = num_cached_block m" by (simp add: record_new_ids_def set_blocks_def)
  moreover have "length (blocks_of m r @ new) = max (length (blocks_of m r)) (cdiv n (mgr_block_size m))"
    using new(4) False by (simp add: k_def)
  ultimately show ?thesis
    using new k by (intro exI[of _ new] exI[of _ ?m] exI[of _ p'])
      (simp add: base_allocate_new_blocks_def Let_def)
qed

text \<open>The prediction of \<^verbatim>\<open>get_num_blocks_to_allocate\<close> for a request that has no blocks yet.\<close>

lemma predict_new_request:
  assumes "num_cached_block m r = None" "blocks_of m r = []"
  shows "base_num_blocks_to_allocate r n ncb tot False m p =
    Inr (max (int (cdiv n (mgr_block_size m)) - int (hit_len m ncb tot)) 0 +
         int (get_num_evictable_blocks (kept_hits m ncb tot) p))"
  using assms by (auto simp: base_num_blocks_to_allocate_def Let_def hit_len_def kept_hits_def max_def
      split: option.splits)

lemma predict_old_request:
  assumes "ncb = []" "num_cached_block m r \<noteq> None"
  shows "base_num_blocks_to_allocate r n ncb tot False m p =
    Inr (max (int (cdiv n (mgr_block_size m)) - int (length (blocks_of m r))) 0)"
  using assms by (auto simp: base_num_blocks_to_allocate_def Let_def split: option.splits)

end
