(* ===== verification/Cache_Lookup.thy ===== *)
theory Cache_Lookup
  imports KV_Coordinator
begin

text \<open>
  The prefix-cache lookups of \<open>Single_Type_Manager\<close> and \<open>KV_Coordinator\<close>.  The lookup for full attention finds
  exactly the longest prefix whose blocks are all in the cache.  Every lookup returns an aligned prefix within
  its limit; so the search over groups of different kinds, which repeats its passes while the common length
  shrinks, ends, and the blocks it returns hold the tokens of the hit.
\<close>

section \<open>Rows of cached blocks\<close>

text \<open>The blocks of one position, one for each group, if all of them are cached.\<close>

definition cached_row :: "block_pool \<Rightarrow> nat list \<Rightarrow> bytes \<Rightarrow> bref list option" where
  "cached_row p gids h =
     those (map (\<lambda>g. get_one_block (h @ to_bytes4 g) (cached_block_hash_to_block p)) gids)"

lemma those_None_iff: "those xs = None \<longleftrightarrow> None \<in> set xs"
  by (induction xs) (auto split: option.splits)

lemma those_Some_iff: "those xs = Some ys \<longleftrightarrow> xs = map Some ys"
  by (induction xs arbitrary: ys) (auto split: option.splits)

lemma get_cached_block_row:
  "\<forall>g \<in> set gids. g < 2 ^ 32 \<Longrightarrow> get_cached_block h gids p = Inr (cached_row p gids h)"
proof (induction gids)
  case (Cons g gids)
  then show ?case
    by (cases "get_one_block (h @ to_bytes4 g) (cached_block_hash_to_block p)")
       (simp_all add: cached_row_def make_block_hash_with_group_id_def)
qed (simp add: cached_row_def)

lemma hit_row_cached:
  assumes "\<forall>g \<in> set gids. g < 2 ^ 32" "gids \<noteq> []"
  shows "hit_row h gids p = Inr (cached_row p gids h)"
proof (cases "cached_row p gids h")
  case None
  then show ?thesis using get_cached_block_row[OF assms(1)] by (simp add: hit_row_def)
next
  case (Some row)
  then have "length row = length gids" by (auto simp: cached_row_def those_Some_iff dest!: arg_cong[of _ _ length])
  then show ?thesis using get_cached_block_row[OF assms(1)] Some assms(2) by (cases row) (auto simp: hit_row_def)
qed

text \<open>The rows of the longest prefix of hashes that are all cached.\<close>

fun cached_rows :: "block_pool \<Rightarrow> nat list \<Rightarrow> bytes list \<Rightarrow> bref list list" where
  "cached_rows p gids [] = []"
| "cached_rows p gids (h # hs) =
     (case cached_row p gids h of None \<Rightarrow> [] | Some row \<Rightarrow> row # cached_rows p gids hs)"

lemma hit_prefix_cached:
  assumes "\<forall>g \<in> set gids. g < 2 ^ 32" "gids \<noteq> []"
  shows "hit_prefix hs gids p = Inr (cached_rows p gids hs)"
  by (induction hs) (simp_all add: hit_row_cached[OF assms] split: option.split)

lemma cached_rows_nth:
  "i < length (cached_rows p gids hs) \<Longrightarrow>
     i < length hs \<and> cached_row p gids (hs ! i) = Some (cached_rows p gids hs ! i)"
proof (induction hs arbitrary: i)
  case (Cons h hs)
  then show ?case by (cases i) (auto split: option.splits)
qed simp

lemma cached_rows_stop:
  "length (cached_rows p gids hs) < length hs \<Longrightarrow> cached_row p gids (hs ! length (cached_rows p gids hs)) = None"
  by (induction hs) (auto split: option.splits)

lemma cached_rows_le: "length (cached_rows p gids hs) \<le> length hs"
  by (induction hs) (auto split: option.splits)

text \<open>What a row means for the blocks of a consistent pool.\<close>

lemma get_one_block_hash:
  assumes "pool_ok p xs"
  shows "get_one_block k (cached_block_hash_to_block p) = Some b \<Longrightarrow> block_hash (heap p b) = Some k"
    "get_one_block k (cached_block_hash_to_block p) = None \<longleftrightarrow> (\<forall>b. block_hash (heap p b) \<noteq> Some k)"
proof -
  have h: "b \<in> set (cached_at (cached_block_hash_to_block p) k) \<longleftrightarrow> block_hash (heap p b) = Some k" for b
    using assms by (simp add: pool_ok_def pool_inv_def)
  show "get_one_block k (cached_block_hash_to_block p) = Some b \<Longrightarrow> block_hash (heap p b) = Some k"
    unfolding h[symmetric] by (auto simp: get_one_block_cached_at split: list.splits)
  show "get_one_block k (cached_block_hash_to_block p) = None \<longleftrightarrow> (\<forall>b. block_hash (heap p b) \<noteq> Some k)"
    unfolding h[symmetric] by (cases "cached_at (cached_block_hash_to_block p) k") (auto simp: get_one_block_cached_at)
qed

lemma cached_row_hashes:
  assumes "pool_ok p xs" "cached_row p gids h = Some row" "j < length gids"
  shows "length row = length gids" "block_hash (heap p (row ! j)) = Some (h @ to_bytes4 (gids ! j))"
proof -
  have m: "map (\<lambda>g. get_one_block (h @ to_bytes4 g) (cached_block_hash_to_block p)) gids = map Some row"
    using assms(2) by (simp add: cached_row_def those_Some_iff)
  show l: "length row = length gids" using arg_cong[OF m, of length] by simp
  have "get_one_block (h @ to_bytes4 (gids ! j)) (cached_block_hash_to_block p) = Some (row ! j)"
    using arg_cong[OF m, of "\<lambda>l. l ! j"] assms(3) l by simp
  then show "block_hash (heap p (row ! j)) = Some (h @ to_bytes4 (gids ! j))" by (rule get_one_block_hash(1)[OF assms(1)])
qed

lemma cached_row_missing:
  assumes "pool_ok p xs" "cached_row p gids h = None"
  shows "\<exists>g \<in> set gids. \<forall>b. block_hash (heap p b) \<noteq> Some (h @ to_bytes4 g)"
  using assms(2) get_one_block_hash(2)[OF assms(1)] by (auto simp: cached_row_def those_None_iff image_iff) metis

section \<open>Full attention\<close>

lemma nonneg_div: "0 \<le> (n :: int) \<Longrightarrow> 0 \<le> n div int b"
  by (cases "b = 0") (simp_all add: pos_imp_zdiv_nonneg_iff)

lemma align_len_same: "align_len bs bs n = n"
  by (cases n) simp_all

lemma full_lookup_rows:
  assumes "isinstance spec CFullAttentionSpec" "0 \<le> n" "\<forall>g \<in> set gids. g < 2 ^ 32" "gids \<noteq> []"
  shows "full_find_longest_cache_hit (PlainHashes hs) n gids spec False (spec_block_size spec) 1 1 p =
    Inr (columns (length gids) (cached_rows p gids (take (nat (n div int (spec_block_size spec))) hs)))"
proof -
  define k where "k = n div int (spec_block_size spec)"
  have k: "\<not> k < 0"
    unfolding k_def not_less using assms(2) by (rule nonneg_div)
  have v: "view_from (PlainHashes hs) 0 = hs" by (auto simp: view_from_def intro: nth_equalityI)
  have d: "\<not> (1 :: nat) * 1 > 1" by simp
  have e: "\<not> (gids = [] \<and> (False \<or> spec_block_size spec \<noteq> spec_block_size spec))" by simp
  have a: "isinstance spec CFullAttentionSpec \<or> isinstance spec CChunkedLocalAttentionSpec" using assms(1) by blast
  show ?thesis
    unfolding full_find_longest_cache_hit_def Let_def if_not_P[OF d] k_def[symmetric] if_not_P[OF k] v
      hit_prefix_cached[OF assms(3,4)] rbind_simps if_not_P[OF e] py_assert_eq_Inr
    using a by (simp only: pop_eagle_def if_False align_len_same take_all order_refl simp_thms)
qed

section \<open>Every lookup returns an aligned prefix\<close>

lemma align_len_le: "align_len bs al n \<le> n"
  by (induction n) simp_all

lemma align_len_dvd: "al dvd align_len bs al n * bs"
  by (induction n) (auto simp: mod_eq_0_iff_dvd)

lemma length_hd_columns: "0 < n \<Longrightarrow> length (hd (columns n rows)) = length rows"
  by (simp add: columns_def hd_map)

lemma columns_nth: "i < n \<Longrightarrow> columns n rows ! i = map (\<lambda>row. row ! i) rows"
  by (simp add: columns_def)

lemma swa_scan_returns:
  assumes "\<forall>g \<in> set gids. g < 2 ^ 32" "gids \<noteq> []"
  shows "i \<le> view_len v \<Longrightarrow> i + contig \<le> length rows \<Longrightarrow> contig = 0 \<or> eagle \<or> al dvd (i + contig) * bs \<Longrightarrow>
    \<exists>rows' c f. swa_scan v gids bs al eagle need p i contig rows = Inr (rows', c, f) \<and>
      length rows' \<le> length rows \<and> (f \<longrightarrow> eagle \<or> al dvd length rows' * bs)"
proof (induction i arbitrary: contig rows)
  case (Suc i)
  have v: "view_get v i = Inr (view_item v i)" using Suc.prems(1) by (simp add: view_get_in_range)
  note row = hit_row_cached[OF assms, of "view_item v i" p]
  show ?case
  proof (cases "cached_row p gids (view_item v i)")
    case None
    have "i + 0 \<le> length rows" using Suc.prems(2) by simp
    then show ?thesis using Suc.IH[of 0 rows] Suc.prems(1) v row None by simp
  next
    case (Some r)
    have a: "eagle \<or> al dvd (i + Suc contig) * bs"
      if "\<not> (contig = 0 \<and> bs \<noteq> al \<and> (if eagle then i else i + 1) * bs mod al \<noteq> 0)"
      using that Suc.prems(3) by (cases "contig = 0") (auto simp: mod_eq_0_iff_dvd split: if_splits)
    have le: "i \<le> view_len v" "i + contig \<le> length rows" "i + Suc contig \<le> length (rows[i := r])"
      using Suc.prems(1,2) by simp_all
    show ?thesis
    proof (cases "contig = 0 \<and> bs \<noteq> al \<and> (if eagle then i else i + 1) * bs mod al \<noteq> 0")
      case True
      then show ?thesis using Suc.IH[OF le(1,2)] v row Some by simp
    next
      case False
      have e: "swa_scan v gids bs al eagle need p (Suc i) contig rows =
          (if contig + 1 \<ge> need then Inr (take (i + (contig + 1)) (rows[i := r]), contig + 1, True)
           else swa_scan v gids bs al eagle need p i (contig + 1) (rows[i := r]))"
        unfolding swa_scan.simps v row Some rbind_simps option.case if_not_P[OF False] Let_def ..
      show ?thesis
      proof (cases "contig + 1 \<ge> need")
        case True
        show ?thesis unfolding e if_P[OF True] using a[OF False] le(3) by auto
      next
        case f: False
        then show ?thesis using e Suc.IH[OF le(1,3)] a[OF False] by simp
      qed
    qed
  qed
qed auto

lemma mamba_scan_returns:
  assumes "\<forall>g \<in> set gids. g < 2 ^ 32" "gids \<noteq> []"
  shows "i \<le> view_len v \<Longrightarrow>
    \<exists>rows. mamba_scan v gids bs al p i = Inr rows \<and> length rows \<le> i \<and> al dvd length rows * bs"
proof (induction i)
  case (Suc i)
  have v: "view_get v i = Inr (view_item v i)" using Suc.prems(1) by (simp add: view_get_in_range)
  obtain rows where r: "mamba_scan v gids bs al p i = Inr rows" "length rows \<le> i" "al dvd length rows * bs"
    using Suc by auto
  show ?case
  proof (cases "cached_row p gids (view_item v i)")
    case None
    then show ?thesis using v r hit_row_cached[OF assms, of "view_item v i" p] by simp
  next
    case (Some row)
    then show ?thesis using v r hit_row_cached[OF assms, of "view_item v i" p] by (auto simp: mod_eq_0_iff_dvd)
  qed
qed simp

lemma hit_range_returns:
  assumes "\<forall>g \<in> set gids. g < 2 ^ 32" "gids \<noteq> []"
  shows "\<forall>i \<in> set is. i < view_len v \<Longrightarrow> \<exists>rows. hit_range v is gids p = Inr rows \<and> length rows \<le> length is"
proof (induction "is")
  case (Cons i "is")
  then obtain rows where r: "hit_range v is gids p = Inr rows" "length rows \<le> length is" by auto
  have v: "view_get v i = Inr (view_item v i)" using Cons.prems by (simp add: view_get_in_range)
  show ?case
    using r v hit_row_cached[OF assms, of "view_item v i" p]
    by (cases "cached_row p gids (view_item v i)") simp_all
qed simp

text \<open>
  A lookup returned: its rows fit into the limit, and they cover a number of tokens that the alignment divides.
\<close>

definition found_rows :: "nat \<Rightarrow> nat \<Rightarrow> nat \<Rightarrow> int \<Rightarrow> bref list list res \<Rightarrow> bool" where
  "found_rows k bs al n res \<longleftrightarrow>
     (\<exists>rows. res = Inr (columns k rows) \<and> length rows \<le> nat (n div int bs) \<and> al dvd length rows * bs)"

lemma found_rowsI:
  "res = Inr (columns k rows) \<Longrightarrow> length rows \<le> nat (n div int bs) \<Longrightarrow> al dvd length rows * bs \<Longrightarrow>
   found_rows k bs al n res"
  unfolding found_rows_def by blast

lemma length_pop_eagle: "length (pop_eagle e xs) \<le> length xs"
  by (simp add: pop_eagle_def)

lemma full_lookup_returns:
  assumes "isinstance spec CFullAttentionSpec" "0 \<le> n" "\<forall>g \<in> set gids. g < 2 ^ 32" "gids \<noteq> []"
  shows "found_rows (length gids) (spec_block_size spec) al n
    (full_find_longest_cache_hit v n gids spec eagle al 1 1 p)"
proof -
  let ?bs = "spec_block_size spec"
  let ?rows = "pop_eagle eagle (cached_rows p gids (take (nat (n div int ?bs)) (view_from v 0)))"
  have k: "\<not> n div int ?bs < 0" unfolding not_less using assms(2) by (rule nonneg_div)
  have l: "length ?rows \<le> nat (n div int ?bs)"
    using length_pop_eagle[of eagle "cached_rows p gids (take (nat (n div int ?bs)) (view_from v 0))"]
      cached_rows_le[of p gids "take (nat (n div int ?bs)) (view_from v 0)"] by simp
  have t: "length (take (align_len ?bs al (length ?rows)) ?rows) = align_len ?bs al (length ?rows)"
    using align_len_le[of ?bs al "length ?rows"] by simp
  have "full_find_longest_cache_hit v n gids spec eagle al 1 1 p =
      Inr (columns (length gids) (take (align_len ?bs al (length ?rows)) ?rows))"
    using assms(1,4) k by (simp add: full_find_longest_cache_hit_def hit_prefix_cached[OF assms(3,4)] Let_def)
  then show ?thesis
    by (rule found_rowsI) (unfold t, use l align_len_le[of ?bs al "length ?rows"] align_len_dvd in auto)
qed

lemma swa_lookup_returns:
  assumes "isinstance spec CSlidingWindowSpec" "nat (n div int (spec_block_size spec)) \<le> view_len v"
    "\<forall>g \<in> set gids. g < 2 ^ 32" "gids \<noteq> []"
  shows "found_rows (length gids) (spec_block_size spec) al n
    (swa_find_longest_cache_hit v n gids spec eagle al 1 1 p)"
proof -
  let ?bs = "spec_block_size spec" and ?k = "nat (n div int (spec_block_size spec))"
  let ?w = "case window_of spec of Some w \<Rightarrow> w | None \<Rightarrow> 0"
  let ?need = "contiguous_blocks_for_hit ?w ?bs eagle" and ?rows0 = "replicate ?k (replicate (length gids) (null_block p))"
  obtain rows c f where sc: "swa_scan v gids ?bs al eagle ?need p ?k 0 ?rows0 = Inr (rows, c, f)"
      "length rows \<le> ?k" "f \<longrightarrow> eagle \<or> al dvd length rows * ?bs"
    using swa_scan_returns[OF assms(3,4,2), of 0 ?rows0 eagle al ?bs ?need p] by auto
  define rows1 where "rows1 = (if f then rows else take (align_len ?bs al (length (take c rows))) (take c rows))"
  define rows2 where "rows2 = (if eagle \<and> rows1 \<noteq> [] then take (align_len ?bs al (length rows1 - 1)) rows1 else rows1)"
  have l1: "length rows1 \<le> length rows" by (simp add: rows1_def)
  have d1: "eagle \<or> al dvd length rows1 * ?bs"
    using sc(3) align_len_le[of ?bs al "length (take c rows)"] align_len_dvd[of al ?bs "length (take c rows)"]
    by (simp add: rows1_def min_absorb2 min_absorb1)
  have l2: "length rows2 \<le> length rows1" by (simp add: rows2_def)
  have d2: "al dvd length rows2 * ?bs"
    using d1 min_absorb2[OF le_trans[OF align_len_le[of ?bs al "length rows1 - 1"] diff_le_self]]
      align_len_dvd[of al ?bs "length rows1 - 1"]
    by (auto simp: rows2_def)
  have "swa_find_longest_cache_hit v n gids spec eagle al 1 1 p = Inr (columns (length gids) rows2)"
    using assms(1,4) sc(1) by (simp add: swa_find_longest_cache_hit_def Let_def rows2_def rows1_def)
  then show ?thesis by (rule found_rowsI) (use l1 l2 d2 sc(2) in auto)
qed

lemma mamba_lookup_returns:
  assumes "isinstance spec CMambaSpec" "nat (n div int (spec_block_size spec)) \<le> view_len v"
    "\<forall>g \<in> set gids. g < 2 ^ 32" "gids \<noteq> []"
  shows "found_rows (length gids) (spec_block_size spec) al n
    (mamba_find_longest_cache_hit v n gids spec eagle al 1 1 p)"
  using mamba_scan_returns[OF assms(3,4,2), of "spec_block_size spec" al p] assms(1)
  by (auto simp: mamba_find_longest_cache_hit_def Let_def intro: found_rowsI)

lemma chunked_lookup_returns:
  assumes "isinstance spec CChunkedLocalAttentionSpec" "spec_block_size spec = al" "0 \<le> n"
    "nat (n div int (spec_block_size spec)) \<le> view_len v" "\<forall>g \<in> set gids. g < 2 ^ 32" "gids \<noteq> []"
  shows "found_rows (length gids) (spec_block_size spec) al n
    (chunked_find_longest_cache_hit v n gids spec False al 1 1 p)"
proof -
  obtain a chunk where sp: "spec = ChunkedLocalAttentionSpec a chunk"
    using assms(1) by (cases spec) (simp_all add: isinstance_def issubclass_def)
  let ?bs = "af_block_size a" and ?k = "nat (n div int (af_block_size a))"
  let ?start = "(if n > 0 then nat n div chunk * chunk else 0) div ?bs"
  have bs: "spec_block_size spec = ?bs" by (simp add: sp)
  have "(if n > 0 then nat n div chunk * chunk else 0) \<le> nat n" by simp
  then have st: "?start \<le> ?k" using div_le_mono assms(3) by (simp add: nat_div_distrib)
  obtain rows where r: "hit_range v [?start..<?k] gids p = Inr rows" "length rows \<le> ?k - ?start"
    using hit_range_returns[OF assms(5,6), of "[?start..<?k]" v p] assms(4)[unfolded bs] by auto
  let ?all = "replicate ?start (replicate (length gids) (null_block p)) @ rows"
  have "chunked_find_longest_cache_hit v n gids spec False al 1 1 p = Inr (columns (length gids) ?all)"
    using r(1) assms(2)[unfolded bs] by (simp add: chunked_find_longest_cache_hit_def sp Let_def)
  moreover have "length ?all \<le> ?k" using r(2) st by simp
  ultimately show ?thesis unfolding bs using assms(2)[unfolded bs] by (intro found_rowsI[of _ _ ?all]) simp_all
qed

section \<open>The search over several kinds\<close>

text \<open>
  A group of layers the search can look up: the lookup of its manager is for its kind of layers, and its block
  size is a multiple of the size of the hashed blocks and divides the alignment.
\<close>

definition searchable :: "nat \<Rightarrow> nat \<Rightarrow> spec_group \<Rightarrow> bool" where
  "searchable hash_bs al g \<longleftrightarrow>
     sg_group_ids g \<noteq> [] \<and> (\<forall>i \<in> set (sg_group_ids g). i < 2 ^ 32) \<and>
     0 < spec_block_size (sg_spec g) \<and> hash_bs dvd spec_block_size (sg_spec g) \<and> spec_block_size (sg_spec g) dvd al \<and>
     (case sg_manager_cls g of
        FullAttentionManager \<Rightarrow> isinstance (sg_spec g) CFullAttentionSpec
      | SinkFullAttentionManager \<Rightarrow> isinstance (sg_spec g) CFullAttentionSpec
      | SlidingWindowManager \<Rightarrow> isinstance (sg_spec g) CSlidingWindowSpec
      | MambaManager \<Rightarrow> isinstance (sg_spec g) CMambaSpec
      | ChunkedLocalAttentionManager \<Rightarrow> isinstance (sg_spec g) CChunkedLocalAttentionSpec \<and>
          spec_block_size (sg_spec g) = al \<and> \<not> sg_use_eagle g
      | CrossAttentionManager \<Rightarrow> False)"

abbreviation group_bs :: "spec_group \<Rightarrow> nat" where
  "group_bs g \<equiv> spec_block_size (sg_spec g)"

lemma lookup_returns:
  assumes "searchable hash_bs al g" "0 \<le> n" "nat (n div int (group_bs g)) \<le> view_len v" "eagle \<longrightarrow> sg_use_eagle g"
  shows "found_rows (length (sg_group_ids g)) (group_bs g) al n
    (find_longest_cache_hit (sg_manager_cls g) v n (sg_group_ids g) (sg_spec g) eagle al 1 1 p)"
proof -
  have s: "\<forall>i \<in> set (sg_group_ids g). i < 2 ^ 32" "sg_group_ids g \<noteq> []" using assms(1) by (simp_all add: searchable_def)
  show ?thesis
    using assms full_lookup_returns[OF _ assms(2) s] swa_lookup_returns[OF _ assms(3) s]
      mamba_lookup_returns[OF _ assms(3) s] chunked_lookup_returns[OF _ _ assms(2,3) s]
    by (cases "sg_manager_cls g") (auto simp: searchable_def find_longest_cache_hit_def)
qed

text \<open>The hashes cover the limit, seen through blocks of any size the search uses.\<close>

lemma get_block_hashes_returns:
  assumes "searchable hash_bs al g" "0 \<le> m" "nat (m div int hash_bs) \<le> length hashes"
  shows "\<exists>v. get_block_hashes hashes hash_bs (sg_spec g) = Inr v \<and> nat (m div int (group_bs g)) \<le> view_len v"
proof (cases "group_bs g = hash_bs")
  case True
  then show ?thesis using assms(3) by (simp add: get_block_hashes_def)
next
  case False
  have b: "0 < group_bs g" "hash_bs dvd group_bs g" using assms(1) by (simp_all add: searchable_def)
  then have h: "0 < hash_bs" by (cases "hash_bs = 0") simp_all
  obtain k where k: "group_bs g = hash_bs * k" using b(2) by (rule dvdE)
  have kp: "0 < k" using b(1) k by (cases "k = 0") simp_all
  have "nat (m div int (group_bs g)) = nat (m div int hash_bs) div k"
    using assms(2) by (simp add: k nat_div_distrib div_mult2_eq nat_mult_distrib)
  also have "\<dots> \<le> length hashes div k" using assms(3) by (rule div_le_mono)
  finally show ?thesis using False h kp k by (simp add: get_block_hashes_def block_hash_list_with_block_size_def)
qed

lemma floor_mult_le: "0 \<le> (n :: int) \<Longrightarrow> n div int b * int b \<le> n"
  by (cases "b = 0") (simp_all add: minus_mod_eq_div_mult[symmetric])

lemma rows_fit: "length rows \<le> nat (n div int bs) \<Longrightarrow> 0 \<le> n \<Longrightarrow> int (length rows) * int bs \<le> n"
proof -
  assume a: "length rows \<le> nat (n div int bs)" "0 \<le> n"
  have "int (length rows) \<le> n div int bs" using a nonneg_div[OF a(2), of bs] by simp
  then have "int (length rows) * int bs \<le> n div int bs * int bs" by (simp add: mult_right_mono)
  also have "\<dots> \<le> n" using a(2) by (rule floor_mult_le)
  finally show ?thesis .
qed

lemma hybrid_group_step_cases [consumes 4, case_names trimmed looked_up]:
  assumes "searchable (co_hash_block_size co) (co_scheduler_block_size co) g" "0 \<le> curr_hit_length st"
    "curr_hit_length st \<le> m" "nat (m div int (co_hash_block_size co)) \<le> length hashes"
  obtains "isinstance (sg_spec g) CFullAttentionSpec" "hit_blocks_by_group st ! hd (sg_group_ids g) \<noteq> None"
      "hybrid_group_step co hashes m idx g st =
         Inr (st\<lparr>curr_hit_length := curr_hit_length st div int (group_bs g) * int (group_bs g)\<rparr>)"
  | rows verified where "hybrid_group_step co hashes m idx g st =
         Inr \<lparr>curr_hit_length = int (length rows * group_bs g),
              hit_blocks_by_group = store_hits (sg_group_ids g) (columns (length (sg_group_ids g)) rows) (hit_blocks_by_group st),
              eagle_verified = verified\<rparr>"
      "co_scheduler_block_size co dvd length rows * group_bs g" "int (length rows * group_bs g) \<le> m"
      "\<not> sg_use_eagle g \<Longrightarrow> int (length rows * group_bs g) \<le> curr_hit_length st"
proof (cases "isinstance (sg_spec g) CFullAttentionSpec \<and> hit_blocks_by_group st ! hd (sg_group_ids g) \<noteq> None")
  case True
  then show thesis by (intro that(1)) (simp_all add: hybrid_group_step_def Let_def)
next
  case False
  define de where "de = (sg_use_eagle g \<and> idx \<notin> eagle_verified st)"
  define ll where "ll = (if de then min (curr_hit_length st + int (group_bs g)) m else curr_hit_length st)"
  have ll: "0 \<le> ll" "ll \<le> m" "\<not> sg_use_eagle g \<Longrightarrow> ll = curr_hit_length st" using assms(2,3) by (simp_all add: ll_def de_def)
  obtain v where v: "get_block_hashes hashes (co_hash_block_size co) (sg_spec g) = Inr v"
      "nat (m div int (group_bs g)) \<le> view_len v"
    using get_block_hashes_returns[OF assms(1) _ assms(4)] assms(2,3) by (meson order_trans)
  have bs: "0 < group_bs g" "sg_group_ids g \<noteq> []" using assms(1) by (simp_all add: searchable_def)
  have "nat (ll div int (group_bs g)) \<le> view_len v" using v(2) zdiv_mono1[OF ll(2), of "int (group_bs g)"] bs(1) by simp
  from lookup_returns[OF assms(1) ll(1) this, of de "co_pool co"] obtain rows where
    r: "find_longest_cache_hit (sg_manager_cls g) v ll (sg_group_ids g) (sg_spec g) de (co_scheduler_block_size co) 1 1
          (co_pool co) = Inr (columns (length (sg_group_ids g)) rows)"
      "length rows \<le> nat (ll div int (group_bs g))" "co_scheduler_block_size co dvd length rows * group_bs g"
    by (auto simp: found_rows_def de_def)
  have h: "length (hd (columns (length (sg_group_ids g)) rows)) = length rows" using bs(2) by (simp add: length_hd_columns)
  note fit = rows_fit[OF r(2) ll(1)]
  note d = hybrid_group_step_def[of co hashes m idx g st, unfolded Let_def if_not_P[OF False], folded de_def,
      folded ll_def, unfolded v(1) rbind_simps r(1) h]
  show thesis by (rule that(2)[OF _ r(3)]) (use d fit ll in simp_all)
qed

subsection \<open>It ends\<close>

lemma hybrid_pass_returns:
  assumes "nat (m div int (co_hash_block_size co)) \<le> length hashes"
  shows "\<forall>g \<in> set gs. searchable (co_hash_block_size co) (co_scheduler_block_size co) g \<Longrightarrow>
    0 \<le> curr_hit_length st \<Longrightarrow> curr_hit_length st \<le> m \<Longrightarrow>
    \<exists>st'. hybrid_pass co hashes m idx gs st = Inr st' \<and> 0 \<le> curr_hit_length st' \<and> curr_hit_length st' \<le> m"
proof (induction gs arbitrary: idx st)
  case (Cons g gs)
  have g: "searchable (co_hash_block_size co) (co_scheduler_block_size co) g" using Cons.prems(1) by simp
  have "\<exists>st1. hybrid_group_step co hashes m idx g st = Inr st1 \<and> 0 \<le> curr_hit_length st1 \<and> curr_hit_length st1 \<le> m"
    using g Cons.prems(2,3) assms
  proof (cases rule: hybrid_group_step_cases[where idx = idx])
    case trimmed
    then show ?thesis
      using Cons.prems(2,3) nonneg_div[OF Cons.prems(2), of "group_bs g"] order_trans[OF floor_mult_le[OF Cons.prems(2)]] by simp
  next
    case (looked_up rows verified)
    then show ?thesis by simp
  qed
  then obtain st1 where st1: "hybrid_group_step co hashes m idx g st = Inr st1" "0 \<le> curr_hit_length st1" "curr_hit_length st1 \<le> m"
    by blast
  then show ?case using Cons.IH[OF _ st1(2,3), of "idx + 1"] Cons.prems(1) by simp
qed simp

lemma hybrid_loop_unfold:
  assumes "hybrid_pass co hashes m 0 (attention_groups co)
      \<lparr>curr_hit_length = n, hit_blocks_by_group = by_group, eagle_verified = verified\<rparr> = Inr st" "0 \<le> curr_hit_length st"
  shows "hybrid_loop co hashes m n by_group verified =
      (if curr_hit_length st \<ge> n then Inr (n, hit_blocks_by_group st)
       else if is_simple_hybrid co then Inr (curr_hit_length st, hit_blocks_by_group st)
       else hybrid_loop co hashes m (curr_hit_length st) (hit_blocks_by_group st) (eagle_verified st))"
  using assms by (subst hybrid_loop.simps) simp

lemma hybrid_loop_returns:
  assumes "nat (m div int (co_hash_block_size co)) \<le> length hashes"
    "\<forall>g \<in> set (attention_groups co). searchable (co_hash_block_size co) (co_scheduler_block_size co) g"
  shows "0 \<le> n \<Longrightarrow> n \<le> m \<Longrightarrow> \<exists>k bg. hybrid_loop co hashes m n by_group verified = Inr (k, bg) \<and> 0 \<le> k \<and> k \<le> n"
proof (induction "nat n" arbitrary: n by_group verified rule: less_induct)
  case less
  let ?st = "\<lparr>curr_hit_length = n, hit_blocks_by_group = by_group, eagle_verified = verified\<rparr>"
  obtain st where st: "hybrid_pass co hashes m 0 (attention_groups co) ?st = Inr st" "0 \<le> curr_hit_length st" "curr_hit_length st \<le> m"
    using hybrid_pass_returns[OF assms, of ?st 0] less.prems by auto
  note l = hybrid_loop_unfold[OF st(1,2)]
  show ?case
  proof (cases "curr_hit_length st \<ge> n \<or> is_simple_hybrid co")
    case True
    then show ?thesis using l st(2) less.prems by auto
  next
    case False
    then have lt: "nat (curr_hit_length st) < nat n" "curr_hit_length st < n" using st(2) by auto
    show ?thesis
      using l False less.hyps[OF lt(1) st(2,3), of "hit_blocks_by_group st" "eagle_verified st"] lt(2) by fastforce
  qed
qed

subsection \<open>What it returns\<close>

text \<open>The blocks kept for the groups of one kind hold at least \<open>n\<close> tokens.\<close>

definition covered :: "spec_group \<Rightarrow> int \<Rightarrow> bref list option list \<Rightarrow> bool" where
  "covered g n by_group \<longleftrightarrow>
     (\<forall>i \<in> set (sg_group_ids g). \<exists>blks. by_group ! i = Some blks \<and> n \<le> int (length blks * group_bs g))"

abbreviation ids_of :: "spec_group list \<Rightarrow> nat list" where
  "ids_of gs \<equiv> concat (map sg_group_ids gs)"

lemma covered_mono: "covered g n bg \<Longrightarrow> k \<le> n \<Longrightarrow> covered g k bg"
  unfolding covered_def by fastforce

lemma covered_cong: "(\<And>i. i \<in> set (sg_group_ids g) \<Longrightarrow> bg' ! i = bg ! i) \<Longrightarrow> covered g n bg \<Longrightarrow> covered g n bg'"
  unfolding covered_def by simp

lemma length_store_hits: "length (store_hits gids hits bg) = length bg"
proof -
  have "length (fold (\<lambda>(g, blks) acc. acc[g := Some blks]) xs bg) = length bg" for xs :: "(nat \<times> bref list) list"
    by (induction xs arbitrary: bg) auto
  then show ?thesis by (simp add: store_hits_def)
qed

lemma store_hits_other: "i \<notin> set gids \<Longrightarrow> store_hits gids hits bg ! i = bg ! i"
proof -
  have "i \<notin> fst ` set xs \<Longrightarrow> fold (\<lambda>(g, blks) acc. acc[g := Some blks]) xs bg ! i = bg ! i" for xs :: "(nat \<times> bref list) list"
    by (induction xs arbitrary: bg) auto
  then show "i \<notin> set gids \<Longrightarrow> ?thesis" by (force simp: store_hits_def dest: set_zip_leftD)
qed

lemma store_hits_stored:
  "distinct gids \<Longrightarrow> length hits = length gids \<Longrightarrow> j < length gids \<Longrightarrow> gids ! j < length bg \<Longrightarrow>
     store_hits gids hits bg ! (gids ! j) = Some (hits ! j)"
proof (induction gids arbitrary: hits bg j)
  case (Cons g gids)
  obtain h hs where h: "hits = h # hs" using Cons.prems(2) by (cases hits) auto
  have e: "store_hits (g # gids) (h # hs) bg = store_hits gids hs (bg[g := Some h])" by (simp add: store_hits_def)
  show ?case
  proof (cases j)
    case 0
    then show ?thesis using Cons.prems store_hits_other[of g gids hs "bg[g := Some h]"] by (simp add: e h)
  next
    case (Suc k)
    then show ?thesis using Cons.prems Cons.IH[of hs k "bg[g := Some h]"] by (simp add: e h)
  qed
qed simp

lemma covered_store:
  assumes "distinct (sg_group_ids g)" "\<forall>i \<in> set (sg_group_ids g). i < length bg"
  shows "covered g (int (length rows * group_bs g))
    (store_hits (sg_group_ids g) (columns (length (sg_group_ids g)) rows) bg)"
  unfolding covered_def
proof
  fix i assume "i \<in> set (sg_group_ids g)"
  then obtain j where j: "j < length (sg_group_ids g)" "i = sg_group_ids g ! j" by (auto simp: in_set_conv_nth)
  have "length (columns (length (sg_group_ids g)) rows) = length (sg_group_ids g)" by (simp add: columns_def)
  from store_hits_stored[OF assms(1) this j(1), of bg] assms(2) j
  show "\<exists>blks. store_hits (sg_group_ids g) (columns (length (sg_group_ids g)) rows) bg ! i = Some blks \<and>
      int (length rows * group_bs g) \<le> int (length blks * group_bs g)"
    by (simp add: columns_nth)
qed

text \<open>One pass shortens the length to one that all its groups cover.\<close>

definition pass_ready :: "nat \<Rightarrow> spec_group list \<Rightarrow> hybrid_search \<Rightarrow> bool" where
  "pass_ready al gs st \<longleftrightarrow>
     distinct (ids_of gs) \<and> (\<forall>i \<in> set (ids_of gs). i < length (hit_blocks_by_group st)) \<and>
     (\<forall>g \<in> set gs. hit_blocks_by_group st ! hd (sg_group_ids g) \<noteq> None \<longrightarrow>
        int al dvd curr_hit_length st \<and> covered g (curr_hit_length st) (hit_blocks_by_group st))"

lemma pass_readyI:
  assumes "distinct (ids_of gs)" "\<forall>i \<in> set (ids_of gs). i < length (hit_blocks_by_group st)"
    "\<And>g. g \<in> set gs \<Longrightarrow> hit_blocks_by_group st ! hd (sg_group_ids g) \<noteq> None \<Longrightarrow>
       int al dvd curr_hit_length st \<and> covered g (curr_hit_length st) (hit_blocks_by_group st)"
  shows "pass_ready al gs st"
  using assms unfolding pass_ready_def by blast

lemma pass_ready_step:
  assumes "searchable (co_hash_block_size co) (co_scheduler_block_size co) g" "0 \<le> curr_hit_length st"
    "curr_hit_length st \<le> m" "nat (m div int (co_hash_block_size co)) \<le> length hashes" "\<not> sg_use_eagle g"
    "pass_ready (co_scheduler_block_size co) (g # gs) st"
    "\<forall>g \<in> set gs. sg_group_ids g \<noteq> []"
    "hybrid_group_step co hashes m idx g st = Inr st'"
  shows "pass_ready (co_scheduler_block_size co) gs st'" "curr_hit_length st' \<le> curr_hit_length st"
    "0 \<le> curr_hit_length st'" "int (co_scheduler_block_size co) dvd curr_hit_length st'"
    "covered g (curr_hit_length st') (hit_blocks_by_group st')"
    "length (hit_blocks_by_group st') = length (hit_blocks_by_group st)"
    "\<And>i. i \<notin> set (sg_group_ids g) \<Longrightarrow> hit_blocks_by_group st' ! i = hit_blocks_by_group st ! i"
proof -
  let ?al = "co_scheduler_block_size co"
  have p: "distinct (sg_group_ids g)" "distinct (ids_of gs)" "set (sg_group_ids g) \<inter> set (ids_of gs) = {}"
      "\<forall>i \<in> set (sg_group_ids g) \<union> set (ids_of gs). i < length (hit_blocks_by_group st)"
    using assms(6) by (auto simp: pass_ready_def)
  have r: "hit_blocks_by_group st ! hd (sg_group_ids h) \<noteq> None \<Longrightarrow>
      int ?al dvd curr_hit_length st \<and> covered h (curr_hit_length st) (hit_blocks_by_group st)"
    if "h \<in> set (g # gs)" for h using assms(6) that unfolding pass_ready_def by blast
  have dv: "group_bs g dvd ?al" using assms(1) by (simp add: searchable_def)
  have "curr_hit_length st' \<le> curr_hit_length st \<and> 0 \<le> curr_hit_length st' \<and> int ?al dvd curr_hit_length st' \<and>
    covered g (curr_hit_length st') (hit_blocks_by_group st') \<and>
    length (hit_blocks_by_group st') = length (hit_blocks_by_group st) \<and>
    (\<forall>i. i \<notin> set (sg_group_ids g) \<longrightarrow> hit_blocks_by_group st' ! i = hit_blocks_by_group st ! i)"
    using assms(1-4)
  proof (cases rule: hybrid_group_step_cases[where idx = idx])
    case trimmed
    note c = r[of g, OF _ trimmed(2)]
    have "int (group_bs g) dvd curr_hit_length st" using dv c by (meson dvd_trans int_dvd_int_iff list.set_intros(1))
    then show ?thesis using trimmed(3) assms(2,8) c by simp
  next
    case (looked_up rows verified)
    have "covered g (int (length rows * group_bs g))
        (store_hits (sg_group_ids g) (columns (length (sg_group_ids g)) rows) (hit_blocks_by_group st))"
      using p by (intro covered_store) auto
    moreover have "int ?al dvd int (length rows * group_bs g)" using looked_up(2) int_dvd_int_iff by blast
    ultimately show ?thesis
      using looked_up(1,4) assms(5,8) store_hits_other length_store_hits by auto
  qed
  then show q: "curr_hit_length st' \<le> curr_hit_length st" "0 \<le> curr_hit_length st'" "int ?al dvd curr_hit_length st'"
    "covered g (curr_hit_length st') (hit_blocks_by_group st')"
    "length (hit_blocks_by_group st') = length (hit_blocks_by_group st)"
    "\<And>i. i \<notin> set (sg_group_ids g) \<Longrightarrow> hit_blocks_by_group st' ! i = hit_blocks_by_group st ! i" by blast+
  show "pass_ready ?al gs st'"
  proof (rule pass_readyI)
    fix h assume h: "h \<in> set gs" "hit_blocks_by_group st' ! hd (sg_group_ids h) \<noteq> None"
    have o: "i \<notin> set (sg_group_ids g)" if "i \<in> set (sg_group_ids h)" for i using p(3) h(1) that by auto
    have "hd (sg_group_ids h) \<in> set (sg_group_ids h)" using assms(7) h(1) by simp
    then have "hit_blocks_by_group st ! hd (sg_group_ids h) \<noteq> None" using q(6)[OF o] h(2) by metis
    with r[of h] h(1) have "covered h (curr_hit_length st) (hit_blocks_by_group st)" by simp
    then have "covered h (curr_hit_length st') (hit_blocks_by_group st)" using q(1) by (rule covered_mono)
    with q(6)[OF o] have "covered h (curr_hit_length st') (hit_blocks_by_group st')" by (rule covered_cong)
    then show "int ?al dvd curr_hit_length st' \<and> covered h (curr_hit_length st') (hit_blocks_by_group st')" using q(3) by blast
  qed (use p q(5) in auto)
qed

lemma hybrid_pass_covers:
  assumes h: "nat (m div int (co_hash_block_size co)) \<le> length hashes"
  shows "\<forall>g \<in> set gs. searchable (co_hash_block_size co) (co_scheduler_block_size co) g \<and> \<not> sg_use_eagle g \<Longrightarrow>
    0 \<le> curr_hit_length st \<Longrightarrow> curr_hit_length st \<le> m \<Longrightarrow> pass_ready (co_scheduler_block_size co) gs st \<Longrightarrow>
    hybrid_pass co hashes m idx gs st = Inr st' \<Longrightarrow>
      0 \<le> curr_hit_length st' \<and> curr_hit_length st' \<le> curr_hit_length st \<and>
      (gs \<noteq> [] \<longrightarrow> int (co_scheduler_block_size co) dvd curr_hit_length st') \<and>
      length (hit_blocks_by_group st') = length (hit_blocks_by_group st) \<and>
      (\<forall>g \<in> set gs. covered g (curr_hit_length st') (hit_blocks_by_group st')) \<and>
      (\<forall>i. i \<notin> set (ids_of gs) \<longrightarrow> hit_blocks_by_group st' ! i = hit_blocks_by_group st ! i)"
proof (induction gs arbitrary: idx st)
  case (Cons g gs)
  obtain st1 where st1: "hybrid_group_step co hashes m idx g st = Inr st1" "hybrid_pass co hashes m (idx + 1) gs st1 = Inr st'"
    using Cons.prems(5) unfolding hybrid_pass.simps by (rule rbind_InrE) (rule that)
  have g: "searchable (co_hash_block_size co) (co_scheduler_block_size co) g" "\<not> sg_use_eagle g"
    and ne: "\<forall>g \<in> set gs. sg_group_ids g \<noteq> []" using Cons.prems(1) by (simp_all add: searchable_def)
  note q = pass_ready_step[OF g(1) Cons.prems(2,3) h g(2) Cons.prems(4) ne st1(1)]
  note ih = Cons.IH[OF _ q(3) order_trans[OF q(2) Cons.prems(3)] q(1) st1(2)]
  have sub: "\<forall>g \<in> set gs. searchable (co_hash_block_size co) (co_scheduler_block_size co) g \<and> \<not> sg_use_eagle g"
    using Cons.prems(1) by simp
  note ih = ih[OF sub]
  have o: "i \<notin> set (ids_of gs)" if "i \<in> set (sg_group_ids g)" for i using Cons.prems(4) that by (auto simp: pass_ready_def)
  have c: "covered g (curr_hit_length st') (hit_blocks_by_group st')"
    by (rule covered_cong[OF _ covered_mono[OF q(5)]]) (use ih o in auto)
  have al: "int (co_scheduler_block_size co) dvd curr_hit_length st'"
    using ih q(4) st1(2) by (cases "gs = []") auto
  show ?case using ih q c al by auto
qed simp

lemma hybrid_loop_covers:
  assumes h: "nat (m div int (co_hash_block_size co)) \<le> length hashes"
    and g: "\<forall>g \<in> set (attention_groups co).
      searchable (co_hash_block_size co) (co_scheduler_block_size co) g \<and> \<not> sg_use_eagle g"
    and ne: "attention_groups co \<noteq> []"
  shows "0 \<le> n \<Longrightarrow> n \<le> m \<Longrightarrow>
    pass_ready (co_scheduler_block_size co) (attention_groups co)
      \<lparr>curr_hit_length = n, hit_blocks_by_group = by_group, eagle_verified = verified\<rparr> \<Longrightarrow>
    hybrid_loop co hashes m n by_group verified = Inr (k, bg) \<Longrightarrow>
      int (co_scheduler_block_size co) dvd k \<and> length bg = length by_group \<and> (\<forall>g \<in> set (attention_groups co). covered g k bg)"
proof (induction "nat n" arbitrary: n by_group verified rule: less_induct)
  case less
  let ?st = "\<lparr>curr_hit_length = n, hit_blocks_by_group = by_group, eagle_verified = verified\<rparr>"
  have s: "\<forall>g \<in> set (attention_groups co). searchable (co_hash_block_size co) (co_scheduler_block_size co) g" using g by blast
  obtain st where st: "hybrid_pass co hashes m 0 (attention_groups co) ?st = Inr st"
    using hybrid_pass_returns[OF h s, of ?st 0] less.prems(1,2) by auto
  have q: "0 \<le> curr_hit_length st" "curr_hit_length st \<le> n" "int (co_scheduler_block_size co) dvd curr_hit_length st"
      "length (hit_blocks_by_group st) = length by_group"
      "\<forall>g \<in> set (attention_groups co). covered g (curr_hit_length st) (hit_blocks_by_group st)"
    using hybrid_pass_covers[OF h g _ _ less.prems(3) st] less.prems(1,2) ne by simp_all
  note l = hybrid_loop_unfold[OF st q(1)]
  show ?case
  proof (cases "curr_hit_length st \<ge> n \<or> is_simple_hybrid co")
    case True
    then have "k = curr_hit_length st \<and> bg = hit_blocks_by_group st" using l less.prems(4) q(2) by (auto split: if_splits)
    then show ?thesis using q by simp
  next
    case False
    then have lt: "nat (curr_hit_length st) < nat n" "curr_hit_length st \<le> m" using q(1) less.prems(2) by auto
    have r: "pass_ready (co_scheduler_block_size co) (attention_groups co) st"
      by (rule pass_readyI) (use less.prems(3) q in \<open>auto simp: pass_ready_def\<close>)
    have "hybrid_loop co hashes m (curr_hit_length st) (hit_blocks_by_group st) (eagle_verified st) = Inr (k, bg)"
      using l False less.prems(4) by simp
    moreover have "st = \<lparr>curr_hit_length = curr_hit_length st, hit_blocks_by_group = hit_blocks_by_group st,
        eagle_verified = eagle_verified st\<rparr>" by simp
    ultimately show ?thesis using less.hyps[OF lt(1) q(1) lt(2), of "hit_blocks_by_group st" "eagle_verified st"] r q(4) by metis
  qed
qed

text \<open>The groups of different kinds share out the group ids.\<close>

lemma add_to_groups_ids:
  "add_to_groups spec i cls eagle gs = Inr gs' \<Longrightarrow>
     mset (ids_of gs') = add_mset i (mset (ids_of gs)) \<and>
     ((\<forall>g \<in> set gs. sg_group_ids g \<noteq> []) \<longrightarrow> (\<forall>g \<in> set gs'. sg_group_ids g \<noteq> []))"
proof (induction gs arbitrary: gs')
  case (Cons g gs)
  show ?case
  proof (cases "sg_spec g = spec")
    case True
    then show ?thesis using Cons.prems by (auto simp: py_assert_eq_Inr)
  next
    case False
    obtain gs1 where "add_to_groups spec i cls eagle gs = Inr gs1" "gs' = g # gs1"
      using Cons.prems False by (auto simp: rbind_eq_Inr)
    then show ?thesis using Cons.IH[of gs1] by simp
  qed
qed auto

lemma split_groups_ids:
  "split_groups eids i gs ms acc = Inr acc' \<Longrightarrow> length gs = length ms \<Longrightarrow>
     mset (ids_of acc') = mset (ids_of acc) + mset [i..<i + length gs]"
proof (induction eids i gs ms acc rule: split_groups.induct)
  case (1 eids i g gs m ms acc)
  obtain acc1 where a: "add_to_groups (group_spec g) i (mgr_class m) (i \<in> set eids) acc = Inr acc1"
      "split_groups eids (i + 1) gs ms acc1 = Inr acc'"
    using 1(2) unfolding split_groups.simps by (rule rbind_InrE) (rule that)
  have "mset (ids_of acc') = mset (ids_of acc1) + mset [i + 1..<i + 1 + length gs]" using 1(1)[OF a(2)] 1(3) by simp
  moreover have "[i..<i + length (g # gs)] = i # [i + 1..<i + 1 + length gs]"
    by (subst upt_conv_Cons) (simp_all del: upt_Suc)
  ultimately show ?case using add_to_groups_ids[OF a(1)] by (simp del: upt_Suc)
qed auto

lemma full_first_ids: "mset (ids_of (full_first gs)) = mset (ids_of gs)"
  by (induction gs) (auto simp: full_first_def)

lemma init_hybrid_groups:
  assumes "init_hybrid co = Inr co'" "length (single_type_managers co) = length (kv_cache_groups (co_config co))"
  shows "distinct (ids_of (attention_groups co'))" "attention_groups co' \<noteq> []" "co_config co' = co_config co"
    "set (ids_of (attention_groups co')) = {..<length (kv_cache_groups (co_config co'))}"
proof -
  obtain gs where gs: "split_groups (eagle_group_ids co) 0 (kv_cache_groups (co_config co)) (single_type_managers co) [] = Inr gs"
      "length gs > 1" "attention_groups co' = full_first gs" "co_config co' = co_config co"
    using assms(1) by (auto simp: init_hybrid_def verify_and_split_kv_cache_groups_def py_assert_eq_Inr Let_def rbind_eq_Inr)
  have m: "mset (ids_of (attention_groups co')) = mset [0..<length (kv_cache_groups (co_config co'))]"
    using split_groups_ids[OF gs(1)] assms(2) gs(3,4) by (simp add: full_first_ids)
  show "distinct (ids_of (attention_groups co'))" using mset_eq_imp_distinct_iff[OF m] by simp
  show "set (ids_of (attention_groups co')) = {..<length (kv_cache_groups (co_config co'))}"
    using mset_eq_setD[OF m] by auto
  show "co_config co' = co_config co" by (rule gs(4))
  show "attention_groups co' \<noteq> []" using gs(2,3) by (cases gs) (auto simp: full_first_def)
qed

lemma pass_ready_start:
  assumes "distinct (ids_of gs)" "\<forall>i \<in> set (ids_of gs). i < n" "\<forall>g \<in> set gs. sg_group_ids g \<noteq> []"
  shows "pass_ready al gs \<lparr>curr_hit_length = m, hit_blocks_by_group = replicate n None, eagle_verified = {}\<rparr>"
proof -
  have "hd (sg_group_ids g) < n" if "g \<in> set gs" for g using assms(2,3) that by auto
  then show ?thesis using assms by (auto simp: pass_ready_def)
qed

lemma take_exactly:
  assumes "int bs dvd n" "0 < bs" "0 \<le> n" "n \<le> int (length xs * bs)"
  shows "int (length (take (nat (n div int bs)) xs) * bs) = n"
proof -
  obtain k where k: "n = int bs * k" using assms(1) by (rule dvdE)
  have p: "0 \<le> k" using assms(2,3) k by (simp add: zero_le_mult_iff)
  then have "nat k \<le> length xs" using assms(2,4) by (simp add: k mult.commute nat_le_iff)
  then show ?thesis using assms(2) p by (simp add: k min_absorb2)
qed

lemma hybrid_hits:
  assumes "init_hybrid co0 = Inr co" "length (single_type_managers co0) = length (kv_cache_groups (co_config co0))"
    "\<forall>g \<in> set (attention_groups co).
       searchable (co_hash_block_size co) (co_scheduler_block_size co) g \<and> \<not> sg_use_eagle g"
    "0 \<le> m" "nat (m div int (co_hash_block_size co)) \<le> length hashes"
    "hybrid_find_longest_cache_hit hashes m co = Inr (hits, n)"
    "g \<in> set (attention_groups co)" "i \<in> set (sg_group_ids g)"
  shows "int (co_scheduler_block_size co) dvd n" "n \<le> int (length (hits ! i) * group_bs g)"
    "g = hd (attention_groups co) \<Longrightarrow> isinstance (sg_spec g) CFullAttentionSpec \<Longrightarrow> n = int (length (hits ! i) * group_bs g)"
proof -
  note ini = init_hybrid_groups[OF assms(1,2)]
  let ?G = "length (kv_cache_groups (co_config co))"
  obtain bg where l: "hybrid_loop co hashes m m (replicate ?G None) {} = Inr (n, bg)"
      "hits = map (\<lambda>b. case b of None \<Rightarrow> [] | Some blks \<Rightarrow> blks) (trim_full co n bg)"
    using assms(6) unfolding hybrid_find_longest_cache_hit_def by (auto simp: rbind_eq_Inr)
  have s: "\<forall>g \<in> set (attention_groups co). searchable (co_hash_block_size co) (co_scheduler_block_size co) g"
    using assms(3) by blast
  have h: "\<forall>g \<in> set (attention_groups co). sg_group_ids g \<noteq> []" using s by (simp add: searchable_def)
  have i: "\<forall>i \<in> set (ids_of (attention_groups co)). i < ?G" using ini(4) by auto
  note c = hybrid_loop_covers[OF assms(5,3) ini(2) assms(4) order_refl pass_ready_start[OF ini(1) i h] l(1)]
  show al: "int (co_scheduler_block_size co) dvd n" using c by simp
  have n: "0 \<le> n" using hybrid_loop_returns[OF assms(5) s assms(4) order_refl, of "replicate ?G None" "{}"] l(1) by auto
  obtain blks where b: "bg ! i = Some blks" "n \<le> int (length blks * group_bs g)" using c assms(7,8) unfolding covered_def by blast
  have ib: "i < length bg" using c ini(4) assms(7,8) by auto
  have "group_bs g dvd co_scheduler_block_size co" "0 < group_bs g" using s assms(7) by (auto simp: searchable_def)
  then have dv: "int (group_bs g) dvd n" "0 < group_bs g" using al by (meson dvd_trans int_dvd_int_iff)+
  obtain f gs where f: "attention_groups co = f # gs" using ini(2) by (cases "attention_groups co") auto
  define first where "first \<longleftrightarrow> isinstance (sg_spec f) CFullAttentionSpec \<and> i \<in> set (sg_group_ids f)"
  have t: "hits ! i = (if first then take (nat (n div int (group_bs f))) blks else blks)"
    using ib b(1) by (auto simp: l(2) trim_full_def f first_def Let_def)
  have same: "g = f" if "i \<in> set (sg_group_ids f)"
    using ini(1) assms(7,8) that by (auto simp: f)
  have full: "int (length (take (nat (n div int (group_bs g))) blks) * group_bs g) = n"
    by (rule take_exactly[OF dv n b(2)])
  show "n \<le> int (length (hits ! i) * group_bs g)" unfolding t using full b(2) same by (auto simp: first_def)
  show "n = int (length (hits ! i) * group_bs g)" if "g = hd (attention_groups co)" "isinstance (sg_spec g) CFullAttentionSpec"
  proof -
    have "g = f" using that(1) by (simp add: f)
    then have first using that(2) assms(8) by (simp add: first_def)
    then show ?thesis using t full \<open>g = f\<close> by simp
  qed
qed

section \<open>An example\<close>

text \<open>
  Three groups with blocks of two tokens: two of full attention that differ in their heads, and one with a
  sliding window of three tokens.  Of two hashed blocks the first is cached for all groups and the second for
  the groups with full attention.
\<close>

definition heads_fields :: "nat \<Rightarrow> attention_fields" where
  "heads_fields n = \<lparr>af_block_size = 2, num_kv_heads = n, head_size = 8, af_dtype = ''float16'', quant_mode = QNone,
     page_size_padded = None\<rparr>"

definition full_heads :: "nat \<Rightarrow> kv_cache_spec" where
  "full_heads n = FullAttentionSpec (heads_fields n) \<lparr>head_size_v = 8, full_sliding_window = None, full_chunk_size = None\<rparr>"

definition demo_groups :: "(manager_class \<times> kv_cache_spec) list" where
  "demo_groups = [(FullAttentionManager, full_heads 1), (FullAttentionManager, full_heads 2),
     (SlidingWindowManager, SlidingWindowSpec (heads_fields 1) 3 0)]"

definition demo_cached :: "(bytes \<times> nat \<times> bref) list" where
  "demo_cached = [([5], 0, Blk 1), ([6], 0, Blk 2), ([5], 1, Blk 3), ([6], 1, Blk 4), ([5], 2, Blk 5)]"

definition demo_coordinator :: coordinator where
  "demo_coordinator =
     \<lparr>co_kind = Hybrid,
      co_config = \<lparr>cfg_num_blocks = 6, kv_cache_tensors = [], kv_cache_groups =
        map (\<lambda>(_, spec). \<lparr>layer_names = [], group_spec = spec, is_eagle_group = False\<rparr>) demo_groups\<rparr>,
      co_max_model_len = 16, co_enable_caching = True, co_scheduler_block_size = 2, co_hash_block_size = 2,
      co_dcp_world_size = 1, co_pcp_world_size = 1,
      co_pool = (projr (init_block_pool 6 True 2 False False))\<lparr>cached_block_hash_to_block :=
        fold (\<lambda>(h, g, b). map_insert (h @ to_bytes4 g) b) demo_cached Map.empty\<rparr>,
      eagle_group_ids = [],
      single_type_managers = map (\<lambda>(i, cls, spec). init_manager cls spec True i 2 1 1 None) (zip [0, 1, 2] demo_groups),
      retention_interval = None, attention_groups = []\<rparr>"

lemmas demo_defs = demo_coordinator_def demo_groups_def full_heads_def heads_fields_def isinstance_def issubclass_def

definition demo_search :: coordinator where
  "demo_search = projr (init_hybrid demo_coordinator)"

lemma demo_search_init: "init_hybrid demo_coordinator = Inr demo_search"
  unfolding demo_search_def
  by (simp add: demo_defs init_hybrid_def verify_and_split_kv_cache_groups_def init_manager_def full_first_def Let_def)

lemma demo_search_groups:
  "attention_groups demo_search =
     [\<lparr>sg_spec = full_heads 1, sg_group_ids = [0], sg_manager_cls = FullAttentionManager, sg_use_eagle = False\<rparr>,
      \<lparr>sg_spec = full_heads 2, sg_group_ids = [1], sg_manager_cls = FullAttentionManager, sg_use_eagle = False\<rparr>,
      \<lparr>sg_spec = SlidingWindowSpec (heads_fields 1) 3 0, sg_group_ids = [2], sg_manager_cls = SlidingWindowManager,
       sg_use_eagle = False\<rparr>]"
  "co_hash_block_size demo_search = 2" "co_scheduler_block_size demo_search = 2"
  "length (kv_cache_groups (co_config demo_search)) = 3" "co_pool demo_search = co_pool demo_coordinator"
  unfolding demo_search_def
  by (simp_all add: demo_defs init_hybrid_def verify_and_split_kv_cache_groups_def init_manager_def full_first_def Let_def)

lemma demo_lookup:
  "get_one_block ([5] @ to_bytes4 0) (cached_block_hash_to_block (co_pool demo_coordinator)) = Some (Blk 1)"
  "get_one_block ([6] @ to_bytes4 0) (cached_block_hash_to_block (co_pool demo_coordinator)) = Some (Blk 2)"
  "get_one_block ([5] @ to_bytes4 1) (cached_block_hash_to_block (co_pool demo_coordinator)) = Some (Blk 3)"
  "get_one_block ([6] @ to_bytes4 1) (cached_block_hash_to_block (co_pool demo_coordinator)) = Some (Blk 4)"
  "get_one_block ([5] @ to_bytes4 2) (cached_block_hash_to_block (co_pool demo_coordinator)) = Some (Blk 5)"
  "get_one_block ([6] @ to_bytes4 2) (cached_block_hash_to_block (co_pool demo_coordinator)) = None"
  by (simp_all add: demo_coordinator_def demo_cached_def get_one_block_def map_insert_def to_bytes4_def)

lemma demo_row:
  assumes "g < 2 ^ 32"
  shows "hit_row h [g] p = Inr (map_option (\<lambda>b. [b]) (get_one_block (h @ to_bytes4 g) (cached_block_hash_to_block p)))"
  using hit_row_cached[of "[g]" h p] assms
  by (cases "get_one_block (h @ to_bytes4 g) (cached_block_hash_to_block p)") (simp_all add: cached_row_def)

lemmas demo_eval = demo_search_groups full_heads_def heads_fields_def isinstance_def issubclass_def
  get_block_hashes_def find_longest_cache_hit_def full_find_longest_cache_hit_def swa_find_longest_cache_hit_def view_from_def
  demo_row demo_lookup[simplified] pop_eagle_def columns_def store_hits_def window_of_def contiguous_blocks_for_hit_def cdiv_def
  list_get_def

lemma swa_scan_two: "swa_scan v gids bs al eagle need p 2 c rows = swa_scan v gids bs al eagle need p (Suc (Suc 0)) c rows"
  by (simp only: numeral_2_eq_2)

lemma demo_scan:
  "swa_scan (PlainHashes [[5], [6]]) [2] 2 2 False (Suc 0) (co_pool demo_coordinator) 2 0 [x, y] = Inr ([[Blk 5]], 1, True)"
  by (simp add: swa_scan_two demo_row demo_lookup[simplified] list_get_def)

lemma demo_scan_short:
  "swa_scan (PlainHashes [[5], [6]]) [2] 2 2 False (Suc 0) (co_pool demo_coordinator) (Suc 0) 0 [x] = Inr ([[Blk 5]], 1, True)"
  by (simp add: demo_row demo_lookup[simplified] list_get_def)

lemma replicate_two: "replicate 2 x = [x, x]"
  by (simp add: numeral_2_eq_2)

lemma demo_pass:
  "hybrid_pass demo_search [[5], [6]] 4 0 (attention_groups demo_search)
     \<lparr>curr_hit_length = 4, hit_blocks_by_group = [None, None, None], eagle_verified = {}\<rparr> =
   Inr \<lparr>curr_hit_length = 2, hit_blocks_by_group = [Some [Blk 1, Blk 2], Some [Blk 3, Blk 4], Some [Blk 5]],
        eagle_verified = {}\<rparr>"
  "hybrid_pass demo_search [[5], [6]] 4 0 (attention_groups demo_search)
     \<lparr>curr_hit_length = 2, hit_blocks_by_group = [Some [Blk 1, Blk 2], Some [Blk 3, Blk 4], Some [Blk 5]],
      eagle_verified = {}\<rparr> =
   Inr \<lparr>curr_hit_length = 2, hit_blocks_by_group = [Some [Blk 1, Blk 2], Some [Blk 3, Blk 4], Some [Blk 5]],
        eagle_verified = {}\<rparr>"
  by (simp_all add: hybrid_group_step_def Let_def demo_eval demo_scan demo_scan_short replicate_two)

lemma demo_hits:
  "hybrid_find_longest_cache_hit [[5], [6]] 4 demo_search = Inr ([[Blk 1], [Blk 3, Blk 4], [Blk 5]], 2)"
proof -
  have "\<not> is_simple_hybrid demo_search" by (simp add: is_simple_hybrid_def demo_search_groups)
  then have "hybrid_loop demo_search [[5], [6]] 4 4 [None, None, None] {} =
      Inr (2, [Some [Blk 1, Blk 2], Some [Blk 3, Blk 4], Some [Blk 5]])"
    using hybrid_loop_unfold[OF demo_pass(1)] hybrid_loop_unfold[OF demo_pass(2)] by simp
  moreover have "replicate 3 None = [None, None, None :: bref list option]" by (simp add: numeral_3_eq_3)
  ultimately show ?thesis
    by (simp add: hybrid_find_longest_cache_hit_def demo_search_groups trim_full_def full_heads_def heads_fields_def
        isinstance_def issubclass_def Let_def)
qed

section \<open>Properties\<close>

text \<open>
  C18. The search ends.  For groups the managers can look up, and enough block hashes for the limit, the repeated
  passes over groups of different kinds end and return a length between zero and the limit.
\<close>

theorem hybrid_search_terminates:
  assumes "\<forall>g \<in> set (attention_groups co). searchable (co_hash_block_size co) (co_scheduler_block_size co) g"
    "0 \<le> max_len" "nat (max_len div int (co_hash_block_size co)) \<le> length hashes"
  shows "\<exists>hits n. hybrid_find_longest_cache_hit hashes max_len co = Inr (hits, n) \<and> 0 \<le> n \<and> n \<le> max_len"
  using hybrid_loop_returns[OF assms(3,1,2) order_refl, of "replicate (length (kv_cache_groups (co_config co))) None" "{}"]
  by (auto simp: hybrid_find_longest_cache_hit_def)

lemma demo_searchable:
  "\<forall>g \<in> set (attention_groups demo_search).
     searchable (co_hash_block_size demo_search) (co_scheduler_block_size demo_search) g \<and> \<not> sg_use_eagle g"
  by (simp add: demo_search_groups searchable_def full_heads_def heads_fields_def isinstance_def issubclass_def)

theorem hybrid_search_terminates_witness:
  "\<exists>hits n. hybrid_find_longest_cache_hit [[5], [6]] 4 demo_search = Inr (hits, n) \<and> 0 \<le> n \<and> n \<le> 4"
  by (rule hybrid_search_terminates) (use demo_searchable in \<open>auto simp: demo_search_groups\<close>)

text \<open>
  C19. The hit is covered.  In a coordinator built for several kinds of layers and without speculative groups, the
  length the search returns is a multiple of the alignment, the blocks returned for every group hold at least
  that many tokens, and for the first group with full attention exactly that many.
\<close>

theorem hybrid_search_covers:
  assumes "init_hybrid co0 = Inr co" "length (single_type_managers co0) = length (kv_cache_groups (co_config co0))"
    "\<forall>g \<in> set (attention_groups co).
       searchable (co_hash_block_size co) (co_scheduler_block_size co) g \<and> \<not> sg_use_eagle g"
    "0 \<le> max_len" "nat (max_len div int (co_hash_block_size co)) \<le> length hashes"
    "hybrid_find_longest_cache_hit hashes max_len co = Inr (hits, n)"
  shows "int (co_scheduler_block_size co) dvd n \<and>
    (\<forall>g \<in> set (attention_groups co). \<forall>i \<in> set (sg_group_ids g). n \<le> int (length (hits ! i) * group_bs g) \<and>
       (g = hd (attention_groups co) \<and> isinstance (sg_spec g) CFullAttentionSpec \<longrightarrow>
          n = int (length (hits ! i) * group_bs g)))"
proof -
  note h = hybrid_hits[OF assms]
  have ne: "hd (attention_groups co) \<in> set (attention_groups co)" using init_hybrid_groups(2)[OF assms(1,2)] by simp
  then have "hd (sg_group_ids (hd (attention_groups co))) \<in> set (sg_group_ids (hd (attention_groups co)))"
    using assms(3) by (simp add: searchable_def)
  from h(1)[OF ne this] show ?thesis using h(2,3) by blast
qed

theorem hybrid_search_covers_witness:
  "int (co_scheduler_block_size demo_search) dvd 2 \<and>
   2 = int (length [Blk 1] * group_bs (attention_groups demo_search ! 0)) \<and>
   2 \<le> int (length [Blk 3, Blk 4] * group_bs (attention_groups demo_search ! 1)) \<and>
   2 \<le> int (length [Blk 5] * group_bs (attention_groups demo_search ! 2))"
proof -
  have "length (single_type_managers demo_coordinator) = length (kv_cache_groups (co_config demo_coordinator))"
    by (simp add: demo_coordinator_def demo_groups_def)
  from hybrid_search_covers[OF demo_search_init this demo_searchable _ _ demo_hits] show ?thesis
    by (simp add: demo_search_groups isinstance_def issubclass_def full_heads_def)
qed




end
