(* ===== verification/Detokenizer.thy ===== *)
theory Detokenizer
  imports Prelude
begin

text \<open>
  \<^verbatim>\<open>src/vllm/vllm/v1/engine/detokenizer.py\<close>: the text of a request, built token by token, the search for stop
  strings in its new part, and the pieces that are streamed to the client.  The tokenizer is third-party code;
  its step is an argument.
\<close>

section \<open>Stop strings\<close>

text \<open>\<^verbatim>\<open>str.find\<close> with a start position, which counts from the end when it is negative.\<close>

definition occurs_at :: "string \<Rightarrow> string \<Rightarrow> nat \<Rightarrow> bool" where
  "occurs_at txt pat i \<longleftrightarrow> take (length pat) (drop i txt) = pat"

definition find_from :: "string \<Rightarrow> string \<Rightarrow> int \<Rightarrow> nat option" where
  "find_from txt pat start =
     (let s = (if start < 0 then nat (start + int (length txt)) else nat start)
      in find (occurs_at txt pat) [s..<length txt + 1 - length pat])"

text \<open>The stop string that was found, and the length to which the text is cut, if it is.\<close>

fun check_stop_loop :: "string \<Rightarrow> nat \<Rightarrow> bool \<Rightarrow> string list \<Rightarrow> (string \<times> nat option) option" where
  "check_stop_loop txt new_chars incl [] = None"
| "check_stop_loop txt new_chars incl (s # ss) =
     (case find_from txt s (1 - int new_chars - int (length s)) of
        None \<Rightarrow> check_stop_loop txt new_chars incl ss
      | Some i \<Rightarrow>
          if incl then Some (s, if i + length s \<ge> length txt then None else Some (i + length s))
          else Some (s, Some i))"

definition check_stop_strings :: "string \<Rightarrow> nat \<Rightarrow> string list \<Rightarrow> bool \<Rightarrow> (string \<times> nat option) option" where
  "check_stop_strings txt new_chars stop incl =
     (if new_chars = 0 \<or> stop = [] then None else check_stop_loop txt new_chars incl stop)"

section \<open>Detokenizers\<close>

text \<open>
  \<^verbatim>\<open>BaseIncrementalDetokenizer\<close>; \<open>decoder\<close> is the state of the tokenizer's stream.  The prompt is part of the token
  ids of the slow detokenizer only, for the other one \<open>dt_prompt_len\<close> is zero.
\<close>

record 'd detokenizer =
  dt_token_ids :: "int list"
  dt_prompt_len :: nat
  dt_stop :: "string list"
  dt_min_tokens :: nat
  include_stop_str_in_output :: bool
  stop_buffer_length :: int
  last_output_text_offset :: nat
  output_text :: string
  decoder :: 'd

definition init_detokenizer :: "int list \<Rightarrow> string list \<Rightarrow> nat \<Rightarrow> bool \<Rightarrow> 'd \<Rightarrow> 'd detokenizer" where
  "init_detokenizer prompt stop min_toks incl st =
     \<lparr>dt_token_ids = prompt, dt_prompt_len = length prompt, dt_stop = stop, dt_min_tokens = min_toks,
      include_stop_str_in_output = incl,
      stop_buffer_length = (if stop \<noteq> [] \<and> \<not> incl then int (Max (set (map length stop))) - 1 else 0),
      last_output_text_offset = 0, output_text = [], decoder = st\<rparr>"

definition output_token_ids_of :: "'d detokenizer \<Rightarrow> int list" where
  "output_token_ids_of d = drop (dt_prompt_len d) (dt_token_ids d)"

definition num_output_tokens_of :: "'d detokenizer \<Rightarrow> nat" where
  "num_output_tokens_of d = length (dt_token_ids d) - dt_prompt_len d"

text \<open>The loop over the new tokens, with the offset from which stop strings are looked for.\<close>

fun decode_loop :: "('d \<Rightarrow> int list \<Rightarrow> string \<times> 'd) \<Rightarrow> int list \<Rightarrow> 'd detokenizer \<Rightarrow> nat \<Rightarrow> 'd detokenizer \<times> nat" where
  "decode_loop decode_next [] d ofs = (d, ofs)"
| "decode_loop decode_next (t # ts) d ofs =
     (let ids = dt_token_ids d @ [t];
          (piece, st) = decode_next (decoder d) ids;
          d1 = d\<lparr>dt_token_ids := ids, output_text := output_text d @ piece, decoder := st\<rparr>
      in decode_loop decode_next ts d1
           (if dt_min_tokens d1 \<noteq> 0 \<and> num_output_tokens_of d1 \<le> dt_min_tokens d1 then length (output_text d1) else ofs))"

definition detok_update ::
  "('d \<Rightarrow> int list \<Rightarrow> string \<times> 'd) \<Rightarrow> int list \<Rightarrow> bool \<Rightarrow> 'd detokenizer \<Rightarrow> string option \<times> 'd detokenizer" where
  "detok_update decode_next toks stop_terminated d =
     (if toks = [] then (None, d)
      else let skip = (stop_terminated \<and> \<not> include_stop_str_in_output d);
               (d1, ofs) = decode_loop decode_next (if skip then butlast toks else toks) d (length (output_text d));
               d2 = (if skip then d1\<lparr>dt_token_ids := dt_token_ids d1 @ [last toks]\<rparr> else d1)
           in if dt_stop d2 \<noteq> [] \<and> num_output_tokens_of d2 > dt_min_tokens d2
              then (case check_stop_strings (output_text d2) (length (output_text d2) - ofs) (dt_stop d2)
                           (include_stop_str_in_output d2) of
                      None \<Rightarrow> (None, d2)
                    | Some (s, None) \<Rightarrow> (Some s, d2)
                    | Some (s, Some n) \<Rightarrow> (Some s, d2\<lparr>output_text := take n (output_text d2)\<rparr>))
              else (None, d2))"

definition get_next_output_text :: "bool \<Rightarrow> bool \<Rightarrow> 'd detokenizer \<Rightarrow> string \<times> 'd detokenizer" where
  "get_next_output_text finished delta d =
     (let buf = (if finished then 0 else stop_buffer_length d); txt = output_text d
      in if \<not> delta
         then (if buf = 0 then txt
               else if buf < 0 then take (nat (- buf)) txt else take (length txt - nat buf) txt, d)
         else let len = int (length txt) - buf; from = last_output_text_offset d
              in if int from < len
                 then (drop from (take (nat len) txt), d\<lparr>last_output_text_offset := nat len\<rparr>)
                 else ([], d))"

definition decode_output_token_ids :: "(int list \<Rightarrow> string) \<Rightarrow> int list \<Rightarrow> string" where
  "decode_output_token_ids decode toks = (if toks = [] then [] else decode toks)"

text \<open>Without a tokenizer only the token ids are kept.\<close>

datatype 'd incremental_detokenizer = NoTokenizer "int list" | WithTokenizer "'d detokenizer"

fun inc_output_token_ids :: "'d incremental_detokenizer \<Rightarrow> int list" where
  "inc_output_token_ids (NoTokenizer ids) = ids"
| "inc_output_token_ids (WithTokenizer d) = output_token_ids_of d"

fun inc_num_output_tokens :: "'d incremental_detokenizer \<Rightarrow> nat" where
  "inc_num_output_tokens (NoTokenizer ids) = length ids"
| "inc_num_output_tokens (WithTokenizer d) = num_output_tokens_of d"

fun inc_update ::
  "('d \<Rightarrow> int list \<Rightarrow> string \<times> 'd) \<Rightarrow> int list \<Rightarrow> bool \<Rightarrow> 'd incremental_detokenizer \<Rightarrow>
   string option \<times> 'd incremental_detokenizer" where
  "inc_update decode_next toks stop_terminated (NoTokenizer ids) = (None, NoTokenizer (ids @ toks))"
| "inc_update decode_next toks stop_terminated (WithTokenizer d) =
     map_prod id WithTokenizer (detok_update decode_next toks stop_terminated d)"

fun inc_get_next_output_text ::
  "bool \<Rightarrow> bool \<Rightarrow> 'd incremental_detokenizer \<Rightarrow> string \<times> 'd incremental_detokenizer" where
  "inc_get_next_output_text finished delta (NoTokenizer ids) = ([], NoTokenizer ids)"
| "inc_get_next_output_text finished delta (WithTokenizer d) =
     map_prod id WithTokenizer (get_next_output_text finished delta d)"

fun inc_decode_output_token_ids :: "(int list \<Rightarrow> string) \<Rightarrow> int list \<Rightarrow> 'd incremental_detokenizer \<Rightarrow> string" where
  "inc_decode_output_token_ids decode toks (NoTokenizer _) = []"
| "inc_decode_output_token_ids decode toks (WithTokenizer _) = decode_output_token_ids decode toks"

section \<open>The search finds the stop strings that end in the new text\<close>

definition ends_new :: "string \<Rightarrow> nat \<Rightarrow> string \<Rightarrow> nat \<Rightarrow> bool" where
  "ends_new txt new_chars s i \<longleftrightarrow>
     occurs_at txt s i \<and> i + length s \<le> length txt \<and> length txt < i + length s + new_chars"

lemma find_upt:
  "find P [a..<b] = (if \<exists>i. a \<le> i \<and> i < b \<and> P i then Some (LEAST i. a \<le> i \<and> i < b \<and> P i) else None)"
proof (cases "\<exists>i. a \<le> i \<and> i < b \<and> P i")
  case True
  define k where "k = (LEAST i. a \<le> i \<and> i < b \<and> P i)"
  have k: "a \<le> k" "k < b" "P k" using LeastI_ex[OF True] by (simp_all add: k_def)
  have l: "\<not> P i" if "a \<le> i" "i < k" for i using not_less_Least[of i "\<lambda>i. a \<le> i \<and> i < b \<and> P i"] that k by (auto simp: k_def)
  have "find P [a..<b] = Some k"
    unfolding find_Some_iff using k l by (intro exI[of _ "k - a"]) auto
  then show ?thesis using True by (simp add: k_def)
next
  case False
  then have "find P [a..<b] = None" by (auto simp: find_None_iff)
  then show ?thesis using False by simp
qed

lemma find_from_new:
  assumes "s \<noteq> []" "0 < new_chars"
  shows "find_from txt s (1 - int new_chars - int (length s)) =
    (if \<exists>i. ends_new txt new_chars s i then Some (LEAST i. ends_new txt new_chars s i) else None)"
proof -
  let ?a = "nat (1 - int new_chars - int (length s) + int (length txt))"
  have neg: "1 - int new_chars - int (length s) < 0" using assms by (cases s) auto
  have "(?a \<le> i \<and> i < length txt + 1 - length s \<and> occurs_at txt s i) = ends_new txt new_chars s i" for i
    by (auto simp: ends_new_def nat_le_iff)
  then show ?thesis using neg by (simp add: find_from_def find_upt)
qed

lemma check_stop_loop_found:
  assumes "0 < new_chars"
  shows "\<forall>s \<in> set stop. s \<noteq> [] \<Longrightarrow>
    case check_stop_loop txt new_chars incl stop of
      None \<Rightarrow> \<forall>s \<in> set stop. \<forall>i. \<not> ends_new txt new_chars s i
    | Some (s, ct) \<Rightarrow> \<exists>pre post i. stop = pre @ s # post \<and> (\<forall>t \<in> set pre. \<forall>j. \<not> ends_new txt new_chars t j) \<and>
        ends_new txt new_chars s i \<and> (\<forall>j < i. \<not> ends_new txt new_chars s j) \<and>
        ct = (if \<not> incl then Some i else if i + length s = length txt then None else Some (i + length s))"
proof (induction stop)
  case (Cons t ts)
  show ?case
  proof (cases "\<exists>i. ends_new txt new_chars t i")
    case True
    define i where "i = (LEAST i. ends_new txt new_chars t i)"
    have i: "ends_new txt new_chars t i" "\<forall>j < i. \<not> ends_new txt new_chars t j"
      using LeastI_ex[OF True] not_less_Least by (auto simp: i_def)
    have le: "i + length t \<le> length txt" using i(1) by (simp add: ends_new_def)
    have "find_from txt t (1 - int new_chars - int (length t)) = Some i"
      using find_from_new[OF _ assms, of t "txt"] Cons.prems True by (simp add: i_def)
    then have e: "check_stop_loop txt new_chars incl (t # ts) =
        Some (t, if \<not> incl then Some i else if i + length t = length txt then None else Some (i + length t))"
      using le by simp
    show ?thesis unfolding e option.case prod.case
      by (rule exI[of _ "[]"], rule exI[of _ ts], rule exI[of _ i]) (use i in simp)
  next
    case False
    then have e: "check_stop_loop txt new_chars incl (t # ts) = check_stop_loop txt new_chars incl ts"
      using find_from_new[OF _ assms, of t "txt"] Cons.prems by simp
    show ?thesis
    proof (cases "check_stop_loop txt new_chars incl ts")
      case None
      then show ?thesis using Cons False unfolding e by simp
    next
      case (Some r)
      obtain s ct where r: "r = (s, ct)" by (cases r)
      obtain pre post i where p: "ts = pre @ s # post" "\<forall>t \<in> set pre. \<forall>j. \<not> ends_new txt new_chars t j"
        "ends_new txt new_chars s i" "\<forall>j < i. \<not> ends_new txt new_chars s j"
        "ct = (if \<not> incl then Some i else if i + length s = length txt then None else Some (i + length s))"
        using Cons.IH Cons.prems unfolding Some r by auto
      show ?thesis unfolding e Some r option.case prod.case
        by (rule exI[of _ "t # pre"], rule exI[of _ post], rule exI[of _ i]) (use p False in simp)
    qed
  qed
qed simp

section \<open>The streamed pieces are the text\<close>

text \<open>
  The text of a request as a client with the delta format receives it: a piece after every batch of tokens, or
  only after some of them when a stream interval is set, and always after the last one.
\<close>

fun stream_pieces ::
  "('d \<Rightarrow> int list \<Rightarrow> string \<times> 'd) \<Rightarrow> (int list \<times> bool \<times> bool) list \<Rightarrow> 'd detokenizer \<Rightarrow> string list \<times> 'd detokenizer" where
  "stream_pieces decode_next [] d = ([], d)"
| "stream_pieces decode_next ((toks, stop_terminated, send) # batches) d =
     (let (stop, d1) = detok_update decode_next toks stop_terminated d;
          finished = (stop \<noteq> None \<or> batches = [])
      in if finished then (let (piece, d2) = get_next_output_text True True d1 in ([piece], d2))
         else if send
         then (let (piece, d2) = get_next_output_text False True d1; (pieces, d3) = stream_pieces decode_next batches d2
               in (piece # pieces, d3))
         else stream_pieces decode_next batches d1)"

definition same_params :: "'d detokenizer \<Rightarrow> 'd detokenizer \<Rightarrow> bool" where
  "same_params d d' \<longleftrightarrow> dt_stop d' = dt_stop d \<and> include_stop_str_in_output d' = include_stop_str_in_output d \<and>
     stop_buffer_length d' = stop_buffer_length d \<and> last_output_text_offset d' = last_output_text_offset d"

definition detok_ok :: "'d detokenizer \<Rightarrow> bool" where
  "detok_ok d \<longleftrightarrow> (\<forall>s \<in> set (dt_stop d). s \<noteq> [] \<and> (\<not> include_stop_str_in_output d \<longrightarrow> int (length s) \<le> stop_buffer_length d + 1)) \<and>
     0 \<le> stop_buffer_length d"

lemma detok_ok_init: "\<forall>s \<in> set stop. s \<noteq> [] \<Longrightarrow> detok_ok (init_detokenizer prompt stop min_toks incl st)"
proof -
  assume a: "\<forall>s \<in> set stop. s \<noteq> []"
  have m: "length s \<le> Max (length ` set stop)" if "s \<in> set stop" for s using that by simp
  have "1 \<le> Max (length ` set stop)" if "stop \<noteq> []"
  proof -
    have "hd stop \<in> set stop" "1 \<le> length (hd stop)" using that a by (auto simp: Suc_le_eq)
    then show ?thesis using m[of "hd stop"] by (meson order_trans)
  qed
  then show ?thesis using a m by (auto simp: detok_ok_def init_detokenizer_def)
qed

lemma decode_loop_text:
  "decode_loop decode_next ts d ofs = (d', ofs') \<Longrightarrow> ofs \<le> length (output_text d) \<Longrightarrow>
     same_params d d' \<and> (\<exists>more. output_text d' = output_text d @ more) \<and> ofs \<le> ofs' \<and> ofs' \<le> length (output_text d')"
proof (induction ts arbitrary: d ofs)
  case (Cons t ts)
  obtain piece st where p: "decode_next (decoder d) (dt_token_ids d @ [t]) = (piece, st)" by fastforce
  define d1 where "d1 = d\<lparr>dt_token_ids := dt_token_ids d @ [t], output_text := output_text d @ piece, decoder := st\<rparr>"
  define ofs1 where "ofs1 = (if dt_min_tokens d1 \<noteq> 0 \<and> num_output_tokens_of d1 \<le> dt_min_tokens d1 then length (output_text d1) else ofs)"
  have e: "decode_loop decode_next ts d1 ofs1 = (d', ofs')" 
    using Cons.prems(1) unfolding decode_loop.simps Let_def p prod.case d1_def[symmetric] ofs1_def[symmetric] .
  have o: "ofs \<le> ofs1" "ofs1 \<le> length (output_text d1)" using Cons.prems(2) by (simp_all add: ofs1_def d1_def)
  have s: "same_params d d1" "output_text d1 = output_text d @ piece" by (simp_all add: same_params_def d1_def)
  from Cons.IH[OF e o(2)] o(1) s show ?case by (auto simp: same_params_def)
qed (simp add: same_params_def)

lemma check_stop_cut:
  assumes "check_stop_strings txt (length txt - ofs) stop incl = Some (s, Some n)" "\<forall>s \<in> set stop. s \<noteq> []" "ofs \<le> length txt"
  shows "s \<in> set stop \<and> n \<le> length txt \<and> ofs < n + (if incl then 0 else length s)"
proof -
  have new: "0 < length txt - ofs" and cs: "check_stop_loop txt (length txt - ofs) incl stop = Some (s, Some n)"
    using assms(1) by (simp_all add: check_stop_strings_def split: if_splits)
  obtain pre post i where i: "stop = pre @ s # post" "ends_new txt (length txt - ofs) s i"
      "Some n = (if \<not> incl then Some i else if i + length s = length txt then None else Some (i + length s))"
    using check_stop_loop_found[OF new assms(2), of "txt" incl] unfolding cs by auto
  have "ofs < i + length s" "i + length s \<le> length txt" using i(2) assms(3) new by (auto simp: ends_new_def)
  then show ?thesis using i(1,3) by (auto split: if_splits)
qed

lemma detok_update_text:
  assumes "detok_update decode_next toks fin d = (stop, d')" "detok_ok d"
  shows "same_params d d' \<and> (stop = None \<longrightarrow> (\<exists>more. output_text d' = output_text d @ more)) \<and>
    (\<exists>more. output_text d' = take (length (output_text d')) (output_text d @ more)) \<and>
    int (length (output_text d)) \<le> int (length (output_text d')) + stop_buffer_length d"
proof (cases "toks = []")
  case True
  then show ?thesis using assms by (auto simp: detok_update_def same_params_def detok_ok_def)
next
  case False
  define skip where "skip = (fin \<and> \<not> include_stop_str_in_output d)"
  obtain d1 ofs where l: "decode_loop decode_next (if skip then butlast toks else toks) d (length (output_text d)) = (d1, ofs)"
    by fastforce
  define d2 where "d2 = (if skip then d1\<lparr>dt_token_ids := dt_token_ids d1 @ [last toks]\<rparr> else d1)"
  obtain more where m: "output_text d1 = output_text d @ more" "same_params d d1" "length (output_text d) \<le> ofs"
      "ofs \<le> length (output_text d1)"
    using decode_loop_text[OF l order_refl] by blast
  have t2: "output_text d2 = output_text d @ more" and s2: "same_params d d2" using m(1,2) by (simp_all add: d2_def same_params_def)
  let ?c = "check_stop_strings (output_text d2) (length (output_text d2) - ofs) (dt_stop d2) (include_stop_str_in_output d2)"
  note u = assms(1)[unfolded detok_update_def if_not_P[OF False] Let_def, folded skip_def, unfolded l prod.case, folded d2_def]
  have b: "0 \<le> stop_buffer_length d" using assms(2) by (simp add: detok_ok_def)
  have whole: "?thesis" if "d' = d2"
    using that s2 t2 b by (auto intro: exI[of _ more])
  show ?thesis
  proof (cases "dt_stop d2 \<noteq> [] \<and> num_output_tokens_of d2 > dt_min_tokens d2")
    case False
    have "d' = d2" using u[unfolded if_not_P[OF False]] by simp
    then show ?thesis by (rule whole)
  next
    case True
    note u = u[unfolded if_P[OF True]]
    show ?thesis
    proof (cases ?c)
      case None
      have "d' = d2" using u[unfolded None option.case] by simp
      then show ?thesis by (rule whole)
    next
      case (Some r)
      obtain s ct where r: "r = (s, ct)" by (cases r)
      show ?thesis
      proof (cases ct)
        case None
        have "d' = d2" using u[unfolded Some r None option.case prod.case] by simp
        then show ?thesis by (rule whole)
      next
        case ct: (Some n)
        have st: "stop = Some s" "d' = d2\<lparr>output_text := take n (output_text d2)\<rparr>" using u unfolding Some r ct by simp_all
        have ne: "\<forall>s \<in> set (dt_stop d2). s \<noteq> []" using assms(2) s2 by (simp add: detok_ok_def same_params_def)
        have i: "s \<in> set (dt_stop d)" "n \<le> length (output_text d2)"
            "ofs < n + (if include_stop_str_in_output d then 0 else length s)"
          using check_stop_cut[OF Some[unfolded r ct] ne] m(4) s2 by (simp_all add: d2_def same_params_def split: if_splits)
        then have "\<not> include_stop_str_in_output d \<longrightarrow> int (length s) \<le> stop_buffer_length d + 1"
          using assms(2) by (simp add: detok_ok_def)
        then have n: "int (length (output_text d)) \<le> int n + stop_buffer_length d" "n \<le> length (output_text d2)"
          using i m(3) b by (auto split: if_splits)
        then have l: "length (output_text d') = n" and t: "output_text d' = take n (output_text d @ more)" using st(2) t2 by simp_all
        have "same_params d d'" using s2 st(2) by (simp add: same_params_def)
        then show ?thesis unfolding l st(1) using n(1) t by blast
      qed
    qed
  qed
qed

text \<open>What was sent is the part of the text before the offset, and the held back end is not sent.\<close>

definition sent :: "string \<Rightarrow> 'd detokenizer \<Rightarrow> bool" where
  "sent txt d \<longleftrightarrow> txt = take (last_output_text_offset d) (output_text d) \<and>
     (last_output_text_offset d = 0 \<or> int (last_output_text_offset d) \<le> int (length (output_text d)) - stop_buffer_length d)"

lemma take_piece: "a \<le> b \<Longrightarrow> take a xs @ drop a (take b xs) = take b xs"
  using append_take_drop_id[of a "take b xs"] by (simp add: min_absorb1)

lemma sent_piece:
  assumes "sent txt d" "detok_ok d" "get_next_output_text False True d = (piece, d')"
  shows "sent (txt @ piece) d' \<and> output_text d' = output_text d \<and> detok_ok d'"
  using assms by (auto simp: sent_def get_next_output_text_def Let_def detok_ok_def take_piece split: if_splits)

lemma last_piece:
  assumes "txt = take (last_output_text_offset d) (output_text d)" "last_output_text_offset d \<le> length (output_text d)"
    "get_next_output_text True True d = (piece, d')"
  shows "txt @ piece = output_text d' \<and> output_text d' = output_text d"
  using assms by (auto simp: get_next_output_text_def Let_def split: if_splits)

lemma stream_pieces_text:
  "stream_pieces decode_next batches d = (pieces, d') \<Longrightarrow> batches \<noteq> [] \<Longrightarrow> sent txt d \<Longrightarrow> detok_ok d \<Longrightarrow>
     txt @ concat pieces = output_text d'"
proof (induction batches arbitrary: d "txt" pieces)
  case (Cons b batches)
  obtain toks fin send where b: "b = (toks, fin, send)" by (cases b)
  obtain stop d1 where u: "detok_update decode_next toks fin d = (stop, d1)" by fastforce
  obtain more where t: "same_params d d1" "stop = None \<longrightarrow> (\<exists>more. output_text d1 = output_text d @ more)"
      "output_text d1 = take (length (output_text d1)) (output_text d @ more)"
      "int (length (output_text d)) \<le> int (length (output_text d1)) + stop_buffer_length d"
    using detok_update_text[OF u Cons.prems(4)] by blast
  have ok1: "detok_ok d1" using t(1) Cons.prems(4) by (simp add: detok_ok_def same_params_def)
  have le: "last_output_text_offset d \<le> length (output_text d1)" "last_output_text_offset d1 = last_output_text_offset d"
    using Cons.prems(3) t(1,4) by (auto simp: sent_def same_params_def)
  have tk: "txt = take (last_output_text_offset d1) (output_text d1)"
  proof -
    have "take (last_output_text_offset d) (output_text d1) = take (last_output_text_offset d) (output_text d @ more)"
      using le(1) by (subst t(3)) (simp add: min_def del: take_append)
    also have "\<dots> = take (last_output_text_offset d) (output_text d)"
      using Cons.prems(3,4) by (auto simp: sent_def detok_ok_def)
    finally show ?thesis using Cons.prems(3) le(2) by (simp add: sent_def)
  qed
  show ?case
  proof (cases "stop \<noteq> None \<or> batches = []")
    case True
    obtain piece d2 where g: "get_next_output_text True True d1 = (piece, d2)" by fastforce
    have "pieces = [piece]" "d' = d2" using Cons.prems(1) u g True by (simp_all add: b)
    then show ?thesis using last_piece[OF tk _ g] le by simp
  next
    case False
    have s1: "sent txt d1" using Cons.prems(3) t False tk by (auto simp: sent_def same_params_def)
    obtain piece d2 where g: "get_next_output_text False True d1 = (piece, d2)" by fastforce
    show ?thesis
    proof (cases send)
      case True
      obtain ps where ps: "stream_pieces decode_next batches d2 = (ps, d')" "pieces = piece # ps"
        using Cons.prems(1) u g False True by (auto simp: b split: prod.splits)
      from sent_piece[OF s1 ok1 g] have "sent (txt @ piece) d2" "detok_ok d2" by simp_all
      from Cons.IH[OF ps(1) _ this] False show ?thesis using ps(2) by simp
    next
      case ns: False
      then have "stream_pieces decode_next batches d1 = (pieces, d')" using Cons.prems(1) u False by (simp add: b)
      from Cons.IH[OF this _ s1 ok1] False show ?thesis by simp
    qed
  qed
qed simp

section \<open>Properties\<close>

text \<open>
  C30. Stop strings.  The search reports a stop string exactly when one of them occurs in the text and ends in
  its new part; it reports the first such string of the list at its first such occurrence, and cuts the text
  before the stop string, or after it if it is to be included, unless the text ends there.
\<close>

theorem stop_search_exact:
  assumes "\<forall>s \<in> set stop. s \<noteq> []"
  shows "case check_stop_strings txt new_chars stop incl of
      None \<Rightarrow> \<forall>s \<in> set stop. \<forall>i. \<not> ends_new txt new_chars s i
    | Some (s, ct) \<Rightarrow> \<exists>pre post i. stop = pre @ s # post \<and> (\<forall>t \<in> set pre. \<forall>j. \<not> ends_new txt new_chars t j) \<and>
        ends_new txt new_chars s i \<and> (\<forall>j < i. \<not> ends_new txt new_chars s j) \<and>
        ct = (if \<not> incl then Some i else if i + length s = length txt then None else Some (i + length s))"
proof (cases "new_chars = 0 \<or> stop = []")
  case True
  then show ?thesis by (auto simp: check_stop_strings_def ends_new_def)
next
  case False
  then show ?thesis using check_stop_loop_found[OF _ assms, of new_chars "txt" incl] by (simp add: check_stop_strings_def)
qed

theorem stop_search_exact_witness:
  "check_stop_strings ''xaby'' 2 [''q'', ''ab''] False = Some (''ab'', Some 1) \<and> ends_new ''xaby'' 2 ''ab'' 1"
proof -
  have e: "check_stop_strings ''xaby'' 2 [''q'', ''ab''] False = Some (''ab'', Some 1)" by code_simp
  from stop_search_exact[of "[''q'', ''ab'']" "''xaby''" 2 False] show ?thesis unfolding e by auto
qed

text \<open>
  C29. Streaming.  When stop strings are not empty, the pieces streamed after some or all batches of tokens, until
  the first stop string or the last batch, put together are exactly the final text of the request, whatever the
  tokenizer does: nothing that a stop string cuts off was sent before.
\<close>

theorem streamed_text_complete:
  assumes "\<forall>s \<in> set stop. s \<noteq> []" "batches \<noteq> []"
    "stream_pieces decode_next batches (init_detokenizer prompt stop min_toks incl st) = (pieces, d)"
  shows "concat pieces = output_text d"
proof -
  have "sent [] (init_detokenizer prompt stop min_toks incl st)" by (simp add: sent_def init_detokenizer_def)
  from stream_pieces_text[OF assms(3,2) this detok_ok_init[OF assms(1)]] show ?thesis by simp
qed

definition letter_decoder :: "unit \<Rightarrow> int list \<Rightarrow> string \<times> unit" where
  "letter_decoder st ids = (if last ids = 1 then ''x'' else if last ids = 2 then ''a'' else ''b'', ())"

theorem streamed_text_complete_witness:
  "concat (fst (stream_pieces letter_decoder [([1], False, True), ([2], False, False), ([3], False, True)] (init_detokenizer [] [''ab''] 0 False ()))) = ''x''"
proof -
  let ?r = "stream_pieces letter_decoder [([1], False, True), ([2], False, False), ([3], False, True)] (init_detokenizer [] [''ab''] 0 False ())"
  have "output_text (snd ?r) = ''x''" by code_simp
  then show ?thesis
    using streamed_text_complete[of "[''ab'']" "[([1], False, True), ([2], False, False), ([3], False, True)]" letter_decoder "[]" 0 False "()"
        "fst ?r" "snd ?r"] by simp
qed

end
