(* ===== verification/Parallel_Sampling.thy ===== *)
theory Parallel_Sampling
  imports Sched_Smc
begin

text \<open>
  \<^verbatim>\<open>src/vllm/vllm/v1/engine/parallel_sampling.py\<close>: the parent of the children that one external request with
  several samples, or one Power-SMC request, is split into.  The front end keeps it; it names the children,
  collects their outputs, and for Power-SMC runs a group manager of its own and returns the selected particle.
\<close>

section \<open>Outputs and requests\<close>

datatype request_output_kind = CUMULATIVE | DELTA | FINAL_ONLY

record request_params = sampling_params +
  output_kind :: request_output_kind
  sp_detokenize :: bool
  sp_stop :: "string list"
  sp_include_stop_str_in_output :: bool

text \<open>Log-probabilities and routed experts of an output are passed on unread and left out.\<close>

record completion_output =
  out_index :: nat
  out_text :: string
  out_token_ids :: "int list"
  out_finish_reason :: "string option"
  out_stop_reason :: "stop_value option"

definition out_finished :: "completion_output \<Rightarrow> bool" where
  "out_finished c \<longleftrightarrow> out_finish_reason c \<noteq> None"

text \<open>What the front end reads of an \<^verbatim>\<open>EngineCoreRequest\<close>.\<close>

record front_request =
  fr_request_id :: string
  fr_external_req_id :: "string option"
  fr_params :: request_params
  fr_prompt_token_ids :: "int list option"
  fr_resumable :: bool

section \<open>Parents\<close>

text \<open>
  One record for both classes; \<open>pr_smc\<close> holds what \<^verbatim>\<open>PowerSMCParentRequest\<close> adds.
\<close>

record smc_parent =
  smc_config :: power_smc_config
  smc_manager :: power_smc_group_manager
  child_request_to_index :: "string \<rightharpoonup> nat"

record parent_request =
  pr_request_id :: string
  pr_external_req_id :: string
  pr_params :: request_params
  child_requests :: "string set"
  output_aggregator :: "completion_output option list"
  max_num_generation_tokens :: nat
  cached_child_sampling_params :: "request_params option"
  pr_smc :: "smc_parent option"

definition init_parent_request :: "front_request \<Rightarrow> parent_request res" where
  "init_parent_request req =
     (case fr_external_req_id req of
        None \<Rightarrow> Inl AssertionError
      | Some ext \<Rightarrow> Inr
          \<lparr>pr_request_id = fr_request_id req, pr_external_req_id = ext, pr_params = fr_params req, child_requests = {},
           output_aggregator = (if output_kind (fr_params req) = FINAL_ONLY
                                then replicate (nat (sp_n (fr_params req))) None else []),
           max_num_generation_tokens = 0, cached_child_sampling_params = None, pr_smc = None\<rparr>)"

text \<open>\<^verbatim>\<open>random.Random(seed)\<close>: the generator of a seed, or one seeded by the system.\<close>

definition init_power_smc_parent ::
  "(int \<Rightarrow> py_rng) \<Rightarrow> py_rng \<Rightarrow> front_request \<Rightarrow> power_smc_config \<Rightarrow> parent_request res" where
  "init_power_smc_parent seeded_rng system_rng req c =
     rbind (init_parent_request req) (\<lambda>pr.
     rbind (init_group_manager c (case seed (fr_params req) of None \<Rightarrow> system_rng | Some k \<Rightarrow> seeded_rng k)) (\<lambda>m.
       Inr (pr\<lparr>output_aggregator := replicate (nat (particles_cfg c)) None,
               pr_smc := Some \<lparr>smc_config = c, smc_manager = m, child_request_to_index = Map.empty\<rparr>\<rparr>)))"

definition parent_n :: "parent_request \<Rightarrow> int" where
  "parent_n pr = (case pr_smc pr of None \<Rightarrow> sp_n (pr_params pr) | Some sm \<Rightarrow> particles_cfg (smc_config sm))"

definition get_child_sampling_params :: "nat \<Rightarrow> parent_request \<Rightarrow> request_params \<times> parent_request" where
  "get_child_sampling_params index pr =
     (case cached_child_sampling_params pr of
        Some sp \<Rightarrow> (sp, pr)
      | None \<Rightarrow>
          let sp0 = (pr_params pr)\<lparr>sp_n := 1\<rparr>;
              sp1 = (if pr_smc pr = None then sp0 else sp0\<lparr>output_kind := FINAL_ONLY\<rparr>)
          in case seed (pr_params pr) of
               None \<Rightarrow> (sp1, pr\<lparr>cached_child_sampling_params := Some sp1\<rparr>)
             | Some k \<Rightarrow> (sp1\<lparr>seed := Some (k + int index)\<rparr>, pr))"

definition child_request_id :: "nat \<Rightarrow> parent_request \<Rightarrow> string" where
  "child_request_id index pr =
     (case pr_smc pr of
        None \<Rightarrow> nat_str index @ ''_'' @ pr_request_id pr
      | Some _ \<Rightarrow> make_power_smc_child_request_id (pr_request_id pr) (int index))"

definition get_child_info :: "nat \<Rightarrow> parent_request \<Rightarrow> (string \<times> request_params) \<times> parent_request" where
  "get_child_info index pr =
     (let rid = child_request_id index pr;
          pr1 = pr\<lparr>child_requests := insert rid (child_requests pr),
                   pr_smc := map_option (\<lambda>sm. sm\<lparr>child_request_to_index := (child_request_to_index sm)(rid \<mapsto> index)\<rparr>) (pr_smc pr)\<rparr>;
          (sp, pr2) = get_child_sampling_params index pr1
      in ((rid, sp), pr2))"

section \<open>Collecting the outputs\<close>

definition plain_get_outputs ::
  "string \<Rightarrow> completion_output \<Rightarrow> parent_request \<Rightarrow> ((completion_output option list \<times> bool) \<times> parent_request) res" where
  "plain_get_outputs rid c pr =
     (let returned = (out_finished c \<and> rid \<notin> child_requests pr);
          pr1 = (if out_finished c then pr\<lparr>child_requests := child_requests pr - {rid}\<rparr> else pr);
          fin = (child_requests pr1 = {})
      in if output_kind (pr_params pr) \<noteq> FINAL_ONLY
         then Inr ((if returned then [] else [Some c], fin), pr1)
         else if out_index c \<ge> length (output_aggregator pr1) then Inl IndexError
         else let agg = (output_aggregator pr1)[out_index c := Some c]
              in Inr ((if fin then agg else [], fin), pr1\<lparr>output_aggregator := agg\<rparr>))"

definition smc_get_outputs ::
  "smc_parent \<Rightarrow> string \<Rightarrow> completion_output \<Rightarrow> parent_request \<Rightarrow>
   ((completion_output option list \<times> bool) \<times> parent_request) res" where
  "smc_get_outputs sm rid c pr =
     (let pr1 = (if out_finished c then pr\<lparr>child_requests := child_requests pr - {rid}\<rparr> else pr)
      in if out_index c \<ge> length (output_aggregator pr1) then Inl IndexError
         else let agg = (output_aggregator pr1)[out_index c := Some c]; pr2 = pr1\<lparr>output_aggregator := agg\<rparr>
              in if child_requests pr2 \<noteq> {} then Inr (([], False), pr2)
                 else rbind (final_select (smc_manager sm)) (\<lambda>(chosen, m).
                      rbind (py_index (length agg) chosen) (\<lambda>i.
                        case agg ! i of
                          None \<Rightarrow> Inl AttributeError
                        | Some sel \<Rightarrow>
                            rbind (py_index (length (particles m)) chosen) (\<lambda>j.
                              Inr (([Some (sel\<lparr>out_index := 0, out_token_ids := token_ids (particles m ! j)\<rparr>)], True),
                                   pr2\<lparr>pr_smc := Some (sm\<lparr>smc_manager := m\<rparr>)\<rparr>)))))"

definition get_outputs ::
  "string \<Rightarrow> completion_output \<Rightarrow> parent_request \<Rightarrow> ((completion_output option list \<times> bool) \<times> parent_request) res" where
  "get_outputs rid c pr =
     (case pr_smc pr of None \<Rightarrow> plain_get_outputs rid c pr | Some sm \<Rightarrow> smc_get_outputs sm rid c pr)"

section \<open>The group of particles\<close>

definition observe_power_smc_step ::
  "string \<Rightarrow> int list \<Rightarrow> (pyfloat \<times> pyfloat) option \<Rightarrow> string option \<Rightarrow> stop_value option \<Rightarrow> parent_request \<Rightarrow>
   (bool \<times> parent_request) res" where
  "observe_power_smc_step rid toks logps fr sr pr =
     (case pr_smc pr of
        None \<Rightarrow> Inr (False, pr)
      | Some sm \<Rightarrow>
          if toks = [] then Inr (False, pr)
          else (case logps of
                  None \<Rightarrow> Inl RuntimeError
                | Some (base_logp, proposal_logq) \<Rightarrow>
                    if length toks \<noteq> 1 then Inl RuntimeError
                    else (case child_request_to_index sm rid of
                            None \<Rightarrow> Inl KeyError
                          | Some idx \<Rightarrow>
                              rbind (update_after_token (smc_manager sm) idx (hd toks) base_logp proposal_logq
                                       (fr \<noteq> None) fr sr) (\<lambda>(boundary, m).
                                Inr (fr \<noteq> None \<or> boundary, pr\<lparr>pr_smc := Some (sm\<lparr>smc_manager := m\<rparr>)\<rparr>)))))"

definition maybe_resample_power_smc :: "parent_request \<Rightarrow> parent_request res" where
  "maybe_resample_power_smc pr =
     (case pr_smc pr of
        None \<Rightarrow> Inr pr
      | Some sm \<Rightarrow> rbind (maybe_resample (smc_manager sm)) (\<lambda>(_, m). Inr (pr\<lparr>pr_smc := Some (sm\<lparr>smc_manager := m\<rparr>)\<rparr>)))"

definition observe_power_smc_kv_event :: "(string \<times> py_val) list option \<Rightarrow> parent_request \<Rightarrow> parent_request" where
  "observe_power_smc_kv_event ev pr =
     (case (pr_smc pr, ev) of
        (Some sm, Some e) \<Rightarrow> pr\<lparr>pr_smc := Some (sm\<lparr>smc_manager := record_kv_resample_event e (smc_manager sm)\<rparr>)\<rparr>
      | _ \<Rightarrow> pr)"

definition get_power_smc_diagnostics :: "parent_request \<Rightarrow> smc_diagnostics option res" where
  "get_power_smc_diagnostics pr =
     (case pr_smc pr of
        None \<Rightarrow> Inr None
      | Some sm \<Rightarrow>
          if \<not> return_diagnostics (smc_config sm) \<or> chosen_particle (smc_manager sm) = None then Inr None
          else rbind (diagnostics (smc_manager sm)) (\<lambda>d. Inr (Some d)))"

text \<open>The decoder of token ids is the detokenizer of the child.\<close>

definition rewrite_power_smc_outputs ::
  "(int list \<Rightarrow> string) \<Rightarrow> completion_output option list \<Rightarrow> parent_request \<Rightarrow> completion_output option list res" where
  "rewrite_power_smc_outputs decode outs pr =
     (case pr_smc pr of
        None \<Rightarrow> Inr outs
      | Some sm \<Rightarrow>
          if chosen_particle (smc_manager sm) = None then Inr outs
          else if None \<in> set outs then Inl AttributeError
          else Inr (map (map_option (\<lambda>c. c\<lparr>out_text := decode (out_token_ids c)\<rparr>)) outs))"

section \<open>Statistics\<close>

record iteration_stats =
  max_num_generation_tokens_iter :: "nat list"
  n_params_iter :: "int list"

definition observe_num_generation_tokens :: "nat \<Rightarrow> parent_request \<Rightarrow> nat \<times> parent_request" where
  "observe_num_generation_tokens k pr =
     (let n = max k (max_num_generation_tokens pr) in (n, pr\<lparr>max_num_generation_tokens := n\<rparr>))"

definition observe_finished_request ::
  "parent_request option \<Rightarrow> nat \<Rightarrow> iteration_stats \<Rightarrow> parent_request option \<times> iteration_stats" where
  "observe_finished_request parent k st =
     (case parent of
        None \<Rightarrow> (None, st\<lparr>max_num_generation_tokens_iter := max_num_generation_tokens_iter st @ [k],
                          n_params_iter := n_params_iter st @ [1]\<rparr>)
      | Some pr \<Rightarrow>
          (case observe_num_generation_tokens k pr of
             (n, pr1) \<Rightarrow>
               (Some pr1,
                if child_requests pr1 = {}
                then st\<lparr>max_num_generation_tokens_iter := max_num_generation_tokens_iter st @ [n],
                        n_params_iter := n_params_iter st @ [parent_n pr1]\<rparr>
                else st)))"

end
