(* ===== verification/Output_Processor.thy ===== *)
theory Output_Processor
  imports Detokenizer Parallel_Sampling Sched_Schedule
begin

text \<open>
  \<^verbatim>\<open>src/vllm/vllm/v1/engine/output_processor.py\<close> as \<^verbatim>\<open>LLMEngine\<close> uses it: the front end's states of the requests,
  and the step that turns the outputs of the engine core into outputs for the client.  Pooling requests, the
  queues of the asynchronous front end, log-probabilities, traces and statistics are left out.
\<close>

section \<open>States\<close>

text \<open>The tokenizer: its incremental step and the decoding of a whole list.\<close>

record 'd tokenizer =
  tok_decode_next :: "'d \<Rightarrow> int list \<Rightarrow> string \<times> 'd"
  tok_decode :: "int list \<Rightarrow> string"
  tok_start :: "int list option \<Rightarrow> 'd"
  tok_is_fast :: bool

record prompt_update =
  pu_prompt :: "string option"
  pu_prompt_token_ids :: "int list option"
  pu_final :: bool

record 'd request_state =
  rs_request_id :: string
  rs_external_req_id :: string
  rs_parent_req :: "string option"
  rs_request_index :: nat
  rs_output_kind :: request_output_kind
  rs_prompt :: "string option"
  rs_prompt_token_ids :: "int list option"
  rs_detokenizer :: "'d incremental_detokenizer"
  rs_stream_interval :: nat
  sent_tokens_offset :: nat
  rs_streaming_input :: bool
  input_chunk_queue :: "prompt_update list option"

record request_output =
  ro_request_id :: string
  ro_prompt :: "string option"
  ro_prompt_token_ids :: "int list option"
  ro_outputs :: "completion_output option list"
  ro_finished :: bool
  ro_power_smc :: "smc_diagnostics option"

text \<open>
  A parent is shared by the states of its children; \<open>op_parents\<close> holds the parent objects, by request id, and
  \<open>parent_requests\<close> the ids that are registered.
\<close>

record 'd output_processor =
  request_states :: "(string \<times> 'd request_state) list"
  op_parents :: "string \<rightharpoonup> parent_request"
  parent_requests :: "string list"
  external_req_ids :: "(string \<times> string list) list"
  op_tokenizer :: "'d tokenizer option"
  op_stream_interval :: nat

definition apply_streaming_update :: "prompt_update \<Rightarrow> 'd request_state \<Rightarrow> 'd request_state" where
  "apply_streaming_update u rs =
     rs\<lparr>rs_streaming_input := \<not> pu_final u,
        rs_prompt := (case pu_prompt u of
                        None \<Rightarrow> rs_prompt rs
                      | Some [] \<Rightarrow> rs_prompt rs
                      | Some p \<Rightarrow> Some (case rs_prompt rs of None \<Rightarrow> p | Some q \<Rightarrow> q @ p)),
        rs_prompt_token_ids :=
          Some ((case rs_prompt_token_ids rs of None \<Rightarrow> [] | Some xs \<Rightarrow> xs) @
                (case pu_prompt_token_ids u of None \<Rightarrow> [] | Some ys \<Rightarrow> ys))\<rparr>"

text \<open>The slow detokenizer keeps the prompt before the output tokens.\<close>

definition new_detokenizer :: "'d tokenizer option \<Rightarrow> front_request \<Rightarrow> 'd incremental_detokenizer" where
  "new_detokenizer tok req =
     (let sp = fr_params req
      in case (if sp_detokenize sp then tok else None) of
           None \<Rightarrow> NoTokenizer []
         | Some t \<Rightarrow>
             WithTokenizer (init_detokenizer
               (if tok_is_fast t then [] else (case fr_prompt_token_ids req of None \<Rightarrow> [] | Some xs \<Rightarrow> xs))
               (sp_stop sp) (min_tokens sp) (sp_include_stop_str_in_output sp) (tok_start t (fr_prompt_token_ids req))))"

definition from_new_request ::
  "'d tokenizer option \<Rightarrow> front_request \<Rightarrow> string option \<Rightarrow> string option \<Rightarrow> nat \<Rightarrow> nat \<Rightarrow> 'd request_state res" where
  "from_new_request tok req prompt parent index interval =
     (case fr_external_req_id req of
        None \<Rightarrow> Inl AssertionError
      | Some ext \<Rightarrow> Inr
          \<lparr>rs_request_id = fr_request_id req, rs_external_req_id = ext, rs_parent_req = parent, rs_request_index = index,
           rs_output_kind = output_kind (fr_params req), rs_prompt = prompt,
           rs_prompt_token_ids = fr_prompt_token_ids req, rs_detokenizer = new_detokenizer tok req,
           rs_stream_interval = interval, sent_tokens_offset = 0, rs_streaming_input = fr_resumable req,
           input_chunk_queue = (if fr_resumable req then Some [] else None)\<rparr>)"

section \<open>Making an output\<close>

definition new_completion_output ::
  "int list \<Rightarrow> finish_reason_enum option \<Rightarrow> stop_value option \<Rightarrow> 'd request_state \<Rightarrow> completion_output \<times> 'd request_state" where
  "new_completion_output toks fr sr rs =
     (let delta = (rs_output_kind rs = DELTA);
          (piece, dt) = inc_get_next_output_text (fr \<noteq> None) delta (rs_detokenizer rs)
      in (\<lparr>out_index = rs_request_index rs, out_text = piece,
           out_token_ids = (if delta then toks else inc_output_token_ids dt),
           out_finish_reason = map_option finish_reason_str fr, out_stop_reason = (if fr \<noteq> None then sr else None)\<rparr>,
          rs\<lparr>rs_detokenizer := dt\<rparr>))"

text \<open>Whether an output is due, and the tokens it carries.\<close>

definition output_due :: "finish_reason_enum option \<Rightarrow> 'd request_state \<Rightarrow> bool" where
  "output_due fr rs \<longleftrightarrow>
     (fr \<noteq> None \<or> rs_output_kind rs \<noteq> FINAL_ONLY) \<and>
     (rs_stream_interval rs > 1 \<longrightarrow>
        fr \<noteq> None \<or> sent_tokens_offset rs = 0 \<or>
        inc_num_output_tokens (rs_detokenizer rs) - sent_tokens_offset rs \<ge> rs_stream_interval rs)"

definition take_delta_tokens :: "int list \<Rightarrow> 'd request_state \<Rightarrow> int list \<times> 'd request_state" where
  "take_delta_tokens toks rs =
     (if rs_stream_interval rs > 1 \<and> rs_output_kind rs = DELTA
      then (drop (sent_tokens_offset rs) (inc_output_token_ids (rs_detokenizer rs)),
            rs\<lparr>sent_tokens_offset := inc_num_output_tokens (rs_detokenizer rs)\<rparr>)
      else (toks, rs))"

definition make_request_output ::
  "(int list \<Rightarrow> string) \<Rightarrow> int list \<Rightarrow> finish_reason_enum option \<Rightarrow> stop_value option \<Rightarrow> parent_request option \<Rightarrow>
   'd request_state \<Rightarrow> (request_output option \<times> parent_request option \<times> 'd request_state) res" where
  "make_request_output decode new_toks fr sr parent rs0 =
     (if \<not> output_due fr rs0 then Inr (None, parent, rs0)
      else let (toks, rs1) = take_delta_tokens new_toks rs0;
               (c, rs2) = new_completion_output toks fr sr rs1
           in case parent of
                None \<Rightarrow>
                  py_assert (rs_prompt_token_ids rs2 \<noteq> None)
                    (Inr (Some \<lparr>ro_request_id = rs_external_req_id rs2, ro_prompt = rs_prompt rs2,
                                ro_prompt_token_ids = rs_prompt_token_ids rs2, ro_outputs = [Some c], ro_finished = (fr \<noteq> None),
                                ro_power_smc = None\<rparr>, None, rs2))
              | Some pr \<Rightarrow>
                  rbind (get_outputs (rs_request_id rs2) c pr) (\<lambda>((outs, finished), pr1).
                    if outs = [] then Inr (None, Some pr1, rs2)
                    else rbind (rewrite_power_smc_outputs
                                  (\<lambda>ids. inc_decode_output_token_ids decode ids (rs_detokenizer rs2)) outs pr1) (\<lambda>outs1.
                         py_assert (rs_prompt_token_ids rs2 \<noteq> None)
                           (rbind (get_power_smc_diagnostics pr1) (\<lambda>d.
                              Inr (Some \<lparr>ro_request_id = pr_external_req_id pr1, ro_prompt = rs_prompt rs2,
                                         ro_prompt_token_ids = rs_prompt_token_ids rs2, ro_outputs = outs1, ro_finished = finished,
                                         ro_power_smc = d\<rparr>, Some pr1, rs2))))))"

section \<open>Arrival and end of a request\<close>

definition finish_request :: "'d request_state \<Rightarrow> 'd output_processor \<Rightarrow> 'd output_processor res" where
  "finish_request rs op =
     (let rid = rs_request_id rs
      in if map_of (request_states op) rid = None then Inl KeyError
         else case map_of (external_req_ids op) (rs_external_req_id rs) of
             None \<Rightarrow> Inl ValueError
           | Some ids \<Rightarrow>
               if rid \<notin> set ids then Inl ValueError
               else let ids' = remove1 rid ids
                    in Inr (op\<lparr>request_states := dict_del rid (request_states op),
                               external_req_ids := (if ids' = [] then dict_del (rs_external_req_id rs) (external_req_ids op)
                                                    else dict_set (rs_external_req_id rs) ids' (external_req_ids op)),
                               parent_requests := (case rs_parent_req rs of
                                                     None \<Rightarrow> parent_requests op
                                                   | Some pid \<Rightarrow>
                                                       (case op_parents op pid of
                                                          None \<Rightarrow> parent_requests op
                                                        | Some pr \<Rightarrow> if child_requests pr = {} then removeAll pid (parent_requests op)
                                                                    else parent_requests op))\<rparr>))"

definition put_state :: "'d request_state \<Rightarrow> 'd output_processor \<Rightarrow> 'd output_processor" where
  "put_state rs op = op\<lparr>request_states := dict_set (rs_request_id rs) rs (request_states op)\<rparr>"

definition update_streaming_request_state ::
  "'d request_state \<Rightarrow> front_request \<Rightarrow> string option \<Rightarrow> 'd output_processor \<Rightarrow> 'd output_processor res" where
  "update_streaming_request_state rs req prompt op =
     (if \<not> fr_resumable req
      then (case input_chunk_queue rs of
              None \<Rightarrow> finish_request rs op
            | Some [] \<Rightarrow> Inr (put_state (rs\<lparr>rs_streaming_input := False\<rparr>) op)
            | Some us \<Rightarrow> Inr (put_state (rs\<lparr>input_chunk_queue := Some (butlast us @ [(last us)\<lparr>pu_final := True\<rparr>])\<rparr>) op))
      else let u = \<lparr>pu_prompt = prompt, pu_prompt_token_ids = fr_prompt_token_ids req, pu_final = False\<rparr>
           in case input_chunk_queue rs of
                None \<Rightarrow> Inr (put_state ((apply_streaming_update u rs)\<lparr>input_chunk_queue := Some []\<rparr>) op)
              | Some us \<Rightarrow> Inr (put_state (rs\<lparr>input_chunk_queue := Some (us @ [u])\<rparr>) op))"

text \<open>The parent is registered with the request it comes with.\<close>

definition op_add_request ::
  "front_request \<Rightarrow> string option \<Rightarrow> parent_request option \<Rightarrow> nat \<Rightarrow> 'd output_processor \<Rightarrow> 'd output_processor res" where
  "op_add_request req prompt parent index op =
     (case map_of (request_states op) (fr_request_id req) of
        Some rs \<Rightarrow> update_streaming_request_state rs req prompt op
      | None \<Rightarrow>
          rbind (from_new_request (op_tokenizer op) req prompt (map_option pr_request_id parent) index (op_stream_interval op)) (\<lambda>rs.
            let ext = rs_external_req_id rs;
                ids = (case map_of (external_req_ids op) ext of None \<Rightarrow> [] | Some ids \<Rightarrow> ids)
            in Inr (case parent of
                      None \<Rightarrow> op\<lparr>request_states := dict_set (fr_request_id req) rs (request_states op),
                                external_req_ids := dict_set ext (ids @ [fr_request_id req]) (external_req_ids op)\<rparr>
                    | Some pr \<Rightarrow> op\<lparr>request_states := dict_set (fr_request_id req) rs (request_states op),
                                   op_parents := (op_parents op)(pr_request_id pr \<mapsto> pr),
                                   parent_requests := (if pr_request_id pr \<in> set (parent_requests op) then parent_requests op
                                                       else parent_requests op @ [pr_request_id pr]),
                                   external_req_ids := dict_set ext (ids @ [fr_request_id req]) (external_req_ids op)\<rparr>)))"

section \<open>The outputs of a step\<close>

text \<open>
  What the loop collects: the outputs for the client, the requests the engine core must still abort, the
  parents to resample and the KV events of their children.
\<close>

record 'd processing =
  pc_outputs :: "request_output list"
  reqs_to_abort :: "string list"
  power_smc_parent_reqs :: "string list"
  power_smc_kv_events :: "(string \<times> (string \<times> py_val) list) list"
  pc_op :: "'d output_processor"

text \<open>The parent observes the tokens of its child.\<close>

definition observe_child ::
  "engine_core_output \<Rightarrow> finish_reason_enum option \<Rightarrow> stop_value option \<Rightarrow> 'd request_state \<Rightarrow> 'd processing \<Rightarrow> 'd processing res" where
  "observe_child eco fr sr rs pc =
     (case rs_parent_req rs of
        None \<Rightarrow> Inr pc
      | Some pid \<Rightarrow>
          (case op_parents (pc_op pc) pid of
             None \<Rightarrow> Inl Unmodelled
           | Some pr \<Rightarrow>
               rbind (observe_power_smc_step (eco_request_id eco) (eco_new_token_ids eco) (eco_power_smc_logprobs eco)
                        (map_option finish_reason_str fr) sr pr) (\<lambda>(check, pr1).
                 let op1 = (pc_op pc)\<lparr>op_parents := (op_parents (pc_op pc))(pid \<mapsto> pr1)\<rparr>
                 in Inr (pc\<lparr>power_smc_parent_reqs :=
                              (if check \<and> pid \<notin> set (power_smc_parent_reqs pc) then power_smc_parent_reqs pc @ [pid]
                               else power_smc_parent_reqs pc),
                            power_smc_kv_events :=
                              (case eco_power_smc_kv_event eco of
                                 None \<Rightarrow> power_smc_kv_events pc
                               | Some ev \<Rightarrow> power_smc_kv_events pc @ [(pid, ev)]),
                            pc_op := op1\<rparr>))))"

text \<open>The end of a request, or of one input of a streaming session.\<close>

definition end_request ::
  "engine_core_output \<Rightarrow> 'd request_state \<Rightarrow> 'd processing \<Rightarrow> 'd processing res" where
  "end_request eco rs pc =
     (if rs_streaming_input rs
      then Inr (pc\<lparr>pc_op := put_state
                 (case input_chunk_queue rs of
                    Some (u # us) \<Rightarrow> apply_streaming_update u (rs\<lparr>input_chunk_queue := Some us\<rparr>)
                  | _ \<Rightarrow> rs\<lparr>input_chunk_queue := None\<rparr>) (pc_op pc)\<rparr>)
      else rbind (finish_request rs (pc_op pc)) (\<lambda>op1.
             Inr (pc\<lparr>pc_op := op1,
                    reqs_to_abort := (if eco_finish_reason eco = None then reqs_to_abort pc @ [eco_request_id eco]
                                      else reqs_to_abort pc)\<rparr>)))"

text \<open>A state without a tokenizer never decodes, so the tokenizer given for it does not matter.\<close>

definition tokenizer_step :: "'d output_processor \<Rightarrow> 'd \<Rightarrow> int list \<Rightarrow> string \<times> 'd" where
  "tokenizer_step op = (case op_tokenizer op of None \<Rightarrow> (\<lambda>st _. ([], st)) | Some t \<Rightarrow> tok_decode_next t)"

definition tokenizer_decode :: "'d output_processor \<Rightarrow> int list \<Rightarrow> string" where
  "tokenizer_decode op = (case op_tokenizer op of None \<Rightarrow> (\<lambda>_. []) | Some t \<Rightarrow> tok_decode t)"

definition process_output :: "engine_core_output \<Rightarrow> 'd processing \<Rightarrow> 'd processing res" where
  "process_output eco pc =
     (case map_of (request_states (pc_op pc)) (eco_request_id eco) of
        None \<Rightarrow> Inr pc
      | Some rs \<Rightarrow>
          let toks = eco_new_token_ids eco;
              (stop, dt) = inc_update (tokenizer_step (pc_op pc)) toks (eco_finish_reason eco = Some FR_STOP) (rs_detokenizer rs);
              rs1 = rs\<lparr>rs_detokenizer := dt\<rparr>;
              found = (stop \<noteq> None \<and> stop \<noteq> Some []);
              fr = (if found then Some FR_STOP else eco_finish_reason eco);
              sr = (if found then map_option StopString stop else eco_stop_reason eco)
          in rbind (observe_child eco fr sr rs1 (pc\<lparr>pc_op := put_state rs1 (pc_op pc)\<rparr>)) (\<lambda>pc1.
             rbind (make_request_output (tokenizer_decode (pc_op pc1)) toks fr sr
                      (case rs_parent_req rs1 of None \<Rightarrow> None | Some pid \<Rightarrow> op_parents (pc_op pc1) pid) rs1) (\<lambda>(ro, parent, rs2).
               let op2 = put_state rs2 (pc_op pc1);
                   op3 = (case (rs_parent_req rs2, parent) of
                            (Some pid, Some pr) \<Rightarrow> op2\<lparr>op_parents := (op_parents op2)(pid \<mapsto> pr)\<rparr>
                          | _ \<Rightarrow> op2);
                   pc2 = pc1\<lparr>pc_op := op3,
                            pc_outputs := (case ro of
                                             None \<Rightarrow> pc_outputs pc1
                                           | Some r \<Rightarrow> pc_outputs pc1 @
                                               [if rs_streaming_input rs2 then r\<lparr>ro_finished := False\<rparr> else r])\<rparr>
               in if fr = None then Inr pc2 else end_request eco rs2 pc2)))"

fun process_each :: "engine_core_output list \<Rightarrow> 'd processing \<Rightarrow> 'd processing res" where
  "process_each [] pc = Inr pc"
| "process_each (eco # ecos) pc = rbind (process_output eco pc) (process_each ecos)"

text \<open>The parents resample after the loop, and then take the KV events.\<close>

fun resample_each :: "string list \<Rightarrow> 'd output_processor \<Rightarrow> 'd output_processor res" where
  "resample_each [] op = Inr op"
| "resample_each (pid # pids) op =
     (case op_parents op pid of
        None \<Rightarrow> Inl Unmodelled
      | Some pr \<Rightarrow> rbind (maybe_resample_power_smc pr) (\<lambda>pr1.
                     resample_each pids (op\<lparr>op_parents := (op_parents op)(pid \<mapsto> pr1)\<rparr>)))"

definition take_kv_event :: "string \<times> (string \<times> py_val) list \<Rightarrow> 'd output_processor \<Rightarrow> 'd output_processor" where
  "take_kv_event e op =
     (case e of (pid, ev) \<Rightarrow>
        op\<lparr>op_parents := (op_parents op)(pid := map_option (observe_power_smc_kv_event (Some ev)) (op_parents op pid))\<rparr>)"

definition process_outputs ::
  "engine_core_output list \<Rightarrow> 'd output_processor \<Rightarrow> (request_output list \<times> string list \<times> 'd output_processor) res" where
  "process_outputs ecos op =
     rbind (process_each ecos \<lparr>pc_outputs = [], reqs_to_abort = [], power_smc_parent_reqs = [], power_smc_kv_events = [],
                               pc_op = op\<rparr>) (\<lambda>pc.
     rbind (resample_each (power_smc_parent_reqs pc) (pc_op pc)) (\<lambda>op1.
       Inr (pc_outputs pc, reqs_to_abort pc, fold take_kv_event (power_smc_kv_events pc) op1)))"

section \<open>Aborts\<close>

text \<open>
  The first loop finds the requests an abort stands for: an internal id for itself, an external id for all
  requests that came under it and for their parents.
\<close>

definition drop_external :: "string \<Rightarrow> 'd request_state \<Rightarrow> 'd output_processor \<Rightarrow> 'd output_processor res" where
  "drop_external rid rs op =
     (let ext = rs_external_req_id rs; ids = (case map_of (external_req_ids op) ext of None \<Rightarrow> [] | Some is \<Rightarrow> is)
      in if rid \<notin> set ids then Inl ValueError
         else Inr (op\<lparr>external_req_ids := (if remove1 rid ids = [] then dict_del ext (external_req_ids op)
                                           else dict_set ext (remove1 rid ids) (external_req_ids op))\<rparr>))"

fun resolve_aborts ::
  "bool \<Rightarrow> string list \<Rightarrow> string list \<Rightarrow> string list \<Rightarrow> 'd output_processor \<Rightarrow>
   (string list \<times> string list \<times> 'd output_processor) res" where
  "resolve_aborts internal [] ids pids op = Inr (ids, pids, op)"
| "resolve_aborts internal (rid # rids) ids pids op =
     (if internal
      then rbind (case map_of (request_states op) rid of None \<Rightarrow> Inr op | Some rs \<Rightarrow> drop_external rid rs op)
             (resolve_aborts internal rids (ids @ [rid]) pids)
      else (case map_of (external_req_ids op) rid of
              None \<Rightarrow> resolve_aborts internal rids ids pids op
            | Some is \<Rightarrow>
                resolve_aborts internal rids (ids @ is)
                  (if is = [] then pids
                   else pids @ filter (\<lambda>pid. pid \<notin> set pids \<and> map_option pr_external_req_id (op_parents op pid) = Some rid)
                                 (parent_requests op))
                  (op\<lparr>external_req_ids := dict_del rid (external_req_ids op)\<rparr>)))"

text \<open>The second loop removes the states; an id without a state may be that of a parent.\<close>

fun remove_aborted ::
  "string list \<Rightarrow> string list \<Rightarrow> string list \<Rightarrow> 'd output_processor \<Rightarrow> string list \<times> string list \<times> 'd output_processor" where
  "remove_aborted [] gone pids op = (gone, pids, op)"
| "remove_aborted (rid # rids) gone pids op =
     (if map_of (request_states op) rid \<noteq> None
      then remove_aborted rids (gone @ [rid]) pids (op\<lparr>request_states := dict_del rid (request_states op)\<rparr>)
      else remove_aborted rids gone
             (if rid \<in> set (parent_requests op) \<and> rid \<notin> set pids then pids @ [rid] else pids) op)"

definition abort_listed ::
  "bool \<Rightarrow> string list \<Rightarrow> 'd output_processor \<Rightarrow> (string list \<times> string list \<times> 'd output_processor) res" where
  "abort_listed internal rids op =
     rbind (resolve_aborts internal rids [] [] op) (\<lambda>(ids, pids, op1). Inr (remove_aborted ids [] pids op1))"

lemma resolve_aborts_parents:
  "resolve_aborts internal rids ids pids op = Inr (ids', pids', op') \<Longrightarrow> parent_requests op' = parent_requests op"
  by (induction internal rids ids pids op rule: resolve_aborts.induct)
     (auto simp: rbind_eq_Inr drop_external_def Let_def split: if_splits option.splits)

lemma remove_aborted_parents:
  "remove_aborted rids gone pids op = (gone', pids', op') \<Longrightarrow> parent_requests op' = parent_requests op"
  by (induction rids gone pids op rule: remove_aborted.induct) (auto split: if_splits)

lemma abort_listed_parents:
  "abort_listed internal rids op = Inr (gone, pids, op') \<Longrightarrow> parent_requests op' = parent_requests op"
  by (auto simp: abort_listed_def rbind_eq_Inr) (metis resolve_aborts_parents remove_aborted_parents)

text \<open>
  The parents are removed and their children aborted, which may lead to further parents.  \<open>order\<close> is the
  order in which Python runs through a set; the parents to abort and the children of a parent are sets.
\<close>

function abort_parents ::
  "(string set \<Rightarrow> string list) \<Rightarrow> string list \<Rightarrow> string list \<Rightarrow> 'd output_processor \<Rightarrow>
   (string list \<times> 'd output_processor) res" where
  "abort_parents order [] gone op = Inr (gone, op)"
| "abort_parents order (pid # pids) gone op =
     (if pid \<notin> set (parent_requests op) then abort_parents order pids gone op
      else let op1 = op\<lparr>parent_requests := removeAll pid (parent_requests op)\<rparr>
           in case op_parents op1 pid of
                None \<Rightarrow> Inl Unmodelled
              | Some pr \<Rightarrow>
                  if child_requests pr = {} then abort_parents order pids gone op1
                  else rbind (abort_listed True (order (child_requests pr)) op1) (\<lambda>(gone1, pids1, op2).
                         abort_parents order (order (set pids1) @ pids) (gone @ gone1) op2))"
  by pat_completeness auto
termination
  by (relation "measures [\<lambda>(_, _, _, op). length (parent_requests op), \<lambda>(_, pids, _, _). length pids]")
     (auto simp: length_removeAll_less dest!: abort_listed_parents)

declare abort_parents.simps(2) [simp del]

definition op_abort_requests ::
  "(string set \<Rightarrow> string list) \<Rightarrow> bool \<Rightarrow> string list \<Rightarrow> 'd output_processor \<Rightarrow> (string list \<times> 'd output_processor) res" where
  "op_abort_requests order internal rids op =
     rbind (abort_listed internal rids op) (\<lambda>(gone, pids, op1). abort_parents order (order (set pids)) gone op1)"

end
