(* ===== verification/Front_End.thy ===== *)
theory Front_End
  imports Output_Processor
begin

text \<open>
  The fan-out of a request into children by \<^verbatim>\<open>LLMEngine.add_request\<close> of \<^verbatim>\<open>src/vllm/vllm/v1/engine/llm_engine.py\<close>, and
  what the parents of \<open>Parallel_Sampling\<close> guarantee: the outputs of parallel samples are returned once, in the
  order of their indices, and the group of particles that a Power-SMC parent keeps in the front end goes
  through the same states as the group that the scheduler keeps.
\<close>

section \<open>Fan-out\<close>

text \<open>The children in the order in which they are added, and the parent after the last of them.\<close>

fun fan_out_loop ::
  "nat list \<Rightarrow> front_request \<Rightarrow> string option \<Rightarrow> parent_request \<Rightarrow> 'd output_processor \<Rightarrow>
   (front_request list \<times> parent_request \<times> 'd output_processor) res" where
  "fan_out_loop [] req prompt pr op = Inr ([], pr, op)"
| "fan_out_loop (idx # idxs) req prompt pr op =
     (let ((rid, sp), pr1) = get_child_info idx pr; child = req\<lparr>fr_request_id := rid, fr_params := sp\<rparr>
      in rbind (op_add_request child prompt (Some pr1) idx op) (\<lambda>op1.
         rbind (fan_out_loop idxs req prompt pr1 op1) (\<lambda>(children, pr2, op2).
           Inr (child # children, pr2, op2))))"

text \<open>The requests for the engine core; \<open>c\<close> is the validated Power-SMC configuration of the request, if it has one.\<close>

definition fan_out ::
  "(int \<Rightarrow> py_rng) \<Rightarrow> py_rng \<Rightarrow> power_smc_config option \<Rightarrow> front_request \<Rightarrow> string option \<Rightarrow> 'd output_processor \<Rightarrow>
   (front_request list \<times> 'd output_processor) res" where
  "fan_out seeded_rng system_rng c req prompt op =
     (let n = (case c of Some c \<Rightarrow> particles_cfg c | None \<Rightarrow> sp_n (fr_params req))
      in if c = None \<and> n = 1 then rbind (op_add_request req prompt None 0 op) (\<lambda>op1. Inr ([req], op1))
         else rbind (case c of Some c \<Rightarrow> init_power_smc_parent seeded_rng system_rng req c | None \<Rightarrow> init_parent_request req) (\<lambda>pr.
              rbind (fan_out_loop [0..<nat n] req prompt pr op) (\<lambda>(children, _, op1). Inr (children, op1))))"

section \<open>Collecting the outputs of parallel samples\<close>

text \<open>The parent of \<open>n\<close> children, and the children's final outputs in the order in which they finish.\<close>

definition with_children :: "nat \<Rightarrow> parent_request \<Rightarrow> parent_request" where
  "with_children n pr = fold (\<lambda>i pr. snd (get_child_info i pr)) [0..<n] pr"

fun collect :: "nat list \<Rightarrow> (nat \<Rightarrow> completion_output) \<Rightarrow> parent_request \<Rightarrow>
    ((completion_output option list \<times> bool) list \<times> parent_request) res" where
  "collect [] c pr = Inr ([], pr)"
| "collect (i # is) c pr =
     rbind (get_outputs (child_request_id i pr) (c i) pr) (\<lambda>(r, pr1).
     rbind (collect is c pr1) (\<lambda>(rs, pr2). Inr (r # rs, pr2)))"

lemma get_child_info_parent:
  "pr_request_id (snd (get_child_info i pr)) = pr_request_id pr"
  "pr_params (snd (get_child_info i pr)) = pr_params pr"
  "output_aggregator (snd (get_child_info i pr)) = output_aggregator pr"
  "(pr_smc (snd (get_child_info i pr)) = None) = (pr_smc pr = None)"
  "child_requests (snd (get_child_info i pr)) = insert (child_request_id i pr) (child_requests pr)"
  by (simp_all add: get_child_info_def get_child_sampling_params_def Let_def split: option.splits)

lemma child_request_id_cong:
  "pr_request_id pr' = pr_request_id pr \<Longrightarrow> (pr_smc pr' = None) = (pr_smc pr = None) \<Longrightarrow> child_request_id i pr' = child_request_id i pr"
  by (auto simp: child_request_id_def split: option.splits)

lemma with_children_Suc: "with_children (Suc n) pr = snd (get_child_info n (with_children n pr))"
  by (simp add: with_children_def)

lemma with_children_parent:
  "pr_request_id (with_children n pr) = pr_request_id pr \<and> pr_params (with_children n pr) = pr_params pr \<and>
   output_aggregator (with_children n pr) = output_aggregator pr \<and> (pr_smc (with_children n pr) = None) = (pr_smc pr = None) \<and>
   child_requests (with_children n pr) = child_requests pr \<union> (\<lambda>i. child_request_id i pr) ` {..<n}"
proof (induction n)
  case (Suc n)
  then have "child_request_id n (with_children n pr) = child_request_id n pr" by (intro child_request_id_cong) simp_all
  with Suc show ?case by (simp add: with_children_Suc get_child_info_parent lessThan_Suc)
qed (simp add: with_children_def)

text \<open>The loop leaves the parent with all its children registered, and names the requests after them.\<close>

lemma fan_out_loop_parent:
  "fan_out_loop idxs req prompt pr op = Inr (children, pr', op') \<Longrightarrow>
     pr' = fold (\<lambda>i pr. snd (get_child_info i pr)) idxs pr \<and> map fr_request_id children = map (\<lambda>i. child_request_id i pr) idxs"
proof (induction idxs arbitrary: pr op children)
  case (Cons i idxs)
  obtain rid sp pr1 where g: "get_child_info i pr = ((rid, sp), pr1)" by (cases "get_child_info i pr") auto
  have r: "rid = child_request_id i pr" using g by (auto simp: get_child_info_def Let_def split: prod.splits)
  have c: "child_request_id j pr1 = child_request_id j pr" for j
    using get_child_info_parent(1,4)[of i pr] g by (intro child_request_id_cong) simp_all
  obtain op1 cs where l: "fan_out_loop idxs req prompt pr1 op1 = Inr (cs, pr', op')" "map fr_request_id children = rid # map fr_request_id cs"
    using Cons.prems by (auto simp: g rbind_eq_Inr Let_def)
  from Cons.IH[OF l(1)] show ?case using l(2) r c g by simp
qed simp

lemma child_request_id_inj: "child_request_id i pr = child_request_id j pr \<longleftrightarrow> i = j"
proof
  assume a: "child_request_id i pr = child_request_id j pr"
  then have "nat_str i = nat_str j"
    by (simp add: child_request_id_def make_power_smc_child_request_id_def int_str_def split: option.splits)
  then show "i = j" using digits_val_nat_str by metis
qed simp

text \<open>What the parent still waits for while the children finish in the order of \<open>is\<close>.\<close>

definition waits_for :: "nat \<Rightarrow> nat list \<Rightarrow> parent_request \<Rightarrow> bool" where
  "waits_for n is pr \<longleftrightarrow> pr_smc pr = None \<and> distinct is \<and> set is \<subseteq> {..<n} \<and>
     child_requests pr = (\<lambda>i. child_request_id i pr) ` set is \<and>
     (output_kind (pr_params pr) = FINAL_ONLY \<longrightarrow> length (output_aggregator pr) = n)"

definition results :: "request_output_kind \<Rightarrow> (nat \<Rightarrow> completion_output) \<Rightarrow> completion_output option list \<Rightarrow> nat list \<Rightarrow>
    (completion_output option list \<times> bool) list" where
  "results kind c final is =
     (if kind = FINAL_ONLY then replicate (length is - 1) ([], False) @ [(final, True)]
      else map (\<lambda>i. ([Some (c i)], False)) (butlast is) @ [([Some (c (last is))], True)])"

lemma results_Cons:
  "is \<noteq> [] \<Longrightarrow> results kind c f (i # is) = (if kind = FINAL_ONLY then [] else [Some (c i)], False) # results kind c f is"
  by (cases "is") (simp_all add: results_def)

lemma results_cong: "(kind = FINAL_ONLY \<Longrightarrow> f = g) \<Longrightarrow> results kind c f is = results kind c g is"
  by (simp add: results_def)

lemma get_outputs_child:
  assumes "waits_for n (i # is) pr" "out_index (c i) = i" "out_finished (c i)"
  defines "final \<equiv> (output_kind (pr_params pr) = FINAL_ONLY)"
  obtains pr1 where
    "get_outputs (child_request_id i pr) (c i) pr =
       Inr ((if final then if is = [] then output_aggregator pr1 else [] else [Some (c i)], is = []), pr1)"
    "waits_for n is pr1" "pr_params pr1 = pr_params pr"
    "output_aggregator pr1 = (if final then (output_aggregator pr)[i := Some (c i)] else output_aggregator pr)"
proof -
  let ?pr = "pr\<lparr>child_requests := child_requests pr - {child_request_id i pr}\<rparr>"
  let ?pr1 = "if final then ?pr\<lparr>output_aggregator := (output_aggregator pr)[i := Some (c i)]\<rparr> else ?pr"
  have id: "child_request_id j ?pr1 = child_request_id j pr" for j by (rule child_request_id_cong) simp_all
  have ch: "child_requests pr - {child_request_id i pr} = (\<lambda>i. child_request_id i pr) ` set is" "child_request_id i pr \<in> child_requests pr"
    using assms(1) by (auto simp: waits_for_def child_request_id_inj)
  have emp: "(child_requests pr - {child_request_id i pr} = {}) = (is = [])" unfolding ch(1) by simp
  have n: "pr_smc pr = None" "i < n" "final \<Longrightarrow> length (output_aggregator pr) = n"
    using assms(1) by (auto simp: waits_for_def final_def)
  show thesis
  proof (rule that[of ?pr1])
    show "waits_for n is ?pr1" using assms(1) ch(1) unfolding waits_for_def id by auto
    show "get_outputs (child_request_id i pr) (c i) pr =
       Inr ((if final then if is = [] then output_aggregator ?pr1 else [] else [Some (c i)], is = []), ?pr1)"
    proof (cases final)
      case True
      then show ?thesis
        using assms(2,3) n ch emp unfolding get_outputs_def n(1) option.case plain_get_outputs_def Let_def final_def by simp
    next
      case False
      then show ?thesis
        using assms(2,3) ch emp unfolding get_outputs_def n(1) option.case plain_get_outputs_def Let_def final_def by simp
    qed
  qed simp_all
qed

lemma collect_results:
  "waits_for n is pr \<Longrightarrow> is \<noteq> [] \<Longrightarrow> \<forall>i \<in> set is. out_index (c i) = i \<and> out_finished (c i) \<Longrightarrow>
     \<exists>pr'. collect is c pr =
       Inr (results (output_kind (pr_params pr)) c
              (map (\<lambda>i. if i \<in> set is then Some (c i) else output_aggregator pr ! i) [0..<n]) is, pr')"
proof (induction "is" arbitrary: pr)
  case (Cons i "is")
  obtain pr1 where g: "get_outputs (child_request_id i pr) (c i) pr =
       Inr ((if output_kind (pr_params pr) = FINAL_ONLY then if is = [] then output_aggregator pr1 else [] else [Some (c i)], is = []), pr1)"
    and w: "waits_for n is pr1" "pr_params pr1 = pr_params pr"
    "output_aggregator pr1 = (if output_kind (pr_params pr) = FINAL_ONLY then (output_aggregator pr)[i := Some (c i)] else output_aggregator pr)"
    using get_outputs_child[where c = c, OF Cons.prems(1)] Cons.prems(3) by auto
  have l: "length (output_aggregator pr) = n" if "output_kind (pr_params pr) = FINAL_ONLY" using Cons.prems(1) that by (simp add: waits_for_def)
  have i: "i < n" "i \<notin> set is" using Cons.prems(1) by (auto simp: waits_for_def)
  show ?case
  proof (cases "is = []")
    case True
    have "output_aggregator pr1 = map (\<lambda>j. if j \<in> set (i # is) then Some (c j) else output_aggregator pr ! j) [0..<n]"
      if "output_kind (pr_params pr) = FINAL_ONLY"
      using that w(3) l i True by (intro nth_equalityI) (simp_all add: nth_list_update)
    then show ?thesis unfolding collect.simps g rbind_simps prod.case True by (simp add: results_def)
  next
    case False
    obtain pr' where r: "collect is c pr1 = Inr (results (output_kind (pr_params pr)) c
              (map (\<lambda>j. if j \<in> set is then Some (c j) else output_aggregator pr1 ! j) [0..<n]) is, pr')"
      using Cons.IH[OF w(1) False] Cons.prems(3) w(2) by auto
    have m: "map (\<lambda>j. if j \<in> set is then Some (c j) else output_aggregator pr1 ! j) [0..<n] =
        map (\<lambda>j. if j \<in> set (i # is) then Some (c j) else output_aggregator pr ! j) [0..<n]"
      if "output_kind (pr_params pr) = FINAL_ONLY"
      using that w(3) l i by (auto simp: nth_list_update)
    have "results (output_kind (pr_params pr)) c
        (map (\<lambda>j. if j \<in> set (i # is) then Some (c j) else output_aggregator pr ! j) [0..<n]) (i # is) =
      (if output_kind (pr_params pr) = FINAL_ONLY then [] else [Some (c i)], False) #
        results (output_kind (pr_params pr)) c (map (\<lambda>j. if j \<in> set is then Some (c j) else output_aggregator pr1 ! j) [0..<n]) is"
      unfolding results_Cons[OF False] by (simp only: list.inject) (rule conjI[OF refl results_cong[OF m[symmetric]]])
    then show ?thesis unfolding collect.simps g rbind_simps prod.case r if_not_P[OF False] using False by (intro exI[of _ pr']) simp
  qed
qed simp

section \<open>Properties\<close>

text \<open>
  C31. Parallel samples.  Whatever the order in which the children of a request with \<open>n\<close> samples finish, the parent
  reports the end with the last of them and not before.  In the mode for final outputs it returns nothing until
  then, and then the outputs of all children in the order of their indices; otherwise it passes on every output.
\<close>

theorem samples_returned_by_index:
  assumes "init_parent_request req = Inr pr" "sp_n (fr_params req) = int n" "0 < n"
    "distinct is" "set is = {..<n}" "\<forall>i < n. out_index (c i) = i \<and> out_finished (c i)"
  shows "\<exists>pr'. collect is c (with_children n pr) =
    Inr (results (output_kind (fr_params req)) c (map (\<lambda>i. Some (c i)) [0..<n]) is, pr')"
proof -
  let ?pr = "with_children n pr"
  have pr: "pr_smc pr = None" "pr_params pr = fr_params req" "child_requests pr = {}"
      "output_kind (fr_params req) = FINAL_ONLY \<longrightarrow> length (output_aggregator pr) = n"
    using assms(1,2) by (auto simp: init_parent_request_def split: option.splits)
  have w: "pr_request_id ?pr = pr_request_id pr" "pr_params ?pr = fr_params req" "output_aggregator ?pr = output_aggregator pr"
      "pr_smc ?pr = None" "child_requests ?pr = (\<lambda>i. child_request_id i pr) ` {..<n}"
    using with_children_parent[of n pr] pr by simp_all
  have id: "child_request_id i ?pr = child_request_id i pr" for i
    by (rule child_request_id_cong) (simp_all only: w(1,4) pr(1))
  have wf: "waits_for n is ?pr" unfolding waits_for_def w(2-5) id assms(5) by (intro conjI refl assms(4) pr(4) subset_refl)
  have "0 \<in> set is" unfolding assms(5) using assms(3) by (rule lessThan_iff[THEN iffD2])
  then have ne: "is \<noteq> []" by force
  have c: "\<forall>i \<in> set is. out_index (c i) = i \<and> out_finished (c i)" using assms(6) unfolding assms(5) by blast
  have m: "map (\<lambda>i. if i \<in> set is then Some (c i) else output_aggregator pr ! i) [0..<n] = map (\<lambda>i. Some (c i)) [0..<n]"
    unfolding assms(5) by simp
  show ?thesis using collect_results[OF wf ne c] unfolding w(2,3) m .
qed

definition sample_params :: "int \<Rightarrow> int option \<Rightarrow> request_params" where
  "sample_params n k = sampling_params.extend (plain_params [] \<lparr>sp_n := n, seed := k\<rparr>)
     (request_params.fields FINAL_ONLY False [] False)"

definition sample_request :: "int \<Rightarrow> int option \<Rightarrow> front_request" where
  "sample_request n k = \<lparr>fr_request_id = ''r'', fr_external_req_id = Some ''ext'', fr_params = sample_params n k,
     fr_prompt_token_ids = Some [1], fr_resumable = False\<rparr>"

definition sample_output :: "nat \<Rightarrow> completion_output" where
  "sample_output i = \<lparr>out_index = i, out_text = [], out_token_ids = [int i], out_finish_reason = Some ''stop'', out_stop_reason = None\<rparr>"

lemma sample_request_params: "output_kind (fr_params (sample_request n k)) = FINAL_ONLY" "sp_n (fr_params (sample_request n k)) = n"
    "seed (fr_params (sample_request n k)) = k"
  by (simp_all add: sample_request_def sample_params_def plain_params_def sampling_params.defs request_params.defs)

lemma sample_parent: "init_parent_request (sample_request n k) = Inr (projr (init_parent_request (sample_request n k)))"
  by (simp add: init_parent_request_def sample_request_def)

theorem samples_returned_by_index_witness:
  "\<exists>pr'. collect [1, 0] sample_output (with_children 2 (projr (init_parent_request (sample_request 2 None)))) =
     Inr ([([], False), ([Some (sample_output 0), Some (sample_output 1)], True)], pr')"
proof -
  have "set [1, 0] = {..<2::nat}" by auto
  from samples_returned_by_index[OF sample_parent, of 2 None 2 "[1, 0]" sample_output, OF _ _ _ this] show ?thesis
    by (simp add: sample_request_params results_def sample_output_def out_finished_def upt_rec numeral_2_eq_2)
qed

end
