(* ===== verification/Smc_Mirror.thy ===== *)
theory Smc_Mirror
  imports Front_End Engine_Example
begin

text \<open>
  A Power-SMC request has two groups of particles: the scheduler keeps one, which decides how the children go
  on, and the parent in the front end keeps another, which chooses the particle that is returned.  Each draws
  from a random number generator of its own.  Here the two are run side by side on the same tokens, and shown
  to be equal but for the list of KV events, when the request has a seed.
\<close>

section \<open>Group managers that differ in their KV events\<close>

definition no_events :: "power_smc_group_manager \<Rightarrow> power_smc_group_manager" where
  "no_events m = m\<lparr>kv_resample_events := []\<rparr>"

definition same_group :: "power_smc_group_manager \<Rightarrow> power_smc_group_manager \<Rightarrow> bool" where
  "same_group m m' \<longleftrightarrow> no_events m = no_events m'"

lemma same_group_events [simp]:
  "same_group (record_kv_resample_event ev m) m' = same_group m m'" "same_group m (record_kv_resample_event ev m') = same_group m m'"
  by (simp_all add: same_group_def no_events_def record_kv_resample_event_def)

lemma no_events_fields [simp]:
  "particles (no_events m) = particles m" "config (no_events m) = config m" "rng (no_events m) = rng m"
  "block_size (no_events m) = block_size m" "particle_count (no_events m) = particle_count m"
  "alpha_is_constant (no_events m) = alpha_is_constant m" "ramp_tokens (no_events m) = ramp_tokens m"
  "alpha_final (no_events m) = alpha_final m" "alpha_slope (no_events m) = alpha_slope m"
  "maybe_resample_calls (no_events m) = maybe_resample_calls m" "last_boundary_check_length (no_events m) = last_boundary_check_length m"
  "block_boundary_checks (no_events m) = block_boundary_checks m" "ess_history (no_events m) = ess_history m"
  "resample_ess_threshold (no_events m) = resample_ess_threshold m" "resample_skip_reasons (no_events m) = resample_skip_reasons m"
  "resample_count (no_events m) = resample_count m" "ancestor_history (no_events m) = ancestor_history m"
  "unique_ancestors_per_resample (no_events m) = unique_ancestors_per_resample m"
  by (simp_all add: no_events_def)

definition forget_events :: "('b \<times> power_smc_group_manager) res \<Rightarrow> ('b \<times> power_smc_group_manager) res" where
  "forget_events = map_sum id (map_prod id no_events)"

lemma forget_events_simps [simp]: "forget_events (Inl e) = Inl e" "forget_events (Inr (b, m)) = Inr (b, no_events m)"
  by (simp_all add: forget_events_def)

lemma forget_events_rbind: "forget_events (rbind x f) = rbind x (\<lambda>y. forget_events (f y))"
  by (cases x) simp_all

text \<open>A step that does not read the KV events takes equal groups to equal groups.\<close>

lemma same_group_step:
  assumes "\<And>m. f (no_events m) = forget_events (f m)" "same_group m m'" "f m = Inr (b, m1)"
  shows "\<exists>m1'. f m' = Inr (b, m1') \<and> same_group m1 m1'"
proof -
  have "forget_events (f m') = Inr (b, no_events m1)" using assms(1)[of m] assms(1)[of m'] assms(2,3) by (simp add: same_group_def)
  then show ?thesis by (cases "f m'") (auto simp: forget_events_def same_group_def)
qed

lemma update_after_token_no_events:
  "update_after_token (no_events m) idx t b q fin fr sr = forget_events (update_after_token m idx t b q fin fr sr)"
  by (simp add: update_after_token_def Let_def) (simp add: no_events_def)

lemma boundary_weights_no_events: "boundary_weights (no_events m) = boundary_weights m"
  unfolding boundary_weights_def no_events_fields ..

lemma eligible_no_events: "eligible_resample_boundary (no_events m) = eligible_resample_boundary m"
  unfolding eligible_resample_boundary_def no_events_fields ..

lemma skip_no_events:
  "counted (no_events m) = no_events (counted m)" "at_boundary b ess (no_events m) = no_events (at_boundary b ess m)"
  "record_resample_skip reason (no_events m) = no_events (record_resample_skip reason m)"
  by (simp_all add: counted_def at_boundary_def record_resample_skip_def) (simp_all add: no_events_def)

lemma apply_resample_no_events: "apply_resample (no_events m) states b ws = forget_events (apply_resample m states b ws)"
proof (cases "systematic_resample ws (rng m)")
  case (Inr r)
  then show ?thesis
    by (cases "rmapM (resampled_particle (particles m) states b) (fst r)")
       (simp_all add: apply_resample_def split_def, simp add: no_events_def)
qed (simp add: apply_resample_def)

lemma maybe_resample_no_events: "maybe_resample (no_events m) = forget_events (maybe_resample m)"
  unfolding maybe_resample_unfold no_events_fields eligible_no_events boundary_weights_no_events skip_no_events
    apply_resample_no_events
  by (auto simp: forget_events_rbind split: prod.splits option.splits bool.splits intro!: arg_cong2[where f = rbind] ext)

section \<open>What the scheduler does to its groups\<close>

definition same_groups :: "scheduler \<Rightarrow> scheduler \<Rightarrow> bool" where
  "same_groups s s' \<longleftrightarrow> power_smc_group_managers s' = power_smc_group_managers s \<and> sc_seeded_rng s' = sc_seeded_rng s"

lemma same_groups_with:
  "with_kv f s = Inr s' \<Longrightarrow> same_groups s s'" "with_enc g s = Inr s' \<Longrightarrow> same_groups s s'" "same_groups s (put_request r s)"
  by (auto simp: with_kv_def with_enc_def put_request_def same_groups_def rbind_eq_Inr)

lemma alias_child_groups: "alias_child snaps a toks req cnt s = Inr (n, cnt', s') \<Longrightarrow> same_groups s s'"
  by (auto simp: alias_child_def Let_def same_groups_def elim!: rbind_InrE split: option.splits prod.splits if_splits)

lemma resample_child_groups:
  assumes "resample_child snaps a toks req cnt s = Inr (cnt', s')"
  shows "same_groups s s'"
proof -
  note e = assms[unfolded resample_child_def]
  obtain x where x: "alias_child snaps a toks req cnt s = Inr x" using e by (rule rbind_InrE) (rule that)
  obtain n cnt1 s1 where xe: "x = (n, cnt1, s1)" by (cases x)
  note e = e[unfolded x xe rbind_simps prod.case]
  obtain s2 where s2: "(if n = 0 then with_kv (km_free req) s1 else Inr s1) = Inr s2" using e by (rule rbind_InrE) (rule that)
  note e = e[unfolded s2 rbind_simps]
  obtain s3 where s3: "with_enc (enc_free req) s2 = Inr s3" using e by (rule rbind_InrE) (rule that)
  note e = e[unfolded s3 rbind_simps]
  obtain r1 where "reset_child toks n req = Inr r1" using e by (rule rbind_InrE) (rule that)
  note e = e[unfolded this rbind_simps sum.inject prod.inject, THEN conjunct2, symmetric]
  have "same_groups s1 s2" using s2 same_groups_with(1)[of "km_free req" s1 s2] by (auto simp: same_groups_def split: if_splits)
  then show ?thesis
    using alias_child_groups[OF x[unfolded xe]] same_groups_with(2)[OF s3]
      same_groups_with(3)[of "s3\<lparr>inflight_prefills := inflight_prefills s3 - {request_id req}\<rparr>" r1]
    unfolding e same_groups_def by simp
qed

lemma resample_children_groups:
  "resample_children snaps plan noop es done_ids cnt s = Inr (rids, cnt', s') \<Longrightarrow> same_groups s s'"
proof (induction es arbitrary: done_ids cnt s)
  case (Cons e es)
  obtain idx toks rid where e: "e = (idx, toks, rid)" by (cases e)
  show ?case
  proof (cases "idx \<in> set noop")
    case True
    then show ?thesis using Cons.prems by (auto simp: e Let_def intro: Cons.IH)
  next
    case False
    note a = Cons.prems[unfolded e resample_children.simps Let_def if_not_P[OF False]]
    obtain an where an: "list_get (ancestors plan) idx = Inr an" using a by (rule rbind_InrE) (rule that)
    note a = a[unfolded an rbind_simps]
    obtain req where req: "get_request s rid = Some req" using a by (cases "get_request s rid") auto
    note a = a[unfolded req option.case]
    obtain x where x: "resample_child snaps an toks req (cnt\<lparr>cnt_child := cnt_child cnt + 1\<rparr>) s = Inr x" using a by (rule rbind_InrE) (rule that)
    obtain cnt2 s1 where xe: "x = (cnt2, s1)" by (cases x)
    note a = a[unfolded x xe rbind_simps prod.case]
    from Cons.IH[OF a] resample_child_groups[OF x[unfolded xe]] show ?thesis by (simp add: same_groups_def)
  qed
qed (simp add: same_groups_def)

text \<open>Applying a plan changes the groups at most by recording its event.\<close>

lemma publish_groups:
  "\<exists>ev. power_smc_group_managers (publish_kv_event pid m e s) = dict_set pid (record_kv_resample_event ev m) (power_smc_group_managers s)"
  "sc_seeded_rng (publish_kv_event pid m e s) = sc_seeded_rng s"
  by (auto simp: publish_kv_event_def set_group_manager_def Let_def)

lemma apply_plan_groups:
  assumes "apply_power_smc_resample_plan pid m s = Inr (rids, s')"
  shows "sc_seeded_rng s' = sc_seeded_rng s \<and> (power_smc_group_managers s' = power_smc_group_managers s \<or>
    (\<exists>ev. power_smc_group_managers s' = dict_set pid (record_kv_resample_event ev m) (power_smc_group_managers s)))"
proof (cases "last_resample_plan m")
  case None
  then show ?thesis using assms by (simp add: apply_power_smc_resample_plan_def)
next
  case (Some plan)
  let ?ch = "case map_of (power_smc_group_children s) pid of None \<Rightarrow> [] | Some c \<Rightarrow> c"
  let ?ca = "kv_cow (config m) \<and> power_smc_kv_alias_supported s"
  note a = assms[unfolded apply_power_smc_resample_plan_def Some option.case Let_def]
  obtain sc where sc: "scan_children s plan ?ch ?ca (zip [0..<length (particle_token_ids plan)] (particle_token_ids plan))
      \<lparr>scan_active = [], scan_noop = [], scan_needed = [], scan_all_noop = True\<rparr> = Inr sc"
    using a by (rule rbind_InrE) (rule that)
  note a = a[unfolded sc rbind_simps]
  show ?thesis
  proof (cases "scan_all_noop sc")
    case True
    note a = a[unfolded if_P[OF True] sum.inject prod.inject, THEN conjunct2, symmetric]
    show ?thesis unfolding a using publish_groups by blast
  next
    case False
    note a = a[unfolded if_not_P[OF False]]
    obtain x where x: "resample_children (if ?ca then take_snapshots (scan_needed sc) (sc_kv s) else []) plan (scan_noop sc)
        (scan_active sc) [] no_counts s = Inr x"
      using a by (rule rbind_InrE) (rule that)
    obtain ids cnt s1 where xe: "x = (ids, cnt, s1)" by (cases x)
    note a = a[unfolded x xe rbind_simps prod.case]
    note g = resample_children_groups[OF x[unfolded xe], unfolded same_groups_def]
    show ?thesis
    proof (cases "ids = []")
      case True
      then show ?thesis using a g by simp
    next
      case False
      note a = a[unfolded if_not_P[OF False] sum.inject prod.inject, THEN conjunct2, symmetric]
      show ?thesis unfolding a publish_groups(2) using publish_groups(1) g by metis
    qed
  qed
qed

lemma resample_parent_group:
  assumes "maybe_resample_power_smc_parent pid s = Inr (rids, s')" "map_of (power_smc_group_managers s) pid = Some m"
  shows "\<exists>b m1 m2. maybe_resample m = Inr (b, m1) \<and> map_of (power_smc_group_managers s') pid = Some m2 \<and> same_group m1 m2 \<and>
    sc_seeded_rng s' = sc_seeded_rng s"
proof -
  note a = assms(1)[unfolded maybe_resample_power_smc_parent_def assms(2) option.case]
  obtain x where x: "maybe_resample m = Inr x" using a by (rule rbind_InrE) (rule that)
  obtain b m1 where xe: "x = (b, m1)" by (cases x)
  note a = a[unfolded x xe rbind_simps prod.case Let_def]
  have g: "map_of (power_smc_group_managers (set_group_manager pid m1 s)) pid = Some m1"
      "sc_seeded_rng (set_group_manager pid m1 s) = sc_seeded_rng s"
    by (simp_all add: set_group_manager_def)
  show ?thesis
  proof (cases b)
    case True
    note a = a[unfolded if_P[OF True]]
    from apply_plan_groups[OF a] g x xe True show ?thesis by (auto simp: same_group_def[of m1 m1])
  next
    case False
    then show ?thesis using a g x xe by (auto simp: same_group_def)
  qed
qed

section \<open>The two groups side by side\<close>

text \<open>A request of the scheduler that is the child \<open>idx\<close> of the parent: it has the id and the seed the parent gives it.\<close>

definition child_of :: "power_smc_config \<Rightarrow> parent_request \<Rightarrow> nat \<Rightarrow> request \<Rightarrow> bool" where
  "child_of c pr idx req \<longleftrightarrow>
     idx < nat (particles_cfg c) \<and> req_power_smc_config req = Some c \<and> request_id req = fst (fst (get_child_info idx pr)) \<and>
     power_smc_child_info req = parse_power_smc_child_request_id (request_id req) \<and>
     map_option seed (req_sampling_params req) = Some (seed (snd (fst (get_child_info idx pr))))"

text \<open>
  The scheduler and the parent take the tokens of the children in the same order, and resample after the same
  tokens; in between the scheduler does other work.  The parent takes its part of a step after the scheduler,
  but the two share nothing, so that a step of both can be taken at once.
\<close>

inductive joint :: "(int \<Rightarrow> py_rng) \<Rightarrow> power_smc_config \<Rightarrow> parent_request \<Rightarrow> scheduler \<Rightarrow> parent_request \<Rightarrow> bool"
  for seeded_rng c pr0 where
  start: "sc_seeded_rng s = seeded_rng \<Longrightarrow> map_of (power_smc_group_managers s) (pr_request_id pr0) = None \<Longrightarrow>
    joint seeded_rng c pr0 s (with_children (nat (particles_cfg c)) pr0)"
| token: "joint seeded_rng c pr0 s pr \<Longrightarrow> child_of c pr0 idx req \<Longrightarrow>
    observe_power_smc_request_output req toks logps fr sr s = Inr (chk, s') \<Longrightarrow>
    observe_power_smc_step (request_id req) toks logps (map_option finish_reason_str fr) sr pr = Inr (b, pr') \<Longrightarrow> joint seeded_rng c pr0 s' pr'"
| resample: "joint seeded_rng c pr0 s pr \<Longrightarrow> maybe_resample_power_smc_parent (pr_request_id pr0) s = Inr (rids, s') \<Longrightarrow>
    map_of (power_smc_group_managers s) (pr_request_id pr0) \<noteq> None \<Longrightarrow>
    maybe_resample_power_smc pr = Inr pr' \<Longrightarrow> joint seeded_rng c pr0 s' pr'"
| event: "joint seeded_rng c pr0 s pr \<Longrightarrow> joint seeded_rng c pr0 s (observe_power_smc_kv_event ev pr)"
| other: "joint seeded_rng c pr0 s pr \<Longrightarrow> map_of (power_smc_group_managers s') (pr_request_id pr0) = map_of (power_smc_group_managers s) (pr_request_id pr0) \<Longrightarrow>
    sc_seeded_rng s' = sc_seeded_rng s \<Longrightarrow> joint seeded_rng c pr0 s' pr"

definition mirrored :: "power_smc_config \<Rightarrow> parent_request \<Rightarrow> power_smc_group_manager \<Rightarrow> scheduler \<Rightarrow> parent_request \<Rightarrow> bool" where
  "mirrored c pr0 m0 s pr \<longleftrightarrow>
     (\<exists>sm. pr_smc pr = Some sm \<and>
       (\<forall>i < nat (particles_cfg c). child_request_to_index sm (child_request_id i pr0) = Some i) \<and>
       same_group (case map_of (power_smc_group_managers s) (pr_request_id pr0) of None \<Rightarrow> m0 | Some m \<Rightarrow> m) (smc_manager sm))"

lemma with_children_smc:
  assumes "pr_smc pr = Some sm"
  shows "\<exists>sm'. pr_smc (with_children n pr) = Some sm' \<and> smc_manager sm' = smc_manager sm \<and>
    (\<forall>i < n. child_request_to_index sm' (child_request_id i pr) = Some i)"
proof (induction n)
  case (Suc n)
  then obtain sm' where sm': "pr_smc (with_children n pr) = Some sm'" "smc_manager sm' = smc_manager sm"
      "\<forall>i < n. child_request_to_index sm' (child_request_id i pr) = Some i" by blast
  have "child_request_id n (with_children n pr) = child_request_id n pr"
    using with_children_parent[of n pr] by (intro child_request_id_cong) simp_all
  moreover have "pr_smc (snd (get_child_info n p)) =
      map_option (\<lambda>sm. sm\<lparr>child_request_to_index := (child_request_to_index sm)(child_request_id n p \<mapsto> n)\<rparr>) (pr_smc p)" for p
    by (simp add: get_child_info_def get_child_sampling_params_def Let_def split: option.splits)
  ultimately show ?case using sm' by (auto simp: with_children_Suc child_request_id_inj less_Suc_eq)
qed (use assms in \<open>simp add: with_children_def\<close>)

lemma child_of_parts:
  assumes "child_of c pr0 idx req" "pr_smc pr0 \<noteq> None" "cached_child_sampling_params pr0 = None" "seed (pr_params pr0) = Some k"
    "pr_request_id pr0 \<noteq> []" "CHR 0x0A \<notin> set (pr_request_id pr0)"
  shows "request_id req = child_request_id idx pr0" "idx < nat (particles_cfg c)" "req_power_smc_config req = Some c"
    "power_smc_child_info req = Some \<lparr>parent_id = pr_request_id pr0, particle_idx = int idx\<rparr>"
    "\<exists>sp. req_sampling_params req = Some sp \<and> seed sp = Some (k + int idx)"
proof -
  have g: "fst (fst (get_child_info idx pr0)) = child_request_id idx pr0"
      "seed (snd (fst (get_child_info idx pr0))) = Some (k + int idx)"
    using assms(2-4) by (auto simp: get_child_info_def get_child_sampling_params_def Let_def)
  show id: "request_id req = child_request_id idx pr0" and "idx < nat (particles_cfg c)" "req_power_smc_config req = Some c"
    using assms(1) g(1) by (auto simp: child_of_def)
  have "request_id req = make_power_smc_child_request_id (pr_request_id pr0) (int idx)"
    using id assms(2) by (auto simp: child_request_id_def)
  then show "power_smc_child_info req = Some \<lparr>parent_id = pr_request_id pr0, particle_idx = int idx\<rparr>"
    using assms(1) make_parse_child_id[of "int idx" "pr_request_id pr0"] assms(5,6) by (simp add: child_of_def)
  show "\<exists>sp. req_sampling_params req = Some sp \<and> seed sp = Some (k + int idx)"
    using assms(1) g(2) by (auto simp: child_of_def)
qed

text \<open>The group the scheduler has, or will create, for the parent.\<close>

definition group_of :: "string \<Rightarrow> power_smc_group_manager \<Rightarrow> scheduler \<Rightarrow> power_smc_group_manager" where
  "group_of pid m0 s = (case map_of (power_smc_group_managers s) pid of None \<Rightarrow> m0 | Some m \<Rightarrow> m)"

lemma group_lookup:
  assumes "get_power_smc_group_manager req s = Inr (gi, s1)" "req_power_smc_config req = Some c" "idx < nat (particles_cfg c)"
    "power_smc_child_info req = Some \<lparr>parent_id = pid, particle_idx = int idx\<rparr>"
    "req_sampling_params req = Some sp" "seed sp = Some (k + int idx)" "init_group_manager c (sc_seeded_rng s k) = Inr m0"
  shows "gi = Some (pid, idx, group_of pid m0 s)" "map_of (power_smc_group_managers s1) pid = Some (group_of pid m0 s)"
    "sc_seeded_rng s1 = sc_seeded_rng s"
proof -
  have "\<not> int idx \<ge> particles_cfg c" using assms(3) by simp
  note a = assms(1)[unfolded get_power_smc_group_manager_def assms(2,4) prod.case option.case power_smc_child_request_info.simps
      if_not_P[OF this] Let_def child_index_def nat_int group_rng_def assms(5,6) add_diff_cancel_right' assms(7) rbind_simps]
  show "gi = Some (pid, idx, group_of pid m0 s)" "map_of (power_smc_group_managers s1) pid = Some (group_of pid m0 s)"
    "sc_seeded_rng s1 = sc_seeded_rng s"
    using a by (auto simp: group_of_def split: option.splits)
qed

lemma observe_mirrored:
  assumes "mirrored c pr0 m0 s pr" "child_of c pr0 idx req" "pr_smc pr0 \<noteq> None" "cached_child_sampling_params pr0 = None"
    "seed (pr_params pr0) = Some k" "pr_request_id pr0 \<noteq> []" "CHR 0x0A \<notin> set (pr_request_id pr0)"
    "init_group_manager c (sc_seeded_rng s k) = Inr m0"
    "observe_power_smc_request_output req toks logps fr sr s = Inr (chk, s')"
  shows "\<exists>pr'. observe_power_smc_step (request_id req) toks logps (map_option finish_reason_str fr) sr pr = Inr (chk \<noteq> None, pr') \<and>
    mirrored c pr0 m0 s' pr' \<and> sc_seeded_rng s' = sc_seeded_rng s"
proof -
  note ch = child_of_parts[OF assms(2-7)]
  obtain sp where sp: "req_sampling_params req = Some sp" "seed sp = Some (k + int idx)" using ch(5) by blast
  obtain sm where sm: "pr_smc pr = Some sm" "\<forall>i < nat (particles_cfg c). child_request_to_index sm (child_request_id i pr0) = Some i"
      "same_group (group_of (pr_request_id pr0) m0 s) (smc_manager sm)"
    using assms(1) unfolding mirrored_def group_of_def by blast
  have idx: "child_request_to_index sm (request_id req) = Some idx" using sm(2) ch(1,2) by simp
  show ?thesis
  proof (cases "toks = []")
    case True
    then show ?thesis using assms(1,9) sm(1) by (auto simp: observe_power_smc_request_output_def observe_power_smc_step_def)
  next
    case False
    note a = assms(9)[unfolded observe_power_smc_request_output_def if_not_P[OF False]]
    obtain x where x: "get_power_smc_group_manager req s = Inr x" using a by (rule rbind_InrE) (rule that)
    obtain gi s1 where xe: "x = (gi, s1)" by (cases x)
    note g = group_lookup[OF x[unfolded xe] ch(3,2,4) sp assms(8)]
    note a = a[unfolded x xe rbind_simps prod.case g(1) option.case]
    obtain lb lq where lp: "logps = Some (lb, lq)" using a by (cases logps) auto
    note a = a[unfolded lp option.case prod.case]
    have l: "\<not> length toks \<noteq> 1" using a by (auto split: if_splits)
    note a = a[unfolded if_not_P[OF l]]
    let ?u = "\<lambda>m. update_after_token m idx (hd toks) lb lq (fr \<noteq> None) (map_option finish_reason_str fr) sr"
    obtain y where y: "?u (group_of (pr_request_id pr0) m0 s) = Inr y" using a by (rule rbind_InrE) (rule that)
    obtain bd m1 where ye: "y = (bd, m1)" by (cases y)
    note a = a[unfolded y ye rbind_simps prod.case sum.inject prod.inject]
    obtain m1' where u: "?u (smc_manager sm) = Inr (bd, m1')" "same_group m1 m1'"
      using same_group_step[of ?u, OF update_after_token_no_events sm(3) y[unfolded ye]] by blast
    let ?pr = "pr\<lparr>pr_smc := Some (sm\<lparr>smc_manager := m1'\<rparr>)\<rparr>"
    have chk: "(fr \<noteq> None \<or> bd) = (chk \<noteq> None)" and s': "s' = set_group_manager (pr_request_id pr0) m1 s1" using a by (auto split: if_splits)
    have "observe_power_smc_step (request_id req) toks logps (map_option finish_reason_str fr) sr pr = Inr (chk \<noteq> None, ?pr)"
      unfolding observe_power_smc_step_def sm(1) lp option.case prod.case if_not_P[OF False] if_not_P[OF l] idx
      using u(1) chk by simp
    moreover have "mirrored c pr0 m0 s' ?pr" using sm(2) u(2) by (simp add: mirrored_def s' set_group_manager_def)
    moreover have "sc_seeded_rng s' = sc_seeded_rng s" using g(3) by (simp add: s' set_group_manager_def)
    ultimately show ?thesis by blast
  qed
qed

lemma resample_mirrored:
  assumes "mirrored c pr0 m0 s pr" "map_of (power_smc_group_managers s) (pr_request_id pr0) \<noteq> None"
    "maybe_resample_power_smc_parent (pr_request_id pr0) s = Inr (rids, s')"
  shows "\<exists>pr'. maybe_resample_power_smc pr = Inr pr' \<and> mirrored c pr0 m0 s' pr' \<and> sc_seeded_rng s' = sc_seeded_rng s"
proof -
  obtain m where m: "map_of (power_smc_group_managers s) (pr_request_id pr0) = Some m" using assms(2) by blast
  obtain sm where sm: "pr_smc pr = Some sm" "\<forall>i < nat (particles_cfg c). child_request_to_index sm (child_request_id i pr0) = Some i"
      "same_group m (smc_manager sm)"
    using assms(1) m by (auto simp: mirrored_def)
  obtain b m1 m2 where r: "maybe_resample m = Inr (b, m1)" "map_of (power_smc_group_managers s') (pr_request_id pr0) = Some m2"
      "same_group m1 m2" "sc_seeded_rng s' = sc_seeded_rng s"
    using resample_parent_group[OF assms(3) m] by blast
  obtain m1' where "maybe_resample (smc_manager sm) = Inr (b, m1')" "same_group m1 m1'"
    using same_group_step[OF maybe_resample_no_events sm(3) r(1)] by blast
  then show ?thesis using sm r(2-4) by (auto simp: maybe_resample_power_smc_def mirrored_def same_group_def)
qed

lemma joint_mirrored:
  assumes "joint seeded_rng c pr0 s pr" "pr_smc pr0 = Some sm0" "init_group_manager c (seeded_rng k) = Inr (smc_manager sm0)"
    "cached_child_sampling_params pr0 = None" "seed (pr_params pr0) = Some k" "pr_request_id pr0 \<noteq> []" "CHR 0x0A \<notin> set (pr_request_id pr0)"
  shows "mirrored c pr0 (smc_manager sm0) s pr \<and> sc_seeded_rng s = seeded_rng"
  using assms(1)
proof induction
  case (start s)
  obtain sm where "pr_smc (with_children (nat (particles_cfg c)) pr0) = Some sm" "smc_manager sm = smc_manager sm0"
      "\<forall>i < nat (particles_cfg c). child_request_to_index sm (child_request_id i pr0) = Some i"
    using with_children_smc[OF assms(2)] by blast
  then show ?case using start by (simp add: mirrored_def same_group_def)
next
  case (token s pr idx req toks logps fr sr chk s' b pr')
  have "pr_smc pr0 \<noteq> None" "init_group_manager c (sc_seeded_rng s k) = Inr (smc_manager sm0)" using assms(2,3) token.IH by simp_all
  from observe_mirrored[OF conjunct1[OF token.IH] token.hyps(2) this(1) assms(4-7) this(2) token.hyps(3)] token.hyps(4) token.IH
  show ?case by auto
next
  case (resample s pr rids s' pr')
  from resample_mirrored[OF conjunct1[OF resample.IH] resample.hyps(3,2)] resample.hyps(4) resample.IH show ?case by auto
next
  case (event s pr ev)
  then show ?case by (auto simp: mirrored_def observe_power_smc_kv_event_def split: option.splits)
next
  case (other s pr s')
  then show ?case by (simp add: mirrored_def)
qed

lemma init_power_smc_parent_parts:
  assumes "init_power_smc_parent seeded_rng system_rng req c = Inr pr0" "seed (fr_params req) = Some k"
  shows "\<exists>sm0. pr_smc pr0 = Some sm0 \<and> init_group_manager c (seeded_rng k) = Inr (smc_manager sm0) \<and>
    cached_child_sampling_params pr0 = None \<and> pr_params pr0 = fr_params req \<and> pr_request_id pr0 = fr_request_id req"
  using assms by (auto simp: init_power_smc_parent_def init_parent_request_def rbind_eq_Inr split: option.splits)

section \<open>Properties\<close>


definition mirror_parent :: parent_request where
  "mirror_parent = projr (init_power_smc_parent (sc_seeded_rng example_scheduler) demo_rng (sample_request 1 (Some 5)) demo_config)"

definition mirror_child :: request where
  "mirror_child = (example_request ''psmc1_r'' [1])\<lparr>req_sampling_params := Some (example_params\<lparr>seed := Some 6\<rparr>),
     req_power_smc_config := Some demo_config, power_smc_child_info := Some \<lparr>parent_id = ''r'', particle_idx = 1\<rparr>\<rparr>"

lemma mirror_parent_init:
  "init_power_smc_parent (sc_seeded_rng example_scheduler) demo_rng (sample_request 1 (Some 5)) demo_config = Inr mirror_parent"
  by (simp add: mirror_parent_def init_power_smc_parent_def init_parent_request_def sample_request_def init_group_manager_def
      demo_config_def default_config_def validate_self_def float_of_int_def split: option.splits)

lemma mirror_child_of: "child_of demo_config mirror_parent 1 mirror_child"
proof -
  have p: "pr_smc mirror_parent \<noteq> None" "pr_request_id mirror_parent = ''r''" "cached_child_sampling_params mirror_parent = None"
      "seed (pr_params mirror_parent) = Some 5"
    using init_power_smc_parent_parts[OF mirror_parent_init] sample_request_params(3)[of 1 "Some 5"] by (auto simp: sample_request_def)
  have "nat_str 1 = ''1''" "int_str 1 = ''1''" by code_simp+
  then have id: "child_request_id 1 mirror_parent = ''psmc1_r''"
    using p(1,2) by (auto simp: child_request_id_def make_power_smc_child_request_id_def)
  have "fst (fst (get_child_info 1 mirror_parent)) = ''psmc1_r''" "seed (snd (fst (get_child_info 1 mirror_parent))) = Some 6"
    using p id by (auto simp: get_child_info_def get_child_sampling_params_def Let_def)
  moreover have "parse_power_smc_child_request_id ''psmc1_r'' = Some \<lparr>parent_id = ''r'', particle_idx = 1\<rparr>" by code_simp
  moreover have "nat (particles_cfg demo_config) = 2" by (simp add: demo_config_def)
  ultimately show ?thesis by (simp add: child_of_def mirror_child_def example_request_def)
qed

lemma mirror_observed:
  "\<exists>s' m. observe_power_smc_request_output mirror_child [10] (Some (Fin 0, Fin 0)) None None example_scheduler = Inr (Some ''r'', s') \<and>
     map_of (power_smc_group_managers s') ''r'' = Some m"
  by (simp add: observe_power_smc_request_output_def get_power_smc_group_manager_def mirror_child_def example_request_def demo_config_def
      default_config_def group_rng_def init_group_manager_def validate_self_def float_of_int_def example_scheduler_def child_index_def
      update_after_token_def set_group_manager_def new_particle_state_def Let_def)


section \<open>Without a seed\<close>

definition rng_at :: "real \<Rightarrow> py_rng" where
  "rng_at u = \<lparr>draws = \<lambda>_. u, drawn = 0\<rparr>"

definition unseeded_child :: "nat \<Rightarrow> request" where
  "unseeded_child idx = (example_request (''psmc'' @ nat_str idx @ ''_r'') [1])\<lparr>req_power_smc_config := Some demo_config,
     power_smc_child_info := Some \<lparr>parent_id = ''r'', particle_idx = int idx\<rparr>\<rparr>"

text \<open>Both sides take the token 10 of the first particle, three times as likely under the proposal, and 11 of the second.\<close>

definition front_run :: "py_rng \<Rightarrow> parent_request res" where
  "front_run g =
     rbind (init_power_smc_parent (\<lambda>_. g) g (sample_request 1 None) demo_config) (\<lambda>pr.
     rbind (observe_power_smc_step ''psmc0_r'' [10] (Some (Fin 0, Fin (- ln 3))) None None (with_children 2 pr)) (\<lambda>(_, pr1).
     rbind (observe_power_smc_step ''psmc1_r'' [11] (Some (Fin 0, Fin 0)) None None pr1) (\<lambda>(_, pr2).
       maybe_resample_power_smc pr2)))"

definition scheduler_run :: "py_rng \<Rightarrow> scheduler res" where
  "scheduler_run g =
     rbind (observe_power_smc_request_output (unseeded_child 0) [10] (Some (Fin 0, Fin (- ln 3))) None None
              (example_scheduler\<lparr>sc_system_rng := \<lambda>_. g\<rparr>)) (\<lambda>(_, s1).
     rbind (observe_power_smc_request_output (unseeded_child 1) [11] (Some (Fin 0, Fin 0)) None None s1) (\<lambda>(_, s2).
     rbind (maybe_resample_power_smc_parent ''r'' s2) (\<lambda>(_, s3). Inr s3)))"

text \<open>The group after the two tokens.\<close>

definition group0 :: "py_rng \<Rightarrow> power_smc_group_manager" where
  "group0 g = projr (init_group_manager demo_config g)"

definition group1 :: "py_rng \<Rightarrow> power_smc_group_manager" where
  "group1 g = snd (projr (update_after_token (group0 g) 0 10 (Fin 0) (Fin (- ln 3)) False None None))"

definition group2 :: "py_rng \<Rightarrow> power_smc_group_manager" where
  "group2 g = snd (projr (update_after_token (group1 g) 1 11 (Fin 0) (Fin 0) False None None))"

lemmas group_defs = group2_def group1_def group0_def demo_group_defs update_after_token_def

lemma group_steps:
  "init_group_manager demo_config g = Inr (group0 g)"
  "update_after_token (group0 g) 0 10 (Fin 0) (Fin (- ln 3)) False None None = Inr (True, group1 g)"
  "update_after_token (group1 g) 1 11 (Fin 0) (Fin 0) False None None = Inr (True, group2 g)"
  by (simp_all add: group_defs Let_def)

lemma exp_minus_ln_3: "exp (- ln 3) = (1 / 3 :: real)"
  by (simp add: exp_minus)

lemmas resample_defs = group_defs extend_particle_def fsub_def inf_mul_def feq_def fle_def rng_at_def
  Let_def maybe_resample_def eligible_resample_boundary_def state_at_def current_state_def boundary_weights_def scan_step_def
  normalize_log_weights_and_ess_from_max_def unnormalized_weights_def math_fsum_def ess_of_denom_def apply_resample_def
  systematic_resample_def rng_random_def upt_rec advance.simps resampled_particle_def list_get_def exp_minus_ln_3

lemma resampled_groups:
  "\<exists>m. maybe_resample (group2 (rng_at (1 / 10))) = Inr (True, m) \<and> map token_ids (particles m) = [[10], [10]]"
  "\<exists>m. maybe_resample (group2 (rng_at (9 / 10))) = Inr (True, m) \<and> map token_ids (particles m) = [[10], [11]]"
  by (simp_all add: resample_defs)

lemma same_group_particles: "same_group m m' \<Longrightarrow> particles m = particles m'"
  unfolding same_group_def by (metis no_events_fields(1))

lemma front_run_result:
  assumes "maybe_resample (group2 g) = Inr (b, m)"
  shows "\<exists>pr sm. front_run g = Inr pr \<and> pr_smc pr = Some sm \<and> smc_manager sm = m"
proof -
  obtain pr sm where pr: "init_power_smc_parent (\<lambda>_. g) g (sample_request 1 None) demo_config = Inr pr" "pr_smc pr = Some sm"
      "smc_manager sm = group0 g" "pr_request_id pr = ''r''"
    by (simp add: init_power_smc_parent_def init_parent_request_def group_steps sample_request_def split: option.splits)
  obtain sm1 where sm1: "pr_smc (with_children 2 pr) = Some sm1" "smc_manager sm1 = group0 g"
      "\<forall>i < 2. child_request_to_index sm1 (child_request_id i pr) = Some i"
    using with_children_smc[OF pr(2), of 2] pr(3) by auto
  have n: "nat_str 0 = ''0''" "nat_str 1 = ''1''" by code_simp+
  have "child_request_id 0 pr = ''psmc0_r''" "child_request_id 1 pr = ''psmc1_r''"
    using pr(2,4) n by (simp_all add: child_request_id_def make_power_smc_child_request_id_def int_str_def)
  then have i: "child_request_to_index sm1 ''psmc0_r'' = Some 0" "child_request_to_index sm1 ''psmc1_r'' = Some 1"
    using sm1(3) by (metis pos2, metis one_less_numeral_iff semiring_norm(76))
  show ?thesis
    by (simp add: front_run_def pr observe_power_smc_step_def sm1 i group_steps group_steps(3)[simplified] maybe_resample_power_smc_def assms)
qed

lemma scan_nothing:
  "sc_requests s = [] \<Longrightarrow> \<exists>sc. scan_children s plan ch ca es acc = Inr sc \<and> scan_active sc = scan_active acc"
proof (induction es arbitrary: acc)
  case (Cons e es)
  have "scan_child s plan ch ca e acc = Inr (acc\<lparr>scan_all_noop := False\<rparr>)"
    using Cons.prems by (simp add: scan_child_def get_request_def split: prod.splits option.splits)
  then show ?case using Cons.IH[OF Cons.prems, of "acc\<lparr>scan_all_noop := False\<rparr>"] by simp
qed simp

lemma apply_plan_nothing:
  assumes "sc_requests s = []"
  shows "\<exists>s'. apply_power_smc_resample_plan pid m s = Inr ([], s')"
proof (cases "last_resample_plan m")
  case (Some plan)
  let ?ch = "case map_of (power_smc_group_children s) pid of None \<Rightarrow> [] | Some c \<Rightarrow> c"
  obtain sc where sc: "scan_children s plan ?ch (kv_cow (config m) \<and> power_smc_kv_alias_supported s)
      (zip [0..<length (particle_token_ids plan)] (particle_token_ids plan))
      \<lparr>scan_active = [], scan_noop = [], scan_needed = [], scan_all_noop = True\<rparr> = Inr sc" "scan_active sc = []"
    using scan_nothing[OF assms] by fastforce
  then show ?thesis unfolding apply_power_smc_resample_plan_def Some option.case Let_def sc(1) rbind_simps by simp
qed (simp add: apply_power_smc_resample_plan_def)

lemma scheduler_run_result:
  assumes "maybe_resample (group2 g) = Inr (b, m)"
  shows "\<exists>s m'. scheduler_run g = Inr s \<and> map_of (power_smc_group_managers s) ''r'' = Some m' \<and> same_group m m'"
proof -
  let ?s0 = "example_scheduler\<lparr>sc_system_rng := \<lambda>_. g\<rparr>"
  have d: "particles_cfg demo_config = 2" by (simp add: demo_config_def)
  obtain s1 where s1: "observe_power_smc_request_output (unseeded_child 0) [10] (Some (Fin 0, Fin (- ln 3))) None None ?s0 = Inr (Some ''r'', s1)"
      "power_smc_group_managers s1 = [(''r'', group1 g)]" "map_of (power_smc_group_children s1) ''r'' \<noteq> None" "sc_requests s1 = []"
    by (simp add: observe_power_smc_request_output_def get_power_smc_group_manager_def unseeded_child_def d group_rng_def child_index_def
        example_request_def example_params_def example_scheduler_def group_steps set_group_manager_def dict_set_def Let_def)
  obtain s2 where s2: "observe_power_smc_request_output (unseeded_child 1) [11] (Some (Fin 0, Fin 0)) None None s1 = Inr (Some ''r'', s2)"
      "power_smc_group_managers s2 = [(''r'', group2 g)]" "sc_requests s2 = []"
    using s1(2-4) group_steps(3)[of g, simplified]
    by (auto simp: observe_power_smc_request_output_def get_power_smc_group_manager_def unseeded_child_def d child_index_def
        set_group_manager_def dict_set_def Let_def)
  have g: "map_of (power_smc_group_managers s2) ''r'' = Some (group2 g)" using s2(2) by simp
  obtain rids s3 where s3: "maybe_resample_power_smc_parent ''r'' s2 = Inr (rids, s3)"
    using apply_plan_nothing[of "set_group_manager ''r'' m s2" "''r''" m] s2(3)
    by (cases b) (auto simp: maybe_resample_power_smc_parent_def g assms set_group_manager_def)
  have "scheduler_run g = Inr s3" by (simp add: scheduler_run_def s1(1) s2(1)[simplified] s3)
  then show ?thesis using resample_parent_group[OF s3 g] assms by auto
qed

text \<open>
  C32. Without a seed the groups part.  The generators of the front end and of the scheduler are then independent;
  there are generators for which both take the same tokens and resample, but the scheduler lets the particles
  go on from 10 and 11 and the front end takes both for 10.
\<close>

theorem unseeded_groups_diverge:
  "\<exists>front_rng sched_rng pr sm s m. front_run front_rng = Inr pr \<and> pr_smc pr = Some sm \<and>
     scheduler_run sched_rng = Inr s \<and> map_of (power_smc_group_managers s) ''r'' = Some m \<and>
     map token_ids (particles (smc_manager sm)) = [[10], [10]] \<and> map token_ids (particles m) = [[10], [11]]"
proof -
  obtain m1 where m1: "maybe_resample (group2 (rng_at (1 / 10))) = Inr (True, m1)" "map token_ids (particles m1) = [[10], [10]]"
    using resampled_groups(1) by (elim exE conjE) (rule that)
  obtain m2 where m2: "maybe_resample (group2 (rng_at (9 / 10))) = Inr (True, m2)" "map token_ids (particles m2) = [[10], [11]]"
    using resampled_groups(2) by (elim exE conjE) (rule that)
  obtain pr sm where f: "front_run (rng_at (1 / 10)) = Inr pr" "pr_smc pr = Some sm" "smc_manager sm = m1"
    using front_run_result[OF m1(1)] by blast
  obtain s m3 where s: "scheduler_run (rng_at (9 / 10)) = Inr s" "map_of (power_smc_group_managers s) ''r'' = Some m3" "same_group m2 m3"
    using scheduler_run_result[OF m2(1)] by blast
  have "map token_ids (particles m3) = [[10], [11]]" using same_group_particles[OF s(3)] m2(2) by simp
  then show ?thesis using f(1,2) s(1,2) m1(2) unfolding f(3)[symmetric] by (intro exI conjI)
qed

end
