(* ===== verification/Spec2Isabelle.thy ===== *)
theory Spec2Isabelle
  imports Engine_Properties Manager_Ledger Cache_Lookup Smc_Mirror
begin

text \<open>
  A verification development for the Power-SMC fork of vLLM: sequential Monte Carlo decoding on top of the
  V1 engine.  All paths below are relative to \<^verbatim>\<open>src/vllm/vllm\<close>.

  \<^bold>\<open>The program.\<close>  A request holds its tokens and the hashes of its full token blocks.  The scheduler decides,
  step by step, how many tokens of which requests the workers compute, and asks the KV-cache manager for
  blocks.  The engine core runs the steps: it lets the scheduler plan a batch, has the executor compute it and
  passes the sampled tokens back to the scheduler.  The KV-cache manager looks up cached prefixes, and passes allocation and release through a
  coordinator to one manager for every group of layers; all managers share one block pool with reference
  counts, a doubly linked list of free blocks and a hash map of cached blocks.  A Power-SMC request runs as
  a group of particles.  Each particle is a child request; a group manager weighs the particles, and when the
  weights degenerate at a block boundary it draws ancestors, and the scheduler gives every child the tokens
  and, by aliasing, the blocks of its ancestor.  The output processor of the front end turns the tokens
  into text, looks for stop strings, and collects the outputs of the children of one external request.

  \<^bold>\<open>Conventions.\<close>  An operation that can raise returns \<^typ>\<open>py_exc + 'a\<close>, with \<open>Inl\<close> for the exception; \<open>rbind\<close> is
  sequencing.  Objects that are mutated through references (blocks) live in a store from references to
  records; request objects are identified by their id and live in the dictionary of the scheduler.
  Dictionaries whose order matters are association lists.  Floating-point numbers are exact reals with
  infinities and nan (\<open>Py_Float\<close>).  Hash functions, random number generators, the grammar of structured
  outputs and the clock are arguments or fields.  The value \<open>Diverges\<close> stands for a loop that would not end and
  \<open>Unmodelled\<close> for a step that takes a count below zero which is kept as a natural number.

  \<^bold>\<open>The theories.\<close>
  \<^item> \<open>Prelude\<close>: results, dictionaries, \<^verbatim>\<open>cdiv\<close> of \<^verbatim>\<open>utils/math_utils.py\<close>, decimal numerals.
  \<^item> \<open>Free_Block_Queue\<close>: \<^verbatim>\<open>KVCacheBlock\<close> and \<^verbatim>\<open>FreeKVCacheBlockQueue\<close> of \<^verbatim>\<open>v1/core/kv_cache_utils.py\<close>; the linked
    list refines a plain list for every sequence of operations.
  \<^item> \<open>Block_Hash\<close> and \<open>Request\<close>: \<^verbatim>\<open>v1/request.py\<close> and the hashing part of \<^verbatim>\<open>kv_cache_utils.py\<close>; with a
    collision-free hash equal hashes mean equal prefixes, and resetting an output is the same as generating it.
  \<^item> \<open>Pool_Interface\<close>, \<open>Block_Pool\<close>: \<^verbatim>\<open>v1/core/block_pool.py\<close>; the pool invariant, allocation, release and the
    interface of a reference-counted pool with its ledger of owners, interpreted on the pool.
  \<^item> \<open>KV_Spec\<close>: \<^verbatim>\<open>v1/kv_cache_interface.py\<close> and \<^verbatim>\<open>v1/kv_cache_spec_registry.py\<close>; merging and registration.
  \<^item> \<open>Single_Type_Manager\<close>, \<open>Manager_Ledger\<close>: \<^verbatim>\<open>v1/core/single_type_kv_cache_manager.py\<close>; release,
    aliasing, trimming, adoption of cached blocks and allocation keep the ledger in which the reference count of
    a block is the number of table entries that hold it.
  \<^item> \<open>KV_Coordinator\<close>, \<open>KV_Manager\<close>: \<^verbatim>\<open>v1/core/kv_cache_coordinator.py\<close> and \<^verbatim>\<open>v1/core/kv_cache_manager.py\<close>.
  \<^item> \<open>Cache_Lookup\<close>: the prefix-cache lookups of the managers and the search of the coordinator: what they
    return, and that the search ends.
  \<^item> \<open>Encoder_Cache\<close>: \<^verbatim>\<open>v1/core/encoder_cache_manager.py\<close>.
  \<^item> \<open>Smc_Config\<close>, \<open>Smc_Weights\<close>, \<open>Smc_Group\<close>: \<^verbatim>\<open>v1/power_smc.py\<close>; configuration round trips and validation,
    normalisation, effective sample size and systematic resampling, and the group manager with its
    rewinding of weights to block boundaries.
  \<^item> \<open>Request_Queue\<close>: \<^verbatim>\<open>v1/core/sched/request_queue.py\<close> and \<^verbatim>\<open>v1/core/sched/utils.py\<close>; the contract of a queue is
    the locale \<open>request_queue\<close>, interpreted for both policies; repetition detection is exact.
  \<^item> \<open>Sched_State\<close>, \<open>Sched_Smc\<close>, \<open>Sched_Update\<close>, \<open>Sched_Schedule\<close>: \<^verbatim>\<open>v1/core/sched/scheduler.py\<close> and
    \<^verbatim>\<open>async_scheduler.py\<close>: the life cycle of requests, the Power-SMC hooks, \<^verbatim>\<open>update_from_output\<close> and \<^verbatim>\<open>schedule\<close>.
  \<^item> \<open>Sched_Queues\<close>, \<open>Sched_Invariant\<close>, \<open>Sched_Preserve\<close>: every live request is in exactly one list of the
    scheduler, with a status that fits; scheduling, arrival, completion and updates from model output keep this.
  \<^item> \<open>Sched_Budget\<close>, \<open>Sched_Progress\<close>: what a step hands out against its budget, and who is served and who is
    preempted under FCFS.
  \<^item> \<open>Engine_Core\<close>: the class \<^verbatim>\<open>EngineCore\<close> of \<^verbatim>\<open>v1/engine/core.py\<close> and the scheduler methods it calls.
  \<^item> \<open>Engine_Reach\<close>, \<open>Engine_Example\<close>, \<open>Engine_Properties\<close>: the engines that arrivals, aborts, steps, pauses and
    resets can reach, with the scheduler invariant by rule induction; a small engine that is evaluated; and
    the properties of the scheduler and the engine.
  \<^item> \<open>Parallel_Sampling\<close>: \<^verbatim>\<open>v1/engine/parallel_sampling.py\<close>, the parents of parallel samples and of Power-SMC
    particles in the front end.
  \<^item> \<open>Detokenizer\<close>: \<^verbatim>\<open>v1/engine/detokenizer.py\<close>; the search for stop strings is exact, and the streamed pieces put
    together are the final text.
  \<^item> \<open>Output_Processor\<close>: \<^verbatim>\<open>v1/engine/output_processor.py\<close> as \<^verbatim>\<open>LLMEngine\<close> uses it: request states, the outputs of a step,
    streaming input and aborts.
  \<^item> \<open>Front_End\<close>, \<open>Smc_Mirror\<close>: the fan-out of \<^verbatim>\<open>LLMEngine.add_request\<close> (\<^verbatim>\<open>v1/engine/llm_engine.py\<close>); parallel samples are
    returned by index, and the group of a seeded Power-SMC parent follows the group of the scheduler.

  \<^bold>\<open>Loops.\<close>  The loops of \<^verbatim>\<open>schedule\<close> are functions with a measure: every round of the running loop
  shortens the rest of the running list, every round of the waiting loop takes a request from the queues,
  and preemption shortens the running list.  The walk over the free list is a partial function, proved to
  return on every list the pool can reach.  No fuel is used.

  \<^bold>\<open>Not modelled.\<close>  The workers, the model executor and the kernels compute on tensors; the servers and the
  tool parsers are input and output; \<^verbatim>\<open>src/verl\<close> is a training framework around torch and ray.  In the
  scheduler, KV and encoder-cache connectors (remote services), routed experts, metrics, traces and
  the contents of grammar bitmasks are left out; a scheduler of the model has no connector.
  The engine process with its sockets and its data-parallel variants is left out, and so is the configuration
  code of \<^verbatim>\<open>kv_cache_utils.py\<close> that groups layers and sizes the cache.
  Of the front end of the engine the output processor, the detokenizer, the parents and the fan-out are modelled; tokenizers are
  arguments, and queues of the asynchronous front end, pooling requests, log-probabilities, prompt embeddings and
  statistics are left out.
\<close>

end
